(* ===== verification/Prelude.thy ===== *)
theory Prelude
  imports Main "HOL-Library.Sublist"
begin

text \<open>
  Shared vocabulary of the development.  Three groups of material live here:
  the contracts that several components instantiate (transition systems with an
  invariant, stable facts of such systems, normalisers), the Go string routines
  the sources call (strings are byte sequences, as in Go), and generic facts on
  lists, maps and sums of sizes.
\<close>

named_theorems go_str \<open>defining equations of the Go string routines\<close>
named_theorems frame \<open>which parts of a state an operation leaves alone\<close>

section \<open>Contracts\<close>

text \<open>
  A component whose operations may be interleaved by goroutines is a transition
  system.  The contract asks for an invariant that holds initially and that
  every step keeps; what clients use is that it holds after any run.
\<close>

locale step_system =
  fixes init :: "'s \<Rightarrow> bool"
    and step :: "'s \<Rightarrow> 's \<Rightarrow> bool"
    and inv :: "'s \<Rightarrow> bool"
  assumes inv_init: "init s \<Longrightarrow> inv s"
    and inv_step: "step s t \<Longrightarrow> inv s \<Longrightarrow> inv t"
begin

lemma inv_run: "step\<^sup>*\<^sup>* s t \<Longrightarrow> inv s \<Longrightarrow> inv t"
  by (induction rule: rtranclp_induct) (auto intro: inv_step)

lemma inv_reachable: "init s \<Longrightarrow> step\<^sup>*\<^sup>* s t \<Longrightarrow> inv t"
  by (blast intro: inv_init inv_run)

end

text \<open>
  A fact that, once true, no step of a legal state makes false again: an
  accepted cancellation, a closed gate, a stopped manager.
\<close>

locale stable_fact = step_system +
  fixes fact :: "'s \<Rightarrow> bool"
  assumes fact_step: "step s t \<Longrightarrow> inv s \<Longrightarrow> fact s \<Longrightarrow> fact t"
begin

lemma fact_run: "step\<^sup>*\<^sup>* s t \<Longrightarrow> inv s \<Longrightarrow> fact s \<Longrightarrow> fact t"
proof (induction rule: rtranclp_induct)
  case base
  then show ?case by simp
next
  case (step y z)
  then have "inv y" by (blast intro: inv_run)
  with step show ?case by (blast intro: fact_step)
qed

end

text \<open>
  A normaliser accepts some inputs and rewrites them to a canonical form; the
  callers store the result and normalise it again when it is read back, so
  normalising a normal form must change nothing.
\<close>

locale normaliser =
  fixes normalise :: "'a \<Rightarrow> 'a option"
  assumes stable: "normalise x = Some y \<Longrightarrow> normalise y = Some y"
begin

lemma normalise_iterate:
  "normalise x = Some y \<Longrightarrow> normalise y = Some z \<Longrightarrow> z = y"
  using stable by fastforce

lemma image_fixed: "(\<exists>x. normalise x = Some y) \<longleftrightarrow> normalise y = Some y"
  using stable by blast

end

section \<open>Go strings\<close>

text \<open>
  A Go string is a sequence of bytes; \<open>len\<close> counts bytes and indexing reads a
  byte, which is what \<^typ>\<open>char list\<close> gives.
\<close>

abbreviation byte :: "char \<Rightarrow> nat" where
  "byte c \<equiv> of_char c"

definition has_prefix :: "string \<Rightarrow> string \<Rightarrow> bool" where
  "has_prefix s p \<longleftrightarrow> take (length p) s = p"

definition trim_prefix :: "string \<Rightarrow> string \<Rightarrow> string" where
  "trim_prefix s p = (if has_prefix s p then drop (length p) s else s)"

definition has_suffix :: "string \<Rightarrow> string \<Rightarrow> bool" where
  "has_suffix s p \<longleftrightarrow> length p \<le> length s \<and> drop (length s - length p) s = p"

definition trim_suffix :: "string \<Rightarrow> string \<Rightarrow> string" where
  "trim_suffix s p = (if has_suffix s p then take (length s - length p) s else s)"

text \<open>\<open>strings.Split\<close> with a one-byte separator: never empty.\<close>

fun split_on :: "char \<Rightarrow> string \<Rightarrow> string list" where
  "split_on c [] = [[]]"
| "split_on c (x # xs) =
     (if x = c then [] # split_on c xs
      else (case split_on c xs of [] \<Rightarrow> [[x]] | p # ps \<Rightarrow> (x # p) # ps))"

fun join_with :: "string \<Rightarrow> string list \<Rightarrow> string" where
  "join_with sep [] = []"
| "join_with sep [p] = p"
| "join_with sep (p # ps) = p @ sep @ join_with sep ps"

definition replace_byte :: "char \<Rightarrow> char \<Rightarrow> string \<Rightarrow> string" where
  "replace_byte a b s = map (\<lambda>x. if x = a then b else x) s"

definition contains_any :: "string \<Rightarrow> string \<Rightarrow> bool" where
  "contains_any s cs \<longleftrightarrow> list_ex (\<lambda>c. c \<in> set cs) s"

definition is_digit :: "char \<Rightarrow> bool" where
  "is_digit c \<longleftrightarrow> 48 \<le> byte c \<and> byte c \<le> 57"

definition all_digits :: "string \<Rightarrow> bool" where
  "all_digits s \<longleftrightarrow> list_all is_digit s"

text \<open>The value of a decimal digit string; the range checks of
  \<open>strconv.ParseInt\<close> and \<open>ParseUint\<close> are written at their call sites.\<close>

definition digits_value :: "string \<Rightarrow> nat" where
  "digits_value s = foldl (\<lambda>n c. 10 * n + (byte c - 48)) 0 s"

definition max_int64 :: nat where "max_int64 = 9223372036854775807"
definition max_uint64 :: nat where "max_uint64 = 18446744073709551615"

text \<open>\<open>strconv.ParseUint\<close> in base ten with 64 bits, and \<open>FormatInt\<close> of a
  number that is not negative.\<close>

definition parse_uint :: "string \<Rightarrow> nat option" where
  "parse_uint s =
     (if s = [] \<or> \<not> all_digits s \<or> digits_value s > max_uint64 then None else Some (digits_value s))"

fun decimal :: "nat \<Rightarrow> string" where
  "decimal n = (if n < 10 then [char_of (48 + n)] else decimal (n div 10) @ [char_of (48 + n mod 10)])"

declare decimal.simps [simp del]

text \<open>
  \<open>unicode.IsSpace\<close> on the UTF-8 encodings of its members.  \<open>TrimSpace\<close>
  removes them from both ends, \<open>Fields\<close> splits around runs of them.
\<close>

definition space_encodings :: "string list" where
  "space_encodings =
     map (\<lambda>n. [char_of (n::nat)]) [9, 10, 11, 12, 13, 32] @
     map (map char_of)
       [[194, 133], [194, 160], [225, 154, 128],
        [226, 128, 128], [226, 128, 129], [226, 128, 130], [226, 128, 131],
        [226, 128, 132], [226, 128, 133], [226, 128, 134], [226, 128, 135],
        [226, 128, 136], [226, 128, 137], [226, 128, 138], [226, 128, 168],
        [226, 128, 169], [226, 128, 175], [226, 129, 159], [227, 128, 128 :: nat]]"

definition leading_space :: "string \<Rightarrow> nat" where
  "leading_space s =
     (case filter (has_prefix s) space_encodings of [] \<Rightarrow> 0 | e # _ \<Rightarrow> length e)"

definition trailing_space :: "string \<Rightarrow> nat" where
  "trailing_space s =
     (case filter (has_suffix s) space_encodings of [] \<Rightarrow> 0 | e # _ \<Rightarrow> length e)"

function trim_left_space :: "string \<Rightarrow> string" where
  "trim_left_space s =
     (if leading_space s = 0 \<or> s = [] then s else trim_left_space (drop (leading_space s) s))"
  by pat_completeness auto
termination by (relation "measure length") auto

function trim_right_space :: "string \<Rightarrow> string" where
  "trim_right_space s =
     (if trailing_space s = 0 \<or> s = [] then s
      else trim_right_space (take (length s - trailing_space s) s))"
  by pat_completeness auto
termination by (relation "measure length") auto

declare trim_left_space.simps [simp del] trim_right_space.simps [simp del]

definition trim_space :: "string \<Rightarrow> string" where
  "trim_space s = trim_right_space (trim_left_space s)"

text \<open>\<open>strings.Fields\<close>\<close>

function split_fields_from :: "string \<Rightarrow> string \<Rightarrow> string list" where
  "split_fields_from field s =
     (if s = [] then (if field = [] then [] else [field])
      else if leading_space s \<noteq> 0
      then (if field = [] then [] else [field]) @ split_fields_from [] (drop (leading_space s) s)
      else split_fields_from (field @ [hd s]) (tl s))"
  by pat_completeness auto
termination by (relation "measure (\<lambda>(field, s). length s)") auto

declare split_fields_from.simps [simp del]

definition split_fields :: "string \<Rightarrow> string list" where
  "split_fields s = split_fields_from [] s"

text \<open>
  \<open>strings.ToLower\<close>: bytes for an ASCII string, the Unicode tables otherwise.
  The tables are an argument of the model.
\<close>

definition ascii_string :: "string \<Rightarrow> bool" where
  "ascii_string s \<longleftrightarrow> list_all (\<lambda>c. byte c < 128) s"

definition lower_byte :: "char \<Rightarrow> char" where
  "lower_byte c = (if 65 \<le> byte c \<and> byte c \<le> 90 then char_of (byte c + 32) else c)"

definition to_lower :: "(string \<Rightarrow> string) \<Rightarrow> string \<Rightarrow> string" where
  "to_lower uni s = (if ascii_string s then map lower_byte s else uni s)"

text \<open>\<open>unicode.IsControl\<close> on the UTF-8 encodings of its members.\<close>

fun has_control :: "string \<Rightarrow> bool" where
  "has_control [] = False"
| "has_control (c # cs) =
     (byte c < 32 \<or> byte c = 127 \<or>
      byte c = 194 \<and> cs \<noteq> [] \<and> 128 \<le> byte (hd cs) \<and> byte (hd cs) \<le> 159 \<or> has_control cs)"

text \<open>\<open>utf8.ValidString\<close>: the length of the encoded rune a string starts with, 0 for none.\<close>

definition continuation_byte :: "char \<Rightarrow> bool" where
  "continuation_byte c \<longleftrightarrow> 128 \<le> byte c \<and> byte c \<le> 191"

fun utf8_second :: "nat \<Rightarrow> nat \<Rightarrow> bool" where
  "utf8_second lead b =
     (if lead = 224 then 160 \<le> b \<and> b \<le> 191
      else if lead = 237 then 128 \<le> b \<and> b \<le> 159
      else if lead = 240 then 144 \<le> b \<and> b \<le> 191
      else if lead = 244 then 128 \<le> b \<and> b \<le> 143
      else 128 \<le> b \<and> b \<le> 191)"

definition utf8_rune_length :: "string \<Rightarrow> nat" where
  "utf8_rune_length s =
     (case s of
        [] \<Rightarrow> 0
      | a # r \<Rightarrow>
          if byte a < 128 then 1
          else if byte a < 194 \<or> 244 < byte a then 0
          else let n = (if byte a < 224 then 2 else if byte a < 240 then 3 else 4) in
            if n - 1 \<le> length r \<and> utf8_second (byte a) (byte (hd r)) \<and>
               list_all continuation_byte (take (n - 2) (tl r))
            then n else 0)"

function valid_utf8 :: "string \<Rightarrow> bool" where
  "valid_utf8 s =
     (if s = [] then True
      else if utf8_rune_length s = 0 then False
      else valid_utf8 (drop (utf8_rune_length s) s))"
  by pat_completeness auto
termination by (relation "measure length") auto

declare valid_utf8.simps [simp del]

lemma valid_utf8_ascii: "list_all (\<lambda>c. byte c < 128) s \<Longrightarrow> valid_utf8 s"
proof (induction s)
  case (Cons c s)
  then have "utf8_rune_length (c # s) = 1" by (simp add: utf8_rune_length_def)
  with Cons show ?case by (subst valid_utf8.simps) simp
qed (simp add: valid_utf8.simps)

lemma has_prefix_iff: "has_prefix s p \<longleftrightarrow> (\<exists>r. s = p @ r)"
  unfolding has_prefix_def by (metis append_eq_conv_conj append_take_drop_id)

lemma has_prefix_append [simp]: "has_prefix (p @ r) p"
  by (auto simp: has_prefix_iff)

lemma trim_prefix_append [simp]: "trim_prefix (p @ r) p = r"
  by (simp add: trim_prefix_def)

lemma has_prefixE:
  assumes "has_prefix s p"
  obtains r where "s = p @ r" "trim_prefix s p = r"
  using assms by (auto simp: has_prefix_iff)

lemma has_suffix_iff: "has_suffix s p \<longleftrightarrow> (\<exists>r. s = r @ p)"
  unfolding has_suffix_def by (metis append_eq_conv_conj append_take_drop_id
      diff_diff_cancel length_append length_drop le_add2 add_diff_cancel_right')

lemma has_suffix_append [simp]: "has_suffix (r @ p) p"
  by (auto simp: has_suffix_iff)

lemma split_on_not_Nil [simp]: "split_on c s \<noteq> []"
  by (induction s) (auto split: list.splits)

lemma split_on_no_sep: "c \<notin> set s \<Longrightarrow> split_on c s = [s]"
  by (induction s) auto

lemma split_on_append_sep:
  "c \<notin> set p \<Longrightarrow> split_on c (p @ c # s) = p # split_on c s"
  by (induction p) auto

lemma split_on_parts: "p \<in> set (split_on c s) \<Longrightarrow> c \<notin> set p"
proof (induction s arbitrary: p)
  case Nil
  then show ?case by simp
next
  case (Cons x xs)
  then show ?case
    by (cases "split_on c xs") (fastforce split: if_splits)+
qed

lemma join_with_Cons:
  "ps \<noteq> [] \<Longrightarrow> join_with sep (p # ps) = p @ sep @ join_with sep ps"
  by (cases ps) auto

lemma join_split [simp]: "join_with [c] (split_on c s) = s"
proof (induction s)
  case Nil
  then show ?case by simp
next
  case (Cons x xs)
  show ?case
  proof (cases "split_on c xs")
    case Nil
    then show ?thesis by simp
  next
    case (Cons p ps)
    with \<open>join_with [c] (split_on c xs) = xs\<close> show ?thesis
      by (cases ps) auto
  qed
qed

lemma split_join:
  "ps \<noteq> [] \<Longrightarrow> (\<And>p. p \<in> set ps \<Longrightarrow> c \<notin> set p) \<Longrightarrow> split_on c (join_with [c] ps) = ps"
proof (induction ps rule: induct_list012)
  case 1
  then show ?case by simp
next
  case (2 p)
  then show ?case by (simp add: split_on_no_sep)
next
  case (3 p q ps)
  then show ?case by (simp add: split_on_append_sep)
qed

text \<open>Printed numbers are the digit strings without superfluous zeros.\<close>

lemma digits_value_snoc: "digits_value (s @ [c]) = 10 * digits_value s + (byte c - 48)"
  by (simp add: digits_value_def)

lemma all_digits_snoc [simp]: "all_digits (s @ [c]) \<longleftrightarrow> all_digits s \<and> is_digit c"
  by (auto simp: all_digits_def)

lemma decimal_digits [simp]: "all_digits (decimal n)" "decimal n \<noteq> []" "digits_value (decimal n) = n"
proof (induction n rule: decimal.induct)
  case (1 n)
  { case 1
    then show ?case using "1.IH"(1) by (subst decimal.simps) (auto simp: all_digits_def is_digit_def)
  next
    case 2
    show ?case by (subst decimal.simps) simp
  next
    case 3
    then show ?case using "1.IH"(3)
      by (subst decimal.simps) (auto simp: digits_value_snoc, simp add: digits_value_def)
  }
qed

lemma decimal_inj [simp]: "decimal m = decimal n \<longleftrightarrow> m = n"
  by (metis decimal_digits(3))

definition canonical_decimal :: "string \<Rightarrow> bool" where
  "canonical_decimal s \<longleftrightarrow> s \<noteq> [] \<and> all_digits s \<and> (1 < length s \<longrightarrow> hd s \<noteq> CHR ''0'')"

lemma digits_value_pos:
  "all_digits s \<Longrightarrow> s \<noteq> [] \<Longrightarrow> hd s \<noteq> CHR ''0'' \<Longrightarrow> 0 < digits_value s"
proof (induction s rule: rev_induct)
  case (snoc c s)
  show ?case
  proof (cases "s = []")
    case True
    have "byte c \<noteq> 48"
    proof
      assume "byte c = 48"
      then have "byte c = byte (CHR ''0'')" by simp
      then have "c = CHR ''0''" by (simp only: of_char_eq_iff)
      with True snoc.prems show False by simp
    qed
    with True snoc.prems show ?thesis
      by (simp add: digits_value_def all_digits_def is_digit_def)
  next
    case False
    with snoc show ?thesis by (simp add: digits_value_snoc)
  qed
qed simp

lemma decimal_canonical: "canonical_decimal (decimal n)"
proof (induction n rule: decimal.induct)
  case (1 n)
  show ?case
  proof (cases "n < 10")
    case True
    then have "decimal n = [char_of (48 + n)]" by (simp add: decimal.simps [of n])
    with decimal_digits(1) [of n] show ?thesis by (simp add: canonical_decimal_def)
  next
    case False
    then have n: "decimal n = decimal (n div 10) @ [char_of (48 + n mod 10)]"
      by (simp add: decimal.simps [of n])
    have "hd (decimal (n div 10)) \<noteq> CHR ''0''"
    proof
      assume z: "hd (decimal (n div 10)) = CHR ''0''"
      with 1 [OF False] have "length (decimal (n div 10)) = 1"
        by (cases "decimal (n div 10)") (auto simp: canonical_decimal_def)
      with z have "decimal (n div 10) = [CHR ''0'']" by (cases "decimal (n div 10)") auto
      then have "digits_value (decimal (n div 10)) = 0" by (simp add: digits_value_def)
      with False show False by simp
    qed
    with decimal_digits(1) [of n] show ?thesis by (simp add: canonical_decimal_def n)
  qed
qed

lemma decimal_digits_value: "canonical_decimal s \<Longrightarrow> decimal (digits_value s) = s"
proof (induction s rule: rev_induct)
  case Nil
  then show ?case by (simp add: canonical_decimal_def)
next
  case (snoc c s)
  have c: "48 \<le> byte c" "byte c \<le> 57" "char_of (byte c) = c"
    using snoc.prems by (auto simp: canonical_decimal_def is_digit_def)
  show ?case
  proof (cases "s = []")
    case True
    with c show ?thesis by (simp add: digits_value_def decimal.simps)
  next
    case False
    with snoc.prems have "canonical_decimal s" "hd s \<noteq> CHR ''0''" by (auto simp: canonical_decimal_def)
    then have "0 < digits_value s" "decimal (digits_value s) = s"
      using digits_value_pos snoc.IH by (auto simp: canonical_decimal_def)
    moreover from c have "\<exists>k < 10. byte c = 48 + k" by (intro exI [of _ "byte c - 48"]) auto
    then obtain k where k: "k < 10" "byte c = 48 + k" by blast
    ultimately have "decimal (10 * digits_value s + k) = s @ [char_of (48 + k)]"
      by (simp add: decimal.simps [of "10 * _ + _"])
    with c(3) k show ?thesis by (simp add: digits_value_snoc)
  qed
qed

lemma trim_left_space_length: "length (trim_left_space s) \<le> length s"
proof (induction s rule: trim_left_space.induct)
  case (1 s)
  then show ?case
    by (subst trim_left_space.simps) (auto intro: le_trans)
qed

lemma trim_left_space_fixed: "leading_space (trim_left_space s) = 0 \<or> trim_left_space s = []"
proof (induction s rule: trim_left_space.induct)
  case (1 s)
  then show ?case
    by (subst (1 2) trim_left_space.simps) auto
qed

lemma trim_right_space_fixed: "trailing_space (trim_right_space s) = 0 \<or> trim_right_space s = []"
proof (induction s rule: trim_right_space.induct)
  case (1 s)
  then show ?case
    by (subst (1 2) trim_right_space.simps) auto
qed

lemma trim_left_space_id: "leading_space s = 0 \<or> s = [] \<Longrightarrow> trim_left_space s = s"
  by (subst trim_left_space.simps) simp

lemma trim_right_space_id: "trailing_space s = 0 \<or> s = [] \<Longrightarrow> trim_right_space s = s"
  by (subst trim_right_space.simps) simp

lemma trim_right_space_prefix: "\<exists>r. s = trim_right_space s @ r"
proof (induction s rule: trim_right_space.induct)
  case (1 s)
  show ?case
  proof (cases "trailing_space s = 0 \<or> s = []")
    case True
    then show ?thesis by (simp add: trim_right_space_id)
  next
    case False
    let ?t = "take (length s - trailing_space s) s"
    from 1 False obtain r where "?t = trim_right_space ?t @ r" by blast
    moreover from False have "trim_right_space s = trim_right_space ?t"
      by (subst trim_right_space.simps) simp
    ultimately have "s = trim_right_space s @ (r @ drop (length s - trailing_space s) s)"
      by (metis append.assoc append_take_drop_id)
    then show ?thesis by blast
  qed
qed

lemma leading_space_prefix:
  assumes "leading_space (a @ b) = 0"
  shows "leading_space a = 0"
proof -
  have "\<not> has_prefix a e" if "e \<in> set space_encodings" for e
  proof
    assume "has_prefix a e"
    then have "has_prefix (a @ b) e" by (auto simp: has_prefix_iff)
    with that have "e \<in> set (filter (has_prefix (a @ b)) space_encodings)" by simp
    then obtain e' es where f: "filter (has_prefix (a @ b)) space_encodings = e' # es"
      by (cases "filter (has_prefix (a @ b)) space_encodings") auto
    then have "e' \<in> set (filter (has_prefix (a @ b)) space_encodings)" by simp
    then have "e' \<in> set space_encodings" by simp
    then have "e' \<noteq> []" by (auto simp: space_encodings_def)
    with f assms show False by (simp add: leading_space_def)
  qed
  then have "filter (has_prefix a) space_encodings = []" by (simp add: filter_empty_conv)
  then show ?thesis by (simp add: leading_space_def)
qed

text \<open>\<open>TrimSpace\<close> is idempotent.\<close>

lemma trim_space_idem [simp]: "trim_space (trim_space s) = trim_space s"
proof -
  let ?l = "trim_left_space s" and ?t = "trim_space s"
  obtain r where r: "?l = ?t @ r"
    unfolding trim_space_def using trim_right_space_prefix by blast
  have "leading_space ?t = 0 \<or> ?t = []"
    using trim_left_space_fixed [of s] r leading_space_prefix by (metis Nil_is_append_conv)
  then have "trim_left_space ?t = ?t" by (rule trim_left_space_id)
  moreover have "trim_right_space ?t = ?t"
    unfolding trim_space_def by (rule trim_right_space_id) (rule trim_right_space_fixed)
  ultimately show ?thesis by (simp add: trim_space_def)
qed

text \<open>A string that starts and ends with a visible ASCII byte is trimmed already.\<close>

lemma space_encodings_ends:
  "list_all (\<lambda>e. e \<noteq> [] \<and> (byte (hd e) < 33 \<or> 127 < byte (hd e)) \<and>
     (byte (last e) < 33 \<or> 127 < byte (last e))) space_encodings"
  by (simp add: space_encodings_def)

lemma leading_space_visible:
  assumes "33 \<le> byte (hd s)" "byte (hd s) < 127"
  shows "leading_space s = 0"
proof -
  have "\<not> has_prefix s e" if "e \<in> set space_encodings" for e
  proof
    assume "has_prefix s e"
    with space_encodings_ends that have "hd s = hd e"
      by (auto simp: list_all_iff has_prefix_iff hd_append)
    with space_encodings_ends that assms show False by (fastforce simp: list_all_iff)
  qed
  then have "filter (has_prefix s) space_encodings = []" by (simp add: filter_empty_conv)
  then show ?thesis by (simp add: leading_space_def)
qed

lemma trailing_space_visible:
  assumes "33 \<le> byte (last s)" "byte (last s) < 127"
  shows "trailing_space s = 0"
proof -
  have "\<not> has_suffix s e" if "e \<in> set space_encodings" for e
  proof
    assume "has_suffix s e"
    with space_encodings_ends that have "last s = last e"
      by (auto simp: list_all_iff has_suffix_iff)
    with space_encodings_ends that assms show False by (fastforce simp: list_all_iff)
  qed
  then have "filter (has_suffix s) space_encodings = []" by (simp add: filter_empty_conv)
  then show ?thesis by (simp add: trailing_space_def)
qed

lemma trim_space_plain:
  "33 \<le> byte (hd s) \<Longrightarrow> byte (hd s) < 127 \<Longrightarrow> 33 \<le> byte (last s) \<Longrightarrow> byte (last s) < 127 \<Longrightarrow>
   trim_space s = s"
  by (simp add: trim_space_def trim_left_space_id trim_right_space_id leading_space_visible
      trailing_space_visible)

lemma trim_right_space_length: "length (trim_right_space s) \<le> length s"
  using trim_right_space_prefix [of s] by (metis length_append le_add1)

lemma trim_space_length: "length (trim_space s) \<le> length s"
  unfolding trim_space_def
  using trim_right_space_length [of "trim_left_space s"] trim_left_space_length [of s] by linarith

text \<open>\<open>Fields\<close> gives non-empty pieces without white space, and joining them with blanks loses
  none of them.\<close>

lemma leading_space_0_iff: "leading_space s = 0 \<longleftrightarrow> (\<forall>e \<in> set space_encodings. \<not> has_prefix s e)"
proof -
  have e: "length e \<noteq> 0" if "e \<in> set space_encodings" for e
    using that space_encodings_ends by (auto simp: list_all_iff)
  show ?thesis
  proof (cases "filter (has_prefix s) space_encodings")
    case Nil
    then show ?thesis by (simp add: leading_space_def filter_empty_conv)
  next
    case (Cons x xs)
    then have "x \<in> set (filter (has_prefix s) space_encodings)" by simp
    then have x: "x \<in> set space_encodings" "has_prefix s x" by simp_all
    with e have "length x \<noteq> 0" by blast
    with Cons x show ?thesis by (auto simp: leading_space_def)
  qed
qed

lemma space_only_blank: "list_all (\<lambda>e. CHR '' '' \<in> set e \<longrightarrow> e = '' '') space_encodings"
  by code_simp

definition spaceless :: "string \<Rightarrow> bool" where
  "spaceless f \<longleftrightarrow> (\<forall>k < length f. leading_space (drop k f) = 0)"

lemma spaceless_before_blank:
  assumes "spaceless f" "k < length f"
  shows "leading_space (drop k f @ CHR '' '' # u) = 0"
proof -
  have "\<not> has_prefix (drop k f @ CHR '' '' # u) e" if e: "e \<in> set space_encodings" for e
  proof
    assume "has_prefix (drop k f @ CHR '' '' # u) e"
    then obtain r where r: "drop k f @ CHR '' '' # u = e @ r" by (auto simp: has_prefix_iff)
    have no: "\<not> has_prefix (drop k f) e"
      using assms e by (auto simp: spaceless_def leading_space_0_iff)
    from r obtain w where "drop k f = e @ w \<or> drop k f @ w = e \<and> CHR '' '' # u = w @ r"
      unfolding append_eq_append_conv2 by blast
    with no have w: "e = drop k f @ w" "CHR '' '' # u = w @ r" by (auto simp: has_prefix_iff)
    show False
    proof (cases "w = []")
      case True
      with no w show False by (simp add: has_prefix_def)
    next
      case False
      with w have "CHR '' '' \<in> set e" by (cases w) auto
      with e space_only_blank have "e = '' ''" by (auto simp: list_all_iff)
      moreover have "drop k f \<noteq> []" using assms(2) by simp
      ultimately show False using w(1) False by (cases "drop k f") auto
    qed
  qed
  then show ?thesis by (simp add: leading_space_0_iff)
qed

lemma trailing_space_0_iff: "trailing_space s = 0 \<longleftrightarrow> (\<forall>e \<in> set space_encodings. \<not> has_suffix s e)"
proof -
  have e: "length e \<noteq> 0" if "e \<in> set space_encodings" for e
    using that space_encodings_ends by (auto simp: list_all_iff)
  show ?thesis
  proof (cases "filter (has_suffix s) space_encodings")
    case Nil
    then show ?thesis by (simp add: trailing_space_def filter_empty_conv)
  next
    case (Cons x xs)
    then have "x \<in> set (filter (has_suffix s) space_encodings)" by simp
    then have x: "x \<in> set space_encodings" "has_suffix s x" by simp_all
    with e have "length x \<noteq> 0" by blast
    with Cons x show ?thesis by (auto simp: trailing_space_def)
  qed
qed

lemma trailing_space_after_blank:
  assumes "w \<noteq> []" "trailing_space w = 0"
  shows "trailing_space (x @ CHR '' '' # w) = 0"
proof -
  have "\<not> has_suffix (x @ CHR '' '' # w) e" if e: "e \<in> set space_encodings" for e
  proof
    assume "has_suffix (x @ CHR '' '' # w) e"
    then obtain r where r: "(x @ '' '') @ w = r @ e" by (auto simp: has_suffix_iff)
    have no: "\<not> has_suffix w e" using assms(2) e by (simp add: trailing_space_0_iff)
    from r obtain v where "x @ '' '' = r @ v \<and> v @ w = e \<or> w = v @ e"
      unfolding append_eq_append_conv2 [of _ w] by blast
    with no have v: "x @ '' '' = r @ v" "e = v @ w" by (auto simp: has_suffix_iff)
    show False
    proof (cases "v = []")
      case True
      with no v show False by (simp add: has_suffix_def)
    next
      case False
      with v have "last v = CHR '' ''" by (metis last_appendR last_snoc)
      with v(2) False have "CHR '' '' \<in> set e" by (auto dest: last_in_set)
      with e space_only_blank have "e = '' ''" by (auto simp: list_all_iff)
      with v(2) False assms(1) show False by (cases v) auto
    qed
  qed
  then show ?thesis by (simp add: trailing_space_0_iff)
qed

lemma spaceless_trailing:
  assumes "spaceless f"
  shows "trailing_space f = 0"
proof -
  have "\<not> has_suffix f e" if e: "e \<in> set space_encodings" for e
  proof
    assume "has_suffix f e"
    then obtain r where r: "f = r @ e" by (auto simp: has_suffix_iff)
    moreover have "e \<noteq> []" using e space_encodings_ends by (auto simp: list_all_iff)
    ultimately have "leading_space e = 0" using assms by (auto simp: spaceless_def dest: spec [of _ "length r"])
    with e show False by (auto simp: leading_space_0_iff has_prefix_def)
  qed
  then have "filter (has_suffix f) space_encodings = []" by (simp add: filter_empty_conv)
  then show ?thesis by (simp add: trailing_space_def)
qed

lemma split_fields_spaceless:
  assumes "\<And>k. k < length field \<Longrightarrow> leading_space (drop k field @ s) = 0"
    and "f \<in> set (split_fields_from field s)"
  shows "f \<noteq> [] \<and> spaceless f"
  using assms
proof (induction field s rule: split_fields_from.induct)
  case (1 field s)
  have here: "spaceless field" using 1(3) leading_space_prefix unfolding spaceless_def by blast
  show ?case
  proof (cases "s = [] \<or> leading_space s \<noteq> 0")
    case True
    then show ?thesis
      using here 1(1,4)
      by (subst (asm) (2) split_fields_from.simps) (auto split: if_splits)
  next
    case False
    have "leading_space (drop k (field @ [hd s]) @ tl s) = 0" if "k < length (field @ [hd s])" for k
      using that 1(3) [of k] False by (cases "k = length field") auto
    moreover from False 1(4) have "f \<in> set (split_fields_from (field @ [hd s]) (tl s))"
      by (subst (asm) split_fields_from.simps) simp
    ultimately show ?thesis using 1(2) False by blast
  qed
qed

lemma split_fields_shift:
  assumes "\<And>k. k < length g \<Longrightarrow> leading_space (drop k g @ t) = 0"
  shows "split_fields_from acc (g @ t) = split_fields_from (acc @ g) t"
  using assms
proof (induction g arbitrary: acc)
  case (Cons c g)
  have "leading_space (drop k g @ t) = 0" if "k < length g" for k
    using Cons.prems [of "Suc k"] that by simp
  with Cons.IH have "split_fields_from (acc @ [c]) (g @ t) = split_fields_from ((acc @ [c]) @ g) t"
    by blast
  moreover have "leading_space (c # g @ t) = 0" using Cons.prems [of 0] by simp
  ultimately show ?case by (simp add: split_fields_from.simps [of acc])
qed simp

lemma leading_space_blank: "leading_space (CHR '' '' # u) = 1"
proof -
  have "'' '' \<in> set space_encodings" by code_simp
  then have "'' '' \<in> set (filter (has_prefix (CHR '' '' # u)) space_encodings)"
    by (simp add: has_prefix_def)
  then obtain x xs where x: "filter (has_prefix (CHR '' '' # u)) space_encodings = x # xs"
    by (cases "filter (has_prefix (CHR '' '' # u)) space_encodings") auto
  then have "x \<in> set (filter (has_prefix (CHR '' '' # u)) space_encodings)" by simp
  then have m: "x \<in> set space_encodings" "has_prefix (CHR '' '' # u) x" by simp_all
  with space_encodings_ends have "x \<noteq> []" by (auto simp: list_all_iff)
  with m(2) have "CHR '' '' \<in> set x" by (cases x) (auto simp: has_prefix_iff)
  with m(1) space_only_blank have "x = '' ''" by (auto simp: list_all_iff)
  with x show ?thesis by (simp add: leading_space_def)
qed

lemma split_fields_join:
  assumes "\<And>f. f \<in> set fs \<Longrightarrow> f \<noteq> [] \<and> spaceless f"
  shows "split_fields (join_with '' '' fs) = fs"
  using assms
proof (induction fs rule: induct_list012)
  case 1
  then show ?case by (simp add: split_fields_def split_fields_from.simps)
next
  case (2 f)
  then have f: "f \<noteq> []" "spaceless f" by simp_all
  then have "split_fields_from [] (f @ []) = split_fields_from ([] @ f) []"
    by (intro split_fields_shift) (simp add: spaceless_def)
  with f show ?case by (simp add: split_fields_def split_fields_from.simps [of f])
next
  case (3 f g fs)
  then have f: "f \<noteq> []" "spaceless f" by simp_all
  let ?u = "join_with '' '' (g # fs)"
  have "split_fields_from [] (f @ CHR '' '' # ?u) = split_fields_from ([] @ f) (CHR '' '' # ?u)"
    using f by (intro split_fields_shift spaceless_before_blank)
  also have "\<dots> = f # split_fields ?u"
  proof -
    note leading_space_blank [of ?u]
    with f show ?thesis by (simp add: split_fields_def split_fields_from.simps [of f])
  qed
  finally show ?case using 3 by (simp add: split_fields_def)
qed

lemma split_fields_length:
  "length (join_with '' '' (split_fields_from field s)) \<le> length field + length s"
proof (induction field s rule: split_fields_from.induct)
  case (1 field s)
  consider "s = []" | "s \<noteq> []" "leading_space s \<noteq> 0" | "s \<noteq> []" "leading_space s = 0" by blast
  then show ?case
  proof cases
    case 1
    then show ?thesis by (simp add: split_fields_from.simps)
  next
    case 2
    let ?rest = "split_fields_from [] (drop (leading_space s) s)"
    have "length (join_with '' '' (field # ?rest)) \<le> length field + 1 + length (join_with '' '' ?rest)"
      by (cases ?rest) auto
    moreover have "split_fields_from field s = (if field = [] then ?rest else field # ?rest)"
      using 2 by (simp add: split_fields_from.simps [of field])
    moreover have "length (join_with '' '' ?rest) \<le> length s - leading_space s" using 1(1) 2 by simp
    moreover have "0 < length s" using 2 by simp
    ultimately show ?thesis using 2(2) by (simp split: if_splits; linarith)
  next
    case 3
    then have "0 < length s" by simp
    with 3 1(2) show ?thesis by (simp add: split_fields_from.simps [of field]; linarith)
  qed
qed

lemma trim_space_spaceless_ends:
  assumes "fs \<noteq> []" "\<And>f. f \<in> set fs \<Longrightarrow> f \<noteq> [] \<and> spaceless f"
  shows "trim_space (join_with '' '' fs) = join_with '' '' fs"
proof -
  obtain f rest where fs: "fs = f # rest" using assms(1) by (cases fs) auto
  have "leading_space (join_with '' '' fs) = 0"
    using assms(2) spaceless_before_blank [of f 0] by (cases rest) (auto simp: fs spaceless_def)
  moreover have "trailing_space (join_with '' '' fs) = 0"
    using assms
  proof (induction fs rule: induct_list012)
    case (3 x y zs)
    from 3 have "trailing_space (join_with '' '' (y # zs)) = 0" by simp
    moreover have "join_with '' '' (y # zs) \<noteq> []" using 3(4) [of y] by (cases zs) auto
    ultimately show ?case by (simp add: trailing_space_after_blank)
  qed (simp_all add: spaceless_trailing)
  ultimately show ?thesis by (simp add: trim_space_def trim_left_space_id trim_right_space_id)
qed

lemma to_lower_ascii: "ascii_string s \<Longrightarrow> to_lower uni s = map lower_byte s"
  by (simp add: to_lower_def)

section \<open>Lists, maps and sums\<close>

fun remove_first :: "('a \<Rightarrow> bool) \<Rightarrow> 'a list \<Rightarrow> 'a list" where
  "remove_first P [] = []"
| "remove_first P (x # xs) = (if P x then xs else x # remove_first P xs)"

lemma remove_first_filter:
  "distinct (map f xs) \<Longrightarrow> x \<in> set xs \<Longrightarrow>
    (\<And>y. y \<in> set xs \<Longrightarrow> P y \<Longrightarrow> y = hd (filter P xs) \<Longrightarrow> f y = f x) \<Longrightarrow> P x \<Longrightarrow>
    remove_first P xs = filter (\<lambda>y. f y \<noteq> f x) xs"
proof (induction xs)
  case Nil
  then show ?case by simp
next
  case (Cons a xs)
  show ?case
  proof (cases "P a")
    case True
    with Cons.prems(3) [of a] have "f a = f x" by simp
    moreover have "filter (\<lambda>y. f y \<noteq> f x) xs = xs"
      using Cons.prems(1) \<open>f a = f x\<close> by (auto simp: filter_id_conv image_iff)
    ultimately show ?thesis using True by simp
  next
    case False
    with Cons.prems(2,4) have "x \<in> set xs" "a \<noteq> x" by auto
    moreover from this Cons.prems(1) have "f a \<noteq> f x" by auto
    ultimately show ?thesis using Cons False by auto
  qed
qed

lemma sum_list_filter_distinct:
  fixes g :: "'a \<Rightarrow> int"
  assumes "distinct (map f xs)" and "x \<in> set xs"
  shows "sum_list (map g (filter (\<lambda>y. f y \<noteq> f x) xs)) = sum_list (map g xs) - g x"
  using assms
proof (induction xs)
  case Nil
  then show ?case by simp
next
  case (Cons a xs)
  show ?case
  proof (cases "a = x")
    case True
    with Cons.prems(1) have "filter (\<lambda>y. f y \<noteq> f x) xs = xs" by (auto simp: filter_id_conv image_iff)
    with True show ?thesis by simp
  next
    case False
    with Cons.prems have "x \<in> set xs" "f a \<noteq> f x" by auto
    with Cons show ?thesis by auto
  qed
qed

lemma sum_list_nonneg_int:
  fixes g :: "'a \<Rightarrow> int"
  shows "(\<And>x. x \<in> set xs \<Longrightarrow> 0 \<le> g x) \<Longrightarrow> 0 \<le> sum_list (map g xs)"
  by (induction xs) (auto simp: add_nonneg_nonneg)

end
