(* ===== verification/GoErrors.thy ===== *)
theory GoErrors
  imports Prelude
begin

text \<open>
  Go error values and contexts as the sources use them.  An error is a value with
  an identity and the errors it wraps; \<open>errors.Is\<close> walks that tree, \<open>errors.Join\<close>
  drops nil and wraps the rest.  A context is read through \<open>Err\<close> and
  \<open>context.Cause\<close> only, so a context is the pair of those two readings.
\<close>

datatype go_error = GoErr (err_id: string) (err_wraps: "go_error list")

type_synonym 'a result = "go_error + 'a"

fun errors_is :: "go_error \<Rightarrow> go_error \<Rightarrow> bool" where
  "errors_is (GoErr i ws) t \<longleftrightarrow> GoErr i ws = t \<or> list_ex (\<lambda>w. errors_is w t) ws"

definition errors_join :: "go_error option list \<Rightarrow> go_error option" where
  "errors_join es =
     (case List.map_filter id es of [] \<Rightarrow> None | ws \<Rightarrow> Some (GoErr ''join'' ws))"

definition new_error :: "string \<Rightarrow> go_error" where
  "new_error text = GoErr text []"

text \<open>\<open>fmt.Errorf("...: %w", err)\<close>\<close>

definition wrap_error :: "string \<Rightarrow> go_error \<Rightarrow> go_error" where
  "wrap_error text e = GoErr text [e]"

definition context_canceled :: go_error where
  "context_canceled = GoErr ''context canceled'' []"

definition deadline_exceeded :: go_error where
  "deadline_exceeded = GoErr ''context deadline exceeded'' []"

definition sql_no_rows :: go_error where
  "sql_no_rows = GoErr ''sql: no rows in result set'' []"

definition err_foreign_key :: go_error where
  "err_foreign_key = new_error ''FOREIGN KEY constraint failed''"

record ctx =
  ctx_err :: "go_error option"
  ctx_cause :: "go_error option"

lemma errors_is_refl [simp]: "errors_is e e"
  by (cases e) simp

lemma errors_is_wrap: "errors_is (GoErr i ws) t \<longleftrightarrow> GoErr i ws = t \<or> (\<exists>w\<in>set ws. errors_is w t)"
  by (simp add: list_ex_iff)

lemma errors_is_leaf [simp]: "errors_is (GoErr i []) t \<longleftrightarrow> GoErr i [] = t"
  by simp

lemma map_filter_id_set: "set (List.map_filter id es) = {e. Some e \<in> set es}"
  by (induction es) (auto simp: List.map_filter_def split: option.splits)

lemma errors_join_None [simp]: "errors_join es = None \<longleftrightarrow> (\<forall>e\<in>set es. e = None)"
  unfolding errors_join_def
  by (induction es) (auto simp: List.map_filter_simps split: option.splits list.splits)

lemma errors_join_is:
  assumes "errors_join es = Some j" and "Some e \<in> set es" and "errors_is e t"
  shows "errors_is j t"
proof -
  have "e \<in> set (List.map_filter id es)" using assms(2) by (simp add: map_filter_id_set)
  moreover have "j = GoErr ''join'' (List.map_filter id es)"
    using assms(1) by (auto simp: errors_join_def split: list.splits)
  ultimately show ?thesis using assms(3) by (auto simp: list_ex_iff)
qed

section \<open>Instants\<close>

text \<open>An instant is a number of nanoseconds; \<open>Sub\<close> saturates at the ends of an \<open>int64\<close>.\<close>

definition time_sub :: "int \<Rightarrow> int \<Rightarrow> int" where
  "time_sub a b = max (- (2 ^ 63)) (min (2 ^ 63 - 1) (a - b))"

lemma clamp_ge: "- k < d \<Longrightarrow> d \<le> k' \<Longrightarrow> d \<le> max (- k) (min k' x) \<longleftrightarrow> d \<le> (x::int)"
  by auto

lemma time_sub_ge: "- (2 ^ 63) < d \<Longrightarrow> d \<le> 2 ^ 63 - 1 \<Longrightarrow> d \<le> time_sub a b \<longleftrightarrow> d \<le> a - b"
  unfolding time_sub_def by (rule clamp_ge)

section \<open>Machine integers\<close>

text \<open>An \<open>int64\<close> computation wraps around.\<close>

definition min64 :: int where "min64 = - (2 ^ 63)"
definition max64 :: int where "max64 = 2 ^ 63 - 1"

definition wrap64 :: "int \<Rightarrow> int" where
  "wrap64 x = (x + 2 ^ 63) mod 2 ^ 64 - 2 ^ 63"

definition in_int64 :: "int \<Rightarrow> bool" where
  "in_int64 x \<longleftrightarrow> min64 \<le> x \<and> x \<le> max64"

lemma wrap64_id: "in_int64 x \<Longrightarrow> wrap64 x = x"
  by (simp add: wrap64_def in_int64_def min64_def max64_def)

end
