(* ===== verification/OperationRuntime.thy ===== *)
theory OperationRuntime
  imports GoErrors
begin

text \<open>
  Package \<open>operationruntime\<close> (\<open>code/backend/operationruntime/manager.go\<close>): the
  process-local manager of running operations.  It keeps a bounded preview of each
  operation's native output, arbitrates cancellation against launch and counts the
  background workers that shutdown has to join.

  List elements and heap objects are compared by pointer in the code; here each
  preview record, operation entry and cancel attempt carries the number it was
  allocated under.  A loop that dereferences the front of a list is a
  \<^theory_text>\<open>partial_function\<close> whose \<open>None\<close> is the nil dereference.
\<close>

section \<open>State\<close>

datatype cancel_state = CancelIdle | CancelInFlight | CancelAccepted | CancelClosed

record stored_entry =
  se_stream :: string
  se_text :: string
  se_operation :: string
  se_size :: int
  se_node :: nat

record runtime_entry =
  re_id :: nat
  re_entries :: "stored_entry list"
  re_bytes :: int
  re_truncated :: bool
  re_cancel :: "nat option"
  re_state :: cancel_state
  re_attempt :: "nat option"

record manager =
  mgr_entries :: "string \<rightharpoonup> runtime_entry"
  mgr_order :: "stored_entry list"
  mgr_total :: int
  mgr_max_entries :: int
  mgr_max_operation :: int
  mgr_max_process :: int
  mgr_next :: nat
  mgr_attempts :: "nat \<rightharpoonup> go_error option"
  mgr_stopping :: bool
  mgr_background :: int
  mgr_live :: "nat list"
  mgr_lifetime_canceled :: bool

definition err_not_found :: go_error where
  "err_not_found = new_error ''operation runtime is unavailable''"
definition err_not_cancelable :: go_error where
  "err_not_cancelable = new_error ''operation is not cancelable''"
definition err_stopping :: go_error where
  "err_stopping = new_error ''background operations are stopping''"
definition err_registered :: go_error where
  "err_registered = new_error ''operation runtime is already registered''"

section \<open>Operations\<close>

text \<open>\<open>None\<close> is the panic on a limit that is not positive.\<close>

definition new_with_limits :: "int \<Rightarrow> int \<Rightarrow> int \<Rightarrow> manager option" where
  "new_with_limits max_entries max_operation max_process =
     (if max_entries \<le> 0 \<or> max_operation \<le> 0 \<or> max_process \<le> 0 then None
      else Some \<lparr>mgr_entries = Map.empty, mgr_order = [], mgr_total = 0,
        mgr_max_entries = max_entries, mgr_max_operation = max_operation,
        mgr_max_process = max_process, mgr_next = 0, mgr_attempts = Map.empty,
        mgr_stopping = False, mgr_background = 0, mgr_live = [],
        mgr_lifetime_canceled = False\<rparr>)"

definition new_manager :: "manager option" where
  "new_manager = new_with_limits 1000 (128 * 1024) (8 * 1024 * 1024)"

text \<open>\<open>BeginBackground\<close> returns the token whose release is the \<open>once.Do\<close> closure.\<close>

definition begin_background :: "manager \<Rightarrow> manager \<times> nat result" where
  "begin_background m =
     (if mgr_stopping m then (m, Inl err_stopping)
      else (m\<lparr>mgr_background := mgr_background m + 1, mgr_live := mgr_next m # mgr_live m,
              mgr_next := Suc (mgr_next m)\<rparr>, Inr (mgr_next m)))"

definition background_done :: "nat \<Rightarrow> manager \<Rightarrow> manager" where
  "background_done token m =
     (if token \<in> set (mgr_live m)
      then m\<lparr>mgr_background := mgr_background m - 1, mgr_live := remove1 token (mgr_live m)\<rparr>
      else m)"

definition begin_stop :: "manager \<Rightarrow> manager" where
  "begin_stop m = m\<lparr>mgr_stopping := True, mgr_lifetime_canceled := True\<rparr>"

text \<open>What \<open>Wait\<close> may return: nil once the count is zero, the context's error once it ended.\<close>

definition wait_may_return :: "manager \<Rightarrow> ctx \<Rightarrow> go_error option \<Rightarrow> bool" where
  "wait_may_return m c r \<longleftrightarrow>
     (r = None \<and> mgr_background m = 0) \<or> (r \<noteq> None \<and> r = ctx_err c)"

definition register :: "string \<Rightarrow> nat option \<Rightarrow> manager \<Rightarrow> manager \<times> go_error option" where
  "register operation_id cancel m =
     (if operation_id = [] then (m, Some err_not_found)
      else if mgr_entries m operation_id \<noteq> None then (m, Some err_registered)
      else
        (m\<lparr>mgr_entries := (mgr_entries m)(operation_id \<mapsto>
             \<lparr>re_id = mgr_next m, re_entries = [], re_bytes = 0, re_truncated = False,
              re_cancel = cancel,
              re_state = (if cancel = None then CancelClosed else CancelIdle),
              re_attempt = None\<rparr>),
           mgr_next := Suc (mgr_next m)\<rparr>, None))"

definition evict :: "stored_entry \<Rightarrow> manager \<Rightarrow> manager" where
  "evict s m =
     (case mgr_entries m (se_operation s) of
        None \<Rightarrow> m
      | Some e \<Rightarrow>
          m\<lparr>mgr_entries := (mgr_entries m)(se_operation s \<mapsto>
               e\<lparr>re_entries := filter (\<lambda>x. se_node x \<noteq> se_node s) (re_entries e),
                 re_bytes := re_bytes e - se_size s, re_truncated := True\<rparr>),
            mgr_order := filter (\<lambda>x. se_node x \<noteq> se_node s) (mgr_order m),
            mgr_total := mgr_total m - se_size s\<rparr>)"

partial_function (option) trim_operation :: "string \<Rightarrow> manager \<Rightarrow> manager option" where
  "trim_operation operation_id m =
     (case mgr_entries m operation_id of
        None \<Rightarrow> None
      | Some e \<Rightarrow>
          if int (length (re_entries e)) > mgr_max_entries m \<or> re_bytes e > mgr_max_operation m
          then (case re_entries e of
                  [] \<Rightarrow> None
                | s # _ \<Rightarrow> trim_operation operation_id (evict s m))
          else Some m)"

partial_function (option) trim_process :: "manager \<Rightarrow> manager option" where
  "trim_process m =
     (if mgr_total m > mgr_max_process m
      then (case mgr_order m of
              [] \<Rightarrow> Some m
            | s # _ \<Rightarrow> trim_process (evict s m))
      else Some m)"

definition push_entry :: "string \<Rightarrow> string \<Rightarrow> string \<Rightarrow> runtime_entry \<Rightarrow> manager \<Rightarrow> manager" where
  "push_entry operation_id stream text e m =
     (let s = \<lparr>se_stream = stream, se_text = text, se_operation = operation_id,
               se_size = int (length text), se_node = mgr_next m\<rparr>
      in m\<lparr>mgr_entries := (mgr_entries m)(operation_id \<mapsto>
             e\<lparr>re_entries := re_entries e @ [s], re_bytes := re_bytes e + se_size s\<rparr>),
           mgr_order := mgr_order m @ [s], mgr_total := mgr_total m + se_size s,
           mgr_next := Suc (mgr_next m)\<rparr>)"

definition append_record :: "string \<Rightarrow> string \<Rightarrow> string \<Rightarrow> manager \<Rightarrow> manager option" where
  "append_record operation_id stream text m =
     (if text = [] then Some m
      else case mgr_entries m operation_id of
             None \<Rightarrow> Some m
           | Some e \<Rightarrow>
               (case trim_operation operation_id (push_entry operation_id stream text e m) of
                  None \<Rightarrow> None
                | Some m' \<Rightarrow> trim_process m'))"

record snapshot =
  sn_available :: bool
  sn_entries :: "(string \<times> string) list"
  sn_truncated :: bool
  sn_cancelable :: bool
  sn_cancel_requested :: bool

definition snapshot_of :: "string \<Rightarrow> manager \<Rightarrow> snapshot" where
  "snapshot_of operation_id m =
     (case mgr_entries m operation_id of
        None \<Rightarrow> \<lparr>sn_available = False, sn_entries = [], sn_truncated = False,
                 sn_cancelable = False, sn_cancel_requested = False\<rparr>
      | Some e \<Rightarrow>
          \<lparr>sn_available = True,
           sn_entries = map (\<lambda>s. (se_stream s, se_text s)) (re_entries e),
           sn_truncated = re_truncated e,
           sn_cancelable = (re_state e = CancelIdle),
           sn_cancel_requested = (re_state e = CancelAccepted \<or> re_state e = CancelInFlight)\<rparr>)"

definition close_cancel :: "string \<Rightarrow> manager \<Rightarrow> manager \<times> bool" where
  "close_cancel operation_id m =
     (case mgr_entries m operation_id of
        None \<Rightarrow> (m, True)
      | Some e \<Rightarrow>
          if re_state e = CancelIdle
          then (m\<lparr>mgr_entries := (mgr_entries m)(operation_id \<mapsto>
                   e\<lparr>re_state := CancelClosed, re_cancel := None\<rparr>)\<rparr>, True)
          else (m, re_state e = CancelClosed))"

partial_function (option) evict_all :: "string \<Rightarrow> manager \<Rightarrow> manager option" where
  "evict_all operation_id m =
     (case mgr_entries m operation_id of
        None \<Rightarrow> None
      | Some e \<Rightarrow>
          (case re_entries e of
             [] \<Rightarrow> Some m
           | s # _ \<Rightarrow> evict_all operation_id (evict s m)))"

definition remove_operation :: "string \<Rightarrow> manager \<Rightarrow> manager option" where
  "remove_operation operation_id m =
     (case mgr_entries m operation_id of
        None \<Rightarrow> Some m
      | Some _ \<Rightarrow>
          (case evict_all operation_id m of
             None \<Rightarrow> None
           | Some m' \<Rightarrow> Some (m'\<lparr>mgr_entries := (mgr_entries m')(operation_id := None)\<rparr>)))"

text \<open>
  \<open>Cancel\<close> in three atomic parts: the locked prologue, the locked epilogue that runs
  after the workflow's callback, and the wake-up of a coalesced caller.  A goroutine
  between two parts is described by its program point.
\<close>

record cancel_result =
  cr_accepted :: bool
  cr_retryable :: bool

type_synonym cancel_return = "cancel_result \<times> go_error option"

datatype cancel_pc =
    CReady
  | CRunning string nat nat     \<comment> \<open>operation, entry, attempt: the callback is running\<close>
  | CWaiting nat                \<comment> \<open>blocked on the attempt's done channel\<close>
  | CReturned cancel_return
  | CPanic                      \<comment> \<open>nil callback or nil attempt\<close>

definition cancel_begin :: "string \<Rightarrow> manager \<Rightarrow> manager \<times> cancel_pc" where
  "cancel_begin operation_id m =
     (case mgr_entries m operation_id of
        None \<Rightarrow> (m, CReturned (\<lparr>cr_accepted = False, cr_retryable = False\<rparr>, Some err_not_found))
      | Some e \<Rightarrow>
          (case re_state e of
             CancelAccepted \<Rightarrow> (m, CReturned (\<lparr>cr_accepted = True, cr_retryable = False\<rparr>, None))
           | CancelClosed \<Rightarrow>
               (m, CReturned (\<lparr>cr_accepted = False, cr_retryable = False\<rparr>, Some err_not_cancelable))
           | CancelInFlight \<Rightarrow>
               (case re_attempt e of None \<Rightarrow> (m, CPanic) | Some a \<Rightarrow> (m, CWaiting a))
           | CancelIdle \<Rightarrow>
               (m\<lparr>mgr_entries := (mgr_entries m)(operation_id \<mapsto>
                     e\<lparr>re_state := CancelInFlight, re_attempt := Some (mgr_next m)\<rparr>),
                  mgr_next := Suc (mgr_next m)\<rparr>,
                if re_cancel e = None then CPanic
                else CRunning operation_id (re_id e) (mgr_next m))))"

definition cancel_finish ::
  "string \<Rightarrow> nat \<Rightarrow> nat \<Rightarrow> go_error option \<Rightarrow> manager \<Rightarrow> manager \<times> cancel_pc" where
  "cancel_finish operation_id entry attempt err m =
     (let m' = m\<lparr>mgr_attempts := (mgr_attempts m)(attempt \<mapsto> err)\<rparr>;
          m'' = (case mgr_entries m operation_id of
                   None \<Rightarrow> m'
                 | Some e \<Rightarrow>
                     if re_id e = entry \<and> re_attempt e = Some attempt
                     then m'\<lparr>mgr_entries := (mgr_entries m)(operation_id \<mapsto>
                            e\<lparr>re_state := (if err = None then CancelAccepted else CancelIdle),
                              re_attempt := None\<rparr>)\<rparr>
                     else m')
      in (m'', CReturned (case err of
             Some x \<Rightarrow> (\<lparr>cr_accepted = False, cr_retryable = True\<rparr>, Some x)
           | None \<Rightarrow> (\<lparr>cr_accepted = True, cr_retryable = False\<rparr>, None))))"

definition cancel_wake :: "nat \<Rightarrow> manager \<Rightarrow> cancel_pc" where
  "cancel_wake attempt m =
     (case mgr_attempts m attempt of
        None \<Rightarrow> CWaiting attempt
      | Some (Some err) \<Rightarrow> CReturned (\<lparr>cr_accepted = False, cr_retryable = True\<rparr>, Some err)
      | Some None \<Rightarrow> CReturned (\<lparr>cr_accepted = True, cr_retryable = False\<rparr>, None))"

section \<open>Terminal status and write retries\<close>

definition ended_by_own_context :: "ctx option \<Rightarrow> go_error \<Rightarrow> bool" where
  "ended_by_own_context c err =
     (case c of
        None \<Rightarrow> False
      | Some c \<Rightarrow>
          (case ctx_err c of
             None \<Rightarrow> False
           | Some ce \<Rightarrow>
               errors_is err ce \<or>
               (case ctx_cause c of None \<Rightarrow> False | Some cause \<Rightarrow> errors_is err cause)))"

definition terminal_status :: "ctx option \<Rightarrow> go_error option \<Rightarrow> string" where
  "terminal_status c err =
     (case err of
        None \<Rightarrow> ''success''
      | Some e \<Rightarrow> if ended_by_own_context c e then ''interrupted'' else ''failed'')"

text \<open>
  \<open>write n\<close> is the result of the n-th call, \<open>wait n\<close> the error of a context that
  ends the wait after it; the second component counts the calls made.
\<close>

function retry_loop ::
  "int \<Rightarrow> int \<Rightarrow> (int \<Rightarrow> go_error option) \<Rightarrow> (go_error \<Rightarrow> bool) option \<Rightarrow>
   (int \<Rightarrow> go_error option) \<Rightarrow> go_error option \<Rightarrow> go_error option \<times> int" where
  "retry_loop attempt attempts write final wait err =
     (if attempt \<le> attempts
      then (case write attempt of
              None \<Rightarrow> (None, attempt)
            | Some e \<Rightarrow>
                if (case final of None \<Rightarrow> False | Some f \<Rightarrow> f e) \<or> attempt = attempts
                then (Some e, attempt)
                else (case wait attempt of
                        Some ce \<Rightarrow> (Some ce, attempt)
                      | None \<Rightarrow> retry_loop (attempt + 1) attempts write final wait (Some e)))
      else (err, attempt - 1))"
  by pat_completeness auto
termination
  by (relation "measure (\<lambda>(a, n, _). nat (n + 1 - a))") auto

declare retry_loop.simps [simp del]

definition retry_write ::
  "int \<Rightarrow> (int \<Rightarrow> go_error option) \<Rightarrow> (go_error \<Rightarrow> bool) option \<Rightarrow>
   (int \<Rightarrow> go_error option) \<Rightarrow> go_error option \<times> int" where
  "retry_write attempts write final wait = retry_loop 1 attempts write final wait None"


section \<open>The preview store\<close>

subsection \<open>Well-formedness\<close>

text \<open>
  The per-operation lists and the process-wide list hold the same records: an
  operation's list is the process-wide list restricted to it, and the byte
  counters are the sums over both.
\<close>

definition runtime_wf :: "manager \<Rightarrow> bool" where
  "runtime_wf m \<longleftrightarrow>
     (\<forall>op e. mgr_entries m op = Some e \<longrightarrow>
        re_entries e = filter (\<lambda>s. se_operation s = op) (mgr_order m) \<and>
        re_bytes e = sum_list (map se_size (re_entries e))) \<and>
     (\<forall>s\<in>set (mgr_order m). 0 < se_size s \<and> mgr_entries m (se_operation s) \<noteq> None \<and>
        se_node s < mgr_next m) \<and>
     distinct (map se_node (mgr_order m)) \<and>
     mgr_total m = sum_list (map se_size (mgr_order m)) \<and>
     0 < mgr_max_entries m \<and> 0 < mgr_max_operation m \<and> 0 < mgr_max_process m"

definition runtime_bounded :: "manager \<Rightarrow> bool" where
  "runtime_bounded m \<longleftrightarrow>
     (\<forall>op e. mgr_entries m op = Some e \<longrightarrow>
        int (length (re_entries e)) \<le> mgr_max_entries m \<and> re_bytes e \<le> mgr_max_operation m) \<and>
     mgr_total m \<le> mgr_max_process m"

lemma runtime_wfD:
  assumes "runtime_wf m"
  shows "mgr_entries m op = Some e \<Longrightarrow>
      re_entries e = filter (\<lambda>s. se_operation s = op) (mgr_order m)"
    and "mgr_entries m op = Some e \<Longrightarrow> re_bytes e = sum_list (map se_size (re_entries e))"
    and "s \<in> set (mgr_order m) \<Longrightarrow> 0 < se_size s"
    and "s \<in> set (mgr_order m) \<Longrightarrow> \<exists>e. mgr_entries m (se_operation s) = Some e"
    and "s \<in> set (mgr_order m) \<Longrightarrow> se_node s < mgr_next m"
    and "distinct (map se_node (mgr_order m))"
    and "mgr_total m = sum_list (map se_size (mgr_order m))"
  using assms unfolding runtime_wf_def by fastforce+

text \<open>Evicting a stored record keeps the store well formed and removes just that record.\<close>

lemma evict_order:
  assumes "runtime_wf m" and "s \<in> set (mgr_order m)"
  shows "mgr_order (evict s m) = filter (\<lambda>x. se_node x \<noteq> se_node s) (mgr_order m)"
  using runtime_wfD(4) [OF assms] by (auto simp: evict_def)

lemma evict_frame [frame]:
  "mgr_max_entries (evict s m) = mgr_max_entries m"
  "mgr_max_operation (evict s m) = mgr_max_operation m"
  "mgr_max_process (evict s m) = mgr_max_process m"
  "mgr_next (evict s m) = mgr_next m"
  "mgr_attempts (evict s m) = mgr_attempts m"
  "mgr_stopping (evict s m) = mgr_stopping m"
  "mgr_background (evict s m) = mgr_background m"
  "mgr_live (evict s m) = mgr_live m"
  "mgr_lifetime_canceled (evict s m) = mgr_lifetime_canceled m"
  by (auto simp: evict_def split: option.splits)

lemma evict_entries_other:
  "op \<noteq> se_operation s \<Longrightarrow> mgr_entries (evict s m) op = mgr_entries m op"
  by (auto simp: evict_def split: option.splits)

lemma evict_wf:
  assumes wf: "runtime_wf m" and s: "s \<in> set (mgr_order m)"
  shows "runtime_wf (evict s m)"
proof -
  obtain e where e: "mgr_entries m (se_operation s) = Some e"
    using runtime_wfD(4) [OF wf s] by blast
  let ?m = "evict s m" and ?keep = "\<lambda>x. se_node x \<noteq> se_node s"
  have order: "mgr_order ?m = filter ?keep (mgr_order m)" by (rule evict_order [OF wf s])
  have mem: "s \<in> set (re_entries e)"
    using runtime_wfD(1) [OF wf e] s by simp
  have dist_e: "distinct (map se_node (re_entries e))"
    using runtime_wfD(1) [OF wf e] runtime_wfD(6) [OF wf] by (simp add: distinct_map_filter)
  have others: "filter (\<lambda>x. se_operation x = op) (filter ?keep (mgr_order m)) =
      filter (\<lambda>x. se_operation x = op) (mgr_order m)" if "op \<noteq> se_operation s" for op
  proof -
    have "x = s" if "x \<in> set (mgr_order m)" "se_node x = se_node s" for x
      using runtime_wfD(6) [OF wf] s that by (auto simp: distinct_map inj_on_def)
    then show ?thesis using \<open>op \<noteq> se_operation s\<close> by (auto simp: filter_filter intro!: filter_cong)
  qed
  have "re_entries f = filter (\<lambda>x. se_operation x = op) (mgr_order ?m) \<and>
      re_bytes f = sum_list (map se_size (re_entries f))"
    if f: "mgr_entries ?m op = Some f" for op f
  proof (cases "op = se_operation s")
    case True
    with f e have feq: "re_entries f = filter ?keep (re_entries e)" "re_bytes f = re_bytes e - se_size s"
      by (auto simp: evict_def)
    have "re_bytes f = sum_list (map se_size (re_entries f))"
      using feq runtime_wfD(2) [OF wf e] sum_list_filter_distinct [OF dist_e mem, of se_size] by simp
    moreover have "re_entries f = filter (\<lambda>x. se_operation x = op) (mgr_order ?m)"
      using True runtime_wfD(1) [OF wf e] by (simp add: feq order conj_commute)
    ultimately show ?thesis by simp
  next
    case False
    with f have "mgr_entries m op = Some f" by (simp add: evict_entries_other)
    with runtime_wfD(1,2) [OF wf] others [OF False] order show ?thesis by metis
  qed
  moreover have "mgr_total ?m = sum_list (map se_size (mgr_order ?m))"
    using e runtime_wfD(7) [OF wf] sum_list_filter_distinct [OF runtime_wfD(6) [OF wf] s, of se_size]
    by (simp add: order) (simp add: evict_def)
  moreover have "\<forall>x\<in>set (mgr_order ?m). 0 < se_size x \<and> mgr_entries ?m (se_operation x) \<noteq> None \<and>
      se_node x < mgr_next ?m"
    using wf e by (auto simp: order frame runtime_wf_def) (auto simp: evict_def split: if_splits)
  moreover have "distinct (map se_node (mgr_order ?m))"
    using runtime_wfD(6) [OF wf] by (simp add: order distinct_map_filter)
  ultimately show ?thesis using wf unfolding runtime_wf_def by (simp add: frame)
qed


text \<open>
  What any number of evictions leaves alone: the limits, the allocation counter,
  the cancel attempts, the background workers and each entry's cancel gate; an
  entry's preview only gets shorter.
\<close>

definition entry_shrinks :: "runtime_entry \<Rightarrow> runtime_entry \<Rightarrow> bool" where
  "entry_shrinks e e' \<longleftrightarrow>
     length (re_entries e') \<le> length (re_entries e) \<and> re_bytes e' \<le> re_bytes e \<and>
     re_id e' = re_id e \<and> re_state e' = re_state e \<and> re_attempt e' = re_attempt e \<and>
     re_cancel e' = re_cancel e \<and> (re_truncated e \<longrightarrow> re_truncated e')"

definition shrinks_to :: "manager \<Rightarrow> manager \<Rightarrow> bool" where
  "shrinks_to m m' \<longleftrightarrow>
     mgr_max_entries m' = mgr_max_entries m \<and> mgr_max_operation m' = mgr_max_operation m \<and>
     mgr_max_process m' = mgr_max_process m \<and> mgr_next m' = mgr_next m \<and>
     mgr_attempts m' = mgr_attempts m \<and> mgr_stopping m' = mgr_stopping m \<and>
     mgr_background m' = mgr_background m \<and> mgr_live m' = mgr_live m \<and>
     mgr_lifetime_canceled m' = mgr_lifetime_canceled m \<and>
     mgr_total m' \<le> mgr_total m \<and>
     (\<forall>op. rel_option entry_shrinks (mgr_entries m op) (mgr_entries m' op))"

lemma entry_shrinks_refl [simp]: "entry_shrinks e e"
  by (simp add: entry_shrinks_def)

lemma entry_shrinks_trans: "entry_shrinks e f \<Longrightarrow> entry_shrinks f g \<Longrightarrow> entry_shrinks e g"
  by (auto simp: entry_shrinks_def)

lemma shrinks_refl [simp]: "shrinks_to m m"
  by (simp add: shrinks_to_def option.rel_refl)

lemma shrinks_someD:
  "shrinks_to m m' \<Longrightarrow> mgr_entries m op = Some e \<Longrightarrow>
     \<exists>e'. mgr_entries m' op = Some e' \<and> entry_shrinks e e'"
  unfolding shrinks_to_def by (metis option_rel_Some1)

lemma shrinks_noneD:
  "shrinks_to m m' \<Longrightarrow> mgr_entries m op = None \<longleftrightarrow> mgr_entries m' op = None"
  unfolding shrinks_to_def by (metis rel_option_None1 rel_option_None2)

lemma shrinks_trans: "shrinks_to m m' \<Longrightarrow> shrinks_to m' m'' \<Longrightarrow> shrinks_to m m''"
proof -
  assume a: "shrinks_to m m'" and b: "shrinks_to m' m''"
  have "rel_option entry_shrinks (mgr_entries m op) (mgr_entries m'' op)" for op
  proof (cases "mgr_entries m op")
    case None
    with shrinks_noneD [OF a] shrinks_noneD [OF b] show ?thesis by simp
  next
    case (Some e)
    with shrinks_someD [OF a Some] shrinks_someD [OF b] show ?thesis
      by (metis entry_shrinks_trans option_rel_Some1)
  qed
  with a b show ?thesis unfolding shrinks_to_def by auto
qed

lemma evict_shrinks:
  assumes "runtime_wf m" and "s \<in> set (mgr_order m)"
  shows "shrinks_to m (evict s m)"
proof -
  obtain e where e: "mgr_entries m (se_operation s) = Some e"
    using runtime_wfD(4) [OF assms] by blast
  have "0 < se_size s" using assms by (rule runtime_wfD(3))
  then show ?thesis
    unfolding shrinks_to_def
    by (auto simp: evict_def e entry_shrinks_def option.rel_refl intro: le_trans [OF length_filter_le])
qed

lemma runtime_wf_front:
  assumes "runtime_wf m" and "mgr_entries m op = Some e" and "re_entries e = s # rest"
  shows "s \<in> set (mgr_order m)" and "se_operation s = op"
    and "mgr_entries (evict s m) op = Some (e\<lparr>re_entries := rest, re_bytes := re_bytes e - se_size s,
           re_truncated := True\<rparr>)"
proof -
  have eq: "filter (\<lambda>x. se_operation x = op) (mgr_order m) = s # rest"
    using runtime_wfD(1) [OF assms(1,2)] assms(3) by simp
  then have mem: "s \<in> set (filter (\<lambda>x. se_operation x = op) (mgr_order m))" by simp
  then show s: "s \<in> set (mgr_order m)" and op: "se_operation s = op" by auto
  have "distinct (map se_node (s # rest))"
    using runtime_wfD(6) [OF assms(1)] eq by (metis distinct_map_filter)
  then have "filter (\<lambda>x. se_node x \<noteq> se_node s) (s # rest) = rest"
    by (auto simp: filter_id_conv image_iff)
  with assms(2,3) op show "mgr_entries (evict s m) op = Some (e\<lparr>re_entries := rest,
      re_bytes := re_bytes e - se_size s, re_truncated := True\<rparr>)"
    by (auto simp: evict_def)
qed

subsection \<open>The abstract preview: one chronological list\<close>

text \<open>
  The contract of the preview store is a single list of records in arrival order:
  drop an operation's oldest records while the operation is over its bounds, then
  drop the oldest records of all while the process is over its bound.
\<close>

function keep_operation :: "int \<Rightarrow> int \<Rightarrow> string \<Rightarrow> stored_entry list \<Rightarrow> stored_entry list" where
  "keep_operation max_entries max_bytes op xs =
     (let own = filter (\<lambda>s. se_operation s = op) xs
      in if own \<noteq> [] \<and> (int (length own) > max_entries \<or> sum_list (map se_size own) > max_bytes)
         then keep_operation max_entries max_bytes op (remove_first (\<lambda>s. se_operation s = op) xs)
         else xs)"
  by pat_completeness auto

lemma remove_first_shorter: "filter P xs \<noteq> [] \<Longrightarrow> length (remove_first P xs) < length xs"
  by (induction xs) auto

termination keep_operation
  by (relation "measure (\<lambda>(_, _, _, xs). length xs)") (auto intro: remove_first_shorter)

declare keep_operation.simps [simp del]

fun keep_process :: "int \<Rightarrow> stored_entry list \<Rightarrow> stored_entry list" where
  "keep_process max_bytes [] = []"
| "keep_process max_bytes (x # xs) =
     (if sum_list (map se_size (x # xs)) > max_bytes then keep_process max_bytes xs else x # xs)"

definition entry_within :: "manager \<Rightarrow> string \<Rightarrow> bool" where
  "entry_within m op \<longleftrightarrow>
     (\<forall>e. mgr_entries m op = Some e \<longrightarrow>
        int (length (re_entries e)) \<le> mgr_max_entries m \<and> re_bytes e \<le> mgr_max_operation m)"

lemma shrinks_within: "shrinks_to m m' \<Longrightarrow> entry_within m op \<Longrightarrow> entry_within m' op"
proof -
  assume sh: "shrinks_to m m'" and w: "entry_within m op"
  show ?thesis
  proof (cases "mgr_entries m op")
    case None
    with sh show ?thesis by (simp add: shrinks_noneD entry_within_def)
  next
    case (Some e)
    from shrinks_someD [OF sh Some] w Some sh show ?thesis
      by (auto simp: entry_within_def shrinks_to_def entry_shrinks_def)
  qed
qed

lemma trim_operation_correct:
  "runtime_wf m \<Longrightarrow> mgr_entries m op = Some e \<Longrightarrow>
     \<exists>m'. trim_operation op m = Some m' \<and> runtime_wf m' \<and> shrinks_to m m' \<and> entry_within m' op \<and>
       mgr_order m' = keep_operation (mgr_max_entries m) (mgr_max_operation m) op (mgr_order m)"
proof (induction "length (re_entries e)" arbitrary: m e)
  case 0
  then have empty: "re_entries e = []" by simp
  with runtime_wfD(1,2) [OF 0(2,3)] have own: "filter (\<lambda>s. se_operation s = op) (mgr_order m) = []"
    and "re_bytes e = 0" by auto
  with 0(2,3) empty have "trim_operation op m = Some m" "entry_within m op"
    by (auto simp: trim_operation.simps runtime_wf_def entry_within_def)
  moreover have "keep_operation (mgr_max_entries m) (mgr_max_operation m) op (mgr_order m) = mgr_order m"
    by (subst keep_operation.simps) (simp add: own)
  ultimately show ?case using 0(2) by auto
next
  case (Suc n)
  obtain s rest where srest: "re_entries e = s # rest" using Suc(2) by (cases "re_entries e") auto
  note front = runtime_wf_front [OF Suc(3,4) srest]
  have own: "filter (\<lambda>x. se_operation x = op) (mgr_order m) = s # rest"
    using runtime_wfD(1) [OF Suc(3,4)] srest by simp
  have bytes: "re_bytes e = sum_list (map se_size (s # rest))"
    using runtime_wfD(2) [OF Suc(3,4)] srest by simp
  show ?case
  proof (cases "int (length (re_entries e)) > mgr_max_entries m \<or> re_bytes e > mgr_max_operation m")
    case False
    with Suc(4) have "trim_operation op m = Some m" "entry_within m op"
      by (auto simp: trim_operation.simps entry_within_def)
    moreover have "keep_operation (mgr_max_entries m) (mgr_max_operation m) op (mgr_order m) = mgr_order m"
      using False by (subst keep_operation.simps) (simp add: own srest bytes)
    ultimately show ?thesis using Suc(3) by auto
  next
    case True
    let ?m = "evict s m"
    have wf: "runtime_wf ?m" by (rule evict_wf [OF Suc(3) front(1)])
    have step: "trim_operation op m = trim_operation op ?m"
      using True Suc(4) srest by (subst trim_operation.simps) simp
    have "n = length (re_entries (e\<lparr>re_entries := rest, re_bytes := re_bytes e - se_size s,
        re_truncated := True\<rparr>))" using Suc(2) srest by simp
    from Suc(1) [OF this wf front(3)] obtain m' where m': "trim_operation op ?m = Some m'"
      "runtime_wf m'" "shrinks_to ?m m'" "entry_within m' op"
      "mgr_order m' = keep_operation (mgr_max_entries m) (mgr_max_operation m) op (mgr_order ?m)"
      by (auto simp: frame)
    have "remove_first (\<lambda>x. se_operation x = op) (mgr_order m) =
        filter (\<lambda>x. se_node x \<noteq> se_node s) (mgr_order m)"
      by (rule remove_first_filter [OF runtime_wfD(6) [OF Suc(3)] front(1)])
        (use own front(2) in auto)
    then have "keep_operation (mgr_max_entries m) (mgr_max_operation m) op (mgr_order m) =
        keep_operation (mgr_max_entries m) (mgr_max_operation m) op (mgr_order ?m)"
      using True by (subst keep_operation.simps)
        (simp add: own srest bytes evict_order [OF Suc(3) front(1)])
    with m' step shrinks_trans [OF evict_shrinks [OF Suc(3) front(1)] m'(3)] show ?thesis by auto
  qed
qed

lemma trim_process_correct:
  "runtime_wf m \<Longrightarrow>
     \<exists>m'. trim_process m = Some m' \<and> runtime_wf m' \<and> shrinks_to m m' \<and>
       mgr_total m' \<le> mgr_max_process m' \<and> mgr_order m' = keep_process (mgr_max_process m) (mgr_order m)"
proof (induction "mgr_order m" arbitrary: m)
  case Nil
  then have "mgr_total m = 0" using runtime_wfD(7) [OF Nil(2)] by simp
  moreover have "0 < mgr_max_process m" using Nil(2) by (simp add: runtime_wf_def)
  ultimately show ?case using Nil by (auto simp: trim_process.simps)
next
  case (Cons s rest)
  have s: "s \<in> set (mgr_order m)" using Cons(2) by (metis list.set_intros(1))
  have total: "mgr_total m = sum_list (map se_size (s # rest))"
    using runtime_wfD(7) [OF Cons(3)] Cons(2) by simp
  show ?case
  proof (cases "mgr_total m > mgr_max_process m")
    case False
    then have "trim_process m = Some m" by (simp add: trim_process.simps)
    with False Cons(3) total show ?thesis by (auto simp flip: Cons(2))
  next
    case True
    let ?m = "evict s m"
    have "distinct (map se_node (s # rest))" using runtime_wfD(6) [OF Cons(3)] Cons(2) by simp
    then have order: "mgr_order ?m = rest"
      unfolding evict_order [OF Cons(3) s] by (auto simp: filter_id_conv image_iff simp flip: Cons(2))
    have step: "trim_process m = trim_process ?m"
      using True by (subst trim_process.simps) (simp flip: Cons(2))
    from Cons(1) [OF order [symmetric] evict_wf [OF Cons(3) s]] obtain m' where
      m': "trim_process ?m = Some m'" "runtime_wf m'" "shrinks_to ?m m'"
        "mgr_total m' \<le> mgr_max_process m'" "mgr_order m' = keep_process (mgr_max_process m) rest"
      by (auto simp: frame order)
    with step True total shrinks_trans [OF evict_shrinks [OF Cons(3) s] m'(3)] show ?thesis
      by (auto simp flip: Cons(2))
  qed
qed


lemma push_entry_wf:
  assumes wf: "runtime_wf m" and e: "mgr_entries m op = Some e" and nonempty: "text \<noteq> []"
  shows "runtime_wf (push_entry op stream text e m)"
    and "mgr_entries (push_entry op stream text e m) op =
      Some (e\<lparr>re_entries := re_entries e @ [\<lparr>se_stream = stream, se_text = text, se_operation = op,
        se_size = int (length text), se_node = mgr_next m\<rparr>],
        re_bytes := re_bytes e + int (length text)\<rparr>)"
    and "mgr_order (push_entry op stream text e m) = mgr_order m @
      [\<lparr>se_stream = stream, se_text = text, se_operation = op,
        se_size = int (length text), se_node = mgr_next m\<rparr>]"
  using wf e nonempty
  by (auto simp: push_entry_def runtime_wf_def Let_def less_Suc_eq split: if_splits)

lemma append_record_correct:
  assumes wf: "runtime_wf m" and e: "mgr_entries m op = Some e" and nonempty: "text \<noteq> []"
  shows "\<exists>m'. append_record op stream text m = Some m' \<and> runtime_wf m' \<and>
      shrinks_to (push_entry op stream text e m) m' \<and> entry_within m' op \<and>
      mgr_total m' \<le> mgr_max_process m' \<and>
      mgr_order m' = keep_process (mgr_max_process m)
        (keep_operation (mgr_max_entries m) (mgr_max_operation m) op
          (mgr_order (push_entry op stream text e m)))"
proof -
  let ?p = "push_entry op stream text e m"
  have limits: "mgr_max_entries ?p = mgr_max_entries m" "mgr_max_operation ?p = mgr_max_operation m"
    "mgr_max_process ?p = mgr_max_process m" by (simp_all add: push_entry_def Let_def)
  from trim_operation_correct [OF push_entry_wf(1,2) [OF assms, of stream]] limits obtain m1 where
    m1: "trim_operation op ?p = Some m1" "runtime_wf m1" "shrinks_to ?p m1" "entry_within m1 op"
      "mgr_order m1 = keep_operation (mgr_max_entries m) (mgr_max_operation m) op (mgr_order ?p)"
    by auto
  have "mgr_max_process m1 = mgr_max_process m" using m1(3) limits by (simp add: shrinks_to_def)
  with trim_process_correct [OF m1(2)] m1(5) obtain m2 where
    m2: "trim_process m1 = Some m2" "runtime_wf m2" "shrinks_to m1 m2" "mgr_total m2 \<le> mgr_max_process m2"
      "mgr_order m2 = keep_process (mgr_max_process m)
        (keep_operation (mgr_max_entries m) (mgr_max_operation m) op (mgr_order ?p))" by auto
  with m1 e nonempty show ?thesis
    by (auto simp: append_record_def intro: shrinks_trans shrinks_within)
qed

lemma append_record_noop:
  "text = [] \<or> mgr_entries m op = None \<Longrightarrow> append_record op stream text m = Some m"
  by (auto simp: append_record_def)

lemma evict_all_correct:
  "runtime_wf m \<Longrightarrow> mgr_entries m op = Some e \<Longrightarrow>
     \<exists>m' e'. evict_all op m = Some m' \<and> runtime_wf m' \<and> shrinks_to m m' \<and>
       mgr_entries m' op = Some e' \<and> re_entries e' = []"
proof (induction "length (re_entries e)" arbitrary: m e)
  case 0
  then have "evict_all op m = Some m" by (simp add: evict_all.simps)
  with 0 show ?case by auto
next
  case (Suc n)
  obtain s rest where srest: "re_entries e = s # rest" using Suc(2) by (cases "re_entries e") auto
  note front = runtime_wf_front [OF Suc(3,4) srest]
  have step: "evict_all op m = evict_all op (evict s m)"
    using Suc(4) srest by (subst evict_all.simps) simp
  have "n = length (re_entries (e\<lparr>re_entries := rest, re_bytes := re_bytes e - se_size s,
      re_truncated := True\<rparr>))" using Suc(2) srest by simp
  from Suc(1) [OF this evict_wf [OF Suc(3) front(1)] front(3)] step
    evict_shrinks [OF Suc(3) front(1)] show ?case by (metis shrinks_trans)
qed

lemma runtime_wf_delete:
  assumes wf: "runtime_wf m" and e: "mgr_entries m op = Some e" and empty: "re_entries e = []"
  shows "runtime_wf (m\<lparr>mgr_entries := (mgr_entries m)(op := None)\<rparr>)"
proof -
  have "filter (\<lambda>s. se_operation s = op) (mgr_order m) = []"
    using runtime_wfD(1) [OF wf e] empty by simp
  then have "\<forall>s\<in>set (mgr_order m). se_operation s \<noteq> op" by (simp add: filter_empty_conv)
  with wf show ?thesis by (auto simp: runtime_wf_def)
qed

lemma remove_operation_correct:
  assumes wf: "runtime_wf m" and e: "mgr_entries m op = Some e"
  shows "\<exists>m1. remove_operation op m = Some (m1\<lparr>mgr_entries := (mgr_entries m1)(op := None)\<rparr>) \<and>
    shrinks_to m m1 \<and> runtime_wf (m1\<lparr>mgr_entries := (mgr_entries m1)(op := None)\<rparr>)"
proof -
  from evict_all_correct [OF assms] obtain m1 e1 where
    m1: "evict_all op m = Some m1" "runtime_wf m1" "shrinks_to m m1"
      "mgr_entries m1 op = Some e1" "re_entries e1 = []" by blast
  with e show ?thesis
    by (auto simp: remove_operation_def intro: runtime_wf_delete)
qed

lemma runtime_bounded_iff:
  "runtime_bounded m \<longleftrightarrow> (\<forall>op. entry_within m op) \<and> mgr_total m \<le> mgr_max_process m"
  by (auto simp: runtime_bounded_def entry_within_def)

lemma shrinks_bounded:
  "shrinks_to m m' \<Longrightarrow> runtime_bounded m \<Longrightarrow> runtime_bounded m'"
  unfolding runtime_bounded_iff using shrinks_within by (auto simp: shrinks_to_def)

lemma append_record_bounded:
  assumes "runtime_wf m" "runtime_bounded m" "append_record op stream text m = Some m'"
  shows "runtime_wf m' \<and> runtime_bounded m'"
proof (cases "text = [] \<or> mgr_entries m op = None")
  case True
  with assms show ?thesis by (simp add: append_record_noop)
next
  case False
  then obtain e where e: "mgr_entries m op = Some e" and nonempty: "text \<noteq> []" by auto
  from append_record_correct [OF assms(1) e nonempty, of stream] assms(3) have
    m': "runtime_wf m'" "shrinks_to (push_entry op stream text e m) m'" "entry_within m' op"
      "mgr_total m' \<le> mgr_max_process m'" by auto
  have "entry_within m' o'" for o'
  proof (cases "o' = op")
    case False
    with assms(2) have "entry_within (push_entry op stream text e m) o'"
      by (auto simp: runtime_bounded_def entry_within_def push_entry_def Let_def)
    with m'(2) show ?thesis by (rule shrinks_within)
  qed (use m'(3) in simp)
  with m' show ?thesis by (simp add: runtime_bounded_iff)
qed

text \<open>
  C1. Appending a record is the abstract operation on the chronological list, never
  dereferences an empty list, and leaves every operation and the process within its
  bounds.
\<close>

theorem append_record_refines:
  assumes "runtime_wf m" and "runtime_bounded m"
    and "mgr_entries m op = Some e" and "text \<noteq> []"
  shows "\<exists>m'. append_record op stream text m = Some m' \<and> runtime_wf m' \<and> runtime_bounded m' \<and>
      mgr_order m' = keep_process (mgr_max_process m)
        (keep_operation (mgr_max_entries m) (mgr_max_operation m) op
          (mgr_order m @ [\<lparr>se_stream = stream, se_text = text, se_operation = op,
             se_size = int (length text), se_node = mgr_next m\<rparr>]))"
  using append_record_correct [OF assms(1,3,4), of stream] push_entry_wf(3) [OF assms(1,3,4)]
    append_record_bounded [OF assms(1,2)] by metis


definition sample_manager :: manager where
  "sample_manager =
     \<lparr>mgr_entries = [''op'' \<mapsto> \<lparr>re_id = 0,
        re_entries = [\<lparr>se_stream = ''stdout'', se_text = ''abc'', se_operation = ''op'',
                       se_size = 3, se_node = 1\<rparr>],
        re_bytes = 3, re_truncated = False, re_cancel = Some 7, re_state = CancelIdle,
        re_attempt = None\<rparr>],
      mgr_order = [\<lparr>se_stream = ''stdout'', se_text = ''abc'', se_operation = ''op'',
                    se_size = 3, se_node = 1\<rparr>],
      mgr_total = 3, mgr_max_entries = 2, mgr_max_operation = 4, mgr_max_process = 9,
      mgr_next = 2, mgr_attempts = Map.empty, mgr_stopping = False, mgr_background = 0,
      mgr_live = [], mgr_lifetime_canceled = False\<rparr>"

lemma sample_manager_ok: "runtime_wf sample_manager" "runtime_bounded sample_manager"
  by (auto simp: sample_manager_def runtime_wf_def runtime_bounded_def)

theorem append_record_refines_witness:
  "\<exists>m'. append_record ''op'' ''stdout'' ''de'' sample_manager = Some m' \<and> runtime_bounded m' \<and>
     map se_text (mgr_order m') = [''de'']"
proof -
  let ?e = "the (mgr_entries sample_manager ''op'')"
  have e: "mgr_entries sample_manager ''op'' = Some ?e" by (simp add: sample_manager_def)
  have ne: "''de'' \<noteq> []" by simp
  from append_record_refines [OF sample_manager_ok e ne, of "''stdout''"] obtain m' where
    "append_record ''op'' ''stdout'' ''de'' sample_manager = Some m'" "runtime_bounded m'"
    "mgr_order m' = keep_process 9 (keep_operation 2 4 ''op''
      [\<lparr>se_stream = ''stdout'', se_text = ''abc'', se_operation = ''op'', se_size = 3, se_node = 1\<rparr>,
       \<lparr>se_stream = ''stdout'', se_text = ''de'', se_operation = ''op'', se_size = 2, se_node = 2\<rparr>])"
    by (auto simp: sample_manager_def)
  then show ?thesis by (simp add: keep_operation.simps Let_def)
qed

section \<open>Write retries\<close>

definition final_error :: "(go_error \<Rightarrow> bool) option \<Rightarrow> go_error \<Rightarrow> bool" where
  "final_error final e \<longleftrightarrow> (case final of None \<Rightarrow> False | Some f \<Rightarrow> f e)"

lemma retry_loop_spec:
  "1 \<le> attempt \<Longrightarrow> attempt \<le> attempts \<Longrightarrow>
   retry_loop attempt attempts write final wait err = (r, calls) \<Longrightarrow>
     attempt \<le> calls \<and> calls \<le> attempts \<and>
     (\<forall>k. attempt \<le> k \<and> k < calls \<longrightarrow>
        wait k = None \<and> (\<exists>e. write k = Some e \<and> \<not> final_error final e)) \<and>
     (if r = write calls then calls = attempts \<or> write calls = None \<or>
          final_error final (the (write calls)) \<or> wait calls = r
      else calls < attempts \<and> write calls \<noteq> None \<and> r \<noteq> None \<and> r = wait calls)"
proof (induction attempt attempts "write" final wait err arbitrary: r calls rule: retry_loop.induct)
  case (1 attempt attempts "write" final wait err)
  show ?case
  proof (cases "write attempt")
    case None
    with "1.prems" show ?thesis by (auto simp: retry_loop.simps [of attempt])
  next
    case (Some e)
    show ?thesis
    proof (cases "final_error final e \<or> attempt = attempts")
      case True
      with "1.prems" Some show ?thesis
        by (auto simp: retry_loop.simps [of attempt] final_error_def split: option.splits if_splits)
    next
      case False
      show ?thesis
      proof (cases "wait attempt")
        case (Some ce)
        with "1.prems" \<open>write attempt = Some e\<close> False have "r = Some ce \<and> calls = attempt"
          by (auto simp: retry_loop.simps [of attempt] final_error_def split: option.splits)
        with Some \<open>write attempt = Some e\<close> False "1.prems"(1,2) show ?thesis by auto
      next
        case None
        have rec: "retry_loop (attempt + 1) attempts write final wait (Some e) = (r, calls)"
          using "1.prems" \<open>write attempt = Some e\<close> None False
          by (simp add: retry_loop.simps [of attempt] final_error_def)
        have rest: "attempt + 1 \<le> calls \<and> calls \<le> attempts \<and>
          (\<forall>k. attempt + 1 \<le> k \<and> k < calls \<longrightarrow>
             wait k = None \<and> (\<exists>e. write k = Some e \<and> \<not> final_error final e)) \<and>
          (if r = write calls then calls = attempts \<or> write calls = None \<or>
               final_error final (the (write calls)) \<or> wait calls = r
           else calls < attempts \<and> write calls \<noteq> None \<and> r \<noteq> None \<and> r = wait calls)"
          by (rule "1.IH" [OF _ \<open>write attempt = Some e\<close> _ None _ _ rec])
            (use "1.prems" False in \<open>auto simp: final_error_def\<close>)
        moreover have "wait k = None \<and> (\<exists>e. write k = Some e \<and> \<not> final_error final e)"
          if "k = attempt" for k using that None False \<open>write attempt = Some e\<close> by simp
        ultimately have "\<forall>k. attempt \<le> k \<and> k < calls \<longrightarrow>
            wait k = None \<and> (\<exists>e. write k = Some e \<and> \<not> final_error final e)"
          by (metis add1_zle_eq order_le_less)
        with rest show ?thesis by auto
      qed
    qed
  qed
qed

text \<open>
  \<open>RetryWrite\<close> always makes the first attempt and never more than \<open>attempts\<close>; every
  attempt before the last failed inconclusively; what it returns is the last attempt's
  result, which then succeeded, was final_error or was the last one, unless the context
  ended the wait after it.
\<close>

theorem retry_write_spec:
  assumes "1 \<le> attempts" and "retry_write attempts write final wait = (r, calls)"
  shows "1 \<le> calls \<and> calls \<le> attempts \<and>
     (\<forall>k. 1 \<le> k \<and> k < calls \<longrightarrow>
        wait k = None \<and> (\<exists>e. write k = Some e \<and> \<not> final_error final e)) \<and>
     (if r = write calls then calls = attempts \<or> write calls = None \<or>
          final_error final (the (write calls)) \<or> wait calls = r
      else calls < attempts \<and> write calls \<noteq> None \<and> r \<noteq> None \<and> r = wait calls)"
  by (rule retry_loop_spec [OF order_refl assms(1) assms(2) [unfolded retry_write_def]])

theorem retry_write_spec_witness:
  "retry_write 4 (\<lambda>n. if n < 3 then Some (new_error ''database is locked'') else None) None
     (\<lambda>_. None) = (None, 3) \<and> (1::int) \<le> 3 \<and> (3::int) \<le> 4"
proof -
  have run: "retry_write 4 (\<lambda>n. if n < 3 then Some (new_error ''database is locked'') else None) None
     (\<lambda>_. None) = (None, 3)"
    by (simp add: retry_write_def retry_loop.simps)
  from retry_write_spec [OF _ run] show ?thesis using run by simp
qed

end
