(* ===== verification/RuntimeCancel.thy ===== *)
theory RuntimeCancel
  imports OperationRuntime
begin

text \<open>
  The runtime manager under concurrency: goroutines call \<open>Cancel\<close>, the launch path
  calls \<open>CloseCancel\<close>, and registration, removal, preview appends and background
  admission interleave with them.  Every rule of the step relation is one critical
  section of the manager mutex (\<open>manager.go\<close>), applied to the operations of theory
  \<open>OperationRuntime\<close>.
\<close>

section \<open>The system\<close>

record runtime_sys =
  sys_mgr :: manager
  sys_pc :: "nat \<Rightarrow> cancel_pc"

inductive runtime_step :: "runtime_sys \<Rightarrow> runtime_sys \<Rightarrow> bool" where
  cancel_call:
    "sys_pc s t = CReady \<or> (\<exists>r. sys_pc s t = CReturned r) \<Longrightarrow>
     cancel_begin op (sys_mgr s) = (m, pc) \<Longrightarrow>
     runtime_step s \<lparr>sys_mgr = m, sys_pc = (sys_pc s)(t := pc)\<rparr>"
| callback_return:
    "sys_pc s t = CRunning op entry attempt \<Longrightarrow>
     cancel_finish op entry attempt err (sys_mgr s) = (m, pc) \<Longrightarrow>
     runtime_step s \<lparr>sys_mgr = m, sys_pc = (sys_pc s)(t := pc)\<rparr>"
| attempt_done:
    "sys_pc s t = CWaiting attempt \<Longrightarrow> mgr_attempts (sys_mgr s) attempt \<noteq> None \<Longrightarrow>
     runtime_step s (s\<lparr>sys_pc := (sys_pc s)(t := cancel_wake attempt (sys_mgr s))\<rparr>)"
| closes: "close_cancel op (sys_mgr s) = (m, b) \<Longrightarrow> runtime_step s (s\<lparr>sys_mgr := m\<rparr>)"
| registers: "register op cb (sys_mgr s) = (m, r) \<Longrightarrow> runtime_step s (s\<lparr>sys_mgr := m\<rparr>)"
| appends: "append_record op stream content (sys_mgr s) = Some m \<Longrightarrow>
     runtime_step s (s\<lparr>sys_mgr := m\<rparr>)"
| removes: "remove_operation op (sys_mgr s) = Some m \<Longrightarrow> runtime_step s (s\<lparr>sys_mgr := m\<rparr>)"
| background: "begin_background (sys_mgr s) = (m, r) \<Longrightarrow> runtime_step s (s\<lparr>sys_mgr := m\<rparr>)"
| background_ends: "runtime_step s (s\<lparr>sys_mgr := background_done token (sys_mgr s)\<rparr>)"
| stops: "runtime_step s (s\<lparr>sys_mgr := begin_stop (sys_mgr s)\<rparr>)"

definition runtime_init :: "runtime_sys \<Rightarrow> bool" where
  "runtime_init s \<longleftrightarrow>
     (\<exists>a b c. new_with_limits a b c = Some (sys_mgr s)) \<and> (\<forall>t. sys_pc s t = CReady)"

section \<open>Invariant\<close>

definition gate_ok :: "runtime_entry \<Rightarrow> bool" where
  "gate_ok e \<longleftrightarrow> (re_state e = CancelInFlight \<longleftrightarrow> re_attempt e \<noteq> None) \<and>
     (re_state e = CancelIdle \<or> re_state e = CancelInFlight \<longrightarrow> re_cancel e \<noteq> None)"

type_synonym pcs = "nat \<Rightarrow> cancel_pc"

definition gates_ok :: "manager \<Rightarrow> pcs \<Rightarrow> bool" where
  "gates_ok m pc \<longleftrightarrow>
     (\<forall>op e. mgr_entries m op = Some e \<longrightarrow> re_id e < mgr_next m \<and> gate_ok e \<and>
        (\<forall>a. re_attempt e = Some a \<longrightarrow> (\<exists>t. pc t = CRunning op (re_id e) a))) \<and>
     (\<forall>op op' e e'. mgr_entries m op = Some e \<and> mgr_entries m op' = Some e' \<and>
        re_id e = re_id e' \<longrightarrow> op = op')"

definition running_ok :: "manager \<Rightarrow> pcs \<Rightarrow> bool" where
  "running_ok m pc \<longleftrightarrow>
     (\<forall>t op i a. pc t = CRunning op i a \<longrightarrow>
        a < mgr_next m \<and> i < mgr_next m \<and> mgr_attempts m a = None \<and>
        (\<forall>op' e. mgr_entries m op' = Some e \<and> re_id e = i \<longrightarrow> op' = op \<and> re_attempt e = Some a))"

definition unique_ok :: "pcs \<Rightarrow> bool" where
  "unique_ok pc \<longleftrightarrow>
     (\<forall>t t' op op' i i' a a'. pc t = CRunning op i a \<and> pc t' = CRunning op' i' a' \<and>
        (i = i' \<or> a = a') \<longrightarrow> t = t')"

definition waiting_ok :: "manager \<Rightarrow> pcs \<Rightarrow> bool" where
  "waiting_ok m pc \<longleftrightarrow>
     (\<forall>t a. pc t = CWaiting a \<longrightarrow> a < mgr_next m \<and>
        (mgr_attempts m a \<noteq> None \<or> (\<exists>t' op i. pc t' = CRunning op i a))) \<and>
     (\<forall>a. mgr_next m \<le> a \<longrightarrow> mgr_attempts m a = None) \<and>
     (\<forall>t. pc t \<noteq> CPanic)"

definition cancel_ok :: "manager \<Rightarrow> pcs \<Rightarrow> bool" where
  "cancel_ok m pc \<longleftrightarrow> gates_ok m pc \<and> running_ok m pc \<and> unique_ok pc \<and> waiting_ok m pc"

definition background_ok :: "manager \<Rightarrow> bool" where
  "background_ok m \<longleftrightarrow> mgr_background m = int (length (mgr_live m)) \<and> distinct (mgr_live m) \<and>
     (\<forall>w\<in>set (mgr_live m). w < mgr_next m) \<and> (mgr_stopping m \<longleftrightarrow> mgr_lifetime_canceled m)"

definition runtime_inv :: "runtime_sys \<Rightarrow> bool" where
  "runtime_inv s \<longleftrightarrow> runtime_wf (sys_mgr s) \<and> runtime_bounded (sys_mgr s) \<and>
     background_ok (sys_mgr s) \<and> cancel_ok (sys_mgr s) (sys_pc s)"

text \<open>
  A change of the manager that leaves every cancel gate as it was, or removes an
  entry, keeps the gate invariants; previews and background admission are such
  changes.
\<close>

definition same_gate :: "runtime_entry \<Rightarrow> runtime_entry \<Rightarrow> bool" where
  "same_gate e e' \<longleftrightarrow> re_id e' = re_id e \<and> re_state e' = re_state e \<and>
     re_attempt e' = re_attempt e \<and> re_cancel e' = re_cancel e"

definition gates_within :: "manager \<Rightarrow> manager \<Rightarrow> bool" where
  "gates_within m m' \<longleftrightarrow> mgr_next m \<le> mgr_next m' \<and> mgr_attempts m' = mgr_attempts m \<and>
     (\<forall>op e'. mgr_entries m' op = Some e' \<longrightarrow>
        (\<exists>e. mgr_entries m op = Some e \<and> same_gate e e'))"

lemma gates_within_refl [simp]: "gates_within m m"
  by (simp add: gates_within_def same_gate_def)

lemma gates_within_keeps:
  assumes gw: "gates_within m m'" and ok: "cancel_ok m pc"
  shows "cancel_ok m' pc"
proof -
  have old: "\<exists>e. mgr_entries m op = Some e \<and> same_gate e e'" if "mgr_entries m' op = Some e'" for op e'
    using gw that unfolding gates_within_def by blast
  have next_le: "mgr_next m \<le> mgr_next m'" and att [simp]: "mgr_attempts m' = mgr_attempts m"
    using gw by (simp_all add: gates_within_def)
  have g: "gates_ok m pc" and r: "running_ok m pc" and u: "unique_ok pc" and w: "waiting_ok m pc"
    using ok by (simp_all add: cancel_ok_def)
  have "re_id e' < mgr_next m' \<and> gate_ok e' \<and>
      (\<forall>a. re_attempt e' = Some a \<longrightarrow> (\<exists>t. pc t = CRunning op (re_id e') a))"
    if e': "mgr_entries m' op = Some e'" for op e'
  proof -
    from old [OF e'] obtain e where e: "mgr_entries m op = Some e" "same_gate e e'" by blast
    with g have "re_id e < mgr_next m \<and> gate_ok e \<and>
      (\<forall>a. re_attempt e = Some a \<longrightarrow> (\<exists>t. pc t = CRunning op (re_id e) a))"
      unfolding gates_ok_def by blast
    with e(2) next_le show ?thesis by (auto simp: same_gate_def gate_ok_def)
  qed
  moreover have "op = op'" if "mgr_entries m' op = Some e" "mgr_entries m' op' = Some e'"
    "re_id e = re_id e'" for op op' e e'
  proof -
    from old [OF that(1)] old [OF that(2)] that(3) obtain f f' where
      "mgr_entries m op = Some f" "mgr_entries m op' = Some f'" "re_id f = re_id f'"
      by (auto simp: same_gate_def)
    with g show ?thesis unfolding gates_ok_def by blast
  qed
  ultimately have "gates_ok m' pc" unfolding gates_ok_def by blast
  moreover have "running_ok m' pc"
    unfolding running_ok_def
  proof (intro allI impI)
    fix t op i a assume pc: "pc t = CRunning op i a"
    with r have r0: "a < mgr_next m \<and> i < mgr_next m \<and> mgr_attempts m a = None \<and>
      (\<forall>op' e. mgr_entries m op' = Some e \<and> re_id e = i \<longrightarrow> op' = op \<and> re_attempt e = Some a)"
      unfolding running_ok_def by blast
    have "op' = op \<and> re_attempt e = Some a" if "mgr_entries m' op' = Some e" "re_id e = i" for op' e
      using old [OF that(1)] that(2) r0 by (auto simp: same_gate_def)
    with r0 next_le show "a < mgr_next m' \<and> i < mgr_next m' \<and> mgr_attempts m' a = None \<and>
      (\<forall>op' e. mgr_entries m' op' = Some e \<and> re_id e = i \<longrightarrow> op' = op \<and> re_attempt e = Some a)"
      by auto
  qed
  moreover have "waiting_ok m' pc"
    using w unfolding waiting_ok_def att by (metis next_le le_trans less_le_trans)
  ultimately show ?thesis using u by (simp add: cancel_ok_def)
qed

section \<open>Each operation keeps the invariant\<close>

lemma shrinks_gates_within: "shrinks_to m m' \<Longrightarrow> gates_within m m'"
  unfolding gates_within_def
proof (intro conjI allI impI)
  assume sh: "shrinks_to m m'"
  then show "mgr_next m \<le> mgr_next m'" "mgr_attempts m' = mgr_attempts m"
    by (simp_all add: shrinks_to_def)
  fix op e' assume e': "mgr_entries m' op = Some e'"
  with shrinks_noneD [OF sh] obtain e where e: "mgr_entries m op = Some e"
    by (metis option.exhaust)
  with shrinks_someD [OF sh e] e' show "\<exists>e. mgr_entries m op = Some e \<and> same_gate e e'"
    by (auto simp: entry_shrinks_def same_gate_def)
qed

lemma same_gate_trans: "same_gate e f \<Longrightarrow> same_gate f g \<Longrightarrow> same_gate e g"
  by (simp add: same_gate_def)

lemma gates_within_trans: "gates_within m m' \<Longrightarrow> gates_within m' m'' \<Longrightarrow> gates_within m m''"
proof -
  assume a: "gates_within m m'" and b: "gates_within m' m''"
  have "\<exists>e. mgr_entries m op = Some e \<and> same_gate e g" if "mgr_entries m'' op = Some g" for op g
  proof -
    from b that obtain f where f: "mgr_entries m' op = Some f" "same_gate f g"
      unfolding gates_within_def by blast
    with a obtain e where "mgr_entries m op = Some e" "same_gate e f"
      unfolding gates_within_def by blast
    with f(2) show ?thesis by (blast intro: same_gate_trans)
  qed
  with a b show ?thesis by (simp add: gates_within_def)
qed

lemma append_record_gates:
  assumes wf: "runtime_wf m" and ap: "append_record op stream content m = Some m'"
  shows "gates_within m m'"
    and "mgr_background m' = mgr_background m" "mgr_live m' = mgr_live m"
      "mgr_stopping m' = mgr_stopping m" "mgr_lifetime_canceled m' = mgr_lifetime_canceled m"
proof -
  have "gates_within m m' \<and> mgr_background m' = mgr_background m \<and> mgr_live m' = mgr_live m \<and>
      mgr_stopping m' = mgr_stopping m \<and> mgr_lifetime_canceled m' = mgr_lifetime_canceled m"
  proof (cases "content = [] \<or> mgr_entries m op = None")
    case True
    with ap show ?thesis by (simp add: append_record_noop)
  next
    case False
    then obtain e where e: "mgr_entries m op = Some e" and ne: "content \<noteq> []" by auto
    from append_record_correct [OF wf e ne, of stream] ap
    have sh: "shrinks_to (push_entry op stream content e m) m'" by auto
    have "gates_within m (push_entry op stream content e m)"
      using e by (auto simp: gates_within_def push_entry_def Let_def same_gate_def)
    with shrinks_gates_within [OF sh] sh show ?thesis
      by (auto simp: shrinks_to_def push_entry_def Let_def intro: gates_within_trans)
  qed
  then show "gates_within m m'"
    and "mgr_background m' = mgr_background m" "mgr_live m' = mgr_live m"
      "mgr_stopping m' = mgr_stopping m" "mgr_lifetime_canceled m' = mgr_lifetime_canceled m"
    by blast+
qed

lemma remove_operation_gates:
  assumes wf: "runtime_wf m" and rm: "remove_operation op m = Some m'"
  shows "gates_within m m'" "runtime_wf m'" "runtime_bounded m \<Longrightarrow> runtime_bounded m'"
    and "mgr_background m' = mgr_background m" "mgr_live m' = mgr_live m"
      "mgr_stopping m' = mgr_stopping m" "mgr_lifetime_canceled m' = mgr_lifetime_canceled m"
      "mgr_next m' = mgr_next m" "mgr_entries m' op = None"
proof -
  have "gates_within m m' \<and> runtime_wf m' \<and> (runtime_bounded m \<longrightarrow> runtime_bounded m') \<and>
      mgr_background m' = mgr_background m \<and> mgr_live m' = mgr_live m \<and>
      mgr_stopping m' = mgr_stopping m \<and> mgr_lifetime_canceled m' = mgr_lifetime_canceled m \<and>
      mgr_next m' = mgr_next m \<and> mgr_entries m' op = None"
  proof (cases "mgr_entries m op")
    case None
    with rm wf show ?thesis by (simp add: remove_operation_def)
  next
    case (Some e)
    from remove_operation_correct [OF wf Some] rm obtain m1 where
      m': "m' = m1\<lparr>mgr_entries := (mgr_entries m1)(op := None)\<rparr>" and sh: "shrinks_to m m1"
      and wf': "runtime_wf m'" by auto
    have "gates_within m1 m'" by (auto simp: m' gates_within_def same_gate_def)
    moreover have "runtime_bounded m1 \<Longrightarrow> runtime_bounded m'"
      by (auto simp: m' runtime_bounded_def)
    ultimately show ?thesis
      using shrinks_gates_within [OF sh] sh wf' shrinks_bounded [OF sh]
      by (auto simp: shrinks_to_def m' intro: gates_within_trans)
  qed
  then show "gates_within m m'" "runtime_wf m'" "runtime_bounded m \<Longrightarrow> runtime_bounded m'"
    and "mgr_background m' = mgr_background m" "mgr_live m' = mgr_live m"
      "mgr_stopping m' = mgr_stopping m" "mgr_lifetime_canceled m' = mgr_lifetime_canceled m"
      "mgr_next m' = mgr_next m" "mgr_entries m' op = None"
    by blast+
qed


text \<open>Changing the cancel gate of one entry leaves the preview store alone.\<close>

definition same_preview :: "runtime_entry \<Rightarrow> runtime_entry \<Rightarrow> bool" where
  "same_preview e e' \<longleftrightarrow> re_entries e' = re_entries e \<and> re_bytes e' = re_bytes e"

lemma gate_update_store:
  assumes "mgr_entries m op = Some e" and "same_preview e e'" and "mgr_next m \<le> n"
  shows "runtime_wf m \<Longrightarrow>
      runtime_wf (m\<lparr>mgr_entries := (mgr_entries m)(op \<mapsto> e'), mgr_next := n, mgr_attempts := at\<rparr>)"
    and "runtime_bounded m \<Longrightarrow>
      runtime_bounded (m\<lparr>mgr_entries := (mgr_entries m)(op \<mapsto> e'), mgr_next := n, mgr_attempts := at\<rparr>)"
proof -
  let ?m = "m\<lparr>mgr_entries := (mgr_entries m)(op \<mapsto> e'), mgr_next := n, mgr_attempts := at\<rparr>"
  have lookup: "\<exists>g. mgr_entries m o' = Some g \<and> re_entries f = re_entries g \<and> re_bytes f = re_bytes g"
    if "mgr_entries ?m o' = Some f" for o' f
    using that assms(1,2) by (auto simp: same_preview_def split: if_splits)
  show "runtime_wf ?m" if wf: "runtime_wf m"
  proof -
    have "re_entries f = filter (\<lambda>s. se_operation s = o') (mgr_order ?m) \<and>
        re_bytes f = sum_list (map se_size (re_entries f))" if f: "mgr_entries ?m o' = Some f" for o' f
      using lookup [OF f] runtime_wfD(1,2) [OF wf] by auto
    moreover have "\<forall>s\<in>set (mgr_order ?m). 0 < se_size s \<and> mgr_entries ?m (se_operation s) \<noteq> None \<and>
        se_node s < mgr_next ?m"
      using wf assms(3) by (auto simp: runtime_wf_def)
    ultimately show ?thesis using wf by (simp add: runtime_wf_def)
  qed
  show "runtime_bounded ?m" if b: "runtime_bounded m"
  proof -
    have "int (length (re_entries f)) \<le> mgr_max_entries ?m \<and> re_bytes f \<le> mgr_max_operation ?m"
      if f: "mgr_entries ?m o' = Some f" for o' f
      using lookup [OF f] b by (auto simp: runtime_bounded_def)
    with b show ?thesis by (simp add: runtime_bounded_def)
  qed
qed

lemma cancel_okD:
  assumes "cancel_ok m pc"
  shows "mgr_entries m op = Some e \<Longrightarrow> re_id e < mgr_next m \<and> gate_ok e"
    and "mgr_entries m op = Some e \<Longrightarrow> re_attempt e = Some a \<Longrightarrow> \<exists>t. pc t = CRunning op (re_id e) a"
    and "mgr_entries m op = Some e \<Longrightarrow> mgr_entries m op' = Some e' \<Longrightarrow> re_id e = re_id e' \<Longrightarrow> op = op'"
    and "pc t = CRunning op i a \<Longrightarrow> a < mgr_next m \<and> i < mgr_next m \<and> mgr_attempts m a = None"
    and "pc t = CRunning op i a \<Longrightarrow> mgr_entries m op' = Some e \<Longrightarrow> re_id e = i \<Longrightarrow>
      op' = op \<and> re_attempt e = Some a"
    and "pc t = CRunning op i a \<Longrightarrow> pc t' = CRunning op' i' a' \<Longrightarrow> i = i' \<or> a = a' \<Longrightarrow> t = t'"
    and "pc t = CWaiting a \<Longrightarrow> a < mgr_next m \<and>
      (mgr_attempts m a \<noteq> None \<or> (\<exists>t' op i. pc t' = CRunning op i a))"
    and "mgr_next m \<le> a \<Longrightarrow> mgr_attempts m a = None"
    and "pc t \<noteq> CPanic"
proof -
  have g: "gates_ok m pc" and r: "running_ok m pc" and u: "unique_ok pc" and w: "waiting_ok m pc"
    using assms by (simp_all add: cancel_ok_def)
  show "mgr_entries m op = Some e \<Longrightarrow> re_id e < mgr_next m \<and> gate_ok e"
    and "mgr_entries m op = Some e \<Longrightarrow> re_attempt e = Some a \<Longrightarrow> \<exists>t. pc t = CRunning op (re_id e) a"
    and "mgr_entries m op = Some e \<Longrightarrow> mgr_entries m op' = Some e' \<Longrightarrow> re_id e = re_id e' \<Longrightarrow> op = op'"
    using g unfolding gates_ok_def by blast+
  show "pc t = CRunning op i a \<Longrightarrow> a < mgr_next m \<and> i < mgr_next m \<and> mgr_attempts m a = None"
    and "pc t = CRunning op i a \<Longrightarrow> mgr_entries m op' = Some e \<Longrightarrow> re_id e = i \<Longrightarrow>
      op' = op \<and> re_attempt e = Some a"
    using r unfolding running_ok_def by blast+
  show "pc t = CRunning op i a \<Longrightarrow> pc t' = CRunning op' i' a' \<Longrightarrow> i = i' \<or> a = a' \<Longrightarrow> t = t'"
    using u unfolding unique_ok_def by blast
  show "pc t = CWaiting a \<Longrightarrow> a < mgr_next m \<and>
      (mgr_attempts m a \<noteq> None \<or> (\<exists>t' op i. pc t' = CRunning op i a))"
    and "mgr_next m \<le> a \<Longrightarrow> mgr_attempts m a = None" and "pc t \<noteq> CPanic"
    using w unfolding waiting_ok_def by blast+
qed

lemma cancel_okI:
  assumes "\<And>op e. mgr_entries m op = Some e \<Longrightarrow> re_id e < mgr_next m \<and> gate_ok e"
    and "\<And>op e a. mgr_entries m op = Some e \<Longrightarrow> re_attempt e = Some a \<Longrightarrow>
      \<exists>t. pc t = CRunning op (re_id e) a"
    and "\<And>op op' e e'. mgr_entries m op = Some e \<Longrightarrow> mgr_entries m op' = Some e' \<Longrightarrow>
      re_id e = re_id e' \<Longrightarrow> op = op'"
    and "\<And>t op i a. pc t = CRunning op i a \<Longrightarrow>
      a < mgr_next m \<and> i < mgr_next m \<and> mgr_attempts m a = None"
    and "\<And>t op i a op' e. pc t = CRunning op i a \<Longrightarrow> mgr_entries m op' = Some e \<Longrightarrow> re_id e = i \<Longrightarrow>
      op' = op \<and> re_attempt e = Some a"
    and "\<And>t t' op op' i i' a a'. pc t = CRunning op i a \<Longrightarrow> pc t' = CRunning op' i' a' \<Longrightarrow>
      i = i' \<or> a = a' \<Longrightarrow> t = t'"
    and "\<And>t a. pc t = CWaiting a \<Longrightarrow> a < mgr_next m \<and>
      (mgr_attempts m a \<noteq> None \<or> (\<exists>t' op i. pc t' = CRunning op i a))"
    and "\<And>a. mgr_next m \<le> a \<Longrightarrow> mgr_attempts m a = None"
    and "\<And>t. pc t \<noteq> CPanic"
  shows "cancel_ok m pc"
proof -
  have "gates_ok m pc" unfolding gates_ok_def using assms(1,2,3) by blast
  moreover have "running_ok m pc" unfolding running_ok_def using assms(4,5) by blast
  moreover have "unique_ok pc" unfolding unique_ok_def using assms(6) by blast
  moreover have "waiting_ok m pc" unfolding waiting_ok_def using assms(7,8,9) by blast
  ultimately show ?thesis by (simp add: cancel_ok_def)
qed

definition not_running :: "cancel_pc \<Rightarrow> bool" where
  "not_running p \<longleftrightarrow> (\<forall>op i a. p \<noteq> CRunning op i a)"

lemma cancel_ok_pc:
  assumes ok: "cancel_ok m pc" and nr: "not_running (pc t)" "not_running p" "p \<noteq> CPanic"
    and wt: "\<And>a. p = CWaiting a \<Longrightarrow> a < mgr_next m \<and>
      (mgr_attempts m a \<noteq> None \<or> (\<exists>t' op i. pc t' = CRunning op i a))"
  shows "cancel_ok m (pc(t := p))"
proof -
  have iff: "(pc(t := p)) t' = CRunning op i a \<longleftrightarrow> pc t' = CRunning op i a" for t' op i a
    using nr(1,2) by (auto simp: not_running_def)
  show ?thesis
  proof (rule cancel_okI; (simp only: iff)?)
    fix t' a assume "(pc(t := p)) t' = CWaiting a"
    then show "a < mgr_next m \<and> (mgr_attempts m a \<noteq> None \<or> (\<exists>t' op i. pc t' = CRunning op i a))"
      using wt cancel_okD(7) [OF ok, of t' a] by (cases "t' = t") simp_all
  next
    fix t' show "(pc(t := p)) t' \<noteq> CPanic" using nr(3) cancel_okD(9) [OF ok] by simp
  qed (fact cancel_okD [OF ok])+
qed

lemma cancel_begin_ok:
  assumes ok: "cancel_ok m pc" and nr: "not_running (pc t)"
    and eq: "cancel_begin op m = (m', p)"
  shows "cancel_ok m' (pc(t := p))"
    and "runtime_wf m \<Longrightarrow> runtime_wf m'" "runtime_bounded m \<Longrightarrow> runtime_bounded m'"
    and "mgr_background m' = mgr_background m" "mgr_live m' = mgr_live m"
      "mgr_stopping m' = mgr_stopping m" "mgr_lifetime_canceled m' = mgr_lifetime_canceled m"
      "mgr_next m \<le> mgr_next m'"
proof -
  have "cancel_ok m' (pc(t := p)) \<and> (runtime_wf m \<longrightarrow> runtime_wf m') \<and>
    (runtime_bounded m \<longrightarrow> runtime_bounded m') \<and> mgr_background m' = mgr_background m \<and>
    mgr_live m' = mgr_live m \<and> mgr_stopping m' = mgr_stopping m \<and>
    mgr_lifetime_canceled m' = mgr_lifetime_canceled m \<and> mgr_next m \<le> mgr_next m'"
  proof (cases "\<exists>e. mgr_entries m op = Some e \<and> re_state e = CancelIdle")
    case False
    have attempt: "\<exists>a. re_attempt e = Some a" if "mgr_entries m op = Some e" "re_state e = CancelInFlight" for e
      using cancel_okD(1) [OF ok that(1)] that(2) by (auto simp: gate_ok_def)
    then have same: "m' = m" and np: "not_running p" "p \<noteq> CPanic"
      and wt': "\<And>a. p = CWaiting a \<Longrightarrow> \<exists>e. mgr_entries m op = Some e \<and> re_attempt e = Some a"
      using eq False
      by (auto simp: cancel_begin_def not_running_def split: option.splits cancel_state.splits) 
    have "a < mgr_next m \<and> (mgr_attempts m a \<noteq> None \<or> (\<exists>t' op i. pc t' = CRunning op i a))"
      if p: "p = CWaiting a" for a
      using wt' [OF p] cancel_okD(2,4) [OF ok] by blast
    with cancel_ok_pc [OF ok nr np] same show ?thesis by simp
  next
    case True
    then obtain e where e: "mgr_entries m op = Some e" "re_state e = CancelIdle" by blast
    let ?n = "mgr_next m"
    let ?e = "e\<lparr>re_state := CancelInFlight, re_attempt := Some ?n\<rparr>"
    have g: "re_id e < ?n" "gate_ok e" using cancel_okD(1) [OF ok e(1)] by auto
    then have none: "re_attempt e = None" "re_cancel e \<noteq> None" using e(2) by (auto simp: gate_ok_def)
    have m': "m' = m\<lparr>mgr_entries := (mgr_entries m)(op \<mapsto> ?e), mgr_next := Suc ?n\<rparr>"
      and p: "p = CRunning op (re_id e) ?n"
      using eq e none by (auto simp: cancel_begin_def)
    have norun: "pc t' \<noteq> CRunning op' (re_id e) a" for t' op' a
      using cancel_okD(5) [OF ok _ e(1)] none by fastforce
    have pct: "pc t \<noteq> CRunning op' i a" for op' i a using nr by (simp add: not_running_def)
    have "cancel_ok m' (pc(t := p))"
    proof (rule cancel_okI)
      fix op' e' assume a: "mgr_entries m' op' = Some e'"
      show "re_id e' < mgr_next m' \<and> gate_ok e'"
        using a cancel_okD(1) [OF ok, of op' e'] g none
        by (auto simp: m' gate_ok_def split: if_splits)
      fix at assume "re_attempt e' = Some at"
      with a show "\<exists>t'. (pc(t := p)) t' = CRunning op' (re_id e') at"
        using cancel_okD(2) [OF ok, of op' e' at] pct
        by (auto simp: m' p split: if_splits) metis
    next
      fix op1 op2 e1 e2
      assume "mgr_entries m' op1 = Some e1" "mgr_entries m' op2 = Some e2" "re_id e1 = re_id e2"
      then show "op1 = op2"
        using cancel_okD(3) [OF ok] e(1) by (fastforce simp: m' split: if_splits)
    next
      fix t' op' i a assume a: "(pc(t := p)) t' = CRunning op' i a"
      show "a < mgr_next m' \<and> i < mgr_next m' \<and> mgr_attempts m' a = None"
        using a cancel_okD(4) [OF ok, of t' op' i a] cancel_okD(8) [OF ok, of ?n] g
        by (auto simp: m' p split: if_splits)
      fix op2 e2 assume e2: "mgr_entries m' op2 = Some e2" "re_id e2 = i"
      show "op2 = op' \<and> re_attempt e2 = Some a"
      proof (cases "op2 = op")
        case True
        with e2 have "e2 = ?e" by (simp add: m')
        with e2(2) a norun have "t' = t" by (auto split: if_splits)
        with a True \<open>e2 = ?e\<close> show ?thesis by (simp add: p)
      next
        case False
        with e2(1) have old: "mgr_entries m op2 = Some e2" by (simp add: m')
        with cancel_okD(3) [OF ok e(1)] False e2(2) have "i \<noteq> re_id e" by metis
        with a have "pc t' = CRunning op' i a" by (auto simp: p split: if_splits)
        from cancel_okD(5) [OF ok this old e2(2)] show ?thesis .
      qed
    next
      fix t1 t2 o1 o2 i1 i2 a1 a2
      assume "(pc(t := p)) t1 = CRunning o1 i1 a1" "(pc(t := p)) t2 = CRunning o2 i2 a2"
        "i1 = i2 \<or> a1 = a2"
      note r = this
      show "t1 = t2"
      proof (cases "t1 = t"; cases "t2 = t")
        assume n: "t1 \<noteq> t" "t2 \<noteq> t"
        with r have "pc t1 = CRunning o1 i1 a1" "pc t2 = CRunning o2 i2 a2" by simp_all
        then show ?thesis using cancel_okD(6) [OF ok] r(3) by blast
      next
        assume n: "t1 = t" "t2 \<noteq> t"
        with r have "pc t2 = CRunning o2 i2 a2" "i1 = re_id e" "a1 = ?n" by (simp_all add: p)
        with cancel_okD(4) [OF ok] norun r(3) show ?thesis by (metis less_irrefl)
      next
        assume n: "t1 \<noteq> t" "t2 = t"
        with r have "pc t1 = CRunning o1 i1 a1" "i2 = re_id e" "a2 = ?n" by (simp_all add: p)
        with cancel_okD(4) [OF ok] norun r(3) show ?thesis by (metis less_irrefl)
      qed simp
    next
      fix t' a assume "(pc(t := p)) t' = CWaiting a"
      then have "pc t' = CWaiting a" by (auto simp: p split: if_splits)
      note w = cancel_okD(7) [OF ok this]
      have "\<exists>t' op i. (pc(t := p)) t' = CRunning op i a" if "\<exists>t' op i. pc t' = CRunning op i a"
      proof -
        from that obtain t2 o2 i2 where r: "pc t2 = CRunning o2 i2 a" by blast
        with pct have "t2 \<noteq> t" by auto
        with r have "(pc(t := p)) t2 = CRunning o2 i2 a" by simp
        then show ?thesis by blast
      qed
      with w have "a < mgr_next m \<and> (mgr_attempts m a \<noteq> None \<or>
          (\<exists>t' op i. (pc(t := p)) t' = CRunning op i a))" by blast
      then show "a < mgr_next m' \<and> (mgr_attempts m' a \<noteq> None \<or>
          (\<exists>t' op i. (pc(t := p)) t' = CRunning op i a))"
        by (simp add: m' del: fun_upd_apply)
    qed (use cancel_okD(8,9) [OF ok] in \<open>auto simp: m' p\<close>)
    moreover have "same_preview e ?e" by (simp add: same_preview_def)
    from gate_update_store [OF e(1) this, of "Suc ?n" "mgr_attempts m"]
    have "runtime_wf m \<longrightarrow> runtime_wf m'" "runtime_bounded m \<longrightarrow> runtime_bounded m'"
      by (auto simp: m')
    ultimately show ?thesis by (auto simp: m')
  qed
  then show "cancel_ok m' (pc(t := p))"
    and "runtime_wf m \<Longrightarrow> runtime_wf m'" "runtime_bounded m \<Longrightarrow> runtime_bounded m'"
    and "mgr_background m' = mgr_background m" "mgr_live m' = mgr_live m"
      "mgr_stopping m' = mgr_stopping m" "mgr_lifetime_canceled m' = mgr_lifetime_canceled m"
      "mgr_next m \<le> mgr_next m'"
    by blast+
qed


text \<open>The epilogue of \<open>Cancel\<close>: the attempt is published and its entry's gate reopened or closed for good.\<close>

lemma cancel_finish_ok:
  assumes ok: "cancel_ok m pc" and run: "pc t = CRunning op i a"
    and eq: "cancel_finish op i a err m = (m', p)"
  shows "cancel_ok m' (pc(t := p))"
    and "runtime_wf m \<Longrightarrow> runtime_wf m'" "runtime_bounded m \<Longrightarrow> runtime_bounded m'"
    and "mgr_background m' = mgr_background m" "mgr_live m' = mgr_live m"
      "mgr_stopping m' = mgr_stopping m" "mgr_lifetime_canceled m' = mgr_lifetime_canceled m"
      "mgr_next m' = mgr_next m"
proof -
  have p: "not_running p" "p \<noteq> CPanic" "\<And>b. p \<noteq> CWaiting b"
    using eq by (auto simp: cancel_finish_def Let_def not_running_def split: option.splits)
  have fresh: "a < mgr_next m" "mgr_attempts m a = None" using cancel_okD(4) [OF ok run] by auto
  define g where "g = (if err = None then CancelAccepted else CancelIdle)"
  have att: "mgr_attempts m' = (mgr_attempts m)(a \<mapsto> err)" and nx: "mgr_next m' = mgr_next m"
    using eq by (auto simp: cancel_finish_def Let_def split: option.splits if_splits)
  have ent: "(mgr_entries m' = mgr_entries m \<and>
        \<not> (\<exists>e. mgr_entries m op = Some e \<and> re_id e = i \<and> re_attempt e = Some a)) \<or>
      (\<exists>e. mgr_entries m op = Some e \<and> re_id e = i \<and> re_attempt e = Some a \<and>
        mgr_entries m' = (mgr_entries m)(op \<mapsto> e\<lparr>re_state := g, re_attempt := None\<rparr>))"
  proof (cases "mgr_entries m op")
    case None
    with eq show ?thesis by (auto simp: cancel_finish_def Let_def)
  next
    case (Some e)
    with eq show ?thesis
      by (cases "re_id e = i \<and> re_attempt e = Some a") (auto simp: cancel_finish_def Let_def g_def)
  qed
  have g: "g = CancelAccepted \<or> g = CancelIdle" by (simp add: g_def)
  have look: "\<exists>e. mgr_entries m o' = Some e \<and> re_id e' = re_id e \<and> same_preview e e' \<and>
      (e' = e \<or> (o' = op \<and> re_id e = i \<and> re_attempt e = Some a \<and>
        e' = e\<lparr>re_state := g, re_attempt := None\<rparr>))"
    if "mgr_entries m' o' = Some e'" for o' e'
    using ent that by (auto simp: same_preview_def split: if_splits)
  have gone: "\<not> (\<exists>o' e'. mgr_entries m' o' = Some e' \<and> re_attempt e' = Some a)"
  proof
    assume "\<exists>o' e'. mgr_entries m' o' = Some e' \<and> re_attempt e' = Some a"
    then obtain o' e' where e': "mgr_entries m' o' = Some e'" "re_attempt e' = Some a" by blast
    from look [OF e'(1)] e'(2) have e: "mgr_entries m o' = Some e'" by auto
    from cancel_okD(2) [OF ok e e'(2)] obtain t2 where t2: "pc t2 = CRunning o' (re_id e') a" by blast
    with cancel_okD(6) [OF ok run t2] run have "o' = op" "re_id e' = i" by auto
    with e e' ent have "e' = e'\<lparr>re_state := g, re_attempt := None\<rparr>" by auto
    then have "re_attempt e' = None" by (metis runtime_entry.select_convs(7) runtime_entry.surjective
          runtime_entry.update_convs(6,7))
    with e'(2) show False by simp
  qed
  have oth: "(pc(t := p)) t' = CRunning o' i' a' \<longleftrightarrow> t' \<noteq> t \<and> pc t' = CRunning o' i' a'" for t' o' i' a'
    using p(1) by (auto simp: not_running_def)
  have "cancel_ok m' (pc(t := p))"
  proof (rule cancel_okI; (simp only: oth)?)
    fix o' e' assume a': "mgr_entries m' o' = Some e'"
    from look [OF a'] obtain e where e: "mgr_entries m o' = Some e" "re_id e' = re_id e"
      "e' = e \<or> (re_attempt e = Some a \<and> e' = e\<lparr>re_state := g, re_attempt := None\<rparr>)" by blast
    with cancel_okD(1) [OF ok e(1)] g show "re_id e' < mgr_next m' \<and> gate_ok e'"
      by (auto simp: nx gate_ok_def)
    fix b assume b: "re_attempt e' = Some b"
    with e(3) have "e' = e" by auto
    with cancel_okD(2) [OF ok e(1)] b obtain t' where t': "pc t' = CRunning o' (re_id e') b" by blast
    moreover have "t' \<noteq> t" using gone a' b run t' by auto
    ultimately show "\<exists>t'. t' \<noteq> t \<and> pc t' = CRunning o' (re_id e') b" by blast
  next
    fix o1 o2 e1 e2
    assume "mgr_entries m' o1 = Some e1" "mgr_entries m' o2 = Some e2" "re_id e1 = re_id e2"
    with look [of o1 e1] look [of o2 e2] show "o1 = o2" using cancel_okD(3) [OF ok] by metis
  next
    fix t' o' i' b assume r: "t' \<noteq> t \<and> pc t' = CRunning o' i' b"
    then have "b \<noteq> a" using cancel_okD(6) [OF ok, of t' o' i' b t op i a] run by auto
    with r cancel_okD(4) [OF ok, of t' o' i' b]
    show "b < mgr_next m' \<and> i' < mgr_next m' \<and> mgr_attempts m' b = None" by (simp add: nx att)
    fix o2 e2 assume e2: "mgr_entries m' o2 = Some e2" "re_id e2 = i'"
    from look [OF e2(1)] obtain e where e: "mgr_entries m o2 = Some e" "re_id e2 = re_id e"
      "e2 = e \<or> re_attempt e = Some a" by blast
    with r e2(2) have "o2 = o' \<and> re_attempt e = Some b" using cancel_okD(5) [OF ok, of t' o' i' b o2 e] by simp
    with e(3) \<open>b \<noteq> a\<close> show "o2 = o' \<and> re_attempt e2 = Some b" by auto
  next
    fix t1 t2 o1 o2 i1 i2 a1 a2
    assume "t1 \<noteq> t \<and> pc t1 = CRunning o1 i1 a1" "t2 \<noteq> t \<and> pc t2 = CRunning o2 i2 a2" "i1 = i2 \<or> a1 = a2"
    then show "t1 = t2" using cancel_okD(6) [OF ok] by blast
  next
    fix t' b assume "(pc(t := p)) t' = CWaiting b"
    with p(3) have w: "pc t' = CWaiting b" by (auto split: if_splits)
    show "b < mgr_next m' \<and> (mgr_attempts m' b \<noteq> None \<or> (\<exists>t' o' i'. t' \<noteq> t \<and> pc t' = CRunning o' i' b))"
    proof (cases "b = a")
      case True
      with fresh show ?thesis by (simp add: nx att)
    next
      case False
      with cancel_okD(7) [OF ok w] run show ?thesis by (simp add: nx att) (metis cancel_pc.inject(1))
    qed
  next
    fix b assume "mgr_next m' \<le> b"
    with fresh cancel_okD(8) [OF ok, of b] show "mgr_attempts m' b = None" by (auto simp: nx att)
  next
    fix t' show "(pc(t := p)) t' \<noteq> CPanic" using p(2) cancel_okD(9) [OF ok] by simp
  qed
  moreover have "(runtime_wf m \<longrightarrow> runtime_wf m') \<and> (runtime_bounded m \<longrightarrow> runtime_bounded m')"
  proof (cases "mgr_entries m op")
    case None
    then have "m' = m\<lparr>mgr_attempts := (mgr_attempts m)(a \<mapsto> err)\<rparr>"
      using eq by (simp add: cancel_finish_def Let_def)
    then show ?thesis by (simp add: runtime_wf_def runtime_bounded_def)
  next
    case (Some e)
    define e' where "e' = (if re_id e = i \<and> re_attempt e = Some a
      then e\<lparr>re_state := g, re_attempt := None\<rparr> else e)"
    have e'1: "same_preview e e'" by (simp add: e'_def same_preview_def)
    have "m' = m\<lparr>mgr_entries := (mgr_entries m)(op \<mapsto> e'), mgr_next := mgr_next m,
         mgr_attempts := (mgr_attempts m)(a \<mapsto> err)\<rparr>"
      using eq Some by (cases m) (auto simp: cancel_finish_def Let_def e'_def g_def fun_upd_idem)
    note e' = e'1 this
    from gate_update_store [OF Some e'(1) order_refl] e'(2) show ?thesis by blast
  qed
  ultimately show "cancel_ok m' (pc(t := p))"
    and "runtime_wf m \<Longrightarrow> runtime_wf m'" "runtime_bounded m \<Longrightarrow> runtime_bounded m'" by blast+
  show "mgr_background m' = mgr_background m" "mgr_live m' = mgr_live m"
      "mgr_stopping m' = mgr_stopping m" "mgr_lifetime_canceled m' = mgr_lifetime_canceled m"
      "mgr_next m' = mgr_next m"
    using eq by (auto simp: cancel_finish_def Let_def split: option.splits if_splits)
qed


text \<open>Installing an entry whose gate has no attempt: a registration, or a gate closed before use.\<close>

lemma cancel_ok_put:
  assumes ok: "cancel_ok m pc" and e': "gate_ok e'" "re_attempt e' = None"
    and how: "(\<exists>e. mgr_entries m op = Some e \<and> re_id e' = re_id e \<and> re_attempt e = None \<and> n = mgr_next m) \<or>
      (re_id e' = mgr_next m \<and> n = Suc (mgr_next m))"
  shows "cancel_ok (m\<lparr>mgr_entries := (mgr_entries m)(op \<mapsto> e'), mgr_next := n\<rparr>) pc"
proof -
  let ?m = "m\<lparr>mgr_entries := (mgr_entries m)(op \<mapsto> e'), mgr_next := n\<rparr>"
  have nle: "mgr_next m \<le> n" using how by auto
  have idlt: "re_id e' < n" using how cancel_okD(1) [OF ok] by auto
  have norun: "pc t \<noteq> CRunning o' (re_id e') a" for t o' a
  proof
    assume r: "pc t = CRunning o' (re_id e') a"
    from how show False
    proof (elim disjE exE conjE)
      fix e assume "mgr_entries m op = Some e" "re_id e' = re_id e" "re_attempt e = None"
      with cancel_okD(5) [OF ok r, of op e] show False by simp
    next
      assume "re_id e' = mgr_next m"
      with cancel_okD(4) [OF ok r] show False by simp
    qed
  qed
  have other: "re_id f \<noteq> re_id e'" if "mgr_entries m o' = Some f" "o' \<noteq> op" for o' f
    using how
  proof (elim disjE exE conjE)
    fix e assume "mgr_entries m op = Some e" "re_id e' = re_id e"
    with cancel_okD(3) [OF ok that(1)] that(2) show ?thesis by metis
  next
    assume "re_id e' = mgr_next m"
    with cancel_okD(1) [OF ok that(1)] show ?thesis by simp
  qed
  show ?thesis
  proof (rule cancel_okI)
    fix o' f assume f: "mgr_entries ?m o' = Some f"
    show "re_id f < mgr_next ?m \<and> gate_ok f"
    proof (cases "o' = op")
      case True
      with f idlt e'(1) show ?thesis by simp
    next
      case False
      with f cancel_okD(1) [OF ok, of o' f] nle show ?thesis by simp
    qed
    fix a assume "re_attempt f = Some a"
    with f e'(2) have "mgr_entries m o' = Some f" by (auto split: if_splits)
    from cancel_okD(2) [OF ok this \<open>re_attempt f = Some a\<close>] show "\<exists>t. pc t = CRunning o' (re_id f) a" .
  next
    fix o1 o2 e1 e2
    assume "mgr_entries ?m o1 = Some e1" "mgr_entries ?m o2 = Some e2" "re_id e1 = re_id e2"
    then show "o1 = o2"
      using cancel_okD(3) [OF ok, of o1 e1 o2 e2] other [of o1 e1] other [of o2 e2]
      by (auto split: if_splits)
  next
    fix t o' i a assume r: "pc t = CRunning o' i a"
    with cancel_okD(4) [OF ok r] nle
    show "a < mgr_next ?m \<and> i < mgr_next ?m \<and> mgr_attempts ?m a = None" by simp
    fix o2 e2 assume e2: "mgr_entries ?m o2 = Some e2" "re_id e2 = i"
    with norun r have "mgr_entries m o2 = Some e2" by (auto split: if_splits)
    from cancel_okD(5) [OF ok r this e2(2)] show "o2 = o' \<and> re_attempt e2 = Some a" .
  next
    fix t a assume w: "pc t = CWaiting a"
    with cancel_okD(7) [OF ok w] nle show "a < mgr_next ?m \<and> (mgr_attempts ?m a \<noteq> None \<or>
      (\<exists>t' op i. pc t' = CRunning op i a))" by simp
  qed (use cancel_okD(6,8,9) [OF ok] nle in auto)
qed

lemma close_cancel_ok:
  assumes ok: "cancel_ok m pc" and eq: "close_cancel op m = (m', b)"
  shows "cancel_ok m' pc"
    and "runtime_wf m \<Longrightarrow> runtime_wf m'" "runtime_bounded m \<Longrightarrow> runtime_bounded m'"
    and "mgr_background m' = mgr_background m" "mgr_live m' = mgr_live m"
      "mgr_stopping m' = mgr_stopping m" "mgr_lifetime_canceled m' = mgr_lifetime_canceled m"
      "mgr_next m' = mgr_next m"
proof -
  have "cancel_ok m' pc \<and> (runtime_wf m \<longrightarrow> runtime_wf m') \<and> (runtime_bounded m \<longrightarrow> runtime_bounded m') \<and>
    mgr_background m' = mgr_background m \<and> mgr_live m' = mgr_live m \<and>
    mgr_stopping m' = mgr_stopping m \<and> mgr_lifetime_canceled m' = mgr_lifetime_canceled m \<and>
    mgr_next m' = mgr_next m"
  proof (cases "\<exists>e. mgr_entries m op = Some e \<and> re_state e = CancelIdle")
    case False
    with eq have "m' = m" by (auto simp: close_cancel_def split: option.splits)
    with ok show ?thesis by simp
  next
    case True
    then obtain e where e: "mgr_entries m op = Some e" "re_state e = CancelIdle" by blast
    let ?e = "e\<lparr>re_state := CancelClosed, re_cancel := None\<rparr>"
    have none: "re_attempt e = None" using cancel_okD(1) [OF ok e(1)] e(2) by (auto simp: gate_ok_def)
    have m': "m' = m\<lparr>mgr_entries := (mgr_entries m)(op \<mapsto> ?e), mgr_next := mgr_next m\<rparr>"
      using eq e by (cases m) (auto simp: close_cancel_def)
    have "cancel_ok m' pc"
      unfolding m' by (rule cancel_ok_put [OF ok]) (use e(1) none in \<open>auto simp: gate_ok_def\<close>)
    moreover have "same_preview e ?e" by (simp add: same_preview_def)
    note gate_update_store [OF e(1) this, of "mgr_next m" "mgr_attempts m"]
    ultimately show ?thesis by (cases m) (auto simp: m')
  qed
  then show "cancel_ok m' pc"
    and "runtime_wf m \<Longrightarrow> runtime_wf m'" "runtime_bounded m \<Longrightarrow> runtime_bounded m'"
    and "mgr_background m' = mgr_background m" "mgr_live m' = mgr_live m"
      "mgr_stopping m' = mgr_stopping m" "mgr_lifetime_canceled m' = mgr_lifetime_canceled m"
      "mgr_next m' = mgr_next m" by blast+
qed

lemma register_ok:
  assumes ok: "cancel_ok m pc" and eq: "register op cb m = (m', r)"
  shows "cancel_ok m' pc"
    and "runtime_wf m \<Longrightarrow> runtime_wf m'" "runtime_wf m \<Longrightarrow> runtime_bounded m \<Longrightarrow> runtime_bounded m'"
    and "mgr_background m' = mgr_background m" "mgr_live m' = mgr_live m"
      "mgr_stopping m' = mgr_stopping m" "mgr_lifetime_canceled m' = mgr_lifetime_canceled m"
      "mgr_next m \<le> mgr_next m'"
proof -
  have "cancel_ok m' pc \<and> (runtime_wf m \<longrightarrow> runtime_wf m') \<and>
    (runtime_wf m \<longrightarrow> runtime_bounded m \<longrightarrow> runtime_bounded m') \<and>
    mgr_background m' = mgr_background m \<and> mgr_live m' = mgr_live m \<and>
    mgr_stopping m' = mgr_stopping m \<and> mgr_lifetime_canceled m' = mgr_lifetime_canceled m \<and>
    mgr_next m \<le> mgr_next m'"
  proof (cases "op = [] \<or> mgr_entries m op \<noteq> None")
    case True
    with eq have "m' = m" by (auto simp: register_def split: if_splits)
    with ok show ?thesis by simp
  next
    case False
    let ?e = "\<lparr>re_id = mgr_next m, re_entries = [], re_bytes = 0, re_truncated = False,
              re_cancel = cb, re_state = (if cb = None then CancelClosed else CancelIdle),
              re_attempt = None\<rparr>"
    have m': "m' = m\<lparr>mgr_entries := (mgr_entries m)(op \<mapsto> ?e), mgr_next := Suc (mgr_next m)\<rparr>"
      using eq False by (simp add: register_def)
    have "cancel_ok m' pc"
      unfolding m' by (rule cancel_ok_put [OF ok]) (auto simp: gate_ok_def)
    moreover have "runtime_wf m'" if wf: "runtime_wf m"
    proof -
      have "filter (\<lambda>s. se_operation s = op) (mgr_order m) = []"
        using False runtime_wfD(4) [OF wf] by (fastforce simp: filter_empty_conv)
      with wf show ?thesis by (auto simp: m' runtime_wf_def)
    qed
    moreover have "runtime_bounded m'" if "runtime_wf m" "runtime_bounded m"
      using that by (auto simp: m' runtime_bounded_def runtime_wf_def)
    ultimately show ?thesis by (auto simp: m')
  qed
  then show "cancel_ok m' pc"
    and "runtime_wf m \<Longrightarrow> runtime_wf m'" "runtime_wf m \<Longrightarrow> runtime_bounded m \<Longrightarrow> runtime_bounded m'"
    and "mgr_background m' = mgr_background m" "mgr_live m' = mgr_live m"
      "mgr_stopping m' = mgr_stopping m" "mgr_lifetime_canceled m' = mgr_lifetime_canceled m"
      "mgr_next m \<le> mgr_next m'" by blast+
qed

lemma background_frame:
  "begin_background m = (m', r) \<Longrightarrow> gates_within m m' \<and> (runtime_wf m \<longrightarrow> runtime_wf m') \<and>
     (runtime_bounded m \<longrightarrow> runtime_bounded m') \<and> (background_ok m \<longrightarrow> background_ok m')"
  "gates_within m (background_done w m) \<and> (runtime_wf m \<longrightarrow> runtime_wf (background_done w m)) \<and>
     (runtime_bounded m \<longrightarrow> runtime_bounded (background_done w m)) \<and>
     (background_ok m \<longrightarrow> background_ok (background_done w m))"
  "gates_within m (begin_stop m) \<and> (runtime_wf m \<longrightarrow> runtime_wf (begin_stop m)) \<and>
     (runtime_bounded m \<longrightarrow> runtime_bounded (begin_stop m)) \<and>
     (background_ok m \<longrightarrow> background_ok (begin_stop m))"
proof -
  show "gates_within m m' \<and> (runtime_wf m \<longrightarrow> runtime_wf m') \<and>
     (runtime_bounded m \<longrightarrow> runtime_bounded m') \<and> (background_ok m \<longrightarrow> background_ok m')"
    if "begin_background m = (m', r)"
    using that by (auto simp: begin_background_def gates_within_def same_gate_def runtime_wf_def
        runtime_bounded_def background_ok_def less_Suc_eq split: if_splits)
  have "int (length (remove1 w (mgr_live m))) = int (length (mgr_live m)) - 1" if "w \<in> set (mgr_live m)"
    using that length_pos_if_in_set [OF that] by (simp add: length_remove1 of_nat_diff Suc_leI)
  then show "gates_within m (background_done w m) \<and> (runtime_wf m \<longrightarrow> runtime_wf (background_done w m)) \<and>
     (runtime_bounded m \<longrightarrow> runtime_bounded (background_done w m)) \<and>
     (background_ok m \<longrightarrow> background_ok (background_done w m))"
    by (auto simp: background_done_def gates_within_def same_gate_def runtime_wf_def
        runtime_bounded_def background_ok_def)
  show "gates_within m (begin_stop m) \<and> (runtime_wf m \<longrightarrow> runtime_wf (begin_stop m)) \<and>
     (runtime_bounded m \<longrightarrow> runtime_bounded (begin_stop m)) \<and>
     (background_ok m \<longrightarrow> background_ok (begin_stop m))"
    by (auto simp: begin_stop_def gates_within_def same_gate_def runtime_wf_def
        runtime_bounded_def background_ok_def)
qed

lemma cancel_wake_ok:
  assumes ok: "cancel_ok m pc" and w: "pc t = CWaiting a" and d: "mgr_attempts m a \<noteq> None"
  shows "cancel_ok m (pc(t := cancel_wake a m))"
  using d by (intro cancel_ok_pc [OF ok])
    (auto simp: w cancel_wake_def not_running_def split: option.splits)

section \<open>Reachable states\<close>

lemma background_ok_mono:
  assumes "background_ok m" and "mgr_background m' = mgr_background m" "mgr_live m' = mgr_live m"
    "mgr_stopping m' = mgr_stopping m" "mgr_lifetime_canceled m' = mgr_lifetime_canceled m"
    "mgr_next m \<le> mgr_next m'"
  shows "background_ok m'"
  using assms by (auto simp: background_ok_def)

lemma new_manager_ok:
  "new_with_limits a b c = Some m \<Longrightarrow>
     runtime_wf m \<and> runtime_bounded m \<and> background_ok m \<and> mgr_entries m = Map.empty \<and>
     mgr_attempts m = Map.empty"
  by (auto simp: new_with_limits_def runtime_wf_def runtime_bounded_def background_ok_def split: if_splits)

lemma runtime_inv_init: "runtime_init s \<Longrightarrow> runtime_inv s"
proof -
  assume "runtime_init s"
  then obtain a b c where new: "new_with_limits a b c = Some (sys_mgr s)"
    and pc: "\<And>t. sys_pc s t = CReady"
    by (auto simp: runtime_init_def)
  note m = new_manager_ok [OF new]
  have "cancel_ok (sys_mgr s) (sys_pc s)"
    by (rule cancel_okI) (simp_all add: m pc)
  with m show ?thesis by (simp add: runtime_inv_def)
qed

lemma gates_within_next: "gates_within m m' \<Longrightarrow> mgr_next m \<le> mgr_next m'"
  by (simp add: gates_within_def)

lemma runtime_inv_step: "runtime_step s u \<Longrightarrow> runtime_inv s \<Longrightarrow> runtime_inv u"
proof (induction rule: runtime_step.induct)
  case (cancel_call s t op m pc)
  then have nr: "not_running (sys_pc s t)" by (auto simp: not_running_def)
  from cancel_call have inv: "cancel_ok (sys_mgr s) (sys_pc s)" "background_ok (sys_mgr s)"
    "runtime_wf (sys_mgr s)" "runtime_bounded (sys_mgr s)" by (simp_all add: runtime_inv_def)
  note facts = cancel_begin_ok [OF inv(1) nr cancel_call(2)]
  show ?case using facts(1-3) inv background_ok_mono [OF inv(2) facts(4-8)] by (simp add: runtime_inv_def)
next
  case (callback_return s t op i a err m pc)
  then have inv: "cancel_ok (sys_mgr s) (sys_pc s)" "background_ok (sys_mgr s)"
    "runtime_wf (sys_mgr s)" "runtime_bounded (sys_mgr s)" by (simp_all add: runtime_inv_def)
  note facts = cancel_finish_ok [OF inv(1) callback_return(1,2)]
  show ?case using facts(1-3) inv background_ok_mono [OF inv(2) facts(4-7)] facts(8)
    by (simp add: runtime_inv_def)
next
  case (attempt_done s t a)
  then show ?case by (simp add: runtime_inv_def cancel_wake_ok)
next
  case (closes op s m b)
  then have inv: "cancel_ok (sys_mgr s) (sys_pc s)" "background_ok (sys_mgr s)"
    "runtime_wf (sys_mgr s)" "runtime_bounded (sys_mgr s)" by (simp_all add: runtime_inv_def)
  note facts = close_cancel_ok [OF inv(1) closes(1)]
  show ?case using facts(1-3) inv background_ok_mono [OF inv(2) facts(4-7)] facts(8)
    by (simp add: runtime_inv_def)
next
  case (registers op cb s m r)
  then have inv: "cancel_ok (sys_mgr s) (sys_pc s)" "background_ok (sys_mgr s)"
    "runtime_wf (sys_mgr s)" "runtime_bounded (sys_mgr s)" by (simp_all add: runtime_inv_def)
  note facts = register_ok [OF inv(1) registers(1)]
  show ?case using facts(1-3) inv background_ok_mono [OF inv(2) facts(4-8)] by (simp add: runtime_inv_def)
next
  case (appends op stream content s m)
  then have inv: "cancel_ok (sys_mgr s) (sys_pc s)" "background_ok (sys_mgr s)"
    "runtime_wf (sys_mgr s)" "runtime_bounded (sys_mgr s)" by (simp_all add: runtime_inv_def)
  note facts = append_record_gates [OF inv(3) appends(1)] append_record_bounded [OF inv(3,4) appends(1)]
  show ?case using facts inv gates_within_keeps [OF facts(1) inv(1)]
      background_ok_mono [OF inv(2) facts(2-5) gates_within_next [OF facts(1)]]
    by (simp add: runtime_inv_def)
next
  case (removes op s m)
  then have inv: "cancel_ok (sys_mgr s) (sys_pc s)" "background_ok (sys_mgr s)"
    "runtime_wf (sys_mgr s)" "runtime_bounded (sys_mgr s)" by (simp_all add: runtime_inv_def)
  note facts = remove_operation_gates [OF inv(3) removes(1)]
  show ?case using facts inv gates_within_keeps [OF facts(1) inv(1)]
      background_ok_mono [OF inv(2) facts(4-7)]
    by (simp add: runtime_inv_def)
next
  case (background s m r)
  then show ?case using background_frame(1) [OF background(1)] gates_within_keeps
    by (auto simp: runtime_inv_def)
next
  case (background_ends s token)
  then show ?case using background_frame(2) [of "sys_mgr s" token] gates_within_keeps
    by (auto simp: runtime_inv_def)
next
  case (stops s)
  then show ?case using background_frame(3) [of "sys_mgr s"] gates_within_keeps
    by (auto simp: runtime_inv_def)
qed

interpretation runtime: step_system runtime_init runtime_step runtime_inv
  by unfold_locales (fact runtime_inv_init, fact runtime_inv_step)


text \<open>
  How a gate can move: only an idle or an in-flight gate changes, so a closed and an
  accepted gate are final for the registration they belong to.
\<close>

definition gate_moves :: "manager \<Rightarrow> manager \<Rightarrow> bool" where
  "gate_moves m m' \<longleftrightarrow> mgr_next m \<le> mgr_next m' \<and>
     (\<forall>op e'. mgr_entries m' op = Some e' \<longrightarrow> mgr_next m \<le> re_id e' \<or>
        (\<exists>e. mgr_entries m op = Some e \<and> re_id e' = re_id e \<and>
          (re_state e' = re_state e \<or> re_state e = CancelIdle \<or> re_state e = CancelInFlight)))"

lemma gates_within_moves: "gates_within m m' \<Longrightarrow> gate_moves m m'"
  by (fastforce simp: gates_within_def gate_moves_def same_gate_def)

lemma runtime_step_moves:
  "runtime_step s u \<Longrightarrow> runtime_inv s \<Longrightarrow> gate_moves (sys_mgr s) (sys_mgr u)"
proof (induction rule: runtime_step.induct)
  case (cancel_call s t op m pc)
  then show ?case
    by (auto simp: cancel_begin_def gate_moves_def split: option.splits cancel_state.splits if_splits)
next
  case (callback_return s t op i a err m pc)
  then have ok: "cancel_ok (sys_mgr s) (sys_pc s)" by (simp add: runtime_inv_def)
  have "re_state e = CancelInFlight"
    if "mgr_entries (sys_mgr s) op = Some e" "re_attempt e = Some a" for e
    using cancel_okD(1) [OF ok that(1)] that(2) by (simp add: gate_ok_def)
  with callback_return(2) show ?case
    by (auto simp: cancel_finish_def Let_def gate_moves_def split: option.splits if_splits)
next
  case (attempt_done s t a)
  then show ?case by (auto simp: gate_moves_def)
next
  case (closes op s m b)
  then show ?case by (auto simp: close_cancel_def gate_moves_def split: option.splits if_splits)
next
  case (registers op cb s m r)
  then show ?case by (auto simp: register_def gate_moves_def split: if_splits)
next
  case (appends op stream content s m)
  then show ?case using append_record_gates(1) gates_within_moves by (fastforce simp: runtime_inv_def)
next
  case (removes op s m)
  then show ?case using remove_operation_gates(1) gates_within_moves by (fastforce simp: runtime_inv_def)
next
  case (background s m r)
  then show ?case using background_frame(1) gates_within_moves by fastforce
next
  case (background_ends s token)
  then show ?case using background_frame(2) gates_within_moves by fastforce
next
  case (stops s)
  then show ?case using background_frame(3) gates_within_moves by fastforce
qed

definition gate_settled :: "nat \<Rightarrow> cancel_state \<Rightarrow> runtime_sys \<Rightarrow> bool" where
  "gate_settled i g s \<longleftrightarrow> (g = CancelClosed \<or> g = CancelAccepted) \<and> i < mgr_next (sys_mgr s) \<and>
     (\<forall>op e. mgr_entries (sys_mgr s) op = Some e \<and> re_id e = i \<longrightarrow> re_state e = g)"

lemma gate_settled_step:
  assumes "runtime_step s u" and "runtime_inv s" and "gate_settled i g s"
  shows "gate_settled i g u"
proof -
  have mv: "gate_moves (sys_mgr s) (sys_mgr u)" using assms(1,2) by (rule runtime_step_moves)
  have "re_state e' = g" if "mgr_entries (sys_mgr u) op = Some e'" "re_id e' = i" for op e'
  proof -
    from mv that(1) consider "mgr_next (sys_mgr s) \<le> re_id e'" |
      e where "mgr_entries (sys_mgr s) op = Some e" "re_id e' = re_id e"
        "re_state e' = re_state e \<or> re_state e = CancelIdle \<or> re_state e = CancelInFlight"
      unfolding gate_moves_def by blast
    then show ?thesis
      using assms(3) that(2) by cases (auto simp: gate_settled_def)
  qed
  with mv assms(3) show ?thesis by (auto simp: gate_settled_def gate_moves_def)
qed

interpretation settled: stable_fact runtime_init runtime_step runtime_inv "gate_settled i g" for i g
  by unfold_locales (rule gate_settled_step)

definition stopped_with :: "nat set \<Rightarrow> runtime_sys \<Rightarrow> bool" where
  "stopped_with ws s \<longleftrightarrow> mgr_stopping (sys_mgr s) \<and> set (mgr_live (sys_mgr s)) \<subseteq> ws"

lemma stopped_with_step:
  assumes "runtime_step s u" and "runtime_inv s" and "stopped_with ws s"
  shows "stopped_with ws u"
proof -
  from assms(2) have ok: "cancel_ok (sys_mgr s) (sys_pc s)" and wf: "runtime_wf (sys_mgr s)"
    by (simp_all add: runtime_inv_def)
  from assms(1) show ?thesis
  proof cases
    case (cancel_call t op m pc)
    then show ?thesis using assms(3) cancel_begin_ok(5,6) [OF ok, of t op m pc]
      by (auto simp: stopped_with_def not_running_def)
  next
    case (callback_return t op i a err m pc)
    then show ?thesis using assms(3) cancel_finish_ok(5,6) [OF ok] by (auto simp: stopped_with_def)
  next
    case (closes op m b)
    then show ?thesis using assms(3) close_cancel_ok(5,6) [OF ok] by (auto simp: stopped_with_def)
  next
    case (registers op cb m r)
    then show ?thesis using assms(3) register_ok(5,6) [OF ok] by (auto simp: stopped_with_def)
  next
    case (appends op stream content m)
    then show ?thesis using assms(3) append_record_gates(3,4) [OF wf] by (auto simp: stopped_with_def)
  next
    case (removes op m)
    then show ?thesis using assms(3) remove_operation_gates(5,6) [OF wf] by (auto simp: stopped_with_def)
  next
    case (background m r)
    then show ?thesis using assms(3) by (auto simp: stopped_with_def begin_background_def)
  next
    case (background_ends token)
    then show ?thesis using assms(3) by (auto simp: stopped_with_def background_done_def dest: notin_set_remove1 set_mp [OF set_remove1_subset])
  next
    case stops
    then show ?thesis using assms(3) by (auto simp: stopped_with_def begin_stop_def)
  qed (use assms(3) in \<open>auto simp: stopped_with_def\<close>)
qed

interpretation stopped: stable_fact runtime_init runtime_step runtime_inv "stopped_with ws" for ws
  by unfold_locales (rule stopped_with_step)

section \<open>Properties\<close>

text \<open>
  C2. Concurrent cancel requests are coalesced: in every reachable state at most one
  goroutine runs the cancel callback of a registration, no goroutine dereferences a nil
  callback or attempt, and every goroutine blocked on an attempt waits for one that is
  finished or still running.
\<close>

theorem cancel_coalesced:
  assumes "runtime_init s0" and "runtime_step\<^sup>*\<^sup>* s0 s"
  shows "(sys_pc s t = CRunning op i a \<and> sys_pc s t' = CRunning op' i a' \<longrightarrow> t = t') \<and>
      sys_pc s t \<noteq> CPanic \<and>
      (sys_pc s t = CWaiting a \<longrightarrow> mgr_attempts (sys_mgr s) a \<noteq> None \<or>
        (\<exists>t' op i. sys_pc s t' = CRunning op i a))"
proof -
  have ok: "cancel_ok (sys_mgr s) (sys_pc s)"
    using runtime.inv_reachable [OF assms] by (simp add: runtime_inv_def)
  show ?thesis using cancel_okD(6,7,9) [OF ok] by blast
qed

text \<open>
  Launch admission: once \<open>CloseCancel\<close> answered true for a registered operation, that
  registration's gate stays closed whatever happens next, and a late \<open>Cancel\<close> is answered
  "not cancelable" without running the callback.
\<close>

theorem close_cancel_is_final:
  assumes "runtime_init s0" and "runtime_step\<^sup>*\<^sup>* s0 s"
    and "mgr_entries (sys_mgr s) op = Some e"
    and "close_cancel op (sys_mgr s) = (m, True)"
    and "runtime_step\<^sup>*\<^sup>* (s\<lparr>sys_mgr := m\<rparr>) u"
    and "mgr_entries (sys_mgr u) op = Some e'" and "re_id e' = re_id e"
  shows "re_state e' = CancelClosed \<and>
    cancel_begin op (sys_mgr u) = (sys_mgr u,
      CReturned (\<lparr>cr_accepted = False, cr_retryable = False\<rparr>, Some err_not_cancelable))"
proof -
  have inv: "runtime_inv s" by (rule runtime.inv_reachable [OF assms(1,2)])
  then have ok: "cancel_ok (sys_mgr s) (sys_pc s)" by (simp add: runtime_inv_def)
  have inv': "runtime_inv (s\<lparr>sys_mgr := m\<rparr>)"
    using runtime_inv_step [OF runtime_step.closes [OF assms(4)] inv] .
  have "re_state f = CancelClosed" if f: "mgr_entries m o' = Some f" "re_id f = re_id e" for o' f
  proof (cases "o' = op")
    case True
    with f assms(3,4) show ?thesis by (auto simp: close_cancel_def split: if_splits)
  next
    case False
    with f(1) assms(3,4) have "mgr_entries (sys_mgr s) o' = Some f"
      by (auto simp: close_cancel_def split: if_splits)
    with cancel_okD(3) [OF ok assms(3)] False f(2) show ?thesis by metis
  qed
  moreover have "mgr_next m = mgr_next (sys_mgr s)"
    using assms(3,4) by (auto simp: close_cancel_def split: if_splits)
  ultimately have "gate_settled (re_id e) CancelClosed (s\<lparr>sys_mgr := m\<rparr>)"
    using cancel_okD(1) [OF ok assms(3)] by (auto simp: gate_settled_def)
  from settled.fact_run [OF assms(5) inv' this] assms(6,7)
  have "re_state e' = CancelClosed" by (auto simp: gate_settled_def)
  with assms(6) show ?thesis by (simp add: cancel_begin_def)
qed

text \<open>
  C3. The other side of the race: once a cancel callback returned nil for a registered
  operation, \<open>CloseCancel\<close> answers false for as long as the registration lives, so the
  launch is refused, and further cancel requests are answered "accepted".
\<close>

theorem accepted_cancel_is_final:
  assumes "runtime_init s0" and "runtime_step\<^sup>*\<^sup>* s0 s"
    and "sys_pc s t = CRunning op i a"
    and "cancel_finish op i a None (sys_mgr s) = (m, pc)"
    and "runtime_step\<^sup>*\<^sup>* \<lparr>sys_mgr = m, sys_pc = (sys_pc s)(t := pc)\<rparr> u"
    and "mgr_entries (sys_mgr u) op = Some e" and "re_id e = i"
  shows "close_cancel op (sys_mgr u) = (sys_mgr u, False) \<and>
    cancel_begin op (sys_mgr u) =
      (sys_mgr u, CReturned (\<lparr>cr_accepted = True, cr_retryable = False\<rparr>, None))"
proof -
  let ?v = "\<lparr>sys_mgr = m, sys_pc = (sys_pc s)(t := pc)\<rparr>"
  have inv: "runtime_inv s" by (rule runtime.inv_reachable [OF assms(1,2)])
  then have ok: "cancel_ok (sys_mgr s) (sys_pc s)" by (simp add: runtime_inv_def)
  have inv': "runtime_inv ?v"
    using runtime_inv_step [OF runtime_step.callback_return [OF assms(3,4)] inv] .
  have only: "f = op \<and> re_attempt e' = Some a" if "mgr_entries (sys_mgr s) f = Some e'" "re_id e' = i" for f e'
    using cancel_okD(5) [OF ok assms(3) that] .
  have "re_state g = CancelAccepted" if g: "mgr_entries m o' = Some g" "re_id g = i" for o' g
  proof (cases "\<exists>f. mgr_entries (sys_mgr s) op = Some f \<and> re_id f = i")
    case True
    then obtain f where f: "mgr_entries (sys_mgr s) op = Some f" "re_id f = i" by blast
    with only have "re_attempt f = Some a" by blast
    with f assms(4) have m: "mgr_entries m = (mgr_entries (sys_mgr s))(op \<mapsto>
        f\<lparr>re_state := CancelAccepted, re_attempt := None\<rparr>)"
      by (auto simp: cancel_finish_def Let_def)
    with g only show ?thesis by (cases "o' = op") auto
  next
    case False
    with assms(4) have "mgr_entries m = mgr_entries (sys_mgr s)"
      by (auto simp: cancel_finish_def Let_def split: option.splits)
    with g only False show ?thesis by metis
  qed
  moreover have "mgr_next m = mgr_next (sys_mgr s)"
    using cancel_finish_ok(8) [OF ok assms(3,4)] .
  ultimately have "gate_settled i CancelAccepted ?v"
    using cancel_okD(4) [OF ok assms(3)] by (auto simp: gate_settled_def)
  from settled.fact_run [OF assms(5) inv' this] assms(6,7)
  have "re_state e = CancelAccepted" by (auto simp: gate_settled_def)
  with assms(6) show ?thesis by (simp add: cancel_begin_def close_cancel_def)
qed


text \<open>
  C4. Shutdown: once stopping, no later state admits a background worker, the workers
  still counted are among those counted before, and \<open>Wait\<close> can return nil exactly when
  each of them has called its done.
\<close>

theorem stopping_is_final:
  assumes "runtime_init s0" and "runtime_step\<^sup>*\<^sup>* s0 s"
    and "mgr_stopping (sys_mgr s)" and "runtime_step\<^sup>*\<^sup>* s u"
  shows "begin_background (sys_mgr u) = (sys_mgr u, Inl err_stopping) \<and>
      set (mgr_live (sys_mgr u)) \<subseteq> set (mgr_live (sys_mgr s)) \<and>
      (wait_may_return (sys_mgr u) c None \<longleftrightarrow> mgr_live (sys_mgr u) = [])"
proof -
  have inv: "runtime_inv s" by (rule runtime.inv_reachable [OF assms(1,2)])
  have "mgr_stopping (sys_mgr u) \<and> set (mgr_live (sys_mgr u)) \<subseteq> set (mgr_live (sys_mgr s))"
    using stopped.fact_run [OF assms(4) inv, of "set (mgr_live (sys_mgr s))"] assms(3)
    by (simp add: stopped_with_def)
  moreover have "mgr_background (sys_mgr u) = int (length (mgr_live (sys_mgr u)))"
    using runtime.inv_run [OF assms(4) inv] by (simp add: runtime_inv_def background_ok_def)
  ultimately show ?thesis by (simp add: begin_background_def wait_may_return_def)
qed


text \<open>A manager with one registered, cancelable operation, and runs that reach it.\<close>

definition sample_start :: runtime_sys where
  "sample_start = \<lparr>sys_mgr = the (new_with_limits 2 4 9), sys_pc = (\<lambda>_. CReady)\<rparr>"

definition sample_registered :: runtime_sys where
  "sample_registered =
     sample_start\<lparr>sys_mgr := fst (register ''op'' (Some 7) (sys_mgr sample_start))\<rparr>"

definition sample_canceling :: runtime_sys where
  "sample_canceling =
     \<lparr>sys_mgr = fst (cancel_begin ''op'' (sys_mgr sample_registered)),
      sys_pc = (sys_pc sample_registered)(1 := CRunning ''op'' 0 1)\<rparr>"

definition sample_stopping :: runtime_sys where
  "sample_stopping = sample_registered\<lparr>sys_mgr := begin_stop (sys_mgr sample_registered)\<rparr>"

lemmas sample_defs = sample_start_def sample_registered_def sample_canceling_def
  sample_stopping_def new_with_limits_def register_def cancel_begin_def

lemma sample_init: "runtime_init sample_start"
  unfolding runtime_init_def
  by (rule conjI, rule exI [of _ 2], rule exI [of _ 4], rule exI [of _ 9])
    (simp_all add: sample_start_def new_with_limits_def)

lemma sample_runs:
  "runtime_step\<^sup>*\<^sup>* sample_start sample_registered"
  "runtime_step\<^sup>*\<^sup>* sample_start sample_canceling"
  "runtime_step\<^sup>*\<^sup>* sample_start sample_stopping"
proof -
  have 1: "runtime_step sample_start sample_registered"
    unfolding sample_registered_def by (rule runtime_step.registers) (rule prod.collapse [symmetric])
  have begun: "cancel_begin ''op'' (sys_mgr sample_registered) =
      (fst (cancel_begin ''op'' (sys_mgr sample_registered)), CRunning ''op'' 0 1)"
    by (simp add: sample_defs)
  have 2: "runtime_step sample_registered sample_canceling"
    unfolding sample_canceling_def
    by (rule runtime_step.cancel_call [OF _ begun]) (simp add: sample_defs)
  have 3: "runtime_step sample_registered sample_stopping"
    unfolding sample_stopping_def by (rule runtime_step.stops)
  from 1 2 3 show "runtime_step\<^sup>*\<^sup>* sample_start sample_registered"
    "runtime_step\<^sup>*\<^sup>* sample_start sample_canceling"
    "runtime_step\<^sup>*\<^sup>* sample_start sample_stopping" by auto
qed

theorem cancel_coalesced_witness:
  "sys_pc sample_canceling 1 = CRunning ''op'' 0 1 \<and> sys_pc sample_canceling 1 \<noteq> CPanic"
  using cancel_coalesced [OF sample_init sample_runs(2), of 1 "''op''" 0 1 1]
  by (simp add: sample_canceling_def)

theorem close_cancel_is_final_witness:
  "\<exists>m. close_cancel ''op'' (sys_mgr sample_registered) = (m, True) \<and>
     cancel_begin ''op'' m = (m,
       CReturned (\<lparr>cr_accepted = False, cr_retryable = False\<rparr>, Some err_not_cancelable))"
proof -
  define m where "m = fst (close_cancel ''op'' (sys_mgr sample_registered))"
  have e: "mgr_entries (sys_mgr sample_registered) ''op'' =
      Some (the (mgr_entries (sys_mgr sample_registered) ''op''))"
    by (simp add: sample_defs)
  have c: "close_cancel ''op'' (sys_mgr sample_registered) = (m, True)"
    by (simp add: m_def close_cancel_def sample_defs)
  have e': "mgr_entries (sys_mgr (sample_registered\<lparr>sys_mgr := m\<rparr>)) ''op'' =
      Some (the (mgr_entries m ''op''))"
    "re_id (the (mgr_entries m ''op'')) = re_id (the (mgr_entries (sys_mgr sample_registered) ''op''))"
    by (simp_all add: m_def close_cancel_def sample_defs)
  from close_cancel_is_final [OF sample_init sample_runs(1) e c rtranclp.rtrancl_refl e'] c
  show ?thesis by simp
qed

theorem accepted_cancel_is_final_witness:
  "\<exists>m. fst (cancel_finish ''op'' 0 1 None (sys_mgr sample_canceling)) = m \<and>
     close_cancel ''op'' m = (m, False)"
proof -
  obtain m pc where f: "cancel_finish ''op'' 0 1 None (sys_mgr sample_canceling) = (m, pc)" by force
  have r: "sys_pc sample_canceling 1 = CRunning ''op'' 0 1" by (simp add: sample_canceling_def)
  have e: "mgr_entries (sys_mgr \<lparr>sys_mgr = m, sys_pc = (sys_pc sample_canceling)(1 := pc)\<rparr>) ''op'' =
      Some (the (mgr_entries m ''op''))" "re_id (the (mgr_entries m ''op'')) = 0"
    using f by (auto simp: cancel_finish_def Let_def sample_defs)
  from accepted_cancel_is_final [OF sample_init sample_runs(2) r f rtranclp.rtrancl_refl e] f
  show ?thesis by simp
qed

theorem stopping_is_final_witness:
  "begin_background (sys_mgr sample_stopping) = (sys_mgr sample_stopping, Inl err_stopping) \<and>
   wait_may_return (sys_mgr sample_stopping) \<lparr>ctx_err = None, ctx_cause = None\<rparr> None"
proof -
  have "mgr_stopping (sys_mgr sample_stopping)" "mgr_live (sys_mgr sample_stopping) = []"
    by (simp_all add: sample_defs begin_stop_def)
  with stopping_is_final [OF sample_init sample_runs(3) _ rtranclp.rtrancl_refl]
  show ?thesis by simp
qed

end
