(* ===== verification/VaultLock.thy ===== *)
theory VaultLock
  imports GoErrors
begin

text \<open>
  The admission gate of one vault (\<open>vaultlock/lock.go\<close>): an \<open>RWMutex\<close> shared by
  exclusive operations, ordinary readers and cancellable low-priority readers, with
  a priority counter that makes the low-priority readers yield.  The operations on
  the lock's data come first; then the step relation in which every call is a
  thread of its own and every step is one critical section or one physical lock
  operation, so that the races the code has are runs of the model.
\<close>

section \<open>The lock's data\<close>

definition err_low_priority_yield :: go_error where
  "err_low_priority_yield =
     new_error ''low-priority vault work yielded to an active job''"

text \<open>
  \<open>vm_readers\<close> and \<open>vm_writer\<close> are the state of the \<open>sync.RWMutex\<close>: the readers in,
  and whether a writer has announced itself or holds the lock (then no reader is
  admitted).  \<open>vm_low\<close> maps a lease to the call that registered it, whose \<open>reportPause\<close>
  is the lease's pause callback; \<open>vm_cause\<close> is the cancellation cause of each lease
  context.
\<close>

record vault_mutex =
  vm_readers :: nat
  vm_writer :: bool
  vm_next :: nat
  vm_priority :: int
  vm_low :: "nat \<rightharpoonup> nat"
  vm_cause :: "nat \<Rightarrow> go_error option"

definition new_vault_mutex :: vault_mutex where
  "new_vault_mutex = \<lparr>vm_readers = 0, vm_writer = False, vm_next = 0, vm_priority = 0,
     vm_low = Map.empty, vm_cause = (\<lambda>_. None)\<rparr>"

text \<open>The process-wide registry: an address for each vault, allocated at first use.\<close>

record vault_registry =
  vr_values :: "string \<rightharpoonup> nat"
  vr_store :: "vault_mutex list"

definition mutex :: "string \<Rightarrow> vault_registry \<Rightarrow> vault_registry \<times> nat" where
  "mutex vault r =
     (case vr_values r vault of
        Some a \<Rightarrow> (r, a)
      | None \<Rightarrow> (r\<lparr>vr_values := (vr_values r)(vault \<mapsto> length (vr_store r)),
                 vr_store := vr_store r @ [new_vault_mutex]\<rparr>, length (vr_store r)))"

definition try_exclusive :: "vault_mutex \<Rightarrow> vault_mutex option" where
  "try_exclusive m =
     (if vm_writer m \<or> 0 < vm_readers m then None else Some (m\<lparr>vm_writer := True\<rparr>))"

definition unlock_exclusive :: "vault_mutex \<Rightarrow> vault_mutex" where
  "unlock_exclusive m = m\<lparr>vm_writer := False\<rparr>"

definition try_shared :: "vault_mutex \<Rightarrow> vault_mutex option" where
  "try_shared m = (if vm_writer m then None else Some (m\<lparr>vm_readers := vm_readers m + 1\<rparr>))"

definition unlock_shared :: "vault_mutex \<Rightarrow> vault_mutex" where
  "unlock_shared m = m\<lparr>vm_readers := vm_readers m - 1\<rparr>"

definition cancel_lease :: "nat \<Rightarrow> go_error \<Rightarrow> vault_mutex \<Rightarrow> vault_mutex" where
  "cancel_lease i e m =
     (case vm_cause m i of None \<Rightarrow> m\<lparr>vm_cause := (vm_cause m)(i := Some e)\<rparr> | Some _ \<Rightarrow> m)"

definition begin_priority :: "vault_mutex \<Rightarrow> vault_mutex" where
  "begin_priority m = m\<lparr>vm_priority := vm_priority m + 1\<rparr>"

definition end_priority :: "vault_mutex \<Rightarrow> vault_mutex" where
  "end_priority m = m\<lparr>vm_priority := vm_priority m - 1\<rparr>"

text \<open>
  The second critical section of \<open>AcquireLowPrioritySharedContext\<close>: refuse the lease
  when a priority owner arrived since the first check, otherwise register it.  The
  lease context inherits the end of the caller's context.
\<close>

definition register_low :: "nat \<Rightarrow> go_error option \<Rightarrow> vault_mutex \<Rightarrow> (vault_mutex \<times> nat) option" where
  "register_low call parent m =
     (if 0 < vm_priority m then None
      else let i = vm_next m + 1 in
        Some (m\<lparr>vm_next := i, vm_low := (vm_low m)(i \<mapsto> call),
                vm_cause := (vm_cause m)(i := parent)\<rparr>, i))"

definition delete_low :: "nat \<Rightarrow> vault_mutex \<Rightarrow> vault_mutex" where
  "delete_low i m = m\<lparr>vm_low := (vm_low m)(i := None)\<rparr>"

text \<open>
  \<open>lowPriorityReadersLocked\<close>: the registered readers in the arbitrary order of a map
  iteration, each with the call whose callback it holds.
\<close>

definition low_priority_readers :: "vault_mutex \<Rightarrow> (nat \<times> nat) list \<Rightarrow> bool" where
  "low_priority_readers m readers \<longleftrightarrow> distinct readers \<and>
     (\<forall>i t. (i, t) \<in> set readers \<longleftrightarrow> vm_low m i = Some t)"

text \<open>\<open>report\<close>: a pause state is passed to the callback only when it changes.\<close>

definition report_pause :: "bool \<Rightarrow> bool option \<times> bool list \<Rightarrow> bool option \<times> bool list" where
  "report_pause paused r = (if fst r = Some paused then r else (Some paused, snd r @ [paused]))"

section \<open>Calls\<close>

text \<open>
  One thread is one call of an entry point.  \<open>WaitX\<close> is \<open>AcquireExclusiveContext\<close>,
  \<open>TryX\<close> is \<open>YieldLowPriorityAndTryExclusiveContext\<close>.  The writer goroutine that
  \<open>AcquireExclusiveContext\<close> starts outlives a cancelled call; its phase is kept beside
  the call's program counter.
\<close>

datatype exclusive_kind = WaitX | TryX

datatype outcome = Granted | Refused go_error | Busy

datatype lock_pc =
    PIdle
  | PPausing exclusive_kind "(nat \<times> nat) list"
  | PTop exclusive_kind
  | PSleep
  | PTryNow
  | PGot exclusive_kind bool
  | PWaiting
  | PEnding outcome
  | PHoldsX
  | PHoldsS
  | PLowTop
  | PLowSleep
  | PLowTry
  | PLowLocked
  | PLowYield
  | PLowRegistered nat
  | PHoldsLow nat
  | PLowReleasing nat
  | PLowDeleting nat
  | PBusy
  | PFailed go_error
  | PDone

datatype writer_phase = WNone | WQueued | WAnnounced | WHolding

fun outcome_pc :: "outcome \<Rightarrow> lock_pc" where
  "outcome_pc Granted = PHoldsX"
| "outcome_pc (Refused e) = PFailed e"
| "outcome_pc Busy = PBusy"

record lock_sys =
  lk :: vault_mutex
  calls :: "nat \<Rightarrow> lock_pc \<times> writer_phase"
  ctxs :: "nat \<Rightarrow> go_error option"
  pauses :: "nat \<Rightarrow> bool option \<times> bool list"

text \<open>A step of call \<open>t\<close> replaces the lock's data and its own counter and writer phase.\<close>

definition moves :: "lock_sys \<Rightarrow> nat \<Rightarrow> vault_mutex \<Rightarrow> lock_pc \<Rightarrow> writer_phase \<Rightarrow> lock_sys" where
  "moves s t m p w = s\<lparr>lk := m, calls := (calls s)(t := (p, w))\<rparr>"

definition reports :: "nat \<Rightarrow> bool \<Rightarrow> lock_sys \<Rightarrow> lock_sys" where
  "reports t paused s = s\<lparr>pauses := (pauses s)(t := report_pause paused (pauses s t))\<rparr>"

text \<open>\<open>pauseReaders\<close> calls the lease's pause callback itself, without \<open>report\<close>'s filter.\<close>

definition notifies :: "nat \<Rightarrow> lock_sys \<Rightarrow> lock_sys" where
  "notifies t s = s\<lparr>pauses := (pauses s)(t := (fst (pauses s t), snd (pauses s t) @ [True]))\<rparr>"

fun lease_of :: "lock_pc \<Rightarrow> nat option" where
  "lease_of (PLowRegistered i) = Some i"
| "lease_of (PHoldsLow i) = Some i"
| "lease_of (PLowReleasing i) = Some i"
| "lease_of (PLowDeleting i) = Some i"
| "lease_of _ = None"

text \<open>The end of a call's context reaches the lease context derived from it.\<close>

definition context_ends :: "nat \<Rightarrow> go_error \<Rightarrow> lock_sys \<Rightarrow> lock_sys" where
  "context_ends t e s = s\<lparr>ctxs := (ctxs s)(t := Some e),
     lk := (case lease_of (fst (calls s t)) of None \<Rightarrow> lk s | Some i \<Rightarrow> cancel_lease i e (lk s))\<rparr>"

section \<open>Steps\<close>

inductive lock_step :: "lock_sys \<Rightarrow> lock_sys \<Rightarrow> bool" where
  ctx_end: "ctxs s t = None \<Longrightarrow> lock_step s (context_ends t e s)"
| x_refused: "calls s t = (PIdle, WNone) \<Longrightarrow> ctxs s t = Some e \<Longrightarrow>
     lock_step s (moves s t (lk s) (PFailed e) WNone)"
| x_begin: "calls s t = (PIdle, WNone) \<Longrightarrow> ctxs s t = None \<Longrightarrow>
     low_priority_readers (lk s) rs \<Longrightarrow>
     lock_step s (moves s t (begin_priority (lk s)) (PPausing k rs) WNone)"
| x_pause: "calls s t = (PPausing k ((i, owner) # rs), WNone) \<Longrightarrow>
     lock_step s (notifies owner (moves s t
       (cancel_lease i err_low_priority_yield (lk s)) (PPausing k rs) WNone))"
| x_paused: "calls s t = (PPausing k [], WNone) \<Longrightarrow> lock_step s (moves s t (lk s) (PTop k) WNone)"
| x_try: "calls s t = (PTop WaitX, WNone) \<Longrightarrow> try_exclusive (lk s) = Some m \<Longrightarrow>
     lock_step s (moves s t m (PGot WaitX True) WNone)"
| x_wait: "calls s t = (PTop WaitX, WNone) \<Longrightarrow> try_exclusive (lk s) = None \<Longrightarrow>
     lock_step s (moves s t (lk s) PWaiting WQueued)"
| got: "calls s t = (PGot k ok, WNone) \<Longrightarrow> ctxs s t = None \<Longrightarrow>
     lock_step s (moves s t (lk s) (PEnding (if ok then Granted else Busy)) WNone)"
| got_late: "calls s t = (PGot k ok, WNone) \<Longrightarrow> ctxs s t = Some e \<Longrightarrow>
     lock_step s (moves s t (if ok then unlock_exclusive (lk s) else lk s)
       (PEnding (Refused e)) WNone)"
| w_announce: "calls s t = (p, WQueued) \<Longrightarrow> \<not> vm_writer (lk s) \<Longrightarrow>
     lock_step s (moves s t ((lk s)\<lparr>vm_writer := True\<rparr>) p WAnnounced)"
| w_locked: "calls s t = (p, WAnnounced) \<Longrightarrow> vm_readers (lk s) = 0 \<Longrightarrow>
     lock_step s (moves s t (lk s) p WHolding)"
| w_granted: "calls s t = (PWaiting, WHolding) \<Longrightarrow> ctxs s t = None \<Longrightarrow>
     lock_step s (moves s t (lk s) (PEnding Granted) WNone)"
| w_late: "calls s t = (PWaiting, WHolding) \<Longrightarrow> ctxs s t = Some e \<Longrightarrow>
     lock_step s (moves s t (unlock_exclusive (lk s)) (PEnding (Refused e)) WNone)"
| w_canceled: "calls s t = (PWaiting, w) \<Longrightarrow> ctxs s t = Some e \<Longrightarrow>
     lock_step s (moves s t (lk s) (PEnding (Refused e)) w)"
| w_cleanup: "calls s t = (p, WHolding) \<Longrightarrow> p \<noteq> PWaiting \<Longrightarrow>
     lock_step s (moves s t (unlock_exclusive (lk s)) p WNone)"
| y_canceled: "calls s t = (PTop TryX, WNone) \<or> calls s t = (PSleep, WNone) \<Longrightarrow> ctxs s t = Some e \<Longrightarrow>
     lock_step s (moves s t (lk s) (PEnding (Refused e)) WNone)"
| y_drained: "calls s t = (PTop TryX, WNone) \<Longrightarrow> dom (vm_low (lk s)) = {} \<Longrightarrow>
     lock_step s (moves s t (lk s) PTryNow WNone)"
| y_sleep: "calls s t = (PTop TryX, WNone) \<Longrightarrow> dom (vm_low (lk s)) \<noteq> {} \<Longrightarrow>
     lock_step s (moves s t (lk s) PSleep WNone)"
| y_timer: "calls s t = (PSleep, WNone) \<Longrightarrow> lock_step s (moves s t (lk s) (PTop TryX) WNone)"
| y_got: "calls s t = (PTryNow, WNone) \<Longrightarrow> try_exclusive (lk s) = Some m \<Longrightarrow>
     lock_step s (moves s t m (PGot TryX True) WNone)"
| y_busy: "calls s t = (PTryNow, WNone) \<Longrightarrow> try_exclusive (lk s) = None \<Longrightarrow>
     lock_step s (moves s t (lk s) (PGot TryX False) WNone)"
| x_end: "calls s t = (PEnding o', w) \<Longrightarrow>
     lock_step s (moves s t (end_priority (lk s)) (outcome_pc o') w)"
| x_release: "calls s t = (PHoldsX, WNone) \<Longrightarrow>
     lock_step s (moves s t (unlock_exclusive (lk s)) PDone WNone)"
| s_acquire: "calls s t = (PIdle, WNone) \<Longrightarrow> try_shared (lk s) = Some m \<Longrightarrow>
     lock_step s (moves s t m PHoldsS WNone)"
| s_busy: "calls s t = (PIdle, WNone) \<Longrightarrow> try_shared (lk s) = None \<Longrightarrow>
     lock_step s (moves s t (lk s) PBusy WNone)"
| s_release: "calls s t = (PHoldsS, WNone) \<Longrightarrow>
     lock_step s (moves s t (unlock_shared (lk s)) PDone WNone)"
| l_begin: "calls s t = (PIdle, WNone) \<Longrightarrow> lock_step s (moves s t (lk s) PLowTop WNone)"
| l_priority: "calls s t = (PLowTop, WNone) \<Longrightarrow> 0 < vm_priority (lk s) \<Longrightarrow>
     lock_step s (reports t True (moves s t (lk s) PLowSleep WNone))"
| l_free: "calls s t = (PLowTop, WNone) \<Longrightarrow> \<not> 0 < vm_priority (lk s) \<Longrightarrow>
     lock_step s (moves s t (lk s) PLowTry WNone)"
| l_canceled: "calls s t = (PLowSleep, WNone) \<Longrightarrow> ctxs s t = Some e \<Longrightarrow>
     lock_step s (moves s t (lk s) (PFailed e) WNone)"
| l_timer: "calls s t = (PLowSleep, WNone) \<Longrightarrow> lock_step s (moves s t (lk s) PLowTop WNone)"
| l_locked: "calls s t = (PLowTry, WNone) \<Longrightarrow> try_shared (lk s) = Some m \<Longrightarrow>
     lock_step s (moves s t m PLowLocked WNone)"
| l_busy: "calls s t = (PLowTry, WNone) \<Longrightarrow> try_shared (lk s) = None \<Longrightarrow>
     lock_step s (reports t True (moves s t (lk s) PLowSleep WNone))"
| l_registered: "calls s t = (PLowLocked, WNone) \<Longrightarrow> register_low t (ctxs s t) (lk s) = Some (m, i) \<Longrightarrow>
     lock_step s (moves s t m (PLowRegistered i) WNone)"
| l_admitted: "calls s t = (PLowRegistered i, WNone) \<Longrightarrow>
     lock_step s (reports t False (moves s t (lk s) (PHoldsLow i) WNone))"
| l_yields: "calls s t = (PLowLocked, WNone) \<Longrightarrow> register_low t (ctxs s t) (lk s) = None \<Longrightarrow>
     lock_step s (moves s t (lk s) PLowYield WNone)"
| l_yielded: "calls s t = (PLowYield, WNone) \<Longrightarrow>
     lock_step s (reports t True (moves s t (unlock_shared (lk s)) PLowTop WNone))"
| l_release: "calls s t = (PHoldsLow i, WNone) \<Longrightarrow>
     lock_step s (moves s t (cancel_lease i context_canceled (lk s)) (PLowReleasing i) WNone)"
| l_unlock: "calls s t = (PLowReleasing i, WNone) \<Longrightarrow>
     lock_step s (moves s t (unlock_shared (lk s)) (PLowDeleting i) WNone)"
| l_delete: "calls s t = (PLowDeleting i, WNone) \<Longrightarrow>
     lock_step s (moves s t (delete_low i (lk s)) PDone WNone)"

definition lock_init :: "lock_sys \<Rightarrow> bool" where
  "lock_init s \<longleftrightarrow> lk s = new_vault_mutex \<and> calls s = (\<lambda>_. (PIdle, WNone)) \<and>
     ctxs s = (\<lambda>_. None) \<and> pauses s = (\<lambda>_. (None, []))"

section \<open>Invariant\<close>

fun reads :: "lock_pc \<times> writer_phase \<Rightarrow> bool" where
  "reads (PHoldsS, _) = True"
| "reads (PLowLocked, _) = True"
| "reads (PLowYield, _) = True"
| "reads (PLowRegistered _, _) = True"
| "reads (PHoldsLow _, _) = True"
| "reads (PLowReleasing _, _) = True"
| "reads _ = False"

fun prior :: "lock_pc \<times> writer_phase \<Rightarrow> bool" where
  "prior (PPausing _ _, _) = True"
| "prior (PTop _, _) = True"
| "prior (PSleep, _) = True"
| "prior (PTryNow, _) = True"
| "prior (PGot _ _, _) = True"
| "prior (PWaiting, _) = True"
| "prior (PEnding _, _) = True"
| "prior _ = False"

text \<open>Inside the exclusive lock: the call itself, or its writer goroutine.\<close>

fun inside :: "lock_pc \<times> writer_phase \<Rightarrow> bool" where
  "inside (PGot _ True, _) = True"
| "inside (PEnding Granted, _) = True"
| "inside (PHoldsX, _) = True"
| "inside (_, WHolding) = True"
| "inside _ = False"

definition owns :: "lock_pc \<times> writer_phase \<Rightarrow> bool" where
  "owns c \<longleftrightarrow> inside c \<or> snd c = WAnnounced"

fun pending :: "lock_pc \<Rightarrow> nat set" where
  "pending (PPausing _ rs) = fst ` set rs"
| "pending _ = {}"

fun coherent :: "lock_pc \<times> writer_phase \<Rightarrow> bool" where
  "coherent (PWaiting, w) = (w \<noteq> WNone)"
| "coherent (PEnding (Refused _), _) = True"
| "coherent (PFailed _, _) = True"
| "coherent (_, w) = (w = WNone)"

type_synonym lock_calls = "nat \<Rightarrow> lock_pc \<times> writer_phase"

definition tally :: "(lock_pc \<times> writer_phase \<Rightarrow> bool) \<Rightarrow> lock_calls \<Rightarrow> int" where
  "tally P c = int (card {t. P (c t)})"

definition counts_ok :: "vault_mutex \<Rightarrow> lock_calls \<Rightarrow> bool" where
  "counts_ok m c \<longleftrightarrow> finite {t. fst (c t) \<noteq> PIdle} \<and> (\<forall>t. coherent (c t)) \<and>
     int (vm_readers m) = tally reads c \<and> vm_priority m = tally prior c \<and>
     of_bool (vm_writer m) = tally owns c \<and>
     (\<forall>t. inside (c t) \<longrightarrow> vm_readers m = 0)"

definition leases_ok :: "vault_mutex \<Rightarrow> lock_calls \<Rightarrow> (nat \<Rightarrow> go_error option) \<Rightarrow> bool" where
  "leases_ok m c x \<longleftrightarrow>
     (\<forall>i t. vm_low m i = Some t \<longleftrightarrow> lease_of (fst (c t)) = Some i) \<and>
     (\<forall>i. vm_next m < i \<longrightarrow> vm_low m i = None) \<and>
     (\<forall>t i. prior (c t) \<longrightarrow> vm_low m i \<noteq> None \<longrightarrow> vm_cause m i \<noteq> None \<or> i \<in> pending (fst (c t))) \<and>
     (\<forall>t i e. fst (c t) = PHoldsLow i \<or> fst (c t) = PLowRegistered i \<longrightarrow> vm_cause m i = Some e \<longrightarrow>
        e = err_low_priority_yield \<or> x t = Some e)"

text \<open>A drained call makes its attempt with the lease table still empty.\<close>

definition drained_ok :: "vault_mutex \<Rightarrow> lock_calls \<Rightarrow> bool" where
  "drained_ok m c \<longleftrightarrow> (\<forall>t. fst (c t) = PTryNow \<longrightarrow> vm_low m = Map.empty)"

definition lock_inv :: "lock_sys \<Rightarrow> bool" where
  "lock_inv s \<longleftrightarrow> counts_ok (lk s) (calls s) \<and> leases_ok (lk s) (calls s) (ctxs s) \<and>
     drained_ok (lk s) (calls s)"

lemma idle_contributes_nothing:
  "coherent c \<Longrightarrow> fst c = PIdle \<Longrightarrow> \<not> reads c \<and> \<not> prior c \<and> \<not> owns c"
  by (cases c) (auto simp: owns_def)

lemma card_update:
  assumes "finite {t. P (c t)}"
  shows "int (card {u. P ((c(t := y)) u)}) = int (card {u. P (c u)}) + of_bool (P y) - of_bool (P (c t))"
proof -
  let ?R = "{u. u \<noteq> t \<and> P (c u)}"
  have fin: "finite ?R" by (rule finite_subset [OF _ assms]) auto
  have new: "{u. P ((c(t := y)) u)} = (if P y then insert t ?R else ?R)" by auto
  have old: "{u. P (c u)} = (if P (c t) then insert t ?R else ?R)" by auto
  show ?thesis using fin unfolding new old by simp
qed

lemma counts_finite:
  assumes ok: "counts_ok m c" and idle: "\<And>x. coherent x \<Longrightarrow> fst x = PIdle \<Longrightarrow> \<not> P x"
  shows "finite {t. P (c t)}"
proof -
  have "fst (c t) \<noteq> PIdle" if "P (c t)" for t
    using ok idle [of "c t"] that unfolding counts_ok_def by blast
  then have "{t. P (c t)} \<subseteq> {t. fst (c t) \<noteq> PIdle}" by blast
  with ok show ?thesis unfolding counts_ok_def by (blast intro: finite_subset)
qed

lemma tally_update:
  assumes "counts_ok m c" and "\<And>x. coherent x \<Longrightarrow> fst x = PIdle \<Longrightarrow> \<not> P x"
  shows "tally P (c(t := y)) = tally P c + of_bool (P y) - of_bool (P (c t))"
  unfolding tally_def by (rule card_update) (rule counts_finite [where P = P, OF assms])

lemma tally_pos:
  assumes "counts_ok m c" and "\<And>x. coherent x \<Longrightarrow> fst x = PIdle \<Longrightarrow> \<not> P x" and "P (c t)"
  shows "0 < tally P c"
  using counts_finite [where P = P, OF assms(1,2)] assms(3) by (auto simp: tally_def card_gt_0_iff)

lemma inside_owns: "inside c \<Longrightarrow> owns c"
  by (simp add: owns_def)

lemma owns_unique:
  assumes "counts_ok m c" "owns (c t)" "owns (c u)"
  shows "t = u"
proof -
  have fin: "finite {t. owns (c t)}"
    using counts_finite [OF assms(1), of owns] idle_contributes_nothing by blast
  have "card {t. owns (c t)} \<le> 1"
    using assms(1) by (cases "vm_writer m") (auto simp: counts_ok_def tally_def)
  with assms(2,3) fin show ?thesis by (metis card_le_Suc0_iff_eq One_nat_def mem_Collect_eq)
qed

lemma owns_writer: "counts_ok m c \<Longrightarrow> owns (c t) \<Longrightarrow> vm_writer m"
  using tally_pos [of m c owns t] idle_contributes_nothing
  by (cases "vm_writer m") (auto simp: counts_ok_def)

lemma inside_excludes:
  assumes "counts_ok m c" and "inside (c t)"
  shows "vm_readers m = 0" and "vm_writer m"
proof -
  show "vm_readers m = 0" using assms unfolding counts_ok_def by blast
  show "vm_writer m" by (rule owns_writer [OF assms(1) inside_owns [OF assms(2)]])
qed

text \<open>The one lemma every step rests on: what a change of one call must balance.\<close>

lemma counts_move:
  assumes ok: "counts_ok m c"
    and coh: "coherent y"
    and r: "int (vm_readers m') = int (vm_readers m) + of_bool (reads y) - of_bool (reads (c t))"
    and p: "vm_priority m' = vm_priority m + of_bool (prior y) - of_bool (prior (c t))"
    and w: "(of_bool (vm_writer m') :: int) =
              of_bool (vm_writer m) + of_bool (owns y) - of_bool (owns (c t))"
    and entering: "inside y \<Longrightarrow> inside (c t) \<or> vm_readers m' = 0"
    and reading: "reads y \<Longrightarrow> reads (c t) \<or> \<not> vm_writer m"
  shows "counts_ok m' (c(t := y))"
proof -
  have "finite {u. fst ((c(t := y)) u) \<noteq> PIdle}"
    by (rule finite_subset [of _ "insert t {u. fst (c u) \<noteq> PIdle}"])
      (use ok in \<open>auto simp: counts_ok_def\<close>)
  moreover have "tally P (c(t := y)) = tally P c + of_bool (P y) - of_bool (P (c t))"
    if "P \<in> {reads, prior, owns}" for P
    using tally_update [OF ok, of P t y] that idle_contributes_nothing by auto
  moreover have "vm_readers m' = 0" if "inside ((c(t := y)) u)" for u
  proof (cases "u = t")
    case True
    with that have "inside y" by simp
    from entering [OF this] consider "inside (c t)" | "vm_readers m' = 0" by auto
    then show ?thesis
    proof cases
      case 1
      then have "vm_readers m = 0" "vm_writer m" by (rule inside_excludes [OF ok])+
      with r reading show ?thesis by (cases "reads y"; cases "reads (c t)") auto
    qed
  next
    case False
    with that have "inside (c u)" by simp
    then have "vm_readers m = 0" "vm_writer m" by (rule inside_excludes [OF ok])+
    with r reading show ?thesis by (cases "reads y"; cases "reads (c t)") auto
  qed
  ultimately show ?thesis using ok coh r p w by (simp add: counts_ok_def)
qed

text \<open>The same for the leases, when the step leaves the lease table alone.\<close>

lemma leases_okD:
  assumes "leases_ok m c x"
  shows "vm_low m i = Some t \<longleftrightarrow> lease_of (fst (c t)) = Some i"
    and "vm_next m < i \<Longrightarrow> vm_low m i = None"
    and "prior (c t) \<Longrightarrow> vm_low m i \<noteq> None \<Longrightarrow> vm_cause m i \<noteq> None \<or> i \<in> pending (fst (c t))"
    and "fst (c t) = PHoldsLow i \<or> fst (c t) = PLowRegistered i \<Longrightarrow> vm_cause m i = Some e \<Longrightarrow>
       e = err_low_priority_yield \<or> x t = Some e"
  using assms unfolding leases_ok_def by blast+

lemma leases_okI:
  assumes "\<And>i t. vm_low m i = Some t \<longleftrightarrow> lease_of (fst (c t)) = Some i"
    and "\<And>i. vm_next m < i \<Longrightarrow> vm_low m i = None"
    and "\<And>t i. prior (c t) \<Longrightarrow> vm_low m i \<noteq> None \<Longrightarrow> vm_cause m i \<noteq> None \<or> i \<in> pending (fst (c t))"
    and "\<And>t i e. fst (c t) = PHoldsLow i \<or> fst (c t) = PLowRegistered i \<Longrightarrow> vm_cause m i = Some e \<Longrightarrow>
       e = err_low_priority_yield \<or> x t = Some e"
  shows "leases_ok m c x"
  using assms unfolding leases_ok_def by blast

lemma leases_move:
  assumes ok: "leases_ok m c x"
    and same: "vm_low m' = vm_low m" "vm_next m' = vm_next m" "vm_cause m' = vm_cause m"
    and lease: "lease_of (fst y) = lease_of (fst (c t))"
    and pr: "prior y \<Longrightarrow> (prior (c t) \<and> pending (fst (c t)) \<subseteq> pending (fst y)) \<or>
      dom (vm_low m) \<subseteq> pending (fst y)"
    and held: "\<And>i. fst y = PHoldsLow i \<or> fst y = PLowRegistered i \<Longrightarrow>
      fst (c t) = PHoldsLow i \<or> fst (c t) = PLowRegistered i"
  shows "leases_ok m' (c(t := y)) x"
proof (rule leases_okI)
  fix i u
  show "vm_low m' i = Some u \<longleftrightarrow> lease_of (fst ((c(t := y)) u)) = Some i"
    using leases_okD(1) [OF ok, of i u] lease by (simp add: same)
  show "prior ((c(t := y)) u) \<Longrightarrow> vm_low m' i \<noteq> None \<Longrightarrow>
      vm_cause m' i \<noteq> None \<or> i \<in> pending (fst ((c(t := y)) u))"
    using leases_okD(3) [OF ok, of u i] pr by (cases "u = t") (auto simp: same)
  show "fst ((c(t := y)) u) = PHoldsLow i \<or> fst ((c(t := y)) u) = PLowRegistered i \<Longrightarrow>
      vm_cause m' i = Some e \<Longrightarrow> e = err_low_priority_yield \<or> x u = Some e" for e
    using leases_okD(4) [OF ok, of u i e] held [of i] by (cases "u = t") (auto simp: same)
qed (use leases_okD(2) [OF ok] in \<open>simp add: same\<close>)

text \<open>And when it cancels one lease, with a cause its holder may see.\<close>

lemma leases_cancel:
  assumes ok: "leases_ok m c x"
    and cause: "\<And>t. fst (c t) = PHoldsLow i \<or> fst (c t) = PLowRegistered i \<Longrightarrow>
      e = err_low_priority_yield \<or> x t = Some e"
  shows "leases_ok (cancel_lease i e m) c x"
proof (cases "vm_cause m i")
  case None
  show ?thesis
    by (rule leases_okI)
      (use leases_okD [OF ok] cause None in \<open>auto simp: cancel_lease_def split: if_splits\<close>)
qed (use ok in \<open>simp add: cancel_lease_def\<close>)

lemma cancel_lease_frame [simp]:
  "vm_readers (cancel_lease i e m) = vm_readers m" "vm_writer (cancel_lease i e m) = vm_writer m"
  "vm_priority (cancel_lease i e m) = vm_priority m" "vm_low (cancel_lease i e m) = vm_low m"
  "vm_next (cancel_lease i e m) = vm_next m" "vm_cause (cancel_lease i e m) i \<noteq> None"
  "j \<noteq> i \<Longrightarrow> vm_cause (cancel_lease i e m) j = vm_cause m j"
  by (auto simp: cancel_lease_def split: option.splits)

lemma lease_holder_unique:
  "leases_ok m c x \<Longrightarrow> lease_of (fst (c t)) = Some i \<Longrightarrow> lease_of (fst (c u)) = Some i \<Longrightarrow> u = t"
  by (metis leases_okD(1) option.inject)

section \<open>Every step keeps the invariant\<close>

lemma coherent_cases:
  assumes "coherent (p, w)" and "w \<noteq> WNone"
  obtains "p = PWaiting" | e where "p = PEnding (Refused e)" | e where "p = PFailed e"
  using assms by (cases "(p, w)" rule: coherent.cases) auto

lemma outcome_simps [simp]:
  "lease_of (outcome_pc o') = None" "\<not> reads (outcome_pc o', w)" "\<not> prior (outcome_pc o', w)"
  "pending (outcome_pc o') = {}" "outcome_pc o' \<noteq> PHoldsLow i" "outcome_pc o' \<noteq> PLowRegistered i"
  by (cases o'; simp)+

lemma try_exclusive_SomeD:
  "try_exclusive m = Some m' \<Longrightarrow> \<not> vm_writer m \<and> vm_readers m = 0 \<and> m' = m\<lparr>vm_writer := True\<rparr>"
  by (auto simp: try_exclusive_def split: if_splits)

lemma try_shared_SomeD:
  "try_shared m = Some m' \<Longrightarrow> \<not> vm_writer m \<and> m' = m\<lparr>vm_readers := vm_readers m + 1\<rparr>"
  by (auto simp: try_shared_def split: if_splits)

lemma register_low_SomeD:
  "register_low t p m = Some (m', i) \<Longrightarrow> \<not> 0 < vm_priority m \<and> i = vm_next m + 1 \<and>
     m' = m\<lparr>vm_next := i, vm_low := (vm_low m)(i \<mapsto> t), vm_cause := (vm_cause m)(i := p)\<rparr>"
  by (auto simp: register_low_def Let_def split: if_splits)

lemmas lock_frame =
  unlock_exclusive_def unlock_shared_def begin_priority_def end_priority_def delete_low_def
  owns_def

lemma moves_frame [simp]:
  "lk (moves s t m p w) = m" "calls (moves s t m p w) = (calls s)(t := (p, w))"
  "ctxs (moves s t m p w) = ctxs s" "pauses (moves s t m p w) = pauses s"
  "lk (reports t b s) = lk s" "calls (reports t b s) = calls s" "ctxs (reports t b s) = ctxs s"
  "lk (notifies q s) = lk s" "calls (notifies q s) = calls s" "ctxs (notifies q s) = ctxs s"
  by (simp_all add: moves_def reports_def notifies_def split: option.splits)

lemma context_ends_frame [simp]:
  "calls (context_ends t e s) = calls s" "ctxs (context_ends t e s) = (ctxs s)(t := Some e)"
  by (simp_all add: context_ends_def)

lemma counts_only:
  "counts_ok m c \<Longrightarrow> vm_readers m' = vm_readers m \<Longrightarrow> vm_writer m' = vm_writer m \<Longrightarrow>
   vm_priority m' = vm_priority m \<Longrightarrow> counts_ok m' c"
  by (simp add: counts_ok_def)

lemma readers_pos:
  assumes "counts_ok m c" "reads (c t)"
  shows "0 < vm_readers m"
  using tally_pos [of m c reads t] assms idle_contributes_nothing by (auto simp: counts_ok_def)

lemma step_counts:
  assumes st: "lock_step s s'" and ok: "counts_ok (lk s) (calls s)"
  shows "counts_ok (lk s') (calls s')"
proof -
  have coh: "coherent (calls s t)" for t using ok by (simp add: counts_ok_def)
  have wr: "calls s t = (p, w) \<Longrightarrow> owns (p, w) \<Longrightarrow> vm_writer (lk s)" for t p w
    using owns_writer [OF ok, of t] by simp
  have rd: "calls s t = (p, w) \<Longrightarrow> reads (p, w) \<Longrightarrow> 0 < vm_readers (lk s)" for t p w
    using readers_pos [OF ok, of t] by simp
  show ?thesis
    using st
  proof cases
    case (ctx_end t e)
    then show ?thesis
      by (auto intro!: counts_only [OF ok] simp: context_ends_def split: option.splits)
  next
    case (w_announce t p)
    with coh [of t] show ?thesis
      by (auto elim!: coherent_cases intro!: counts_move [OF ok] simp: lock_frame)
  next
    case (w_locked t p)
    with coh [of t] wr [of t p WAnnounced] show ?thesis
      by (auto elim!: coherent_cases intro!: counts_move [OF ok] simp: lock_frame)
  next
    case (w_cleanup t p)
    with coh [of t] wr [of t p WHolding] show ?thesis
      by (auto elim!: coherent_cases intro!: counts_move [OF ok] simp: lock_frame)
  next
    case (x_try t m)
    with coh [of t] show ?thesis
      by (auto dest!: try_exclusive_SomeD intro!: counts_move [OF ok] simp: lock_frame)
  next
    case (y_got t m)
    with coh [of t] show ?thesis
      by (auto dest!: try_exclusive_SomeD intro!: counts_move [OF ok] simp: lock_frame)
  next
    case (s_acquire t m)
    with coh [of t] show ?thesis
      by (auto dest!: try_shared_SomeD intro!: counts_move [OF ok] simp: lock_frame)
  next
    case (l_locked t m)
    with coh [of t] show ?thesis
      by (auto dest!: try_shared_SomeD intro!: counts_move [OF ok] simp: lock_frame)
  next
    case (l_registered t m i)
    with coh [of t] show ?thesis
      by (auto dest!: register_low_SomeD intro!: counts_move [OF ok] simp: lock_frame)
  next
    case (got t k b)
    with coh [of t] wr [of t] show ?thesis
      by (cases b) (auto intro!: counts_move [OF ok] simp: lock_frame)
  next
    case (got_late t k b e)
    with coh [of t] wr [of t "PGot k b" WNone] show ?thesis
      by (cases b) (auto intro!: counts_move [OF ok] simp: lock_frame)
  next
    case (x_end t q w)
    with coh [of t] show ?thesis
      by (cases q; cases w) (auto intro!: counts_move [OF ok] simp: lock_frame)
  next
    case (x_release t)
    with coh [of t] wr [of t "PHoldsX" WNone] show ?thesis
      by (auto intro!: counts_move [OF ok] simp: lock_frame)
  next
    case (w_granted t)
    with coh [of t] show ?thesis
      by (auto intro!: counts_move [OF ok] simp: lock_frame)
  next
    case (w_late t e)
    with coh [of t] wr [of t PWaiting WHolding] show ?thesis
      by (auto intro!: counts_move [OF ok] simp: lock_frame)
  next
    case (w_canceled t w e)
    with coh [of t] show ?thesis
      by (cases w) (auto intro!: counts_move [OF ok] simp: lock_frame)
  next
    case (s_release t)
    with coh [of t] rd [of t PHoldsS WNone] show ?thesis
      by (auto intro!: counts_move [OF ok] simp: lock_frame)
  next
    case (l_yielded t)
    with coh [of t] rd [of t PLowYield WNone] show ?thesis
      by (auto intro!: counts_move [OF ok] simp: lock_frame)
  next
    case (l_unlock t i)
    with coh [of t] rd [of t "PLowReleasing i" WNone] show ?thesis
      by (auto intro!: counts_move [OF ok] simp: lock_frame)
  qed (use coh in \<open>(auto intro!: counts_move [OF ok] simp: lock_frame)\<close>)
qed

lemma leases_register:
  assumes ok: "leases_ok m c x" and cnt: "counts_ok m c"
    and call: "c t = (PLowLocked, WNone)" and reg: "register_low t (x t) m = Some (m', i)"
  shows "leases_ok m' (c(t := (PLowRegistered i, WNone))) x"
proof -
  note m' = register_low_SomeD [OF reg]
  have fresh: "vm_low m i = None" using leases_okD(2) [OF ok, of i] m' by simp
  have none: "\<not> prior (c u)" for u
    using tally_pos [OF cnt, of prior u] m' cnt idle_contributes_nothing
    by (auto simp: counts_ok_def)
  have free: "lease_of (fst (c u)) \<noteq> Some i" for u
    using leases_okD(1) [OF ok, of i u] fresh by simp
  show ?thesis
  proof (rule leases_okI)
    fix j u
    show "vm_low m' j = Some u \<longleftrightarrow> lease_of (fst ((c(t := (PLowRegistered i, WNone))) u)) = Some j"
      using leases_okD(1) [OF ok, of j u] free [of u] fresh call m' by auto
    show "prior ((c(t := (PLowRegistered i, WNone))) u) \<Longrightarrow> vm_low m' j \<noteq> None \<Longrightarrow>
      vm_cause m' j \<noteq> None \<or> j \<in> pending (fst ((c(t := (PLowRegistered i, WNone))) u))"
      using none [of u] by (auto split: if_splits)
    show "e = err_low_priority_yield \<or> x u = Some e"
      if held: "fst ((c(t := (PLowRegistered i, WNone))) u) = PHoldsLow j \<or>
        fst ((c(t := (PLowRegistered i, WNone))) u) = PLowRegistered j"
        and cause: "vm_cause m' j = Some e" for e
    proof (cases "u = t")
      case True
      with held cause m' show ?thesis by auto
    next
      case False
      with held have "fst (c u) = PHoldsLow j \<or> fst (c u) = PLowRegistered j" by simp
      moreover from this free [of u] have "j \<noteq> i" by auto
      ultimately show ?thesis using leases_okD(4) [OF ok] cause m' by auto
    qed
  next
    fix j assume "vm_next m' < j"
    then show "vm_low m' j = None" using leases_okD(2) [OF ok, of j] m' by auto
  qed
qed

lemma leases_delete:
  assumes ok: "leases_ok m c x" and call: "c t = (PLowDeleting i, WNone)"
  shows "leases_ok (delete_low i m) (c(t := (PDone, WNone))) x"
proof (rule leases_okI)
  have own: "lease_of (fst (c u)) = Some i \<longleftrightarrow> u = t" for u
    using lease_holder_unique [OF ok, of t i u] call by auto
  fix j u
  show "vm_low (delete_low i m) j = Some u \<longleftrightarrow>
      lease_of (fst ((c(t := (PDone, WNone))) u)) = Some j"
    using leases_okD(1) [OF ok, of j u] own [of u] call by (auto simp: delete_low_def)
  show "prior ((c(t := (PDone, WNone))) u) \<Longrightarrow> vm_low (delete_low i m) j \<noteq> None \<Longrightarrow>
      vm_cause (delete_low i m) j \<noteq> None \<or> j \<in> pending (fst ((c(t := (PDone, WNone))) u))"
    using leases_okD(3) [OF ok, of u j] by (auto simp: delete_low_def split: if_splits)
  show "e = err_low_priority_yield \<or> x u = Some e"
    if "fst ((c(t := (PDone, WNone))) u) = PHoldsLow j \<or>
      fst ((c(t := (PDone, WNone))) u) = PLowRegistered j"
      and "vm_cause (delete_low i m) j = Some e" for e
    using leases_okD(4) [OF ok, of u j e] that by (auto simp: delete_low_def split: if_splits)
qed (use leases_okD(2) [OF ok] in \<open>simp add: delete_low_def\<close>)

text \<open>A pauser drops a reader from its list only once that lease is cancelled.\<close>

lemma leases_pause:
  assumes ok: "leases_ok m c x" and call: "c t = (PPausing k ((i, owner) # rs), WNone)"
  shows "leases_ok (cancel_lease i err_low_priority_yield m) (c(t := (PPausing k rs, WNone))) x"
proof -
  have canceled: "leases_ok (cancel_lease i err_low_priority_yield m) c x"
    by (rule leases_cancel [OF ok]) simp
  show ?thesis
  proof (rule leases_okI)
    fix j u
    show "prior ((c(t := (PPausing k rs, WNone))) u) \<Longrightarrow>
      vm_low (cancel_lease i err_low_priority_yield m) j \<noteq> None \<Longrightarrow>
      vm_cause (cancel_lease i err_low_priority_yield m) j \<noteq> None \<or>
      j \<in> pending (fst ((c(t := (PPausing k rs, WNone))) u))"
      using leases_okD(3) [OF canceled, of u j] call by (cases "j = i"; cases "u = t") auto
    show "vm_low (cancel_lease i err_low_priority_yield m) j = Some u \<longleftrightarrow>
      lease_of (fst ((c(t := (PPausing k rs, WNone))) u)) = Some j"
      using leases_okD(1) [OF canceled, of j u] call by (cases "u = t") auto
    show "e = err_low_priority_yield \<or> x u = Some e"
      if "fst ((c(t := (PPausing k rs, WNone))) u) = PHoldsLow j \<or>
        fst ((c(t := (PPausing k rs, WNone))) u) = PLowRegistered j"
        "vm_cause (cancel_lease i err_low_priority_yield m) j = Some e" for e
      using leases_okD(4) [OF canceled, of u j e] that by (cases "u = t") auto
  qed (use leases_okD(2) [OF canceled] in simp)
qed

lemma leases_release:
  assumes ok: "leases_ok m c x" and call: "c t = (PHoldsLow i, WNone)"
  shows "leases_ok (cancel_lease i e m) (c(t := (PLowReleasing i, WNone))) x"
proof (rule leases_cancel)
  show "leases_ok m (c(t := (PLowReleasing i, WNone))) x"
    by (rule leases_move [OF ok]) (simp_all add: call)
  show "e = err_low_priority_yield \<or> x u = Some e"
    if "fst ((c(t := (PLowReleasing i, WNone))) u) = PHoldsLow i \<or>
      fst ((c(t := (PLowReleasing i, WNone))) u) = PLowRegistered i" for u
    using lease_holder_unique [OF ok, of t i u] call that by (auto split: if_splits)
qed

lemma leases_context:
  assumes ok: "leases_ok m c x" and "x t = None"
  shows "leases_ok (case lease_of (fst (c t)) of None \<Rightarrow> m | Some i \<Rightarrow> cancel_lease i e m) c (x(t := Some e))"
proof -
  have wider: "leases_ok m c (x(t := Some e))"
  proof (rule leases_okI)
    fix u i e'
    assume "fst (c u) = PHoldsLow i \<or> fst (c u) = PLowRegistered i" "vm_cause m i = Some e'"
    with leases_okD(4) [OF ok] have "e' = err_low_priority_yield \<or> x u = Some e'" by blast
    with assms(2) show "e' = err_low_priority_yield \<or> (x(t := Some e)) u = Some e'" by auto
  qed (rule leases_okD [OF ok]; assumption)+
  show ?thesis
  proof (cases "lease_of (fst (c t))")
    case None
    with wider show ?thesis by simp
  next
    case (Some i)
    have "leases_ok (cancel_lease i e m) c (x(t := Some e))"
    proof (rule leases_cancel [OF wider])
      fix u assume "fst (c u) = PHoldsLow i \<or> fst (c u) = PLowRegistered i"
      then have "lease_of (fst (c u)) = Some i" by auto
      with lease_holder_unique [OF ok Some] have "u = t" by simp
      then show "e = err_low_priority_yield \<or> (x(t := Some e)) u = Some e" by simp
    qed
    with Some show ?thesis by simp
  qed
qed

lemma prior_phase: "prior (p, w) = prior (p, w')"
  by (cases p) simp_all

lemma step_leases:
  assumes st: "lock_step s s'" and cnt: "counts_ok (lk s) (calls s)"
    and ok: "leases_ok (lk s) (calls s) (ctxs s)"
  shows "leases_ok (lk s') (calls s') (ctxs s')"
  using st
proof cases
  case (ctx_end t e)
  with leases_context [OF ok, of t e] show ?thesis by (simp add: context_ends_def)
next
  case (x_begin t rs k)
  then show ?thesis
    by (auto intro!: leases_move [OF ok] simp: begin_priority_def low_priority_readers_def image_iff)
      (metis fst_conv)
next
  case (x_pause t k i owner rs)
  with leases_pause [OF ok] show ?thesis by simp
next
  case (l_registered t m i)
  with leases_register [OF ok cnt] show ?thesis by simp
next
  case (l_release t i)
  with leases_release [OF ok] show ?thesis by simp
next
  case (l_delete t i)
  with leases_delete [OF ok] show ?thesis by simp
qed (auto dest!: try_exclusive_SomeD try_shared_SomeD intro!: leases_move [OF ok]
      simp: lock_frame intro: prior_phase [THEN iffD1])

lemma outcome_not_trying [simp]: "outcome_pc o' \<noteq> PTryNow"
  by (cases o') simp_all

lemma drained_move:
  assumes "drained_ok m c" and "vm_low m' = vm_low m"
    and "fst y = PTryNow \<Longrightarrow> fst (c t) = PTryNow \<or> vm_low m = Map.empty"
  shows "drained_ok m' (c(t := y))"
  unfolding drained_ok_def
proof (intro allI impI)
  fix u assume "fst ((c(t := y)) u) = PTryNow"
  then have "fst (c u) = PTryNow \<or> vm_low m = Map.empty"
    using assms(3) by (cases "u = t") auto
  with assms(1,2) show "vm_low m' = Map.empty" unfolding drained_ok_def by metis
qed

lemma step_drained:
  assumes st: "lock_step s s'" and cnt: "counts_ok (lk s) (calls s)"
    and ok: "drained_ok (lk s) (calls s)"
  shows "drained_ok (lk s') (calls s')"
  using st
proof cases
  case (ctx_end t e)
  with ok show ?thesis by (simp add: drained_ok_def context_ends_def split: option.splits)
next
  case (l_registered t m i)
  have "\<not> prior (calls s u)" for u
    using tally_pos [OF cnt, of prior u] register_low_SomeD [OF l_registered(3)] cnt
      idle_contributes_nothing by (auto simp: counts_ok_def)
  then have "fst (calls s u) \<noteq> PTryNow" for u
    by (cases "calls s u") (metis fst_conv prior.simps(4))
  with l_registered show ?thesis by (simp add: drained_ok_def)
next
  case (l_delete t i)
  with ok show ?thesis by (auto simp: drained_ok_def delete_low_def)
qed (auto dest!: try_exclusive_SomeD try_shared_SomeD intro!: drained_move [OF ok] simp: lock_frame)

lemma init_inv: "lock_init s \<Longrightarrow> lock_inv s"
  by (auto simp: lock_init_def lock_inv_def counts_ok_def leases_ok_def drained_ok_def
      new_vault_mutex_def tally_def owns_def)

lemma step_inv: "lock_step s s' \<Longrightarrow> lock_inv s \<Longrightarrow> lock_inv s'"
  unfolding lock_inv_def using step_counts step_leases step_drained by blast

interpretation gate: step_system lock_init lock_step lock_inv
  by unfold_locales (blast intro: init_inv step_inv)+

section \<open>Properties\<close>

text \<open>What a call that has returned its release function may do on the vault.\<close>

fun holds_shared :: "lock_pc \<Rightarrow> bool" where
  "holds_shared PHoldsS = True"
| "holds_shared (PHoldsLow _) = True"
| "holds_shared _ = False"

text \<open>
  C5. While a call holds a vault exclusively, no other call holds it, exclusively or
  shared, in every interleaving of calls, cancellations and writer goroutines.
\<close>

theorem vault_exclusion:
  assumes "lock_init s0" and "lock_step\<^sup>*\<^sup>* s0 s"
    and "fst (calls s t) = PHoldsX" and "u \<noteq> t"
  shows "fst (calls s u) \<noteq> PHoldsX \<and> \<not> holds_shared (fst (calls s u))"
proof -
  have cnt: "counts_ok (lk s) (calls s)"
    using gate.inv_reachable [OF assms(1,2)] by (simp add: lock_inv_def)
  have t: "inside (calls s t)" using assms(3) by (cases "calls s t") auto
  have "fst (calls s u) \<noteq> PHoldsX"
  proof
    assume "fst (calls s u) = PHoldsX"
    then have "inside (calls s u)" by (cases "calls s u") auto
    with owns_unique [OF cnt inside_owns [OF t] inside_owns] assms(4) show False by blast
  qed
  moreover have "\<not> holds_shared (fst (calls s u))"
  proof
    assume "holds_shared (fst (calls s u))"
    then have "reads (calls s u)"
      by (cases "calls s u"; cases "fst (calls s u)") auto
    with readers_pos [OF cnt] inside_excludes [OF cnt t] show False by fastforce
  qed
  ultimately show ?thesis ..
qed

text \<open>
  C6. While a call has priority, every lease in the table of low-priority readers is cancelled already or is
  still on the list that call is going through.  A lease its reader holds is only ever cancelled with the yield
  error or, where the reader's own context ended first, with that context's error.
\<close>

theorem priority_cancels_leases:
  assumes "lock_init s0" and "lock_step\<^sup>*\<^sup>* s0 s"
    and "prior (calls s t)" and "vm_low (lk s) i = Some u"
  shows "(\<exists>e. vm_cause (lk s) i = Some e \<and> (fst (calls s u) \<in> {PHoldsLow i, PLowRegistered i} \<longrightarrow>
      e = err_low_priority_yield \<or> ctxs s u = Some e)) \<or>
    (\<exists>k rs. fst (calls s t) = PPausing k rs \<and> i \<in> fst ` set rs)"
proof (cases "vm_cause (lk s) i")
  have ok: "leases_ok (lk s) (calls s) (ctxs s)"
    using gate.inv_reachable [OF assms(1,2)] by (simp add: lock_inv_def)
  case None
  with leases_okD(3) [OF ok assms(3), of i] assms(4) have "i \<in> pending (fst (calls s t))" by auto
  then show ?thesis by (cases "fst (calls s t)") auto
next
  have ok: "leases_ok (lk s) (calls s) (ctxs s)"
    using gate.inv_reachable [OF assms(1,2)] by (simp add: lock_inv_def)
  case (Some e)
  with leases_okD(4) [OF ok, of u i e] show ?thesis by auto
qed

text \<open>The call has returned, and so has its release function where it got one.\<close>

fun returned :: "lock_pc \<Rightarrow> bool" where
  "returned PIdle = True"
| "returned PDone = True"
| "returned PBusy = True"
| "returned (PFailed _) = True"
| "returned _ = False"

lemma returned_rest:
  assumes "returned p" and "coherent (p, w)"
  shows "\<not> reads (p, w)" "\<not> prior (p, w)" "owns (p, w) \<longleftrightarrow> w \<in> {WAnnounced, WHolding}" "lease_of p = None"
    "w \<noteq> WNone \<Longrightarrow> \<exists>e. p = PFailed e"
  using assms by (cases p rule: returned.cases; cases w; simp add: owns_def)+

text \<open>
  C7. No path leaks the lock: once every call has returned and every returned release function has run, the
  vault has no reader, no priority and no lease, whatever was cancelled on the way.  It is held for writing only by
  a goroutine of a waiting call that failed; while such goroutines are left, one of them can go on.
\<close>

theorem vault_lock_no_leak:
  assumes "lock_init s0" and "lock_step\<^sup>*\<^sup>* s0 s" and "\<forall>t. returned (fst (calls s t))"
  shows "vm_readers (lk s) = 0 \<and> vm_priority (lk s) = 0 \<and> vm_low (lk s) = Map.empty \<and>
    (vm_writer (lk s) \<longleftrightarrow> (\<exists>t. snd (calls s t) \<in> {WAnnounced, WHolding})) \<and>
    (\<forall>t. snd (calls s t) \<noteq> WNone \<longrightarrow> (\<exists>e. fst (calls s t) = PFailed e)) \<and>
    ((\<exists>t. snd (calls s t) \<noteq> WNone) \<longrightarrow>
      (\<exists>t w m. snd (calls s t) \<noteq> WNone \<and> w \<noteq> snd (calls s t) \<and> lock_step s (moves s t m (fst (calls s t)) w)))"
proof -
  have inv: "counts_ok (lk s) (calls s)" "leases_ok (lk s) (calls s) (ctxs s)"
    using gate.inv_reachable [OF assms(1,2)] by (simp_all add: lock_inv_def)
  have rest: "\<not> reads (calls s t)" "\<not> prior (calls s t)" "owns (calls s t) \<longleftrightarrow> snd (calls s t) \<in> {WAnnounced, WHolding}"
      "lease_of (fst (calls s t)) = None" "snd (calls s t) \<noteq> WNone \<Longrightarrow> \<exists>e. fst (calls s t) = PFailed e" for t
    using returned_rest [of "fst (calls s t)" "snd (calls s t)"] assms(3) inv(1) by (simp_all add: counts_ok_def)
  have low: "vm_low (lk s) i = None" for i
    using leases_okD(1) [OF inv(2)] rest(4) by (cases "vm_low (lk s) i") auto
  have none: "vm_readers (lk s) = 0" "vm_priority (lk s) = 0"
    using inv(1) rest(1,2) by (auto simp: counts_ok_def tally_def)
  have fin: "finite {t. owns (calls s t)}" using counts_finite [OF inv(1), of owns] idle_contributes_nothing by blast
  have "of_bool (vm_writer (lk s)) = tally owns (calls s)" using inv(1) by (simp add: counts_ok_def)
  then have "vm_writer (lk s) \<longleftrightarrow> (\<exists>t. owns (calls s t))"
    using fin by (cases "vm_writer (lk s)") (auto simp: tally_def card_gt_0_iff dest: card_eq_SucD)
  then have writer: "vm_writer (lk s) \<longleftrightarrow> (\<exists>t. snd (calls s t) \<in> {WAnnounced, WHolding})" using rest(3) by simp
  have step: "\<exists>t w m. snd (calls s t) \<noteq> WNone \<and> w \<noteq> snd (calls s t) \<and> lock_step s (moves s t m (fst (calls s t)) w)"
    if u: "snd (calls s u) \<noteq> WNone" for u
  proof -
    obtain v where v: "snd (calls s v) \<noteq> WNone" "snd (calls s v) = WQueued \<Longrightarrow> \<not> vm_writer (lk s)"
    proof (cases "vm_writer (lk s)")
      case True
      with writer obtain v where "snd (calls s v) \<in> {WAnnounced, WHolding}" by blast
      then show ?thesis by (intro that [of v]) auto
    qed (use that [of u] u in simp)
    obtain e where "fst (calls s v) = PFailed e" using rest(5) v(1) by blast
    then have c: "calls s v = (PFailed e, snd (calls s v))" by (metis prod.collapse)
    show ?thesis
    proof (cases "snd (calls s v)")
      case WQueued
      with c v(2) have "lock_step s (moves s v ((lk s)\<lparr>vm_writer := True\<rparr>) (PFailed e) WAnnounced)"
        by (intro w_announce) simp_all
      then show ?thesis using c WQueued by (intro exI [of _ v] exI [of _ WAnnounced] exI) auto
    next
      case WAnnounced
      with c none have "lock_step s (moves s v (lk s) (PFailed e) WHolding)" by (intro w_locked) simp_all
      then show ?thesis using c WAnnounced by (intro exI [of _ v] exI [of _ WHolding] exI) auto
    next
      case WHolding
      with c have "lock_step s (moves s v (unlock_exclusive (lk s)) (PFailed e) WNone)" by (intro w_cleanup) simp_all
      then show ?thesis using c WHolding by (intro exI [of _ v] exI [of _ WNone] exI) auto
    qed (use v in simp)
  qed
  have "vm_low (lk s) = Map.empty" using low by blast
  moreover have "(\<exists>t. snd (calls s t) \<noteq> WNone) \<longrightarrow>
      (\<exists>t w m. snd (calls s t) \<noteq> WNone \<and> w \<noteq> snd (calls s t) \<and> lock_step s (moves s t m (fst (calls s t)) w))"
    using step by blast
  moreover have "\<forall>t. snd (calls s t) \<noteq> WNone \<longrightarrow> (\<exists>e. fst (calls s t) = PFailed e)" using rest(5) by blast
  ultimately show ?thesis using none writer by simp
qed

text \<open>
  \<open>YieldLowPriorityAndTryExclusiveContext\<close> finds the vault taken only because of an
  ordinary reader, another exclusive owner, or a low-priority reader that has taken the
  physical lock and not yet registered its lease; a registered lease never makes it busy.
\<close>

theorem yield_busy_reasons:
  assumes "lock_init s0" and "lock_step\<^sup>*\<^sup>* s0 s"
    and "calls s t = (PTryNow, WNone)" and "try_exclusive (lk s) = None"
  shows "\<exists>u. u \<noteq> t \<and> (owns (calls s u) \<or> fst (calls s u) \<in> {PHoldsS, PLowLocked, PLowYield})"
proof -
  have inv: "counts_ok (lk s) (calls s)" "leases_ok (lk s) (calls s) (ctxs s)"
    "drained_ok (lk s) (calls s)"
    using gate.inv_reachable [OF assms(1,2)] by (simp_all add: lock_inv_def)
  have "vm_low (lk s) = Map.empty" using inv(3) assms(3) unfolding drained_ok_def by (metis fst_conv)
  then have no_lease: "lease_of (fst (calls s u)) = None" for u
    using leases_okD(1) [OF inv(2), of _ u] by (cases "lease_of (fst (calls s u))") auto
  from assms(4) consider "vm_writer (lk s)" | "0 < vm_readers (lk s)"
    by (auto simp: try_exclusive_def split: if_splits)
  then show ?thesis
  proof cases
    case 1
    then have "tally owns (calls s) = 1" using inv(1) by (simp add: counts_ok_def)
    then have "{u. owns (calls s u)} \<noteq> {}"
      unfolding tally_def by (metis card.empty of_nat_0 zero_neq_one)
    then obtain u where "owns (calls s u)" by blast
    moreover from this assms(3) have "u \<noteq> t" by (auto simp: owns_def)
    ultimately show ?thesis by blast
  next
    case 2
    then have "{u. reads (calls s u)} \<noteq> {}"
      using inv(1) unfolding counts_ok_def tally_def by (metis card.empty less_irrefl of_nat_0_less_iff)
    then obtain u where "reads (calls s u)" by blast
    with no_lease [of u] have "fst (calls s u) \<in> {PHoldsS, PLowLocked, PLowYield}"
      by (cases "calls s u" rule: reads.cases) auto
    moreover from this assms(3) have "u \<noteq> t" by auto
    ultimately show ?thesis by blast
  qed
qed

section \<open>Sample runs\<close>

definition lock_start :: lock_sys where
  "lock_start = \<lparr>lk = new_vault_mutex, calls = (\<lambda>_. (PIdle, WNone)), ctxs = (\<lambda>_. None),
     pauses = (\<lambda>_. (None, []))\<rparr>"

lemma lock_start_init: "lock_init lock_start"
  by (simp add: lock_start_def lock_init_def)

text \<open>Call 2, a low-priority reader, has taken the physical lock.\<close>

definition low_locked :: lock_sys where
  "low_locked = lock_start\<lparr>lk := new_vault_mutex\<lparr>vm_readers := 1\<rparr>,
     calls := (\<lambda>_. (PIdle, WNone))(2 := (PLowLocked, WNone))\<rparr>"

lemma low_locked_reached: "lock_step\<^sup>*\<^sup>* lock_start low_locked"
proof -
  let ?m = new_vault_mutex
  let ?s1 = "moves lock_start 2 ?m PLowTop WNone"
  let ?s2 = "moves ?s1 2 ?m PLowTry WNone"
  have "lock_step lock_start ?s1"
    using l_begin [of lock_start 2] by (simp add: lock_start_def)
  moreover have "lock_step ?s1 ?s2"
    using l_free [of ?s1 2] by (simp add: new_vault_mutex_def)
  moreover have "lock_step ?s2 low_locked"
    using l_locked [of ?s2 2 "?m\<lparr>vm_readers := 1\<rparr>"]
    by (simp add: new_vault_mutex_def try_shared_def moves_def low_locked_def lock_start_def)
  ultimately show ?thesis by (meson rtranclp.rtrancl_into_rtrancl rtranclp.rtrancl_refl)
qed

text \<open>
  The window exists: with one low-priority reader on its way in and no other call
  ever made, the exclusive attempt reports the vault busy, although only a low-priority
  reader that yields to it held the lock.
\<close>

theorem yield_busy_by_low_reader:
  "\<exists>s. lock_step\<^sup>*\<^sup>* lock_start s \<and>
     (fst \<circ> calls s) = (\<lambda>_. PIdle)(2 := PLowYield, 1 := PBusy)"
proof -
  let ?m = "new_vault_mutex\<lparr>vm_readers := 1\<rparr>"
  let ?p = "begin_priority ?m"
  let ?s1 = "moves low_locked 1 ?p (PPausing TryX []) WNone"
  let ?s2 = "moves ?s1 1 ?p (PTop TryX) WNone"
  let ?s3 = "moves ?s2 1 ?p PTryNow WNone"
  let ?s4 = "moves ?s3 1 ?p (PGot TryX False) WNone"
  let ?s5 = "moves ?s4 1 ?p (PEnding Busy) WNone"
  let ?s6 = "moves ?s5 2 ?p PLowYield WNone"
  let ?s7 = "moves ?s6 1 (end_priority ?p) PBusy WNone"
  have "lock_step low_locked ?s1"
    using x_begin [of low_locked 1 "[]" TryX]
    by (simp add: low_locked_def lock_start_def low_priority_readers_def new_vault_mutex_def)
  moreover have "lock_step ?s1 ?s2" using x_paused [of ?s1 1 TryX] by simp
  moreover have "lock_step ?s2 ?s3"
    using y_drained [of ?s2 1] by (simp add: begin_priority_def new_vault_mutex_def)
  moreover have "lock_step ?s3 ?s4"
    using y_busy [of ?s3 1] by (simp add: begin_priority_def new_vault_mutex_def try_exclusive_def)
  moreover have "lock_step ?s4 ?s5"
    using got [of ?s4 1 TryX False] by (simp add: low_locked_def lock_start_def)
  moreover have "lock_step ?s5 ?s6"
    using l_yields [of ?s5 2]
    by (simp add: low_locked_def register_low_def begin_priority_def new_vault_mutex_def)
  moreover have "lock_step ?s6 ?s7" using x_end [of ?s6 1 Busy WNone] by simp
  ultimately have "lock_step\<^sup>*\<^sup>* lock_start ?s7"
    using low_locked_reached by (meson rtranclp.rtrancl_into_rtrancl)
  moreover have "calls ?s7 = (\<lambda>_. (PIdle, WNone))(2 := (PLowYield, WNone), 1 := (PBusy, WNone))"
    by (auto simp: low_locked_def lock_start_def)
  ultimately show ?thesis by (intro exI [of _ ?s7]) (simp add: fun_upd_comp comp_def fun_eq_iff)
qed

text \<open>Call 1 takes the free vault exclusively and gives it back.\<close>

definition x_held :: lock_sys where
  "x_held = lock_start\<lparr>lk := new_vault_mutex\<lparr>vm_writer := True\<rparr>,
     calls := (\<lambda>_. (PIdle, WNone))(1 := (PHoldsX, WNone))\<rparr>"

definition x_done :: lock_sys where
  "x_done = lock_start\<lparr>calls := (\<lambda>_. (PIdle, WNone))(1 := (PDone, WNone))\<rparr>"

lemma x_held_reached: "lock_step\<^sup>*\<^sup>* lock_start x_held"
proof -
  let ?p = "begin_priority new_vault_mutex"
  let ?w = "?p\<lparr>vm_writer := True\<rparr>"
  let ?s1 = "moves lock_start 1 ?p (PPausing WaitX []) WNone"
  let ?s2 = "moves ?s1 1 ?p (PTop WaitX) WNone"
  let ?s3 = "moves ?s2 1 ?w (PGot WaitX True) WNone"
  let ?s4 = "moves ?s3 1 ?w (PEnding Granted) WNone"
  have "lock_step lock_start ?s1"
    using x_begin [of lock_start 1 "[]" WaitX]
    by (simp add: lock_start_def low_priority_readers_def new_vault_mutex_def)
  moreover have "lock_step ?s1 ?s2" using x_paused [of ?s1 1 WaitX] by simp
  moreover have "lock_step ?s2 ?s3"
    using x_try [of ?s2 1 ?w] by (simp add: begin_priority_def new_vault_mutex_def try_exclusive_def)
  moreover have "lock_step ?s3 ?s4"
    using got [of ?s3 1 WaitX True] by (simp add: lock_start_def)
  moreover have "lock_step ?s4 x_held"
    using x_end [of ?s4 1 Granted WNone]
    by (simp add: x_held_def lock_start_def moves_def begin_priority_def end_priority_def
        new_vault_mutex_def)
  ultimately show ?thesis by (meson rtranclp.rtrancl_into_rtrancl rtranclp.rtrancl_refl)
qed

lemma x_done_reached: "lock_step\<^sup>*\<^sup>* lock_start x_done"
proof -
  have "lock_step x_held x_done"
    using x_release [of x_held 1]
    by (simp add: x_held_def x_done_def lock_start_def moves_def unlock_exclusive_def
        new_vault_mutex_def)
  with x_held_reached show ?thesis by (rule rtranclp.rtrancl_into_rtrancl)
qed

theorem vault_exclusion_witness:
  "fst (calls x_held 2) \<noteq> PHoldsX \<and> \<not> holds_shared (fst (calls x_held 2))"
  by (rule vault_exclusion [OF lock_start_init x_held_reached, of 1]) (simp_all add: x_held_def)

theorem vault_lock_no_leak_witness:
  "vm_readers (lk x_done) = 0 \<and> \<not> vm_writer (lk x_done) \<and> vm_priority (lk x_done) = 0 \<and>
    vm_low (lk x_done) = Map.empty"
  using vault_lock_no_leak [OF lock_start_init x_done_reached] by (simp add: x_done_def)

text \<open>Call 2 holds a low-priority lease; call 1 takes priority over it.\<close>

definition low_paused :: lock_sys where
  "low_paused = \<lparr>lk = \<lparr>vm_readers = 1, vm_writer = False, vm_next = 1, vm_priority = 1,
       vm_low = [1 \<mapsto> 2], vm_cause = (\<lambda>_. None)(1 := Some err_low_priority_yield)\<rparr>,
     calls = (\<lambda>_. (PIdle, WNone))(2 := (PHoldsLow 1, WNone), 1 := (PTop TryX, WNone)),
     ctxs = (\<lambda>_. None), pauses = (\<lambda>_. (None, []))(2 := (Some False, [False, True]))\<rparr>"

lemma low_paused_reached: "lock_step\<^sup>*\<^sup>* lock_start low_paused"
proof -
  let ?m = "\<lparr>vm_readers = 1, vm_writer = False, vm_next = 1, vm_priority = 0,
    vm_low = [1 \<mapsto> 2], vm_cause = (\<lambda>_. None)\<rparr>"
  let ?c = "cancel_lease 1 err_low_priority_yield (begin_priority ?m)"
  let ?s1 = "moves low_locked 2 ?m (PLowRegistered 1) WNone"
  let ?s2 = "reports 2 False (moves ?s1 2 ?m (PHoldsLow 1) WNone)"
  let ?s3 = "moves ?s2 1 (begin_priority ?m) (PPausing TryX [(1, 2)]) WNone"
  let ?s4 = "notifies 2 (moves ?s3 1 ?c (PPausing TryX []) WNone)"
  have "lock_step low_locked ?s1"
    using l_registered [of low_locked 2 ?m 1]
    by (simp add: low_locked_def register_low_def new_vault_mutex_def lock_start_def fun_upd_idem)
  moreover have "lock_step ?s1 ?s2" using l_admitted [of ?s1 2 1] by simp
  moreover have "lock_step ?s2 ?s3"
    using x_begin [of ?s2 1 "[(1, 2)]" TryX]
    by (auto simp: low_priority_readers_def low_locked_def lock_start_def split: if_splits)
  moreover have "lock_step ?s3 ?s4"
    using x_pause [of ?s3 1 TryX 1 2 "[]"] by simp
  moreover have "lock_step ?s4 low_paused"
    using x_paused [of ?s4 1 TryX]
    by (simp add: low_paused_def low_locked_def lock_start_def moves_def reports_def notifies_def
        report_pause_def begin_priority_def cancel_lease_def fun_upd_twist)
  ultimately show ?thesis
    using low_locked_reached by (meson rtranclp.rtrancl_into_rtrancl)
qed

theorem priority_cancels_leases_witness:
  "vm_cause (lk low_paused) 1 = Some err_low_priority_yield"
  using priority_cancels_leases [OF lock_start_init low_paused_reached, of 1 1 2]
  by (simp add: low_paused_def)

definition low_trying :: lock_sys where
  "low_trying = low_locked\<lparr>lk := begin_priority (lk low_locked),
     calls := (calls low_locked)(1 := (PTryNow, WNone))\<rparr>"

lemma low_trying_reached: "lock_step\<^sup>*\<^sup>* lock_start low_trying"
proof -
  let ?p = "begin_priority (lk low_locked)"
  let ?s1 = "moves low_locked 1 ?p (PPausing TryX []) WNone"
  let ?s2 = "moves ?s1 1 ?p (PTop TryX) WNone"
  have "lock_step low_locked ?s1"
    using x_begin [of low_locked 1 "[]" TryX]
    by (simp add: low_locked_def lock_start_def low_priority_readers_def new_vault_mutex_def)
  moreover have "lock_step ?s1 ?s2" using x_paused [of ?s1 1 TryX] by simp
  moreover have "lock_step ?s2 low_trying"
    using y_drained [of ?s2 1]
    by (simp add: begin_priority_def new_vault_mutex_def low_trying_def low_locked_def moves_def)
  ultimately show ?thesis
    using low_locked_reached by (meson rtranclp.rtrancl_into_rtrancl)
qed

theorem yield_busy_reasons_witness:
  "\<exists>u. u \<noteq> 1 \<and> (owns (calls low_trying u) \<or>
     fst (calls low_trying u) \<in> {PHoldsS, PLowLocked, PLowYield})"
  by (rule yield_busy_reasons [OF lock_start_init low_trying_reached])
    (simp_all add: low_trying_def low_locked_def try_exclusive_def begin_priority_def)

end
