(* ===== verification/SecretCodec.thy ===== *)
theory SecretCodec
  imports GoErrors "HOL-Library.Word"
begin

text \<open>
  The reversible encoding of stored secrets (\<open>database/secretcodec.go\<close>), with the
  parts of \<open>math/bits\<close>, \<open>hash/crc32\<close>, \<open>encoding/binary\<close> and \<open>encoding/base64\<close> it
  uses: a length and a CRC-32C in front of the rotated and masked bytes, as unpadded
  URL-safe base64 behind a version prefix.
\<close>

unbundle bit_operations_syntax

section \<open>Standard library\<close>

text \<open>\<open>bits.RotateLeft8\<close>; a negative count rotates right.\<close>

definition rotate_left8 :: "int \<Rightarrow> 8 word \<Rightarrow> 8 word" where
  "rotate_left8 k x = (let s = nat (k mod 8) in push_bit s x OR drop_bit (8 - s) x)"

text \<open>The Castagnoli table and checksum, byte by byte.\<close>

fun crc_shift :: "nat \<Rightarrow> 32 word \<Rightarrow> 32 word" where
  "crc_shift 0 c = c"
| "crc_shift (Suc n) c =
     crc_shift n (if bit c 0 then drop_bit 1 c XOR 0x82f63b78 else drop_bit 1 c)"

definition crc32c :: "8 word list \<Rightarrow> 32 word" where
  "crc32c bs = NOT (foldl (\<lambda>c b. crc_shift 8 (ucast ((ucast c :: 8 word) XOR b)) XOR drop_bit 8 c)
     (NOT 0) bs)"

text \<open>\<open>BigEndian.PutUint64\<close>, \<open>PutUint32\<close> and their inverses, on \<open>k\<close> bytes.\<close>

fun big_endian :: "nat \<Rightarrow> nat \<Rightarrow> 8 word list" where
  "big_endian 0 n = []"
| "big_endian (Suc k) n = big_endian k (n div 256) @ [word_of_nat n]"

definition big_endian_value :: "8 word list \<Rightarrow> nat" where
  "big_endian_value bs = foldl (\<lambda>n b. 256 * n + unat b) 0 bs"

definition base64_alphabet :: string where
  "base64_alphabet = ''ABCDEFGHIJKLMNOPQRSTUVWXYZabcdefghijklmnopqrstuvwxyz0123456789-_''"

definition b64_char :: "nat \<Rightarrow> char" where
  "b64_char n = base64_alphabet ! (n mod 64)"

fun b64_index :: "string \<Rightarrow> char \<Rightarrow> nat option" where
  "b64_index [] c = None"
| "b64_index (x # xs) c = (if x = c then Some 0 else map_option Suc (b64_index xs c))"

definition b64_value :: "char \<Rightarrow> nat option" where
  "b64_value c = b64_index base64_alphabet c"

text \<open>\<open>RawURLEncoding.EncodeToString\<close>\<close>

fun base64_encode :: "8 word list \<Rightarrow> string" where
  "base64_encode [] = []"
| "base64_encode [x] =
     (let n = unat x * 16 in [b64_char (n div 64), b64_char n])"
| "base64_encode [x, y] =
     (let n = (unat x * 256 + unat y) * 4 in
      [b64_char (n div 4096), b64_char (n div 64), b64_char n])"
| "base64_encode (x # y # z # r) =
     (let n = (unat x * 256 + unat y) * 256 + unat z in
      [b64_char (n div 262144), b64_char (n div 4096), b64_char (n div 64), b64_char n]) @
      base64_encode r"

text \<open>
  \<open>RawURLEncoding.Strict().DecodeString\<close>: carriage returns and line feeds are skipped,
  a partial group must have no stray bits.
\<close>

fun base64_groups :: "nat list \<Rightarrow> 8 word list option" where
  "base64_groups [] = Some []"
| "base64_groups [a] = None"
| "base64_groups [a, b] =
     (if b mod 16 = 0 then Some [word_of_nat ((a * 64 + b) div 16)] else None)"
| "base64_groups [a, b, c] =
     (if c mod 4 = 0 then
        (let n = (a * 64 + b) * 64 + c in Some [word_of_nat (n div 1024), word_of_nat (n div 4)])
      else None)"
| "base64_groups (a # b # c # d # r) =
     (let n = ((a * 64 + b) * 64 + c) * 64 + d in
      map_option (\<lambda>bs. word_of_nat (n div 65536) # word_of_nat (n div 256) # word_of_nat n # bs)
        (base64_groups r))"

definition base64_decode :: "string \<Rightarrow> 8 word list option" where
  "base64_decode s =
     (let vs = map b64_value (filter (\<lambda>c. byte c \<noteq> 10 \<and> byte c \<noteq> 13) s) in
      if None \<in> set vs then None else base64_groups (map the vs))"

section \<open>The codec\<close>

definition secret_codec_prefix :: string where
  "secret_codec_prefix = ''obscured:v1:''"

definition secret_codec_mask :: "8 word list" where
  "secret_codec_mask = [0x72, 0x65, 0x70, 0x6c, 0x69, 0x63, 0x61, 0x72, 0x6f]"

definition mask_byte :: "nat \<Rightarrow> 8 word" where
  "mask_byte i = secret_codec_mask ! (i mod length secret_codec_mask)"

definition encode_secret :: "8 word list \<Rightarrow> string" where
  "encode_secret plaintext =
     (if plaintext = [] then []
      else secret_codec_prefix @ base64_encode
        (big_endian 8 (length plaintext) @ big_endian 4 (unat (crc32c plaintext)) @
         map (\<lambda>(i, v). rotate_left8 (int (i mod 7) + 1) v XOR mask_byte i)
           (enumerate 0 plaintext)))"

definition decode_secret :: "string \<Rightarrow> 8 word list result" where
  "decode_secret stored =
     (if stored = [] then Inr []
      else if \<not> has_prefix stored secret_codec_prefix then
        (if has_prefix stored ''obscured:''
         then Inl (new_error ''stored secret uses an unsupported format'')
         else Inl (new_error ''stored secret is not obscured''))
      else
        let payload = trim_prefix stored secret_codec_prefix in
        (case base64_decode payload of
           None \<Rightarrow> Inl (new_error ''stored secret payload is malformed'')
         | Some frame \<Rightarrow>
             if base64_encode frame \<noteq> payload
             then Inl (new_error ''stored secret payload is malformed'')
             else if length frame < 12
             then Inl (new_error ''stored secret payload is truncated'')
             else
               let n = big_endian_value (take 8 frame) in
               if n > length frame - 12 \<or> n \<noteq> length frame - 12
               then Inl (new_error ''stored secret length is inconsistent'')
               else
                 let plaintext = map (\<lambda>(i, v). rotate_left8 (- (int (i mod 7) + 1)) (v XOR mask_byte i))
                       (enumerate 0 (drop 12 frame)) in
                 if unat (crc32c plaintext) \<noteq> big_endian_value (take 4 (drop 8 frame))
                 then Inl (new_error ''stored secret checksum is inconsistent'')
                 else Inr plaintext))"

text \<open>Go converts between \<open>string\<close> and \<open>[]byte\<close> without change.\<close>

definition string_bytes :: "string \<Rightarrow> 8 word list" where
  "string_bytes s = map (\<lambda>c. word_of_nat (byte c)) s"

definition bytes_string :: "8 word list \<Rightarrow> string" where
  "bytes_string bs = map (\<lambda>b. char_of (unat b)) bs"

section \<open>Round trips of the parts\<close>

lemma rotate_bits:
  assumes "0 < k" "k < 8" and "n < 8"
  shows "bit (rotate_left8 (int k) x) n = bit x (if n < k then n + (8 - k) else n - k)"
proof -
  have m: "nat (int k mod 8) = k" using assms by simp
  have "8 + n - k = n + (8 - k)" using assms by simp
  then show ?thesis
    using assms by (auto simp: rotate_left8_def m Let_def bit_or_iff bit_push_bit_iff
        bit_drop_bit_eq not_less add.commute dest: bit_imp_le_length)
qed

lemma rotate_back: "0 < k \<Longrightarrow> k < 8 \<Longrightarrow> rotate_left8 (- int k) x = rotate_left8 (int (8 - k)) x"
  by (simp add: rotate_left8_def zmod_zminus1_eq_if nat_diff_distrib of_nat_diff)

lemma rotate_twice:
  assumes "0 < k" "k < 8"
  shows "rotate_left8 (int (8 - k)) (rotate_left8 (int k) x) = x"
proof (rule bit_word_eqI)
  fix n assume "n < LENGTH(8)"
  then have n: "n < 8" by simp
  have r: "0 < 8 - k" "8 - k < 8" and d: "8 - (8 - k) = k" using assms by auto
  have outer: "bit (rotate_left8 (int (8 - k)) (rotate_left8 (int k) x)) n =
    bit (rotate_left8 (int k) x) (if n < 8 - k then n + k else n - (8 - k))"
    by (rule rotate_bits [OF r n, unfolded d])
  show "bit (rotate_left8 (int (8 - k)) (rotate_left8 (int k) x)) n = bit x n"
  proof (cases "n < 8 - k")
    case True
    then have "n + k < 8" "\<not> n + k < k" by auto
    with outer True rotate_bits [OF assms, of "n + k" x] show ?thesis by simp
  next
    case False
    then have "n - (8 - k) < 8" "n - (8 - k) < k" "n - (8 - k) + (8 - k) = n"
      using n assms by auto
    with outer False rotate_bits [OF assms, of "n - (8 - k)" x] show ?thesis by simp
  qed
qed

lemma rotate_left8_inverse:
  assumes "0 < k" "k < 8"
  shows "rotate_left8 (- int k) (rotate_left8 (int k) x) = x"
    and "rotate_left8 (int k) (rotate_left8 (- int k) x) = x"
proof -
  show "rotate_left8 (- int k) (rotate_left8 (int k) x) = x"
    unfolding rotate_back [OF assms] by (rule rotate_twice [OF assms])
  have "0 < 8 - k" "8 - k < 8" "8 - (8 - k) = k" using assms by auto
  with rotate_twice [of "8 - k" x] show "rotate_left8 (int k) (rotate_left8 (- int k) x) = x"
    unfolding rotate_back [OF assms] by simp
qed

lemma unat_byte: "unat (b :: 8 word) < 256"
  using unsigned_less [of b] by simp

lemma byte_256 [simp]: "(256 :: 8 word) = 0" "(65536 :: 8 word) = 0"
  by (rule word_unat_eq_iff [THEN iffD2], simp)+

text \<open>Big-endian numbers.\<close>

lemma length_big_endian [simp]: "length (big_endian k n) = k"
  by (induction k arbitrary: n) auto

lemma big_endian_value_snoc:
  "big_endian_value (bs @ [b]) = 256 * big_endian_value bs + unat b"
  by (simp add: big_endian_value_def)

lemma big_endian_value_less: "big_endian_value bs < 256 ^ length bs"
proof (induction bs rule: rev_induct)
  case Nil
  then show ?case by (simp add: big_endian_value_def)
next
  case (snoc b bs)
  with unat_byte [of b] show ?case by (simp add: big_endian_value_snoc)
qed

lemma big_endian_inverse: "big_endian_value (big_endian k n) = n mod 256 ^ k"
proof (induction k arbitrary: n)
  case 0
  then show ?case by (simp add: big_endian_value_def)
next
  case (Suc k)
  have "n mod 256 ^ Suc k = 256 * (n div 256 mod 256 ^ k) + n mod 256"
    by (simp add: mod_mult2_eq mult.commute)
  with Suc show ?case by (simp add: big_endian_value_snoc unat_of_nat)
qed

lemma big_endian_value_inverse: "big_endian (length bs) (big_endian_value bs) = bs"
proof (induction bs rule: rev_induct)
  case (snoc b bs)
  with unat_byte [of b] show ?case by (simp add: big_endian_value_snoc)
qed simp

text \<open>base64: every alphabet position is found again.\<close>

lemma b64_table: "list_all (\<lambda>v. b64_value (base64_alphabet ! v) = Some v \<and>
    byte (base64_alphabet ! v) \<noteq> 10 \<and> byte (base64_alphabet ! v) \<noteq> 13) [0..<64]"
  by code_simp

lemma b64_value_char [simp]: "b64_value (b64_char n) = Some (n mod 64)"
  and b64_char_kept [simp]: "byte (b64_char n) \<noteq> 10" "byte (b64_char n) \<noteq> 13"
  using b64_table by (simp_all add: list_all_iff b64_char_def)

lemma base64_decode_chars:
  "base64_decode (map b64_char ns) = base64_groups (map (\<lambda>n. n mod 64) ns)"
proof -
  have "filter (\<lambda>c. byte c \<noteq> 10 \<and> byte c \<noteq> 13) (map b64_char ns) = map b64_char ns"
    by (auto simp: filter_id_conv)
  then show ?thesis by (auto simp: base64_decode_def Let_def comp_def image_iff)
qed

fun base64_sextets :: "8 word list \<Rightarrow> nat list" where
  "base64_sextets [] = []"
| "base64_sextets [x] = (let n = unat x * 16 in [n div 64, n])"
| "base64_sextets [x, y] =
     (let n = (unat x * 256 + unat y) * 4 in [n div 4096, n div 64, n])"
| "base64_sextets (x # y # z # r) =
     (let n = (unat x * 256 + unat y) * 256 + unat z in
      [n div 262144, n div 4096, n div 64, n]) @ base64_sextets r"

lemma base64_encode_sextets: "base64_encode bs = map b64_char (base64_sextets bs)"
  by (induction bs rule: base64_encode.induct) (simp_all add: Let_def)

lemma sextets:
  fixes n :: nat
  shows "n div 64 mod 64 * 64 + n mod 64 = n mod 4096"
    and "n div 4096 mod 64 * 4096 + n mod 4096 = n mod 262144"
    and "n div 262144 mod 64 * 262144 + n mod 262144 = n mod 16777216"
  using mod_mult2_eq [of n 64 64] mod_mult2_eq [of n 4096 64] mod_mult2_eq [of n 262144 64]
  by (simp_all add: mult.commute)

lemma two_digits:
  fixes a b c :: nat
  shows "b * 64 + c = m \<Longrightarrow> a * 4096 + m = k \<Longrightarrow> (a * 64 + b) * 64 + c = k"
  by simp

lemma sextet_sums:
  fixes n :: nat
  shows "(n div 4096 mod 64 * 64 + n div 64 mod 64) * 64 + n mod 64 = n mod 262144"
    and "((n div 262144 mod 64 * 64 + n div 4096 mod 64) * 64 + n div 64 mod 64) * 64 + n mod 64
      = n mod 16777216"
proof -
  show "(n div 4096 mod 64 * 64 + n div 64 mod 64) * 64 + n mod 64 = n mod 262144"
    by (rule two_digits [OF sextets(1,2)])
  show "((n div 262144 mod 64 * 64 + n div 4096 mod 64) * 64 + n div 64 mod 64) * 64 + n mod 64
      = n mod 16777216"
    by (rule two_digits [OF sextets(1)]) (use sextets(2,3) [of n] in simp)
qed

lemma groups4:
  "((a * 64 + b) * 64 + c) * 64 + d = n \<Longrightarrow> base64_groups s = Some r \<Longrightarrow>
   base64_groups (a # b # c # d # s) =
     Some (word_of_nat (n div 65536) # word_of_nat (n div 256) # word_of_nat n # r)"
  by (auto simp: Let_def)

lemma groups3:
  "(a * 64 + b) * 64 + c = n \<Longrightarrow> c mod 4 = 0 \<Longrightarrow>
   base64_groups [a, b, c] = Some [word_of_nat (n div 1024), word_of_nat (n div 4)]"
  by (auto simp: Let_def)

lemma base64_groups_sextets: "base64_groups (map (\<lambda>n. n mod 64) (base64_sextets bs)) = Some bs"
proof (induction bs rule: base64_sextets.induct)
  case 1
  then show ?case by simp
next
  case (2 x)
  let ?n = "unat x * 16"
  have "?n mod 4096 = ?n" "?n mod 64 mod 16 = 0" using unat_byte [of x] by (simp_all add: mod_mod_cancel)
  with sextets(1) [of ?n] show ?case by (simp add: Let_def)
next
  case (3 x y)
  define m where "m = unat x * 256 + unat y"
  have "m < 65536" and x: "m div 256 = unat x"
    unfolding m_def using unat_byte [of x] unat_byte [of y] by simp_all
  have y: "(word_of_nat m :: 8 word) = y" by (simp add: m_def)
  have sum: "((m * 4) div 4096 mod 64 * 64 + (m * 4) div 64 mod 64) * 64 + (m * 4) mod 64 = m * 4"
    using sextet_sums(1) [of "m * 4"] \<open>m < 65536\<close> by simp
  have "m * 4 mod 64 mod 4 = 0" by (simp add: mod_mod_cancel)
  from groups3 [OF sum this] have "base64_groups (map (\<lambda>n. n mod 64) (base64_sextets [x, y])) =
    Some [word_of_nat (m * 4 div 1024), word_of_nat (m * 4 div 4)]"
    by (simp add: m_def Let_def del: base64_groups.simps)
  moreover have "m * 4 div 1024 = m div 256" using div_mult2_eq [of "m * 4" 4 256] by simp
  ultimately show ?case using x y by simp
next
  case (4 x y z r)
  define n where "n = (unat x * 256 + unat y) * 256 + unat z"
  have m: "n div 256 = unat x * 256 + unat y" and "n < 16777216"
    unfolding n_def using unat_byte [of x] unat_byte [of y] unat_byte [of z] by simp_all
  have "n div 65536 = n div 256 div 256" using div_mult2_eq [of n 256 256] by simp
  also have "\<dots> = unat x" unfolding m using unat_byte [of y] by simp
  finally have x: "n div 65536 = unat x" .
  have z: "(word_of_nat n :: 8 word) = z" by (simp add: n_def)
  have sum: "((n div 262144 mod 64 * 64 + n div 4096 mod 64) * 64 + n div 64 mod 64) * 64 + n mod 64 = n"
    using sextet_sums(2) [of n] \<open>n < 16777216\<close> by simp
  have "base64_sextets (x # y # z # r) = [n div 262144, n div 4096, n div 64, n] @ base64_sextets r"
    by (simp add: n_def Let_def)
  then have "base64_groups (map (\<lambda>n. n mod 64) (base64_sextets (x # y # z # r))) =
    Some (word_of_nat (n div 65536) # word_of_nat (n div 256) # word_of_nat n # r)"
    using groups4 [OF sum 4] by simp
  then show ?case using m x z by simp
qed

lemma base64_round_trip: "base64_decode (base64_encode bs) = Some bs"
  by (simp add: base64_encode_sextets base64_decode_chars base64_groups_sextets)

section \<open>Properties\<close>

definition scramble :: "8 word list \<Rightarrow> 8 word list" where
  "scramble bs = map (\<lambda>(i, v). rotate_left8 (int (i mod 7) + 1) v XOR mask_byte i) (enumerate 0 bs)"

definition unscramble :: "8 word list \<Rightarrow> 8 word list" where
  "unscramble bs = map (\<lambda>(i, v). rotate_left8 (- (int (i mod 7) + 1)) (v XOR mask_byte i)) (enumerate 0 bs)"

lemmas decode_secret_unscramble = decode_secret_def [folded unscramble_def]

lemma rotation_of_index:
  "rotate_left8 (- int (i mod 7) - 1) (rotate_left8 (int (i mod 7) + 1) v) = v"
  "rotate_left8 (int (i mod 7) + 1) (rotate_left8 (- int (i mod 7) - 1) v) = v"
proof -
  have "- int (i mod 7) - 1 = - int (i mod 7 + 1)" "int (i mod 7) + 1 = int (i mod 7 + 1)" by simp_all
  moreover have "i mod 7 < 7" by simp
  then have "0 < i mod 7 + 1" "i mod 7 + 1 < 8" by auto
  ultimately show "rotate_left8 (- int (i mod 7) - 1) (rotate_left8 (int (i mod 7) + 1) v) = v"
    "rotate_left8 (int (i mod 7) + 1) (rotate_left8 (- int (i mod 7) - 1) v) = v"
    using rotate_left8_inverse [of "i mod 7 + 1" v] by (simp_all only:)
qed

lemma unscramble_scramble: "unscramble (scramble bs) = bs"
proof (rule nth_equalityI)
  fix i assume "i < length (unscramble (scramble bs))"
  then have "i < length bs" by (simp add: unscramble_def scramble_def)
  then show "unscramble (scramble bs) ! i = bs ! i"
    by (simp add: unscramble_def scramble_def nth_enumerate_eq rotation_of_index xor.assoc)
qed (simp add: unscramble_def scramble_def)

lemma scramble_unscramble: "scramble (unscramble bs) = bs"
proof (rule nth_equalityI)
  fix i assume "i < length (scramble (unscramble bs))"
  then have "i < length bs" by (simp add: unscramble_def scramble_def)
  then show "scramble (unscramble bs) ! i = bs ! i"
    by (simp add: unscramble_def scramble_def nth_enumerate_eq rotation_of_index xor.assoc)
qed (simp add: unscramble_def scramble_def)

lemma length_scramble [simp]: "length (scramble bs) = length bs" "length (unscramble bs) = length bs"
  by (simp_all add: scramble_def unscramble_def)

lemma codec_round_trip:
  assumes "length plaintext < 2 ^ 64"
  shows "decode_secret (encode_secret plaintext) = Inr plaintext"
proof (cases "plaintext = []")
  case False
  let ?frame = "big_endian 8 (length plaintext) @ big_endian 4 (unat (crc32c plaintext)) @ scramble plaintext"
  have enc: "encode_secret plaintext = secret_codec_prefix @ base64_encode ?frame"
    using False by (simp add: encode_secret_def scramble_def)
  have "big_endian_value (take 8 ?frame) = length plaintext"
    using assms by (simp add: big_endian_inverse)
  moreover have "big_endian_value (take 4 (drop 8 ?frame)) = unat (crc32c plaintext)"
    using unsigned_less [of "crc32c plaintext", where 'a = nat]
    by (simp add: big_endian_inverse)
  moreover have "drop 12 ?frame = scramble plaintext" by simp
  ultimately show ?thesis
    using unscramble_scramble [of plaintext] unfolding enc
    by (simp add: decode_secret_unscramble Let_def base64_round_trip)
      (simp add: secret_codec_prefix_def)
qed (simp add: encode_secret_def decode_secret_def)

text \<open>The decoder accepts only what the encoder writes.\<close>

lemma decode_secret_canonical:
  assumes "decode_secret stored = Inr plaintext" and "plaintext \<noteq> []"
  shows "stored = encode_secret plaintext"
proof -
  have ne: "stored \<noteq> []" using assms by (auto simp: decode_secret_def)
  have pre: "has_prefix stored secret_codec_prefix"
    using assms ne by (auto simp: decode_secret_def split: if_splits)
  then obtain payload where st: "stored = secret_codec_prefix @ payload"
    by (auto simp: has_prefix_iff)
  with assms ne obtain frame where "base64_decode payload = Some frame"
    by (auto simp: decode_secret_def Let_def split: option.splits)
  with assms ne st have dec: "base64_encode frame = payload" "12 \<le> length frame"
    "big_endian_value (take 8 frame) = length frame - 12" "plaintext = unscramble (drop 12 frame)"
    "unat (crc32c plaintext) = big_endian_value (take 4 (drop 8 frame))"
    by (auto simp: decode_secret_unscramble Let_def split: if_splits)
  have "frame = take 8 frame @ take 4 (drop 8 frame) @ drop 4 (drop 8 frame)"
    by (simp only: append_take_drop_id)
  also have "drop 4 (drop 8 frame) = drop 12 frame" by simp
  also have "take 8 frame = big_endian 8 (length plaintext)"
    using big_endian_value_inverse [of "take 8 frame"] dec by simp
  also have "take 4 (drop 8 frame) = big_endian 4 (unat (crc32c plaintext))"
    using big_endian_value_inverse [of "take 4 (drop 8 frame)"] dec by simp
  also have "drop 12 frame = scramble plaintext"
    unfolding dec(4) by (simp add: scramble_unscramble)
  finally show ?thesis using dec(1) st assms(2) by (simp add: encode_secret_def scramble_def)
qed

text \<open>C8. Decoding a stored secret gives back the plaintext that was encoded, byte for byte, and a
  stored value decodes to a nonempty secret only when it is the encoding of that secret, so equal
  secrets are stored equally and no altered text decodes.\<close>

theorem secret_codec_exact:
  assumes "length plaintext < 2 ^ 64"
  shows "decode_secret (encode_secret plaintext) = Inr plaintext \<and>
    (plaintext \<noteq> [] \<longrightarrow> decode_secret stored = Inr plaintext \<longleftrightarrow> stored = encode_secret plaintext)"
  using codec_round_trip [OF assms] decode_secret_canonical by blast

theorem secret_codec_exact_witness:
  "decode_secret (encode_secret (string_bytes ''pass word'')) = Inr (string_bytes ''pass word'')"
proof -
  have "length (string_bytes ''pass word'') < 2 ^ 64" by (simp add: string_bytes_def)
  from secret_codec_exact [OF this] show ?thesis by blast
qed

end
