(* ===== verification/PasswordChange.thy ===== *)
theory PasswordChange
  imports SecretCodec
begin

text \<open>
  The durable record of a vault password change (\<open>database/password_change.go\<close>), with
  the owner transfers that exclude it (\<open>database/owner_transfer.go\<close>) and the other
  writers of a vault's stored password (\<open>database/repositories.go\<close>).  A table is a map
  from its primary key to its row, a \<open>CHECK (... IN (...))\<close> column a datatype.  An
  operation returns the changed tables or an error; on an error its transaction rolls
  back, so the tables are as before.
\<close>

section \<open>Tables\<close>

datatype change_phase = Preparing | NativeStarted | Publishing | CleanupPending

datatype native_status = NoResult | NotStarted | Succeeded | Failed | Interrupted

datatype mutation_disposition = UnknownMutation | RejectedBeforeMutation

record password_change =
  pw_operation_uuid :: string
  pw_phase :: change_phase
  pw_native_status :: native_status
  pw_disposition :: mutation_disposition
  pw_native_output :: string
  pw_last_error :: string
  pw_created_at :: string
  pw_updated_at :: string

record vault_secret_row =
  vs_engine :: string
  vs_passphrase :: string
  vs_pending :: string

datatype transfer_state = Reviewed | NativeOwnerApplied | RootPublished | Completed | TransferFailed

record owner_transfer =
  ot_repository :: string
  ot_from :: string
  ot_to :: string
  ot_state :: transfer_state
  ot_created_at :: string
  ot_updated_at :: string

record password_db =
  pd_vaults :: "string \<rightharpoonup> vault_secret_row"
  pd_changes :: "string \<rightharpoonup> password_change"
  pd_transfers :: "string \<rightharpoonup> owner_transfer"
  pd_reserved :: "string set"

definition err_recovery_required :: go_error where
  "err_recovery_required =
     new_error ''vault-password change recovery is required before this vault can be used''"

definition err_connection_reserved :: go_error where
  "err_connection_reserved = new_error ''repository connection is reserved''"

fun precommit :: "change_phase \<Rightarrow> bool" where
  "precommit CleanupPending = False"
| "precommit _ = True"

fun native_status_of :: "string \<Rightarrow> native_status option" where
  "native_status_of s =
     (if s = ''not_started'' then Some NotStarted
      else if s = ''succeeded'' then Some Succeeded
      else if s = ''failed'' then Some Failed
      else if s = ''interrupted'' then Some Interrupted
      else None)"

fun disposition_of :: "string \<Rightarrow> mutation_disposition option" where
  "disposition_of s =
     (if s = ''unknown'' then Some UnknownMutation
      else if s = ''rejected_before_mutation'' then Some RejectedBeforeMutation
      else None)"

definition validate_vault_password :: "string \<Rightarrow> go_error option" where
  "validate_vault_password password =
     (if password = [] then Some (new_error ''vault password is required'')
      else if contains_any password [CHR 0x0D, CHR 0x0A, CHR 0x00]
      then Some (new_error ''vault password cannot contain carriage return, line feed, or NUL characters'')
      else if password \<noteq> trim_space password
      then Some (new_error ''vault password cannot begin or end with whitespace'')
      else None)"

section \<open>Operations\<close>

definition pending_transfer :: "password_db \<Rightarrow> string \<Rightarrow> bool" where
  "pending_transfer db repo \<longleftrightarrow>
     (\<exists>t\<in>ran (pd_transfers db). ot_repository t = repo \<and> ot_state t \<notin> {Completed, TransferFailed})"

definition uuid_taken :: "password_db \<Rightarrow> string \<Rightarrow> bool" where
  "uuid_taken db u \<longleftrightarrow> (\<exists>c\<in>ran (pd_changes db). pw_operation_uuid c = u)"

definition new_change :: "string \<Rightarrow> string \<Rightarrow> password_change" where
  "new_change u now = \<lparr>pw_operation_uuid = u, pw_phase = Preparing, pw_native_status = NoResult,
     pw_disposition = UnknownMutation, pw_native_output = [], pw_last_error = [],
     pw_created_at = now, pw_updated_at = now\<rparr>"

definition set_pending :: "string \<Rightarrow> string \<Rightarrow> password_db \<Rightarrow> password_db" where
  "set_pending repo v db =
     (case pd_vaults db repo of None \<Rightarrow> db
      | Some r \<Rightarrow> db\<lparr>pd_vaults := (pd_vaults db)(repo \<mapsto> r\<lparr>vs_pending := v\<rparr>)\<rparr>)"

definition put_change :: "string \<Rightarrow> password_change \<Rightarrow> password_db \<Rightarrow> password_db" where
  "put_change repo c db = db\<lparr>pd_changes := (pd_changes db)(repo \<mapsto> c)\<rparr>"

definition delete_change :: "string \<Rightarrow> password_db \<Rightarrow> password_db" where
  "delete_change repo db = db\<lparr>pd_changes := (pd_changes db)(repo := None)\<rparr>"

definition begin_vault_password_change ::
    "string \<Rightarrow> string \<Rightarrow> string \<Rightarrow> string \<Rightarrow> password_db \<Rightarrow> password_db result" where
  "begin_vault_password_change repo u candidate now db =
     (if trim_space repo = [] \<or> trim_space u = []
      then Inl (new_error ''vault-password change identity is incomplete'')
      else case validate_vault_password candidate of Some e \<Rightarrow> Inl e | None \<Rightarrow>
        (case pd_vaults db repo of None \<Rightarrow> Inl sql_no_rows | Some r \<Rightarrow>
          (case decode_secret (vs_passphrase r) of
             Inl e \<Rightarrow> Inl (wrap_error ''decode committed vault password'' e)
           | Inr decoded \<Rightarrow>
               if candidate = bytes_string decoded
               then Inl (new_error ''new vault password must differ from the current password'')
               else if vs_pending r \<noteq> [] then Inl err_recovery_required
               else if pd_changes db repo \<noteq> None \<or> pending_transfer db repo
               then Inl (new_error ''another vault administration transition is pending'')
               else if uuid_taken db u then Inl (new_error ''UNIQUE constraint failed'')
               else Inr (put_change repo (new_change u now)
                      (set_pending repo (encode_secret (string_bytes candidate)) db)))))"

definition vault_password_change :: "string \<Rightarrow> password_db \<Rightarrow> password_change result" where
  "vault_password_change repo db =
     (case pd_changes db repo of None \<Rightarrow> Inl sql_no_rows | Some c \<Rightarrow> Inr c)"

definition advance_vault_password_change ::
    "string \<Rightarrow> change_phase \<Rightarrow> change_phase \<Rightarrow> string \<Rightarrow> password_db \<Rightarrow> password_db result" where
  "advance_vault_password_change repo from_phase to_phase now db =
     (case pd_changes db repo of
        Some c \<Rightarrow>
          if pw_phase c = from_phase \<and>
             \<not> (from_phase = NativeStarted \<and> to_phase = Publishing \<and> pw_native_status c \<noteq> Succeeded)
          then Inr (put_change repo
                 (if to_phase = NativeStarted
                  then c\<lparr>pw_phase := to_phase, pw_updated_at := now, pw_last_error := []\<rparr>
                  else c\<lparr>pw_phase := to_phase, pw_updated_at := now\<rparr>) db)
          else Inl (new_error ''vault-password change phase changed unexpectedly'')
      | None \<Rightarrow> Inl (new_error ''vault-password change phase changed unexpectedly''))"

definition has_pending :: "password_db \<Rightarrow> string \<Rightarrow> bool" where
  "has_pending db repo \<longleftrightarrow> (case pd_vaults db repo of None \<Rightarrow> False | Some r \<Rightarrow> vs_pending r \<noteq> [])"

definition advance_after_candidate_verification ::
    "string \<Rightarrow> string \<Rightarrow> string \<Rightarrow> password_db \<Rightarrow> password_db result" where
  "advance_after_candidate_verification repo u now db =
     (case pd_changes db repo of
        Some c \<Rightarrow>
          if pw_operation_uuid c = u \<and> pw_phase c = NativeStarted \<and> has_pending db repo
          then Inr (put_change repo (c\<lparr>pw_phase := Publishing, pw_updated_at := now\<rparr>) db)
          else Inl (new_error ''vault-password candidate-verification state changed unexpectedly'')
      | None \<Rightarrow> Inl (new_error ''vault-password candidate-verification state changed unexpectedly''))"

definition record_native_result ::
    "string \<Rightarrow> string \<Rightarrow> string \<Rightarrow> string \<Rightarrow> string \<Rightarrow> string \<Rightarrow> password_db \<Rightarrow> password_db result" where
  "record_native_result repo status disposition output safe_error now db =
     (case native_status_of status of
        None \<Rightarrow> Inl (new_error ''invalid native password-change result'')
      | Some st \<Rightarrow>
        (case disposition_of disposition of
           None \<Rightarrow> Inl (new_error ''invalid native password-change mutation disposition'')
         | Some d \<Rightarrow>
             if d = RejectedBeforeMutation \<and> st \<noteq> Failed
             then Inl (new_error ''pre-mutation rejection requires a failed native password-change result'')
             else if d = RejectedBeforeMutation \<and> pd_vaults db repo = None then Inl sql_no_rows
             else if d = RejectedBeforeMutation \<and> vs_engine (the (pd_vaults db repo)) \<noteq> ''restic''
             then Inl (new_error ''pre-mutation rejection is not supported for this engine'')
             else (case pd_changes db repo of
                 Some c \<Rightarrow>
                   if pw_phase c = NativeStarted
                   then Inr (put_change repo (c\<lparr>pw_native_status := st, pw_disposition := d,
                          pw_native_output := output, pw_last_error := safe_error,
                          pw_updated_at := now\<rparr>) db)
                   else Inl sql_no_rows
               | None \<Rightarrow> Inl sql_no_rows)))"

definition reset_native_result_for_rerun ::
    "string \<Rightarrow> string \<Rightarrow> string \<Rightarrow> password_db \<Rightarrow> password_db result" where
  "reset_native_result_for_rerun repo u now db =
     (case pd_changes db repo of
        Some c \<Rightarrow>
          if pw_operation_uuid c = u \<and> pw_phase c = NativeStarted \<and>
             pw_native_status c \<in> {NoResult, Interrupted}
          then Inr (put_change repo (c\<lparr>pw_native_status := NoResult, pw_disposition := UnknownMutation,
                 pw_native_output := [], pw_last_error := [], pw_updated_at := now\<rparr>) db)
          else Inl (new_error ''vault-password change can no longer be rerun'')
      | None \<Rightarrow> Inl (new_error ''vault-password change can no longer be rerun''))"

text \<open>The shape the abandoning transactions share: delete the matching row, clear the candidate.\<close>

definition abandon_where ::
    "(password_change \<Rightarrow> bool) \<Rightarrow> string \<Rightarrow> string \<Rightarrow> password_db \<Rightarrow> password_db result" where
  "abandon_where P msg repo db =
     (case pd_changes db repo of
        Some c \<Rightarrow> if P c then Inr (set_pending repo [] (delete_change repo db)) else Inl (new_error msg)
      | None \<Rightarrow> Inl (new_error msg))"

definition abandon_rolled_back :: "string \<Rightarrow> string \<Rightarrow> password_db \<Rightarrow> password_db result" where
  "abandon_rolled_back repo u =
     abandon_where (\<lambda>c. pw_operation_uuid c = u \<and> pw_phase c = NativeStarted)
       ''vault-password change is no longer safely abandonable'' repo"

definition abandon_prepared :: "string \<Rightarrow> password_db \<Rightarrow> password_db result" where
  "abandon_prepared repo =
     abandon_where (\<lambda>c. pw_phase c = Preparing)
       ''vault-password change is no longer safely abandonable'' repo"

definition abandon_conclusive_pre_mutation ::
    "string \<Rightarrow> native_status \<Rightarrow> mutation_disposition \<Rightarrow> password_db \<Rightarrow> password_db result" where
  "abandon_conclusive_pre_mutation repo st d =
     abandon_where (\<lambda>c. pw_phase c = NativeStarted \<and> pw_native_status c = st \<and> pw_disposition c = d)
       ''native password change lacks conclusive pre-mutation evidence'' repo"

definition abandon_conclusive_unstarted :: "string \<Rightarrow> password_db \<Rightarrow> password_db result" where
  "abandon_conclusive_unstarted repo =
     abandon_conclusive_pre_mutation repo NotStarted UnknownMutation"

definition abandon_rejected_before_mutation :: "string \<Rightarrow> password_db \<Rightarrow> password_db result" where
  "abandon_rejected_before_mutation repo =
     abandon_conclusive_pre_mutation repo Failed RejectedBeforeMutation"

definition record_change_error :: "string \<Rightarrow> string \<Rightarrow> string \<Rightarrow> password_db \<Rightarrow> password_db" where
  "record_change_error repo safe_error now db =
     (case pd_changes db repo of None \<Rightarrow> db
      | Some c \<Rightarrow> put_change repo (c\<lparr>pw_last_error := safe_error, pw_updated_at := now\<rparr>) db)"

definition commit_vault_password_change :: "string \<Rightarrow> string \<Rightarrow> password_db \<Rightarrow> password_db result" where
  "commit_vault_password_change repo now db =
     (case (pd_vaults db repo, pd_changes db repo) of
        (Some r, Some c) \<Rightarrow>
          if vs_pending r \<noteq> [] \<and> pw_phase c = Publishing
          then Inr (put_change repo (c\<lparr>pw_phase := CleanupPending, pw_last_error := [], pw_updated_at := now\<rparr>)
                 (db\<lparr>pd_vaults := (pd_vaults db)(repo \<mapsto>
                    r\<lparr>vs_passphrase := vs_pending r, vs_pending := []\<rparr>)\<rparr>))
          else Inl (new_error ''vault-password candidate is unavailable for commit'')
      | _ \<Rightarrow> Inl (new_error ''vault-password candidate is unavailable for commit''))"

definition complete_change_cleanup :: "string \<Rightarrow> password_db \<Rightarrow> password_db result" where
  "complete_change_cleanup repo db =
     (case (pd_vaults db repo, pd_changes db repo) of
        (Some r, Some c) \<Rightarrow>
          if pw_phase c = CleanupPending \<and> vs_pending r = [] then Inr (delete_change repo db)
          else Inl (new_error ''vault-password cleanup state changed unexpectedly'')
      | _ \<Rightarrow> Inl (new_error ''vault-password cleanup state changed unexpectedly''))"

definition require_no_precommit_change :: "string \<Rightarrow> password_db \<Rightarrow> go_error option" where
  "require_no_precommit_change repo db =
     (case pd_changes db repo of
        Some c \<Rightarrow> if precommit (pw_phase c) then Some err_recovery_required else None
      | None \<Rightarrow> None)"

section \<open>The other writers\<close>

definition require_connection_unreserved :: "string \<Rightarrow> password_db \<Rightarrow> go_error option" where
  "require_connection_unreserved repo db =
     (if pd_changes db repo \<noteq> None then Some err_recovery_required
      else if repo \<in> pd_reserved db then Some err_connection_reserved else None)"

definition require_mutation_unreserved :: "string \<Rightarrow> password_db \<Rightarrow> go_error option" where
  "require_mutation_unreserved repo db =
     (if (\<exists>c. pd_changes db repo = Some c \<and> precommit (pw_phase c)) then Some err_recovery_required
      else if repo \<in> pd_reserved db then Some err_connection_reserved else None)"

definition update_repository_passphrase :: "string \<Rightarrow> string \<Rightarrow> password_db \<Rightarrow> password_db result" where
  "update_repository_passphrase repo password db =
     (case validate_vault_password password of Some e \<Rightarrow> Inl e | None \<Rightarrow>
       (case require_mutation_unreserved repo db of Some e \<Rightarrow> Inl e | None \<Rightarrow>
         (case pd_vaults db repo of None \<Rightarrow> Inl sql_no_rows
          | Some r \<Rightarrow> Inr (db\<lparr>pd_vaults := (pd_vaults db)(repo \<mapsto>
               r\<lparr>vs_passphrase := encode_secret (string_bytes password)\<rparr>)\<rparr>))))"

text \<open>
  \<open>validIdentityUUID\<close> rests on \<open>github.com/google/uuid\<close>; its verdict is an argument.
\<close>

definition begin_owner_transfer ::
    "(string \<Rightarrow> bool) \<Rightarrow> string \<Rightarrow> string \<Rightarrow> string \<Rightarrow> string \<Rightarrow> string \<Rightarrow> password_db \<Rightarrow> password_db result" where
  "begin_owner_transfer valid_uuid u repo from_profile to_profile now db =
     (if \<not> valid_uuid u \<or> \<not> valid_uuid repo \<or> \<not> valid_uuid from_profile \<or>
         \<not> valid_uuid to_profile \<or> from_profile = to_profile
      then Inl (new_error ''owner transfer identity is invalid'')
      else if pd_transfers db u \<noteq> None then Inl (new_error ''UNIQUE constraint failed'')
      else if pd_vaults db repo = None then Inl (new_error ''FOREIGN KEY constraint failed'')
      else Inr (db\<lparr>pd_transfers := (pd_transfers db)(u \<mapsto>
             \<lparr>ot_repository = repo, ot_from = from_profile, ot_to = to_profile,
              ot_state = Reviewed, ot_created_at = now, ot_updated_at = now\<rparr>)\<rparr>))"

fun transfer_valid :: "transfer_state \<Rightarrow> transfer_state \<Rightarrow> bool" where
  "transfer_valid Reviewed NativeOwnerApplied = True"
| "transfer_valid NativeOwnerApplied RootPublished = True"
| "transfer_valid RootPublished Completed = True"
| "transfer_valid _ _ = False"

definition advance_owner_transfer ::
    "string \<Rightarrow> transfer_state \<Rightarrow> transfer_state \<Rightarrow> string \<Rightarrow> password_db \<Rightarrow> password_db result" where
  "advance_owner_transfer u from_state to_state now db =
     (if \<not> transfer_valid from_state to_state
      then Inl (new_error ''owner transfer state transition is invalid'')
      else case pd_transfers db u of
        Some t \<Rightarrow> if ot_state t = from_state
          then Inr (db\<lparr>pd_transfers := (pd_transfers db)(u \<mapsto> t\<lparr>ot_state := to_state, ot_updated_at := now\<rparr>)\<rparr>)
          else Inl sql_no_rows
      | None \<Rightarrow> Inl sql_no_rows)"

section \<open>The system\<close>

text \<open>
  \<open>used\<close> holds the operation UUIDs ever begun: the callers generate a fresh one for
  every change.  The phase pairs of \<open>advance\<close> are the ones the runner passes and the
  one the function guards; a Go string is shorter than \<open>2 ^ 63\<close> bytes.
  The two other writers of a stored password, an edit of the vault's secrets and a reconnect
  (\<open>database/repositories.go\<close>, \<open>database/recovery.go\<close>), are refused while a change is recorded and take a
  password their callers have validated.
\<close>

record pw_sys =
  db :: password_db
  used :: "string set"

inductive pw_step :: "pw_sys \<Rightarrow> pw_sys \<Rightarrow> bool" where
  begins: "begin_vault_password_change repo u cand now (db s) = Inr d \<Longrightarrow> u \<notin> used s \<Longrightarrow>
     length cand < 2 ^ 63 \<Longrightarrow> pw_step s \<lparr>db = d, used = insert u (used s)\<rparr>"
| starts: "advance_vault_password_change repo Preparing NativeStarted now (db s) = Inr d \<Longrightarrow>
     pw_step s (s\<lparr>db := d\<rparr>)"
| publishes: "advance_vault_password_change repo NativeStarted Publishing now (db s) = Inr d \<Longrightarrow>
     pw_step s (s\<lparr>db := d\<rparr>)"
| verified: "advance_after_candidate_verification repo u now (db s) = Inr d \<Longrightarrow>
     pw_step s (s\<lparr>db := d\<rparr>)"
| records: "record_native_result repo st disp out err now (db s) = Inr d \<Longrightarrow> pw_step s (s\<lparr>db := d\<rparr>)"
| resets: "reset_native_result_for_rerun repo u now (db s) = Inr d \<Longrightarrow> pw_step s (s\<lparr>db := d\<rparr>)"
| rolls_back: "abandon_rolled_back repo u (db s) = Inr d \<Longrightarrow> pw_step s (s\<lparr>db := d\<rparr>)"
| abandons: "abandon_prepared repo (db s) = Inr d \<Longrightarrow> pw_step s (s\<lparr>db := d\<rparr>)"
| unstarted: "abandon_conclusive_unstarted repo (db s) = Inr d \<Longrightarrow> pw_step s (s\<lparr>db := d\<rparr>)"
| rejected: "abandon_rejected_before_mutation repo (db s) = Inr d \<Longrightarrow> pw_step s (s\<lparr>db := d\<rparr>)"
| noted: "pw_step s (s\<lparr>db := record_change_error repo err now (db s)\<rparr>)"
| commits: "commit_vault_password_change repo now (db s) = Inr d \<Longrightarrow> pw_step s (s\<lparr>db := d\<rparr>)"
| completes: "complete_change_cleanup repo (db s) = Inr d \<Longrightarrow> pw_step s (s\<lparr>db := d\<rparr>)"
| updates: "update_repository_passphrase repo password (db s) = Inr d \<Longrightarrow> length password < 2 ^ 63 \<Longrightarrow>
     pw_step s (s\<lparr>db := d\<rparr>)"
| transfers: "begin_owner_transfer valid v repo a b now (db s) = Inr d \<Longrightarrow> pw_step s (s\<lparr>db := d\<rparr>)"
| transfer_advances: "advance_owner_transfer v f g now (db s) = Inr d \<Longrightarrow> pw_step s (s\<lparr>db := d\<rparr>)"

text \<open>A stored password: the encoding of a password the validation accepts.\<close>

definition stored_password :: "string \<Rightarrow> bool" where
  "stored_password v \<longleftrightarrow> (\<exists>p. validate_vault_password p = None \<and> length p < 2 ^ 63 \<and>
     v = encode_secret (string_bytes p))"

definition secrets_ok :: "vault_secret_row \<Rightarrow> bool" where
  "secrets_ok r \<longleftrightarrow> stored_password (vs_passphrase r) \<and>
     (vs_pending r \<noteq> [] \<longrightarrow> stored_password (vs_pending r) \<and> vs_pending r \<noteq> vs_passphrase r)"

definition change_ok :: "vault_secret_row option \<Rightarrow> password_change option \<Rightarrow> bool" where
  "change_ok v c =
     (case c of
        None \<Rightarrow> (case v of None \<Rightarrow> True | Some r \<Rightarrow> vs_pending r = [])
      | Some c \<Rightarrow> (case v of None \<Rightarrow> False
          | Some r \<Rightarrow> (vs_pending r \<noteq> [] \<longleftrightarrow> precommit (pw_phase c)) \<and>
              (pw_disposition c = RejectedBeforeMutation \<longrightarrow>
                 pw_native_status c = Failed \<and> vs_engine r = ''restic'')))"

definition vault_ok :: "vault_secret_row option \<Rightarrow> password_change option \<Rightarrow> bool" where
  "vault_ok v c \<longleftrightarrow> change_ok v c \<and> (\<forall>r. v = Some r \<longrightarrow> secrets_ok r)"

definition pw_inv :: "pw_sys \<Rightarrow> bool" where
  "pw_inv s \<longleftrightarrow>
     (\<forall>repo. vault_ok (pd_vaults (db s) repo) (pd_changes (db s) repo)) \<and>
     (\<forall>r r' c c'. pd_changes (db s) r = Some c \<and> pd_changes (db s) r' = Some c' \<and>
        pw_operation_uuid c = pw_operation_uuid c' \<longrightarrow> r = r') \<and>
     (\<forall>c\<in>ran (pd_changes (db s)). pw_operation_uuid c \<in> used s)"

definition pw_init :: "pw_sys \<Rightarrow> bool" where
  "pw_init s \<longleftrightarrow> pd_changes (db s) = Map.empty \<and> used s = {} \<and>
     (\<forall>r\<in>ran (pd_vaults (db s)). stored_password (vs_passphrase r) \<and> vs_pending r = [])"

section \<open>What each operation changes\<close>

text \<open>
  Every operation of the change touches one vault's two rows; the lemmas below give the
  two rows after it, and \<open>agrees_elsewhere\<close> says that nothing else moved.
\<close>

definition agrees_elsewhere :: "string \<Rightarrow> password_db \<Rightarrow> password_db \<Rightarrow> bool" where
  "agrees_elsewhere repo d d' \<longleftrightarrow>
     (\<forall>o'. o' \<noteq> repo \<longrightarrow> pd_vaults d' o' = pd_vaults d o' \<and> pd_changes d' o' = pd_changes d o') \<and>
     pd_transfers d' = pd_transfers d"

lemma password_tables_frame [simp]:
  "pd_vaults (put_change repo c d) = pd_vaults d"
  "pd_changes (put_change repo c d) = (pd_changes d)(repo \<mapsto> c)"
  "pd_transfers (put_change repo c d) = pd_transfers d"
  "pd_vaults (delete_change repo d) = pd_vaults d"
  "pd_changes (delete_change repo d) = (pd_changes d)(repo := None)"
  "pd_transfers (delete_change repo d) = pd_transfers d"
  "pd_changes (set_pending repo v d) = pd_changes d"
  "pd_transfers (set_pending repo v d) = pd_transfers d"
  by (simp_all add: put_change_def delete_change_def set_pending_def split: option.splits)

lemma set_pending_vault [simp]:
  "pd_vaults (set_pending repo v d) = (pd_vaults d)(repo := map_option (\<lambda>r. r\<lparr>vs_pending := v\<rparr>) (pd_vaults d repo))"
  by (auto simp: set_pending_def split: option.splits)

lemma string_bytes_inverse [simp]: "bytes_string (string_bytes p) = p"
proof -
  have "unat (word_of_nat (byte c) :: 8 word) = byte c" for c :: char
    by (simp add: unat_of_nat)
  then show ?thesis by (simp add: bytes_string_def string_bytes_def comp_def)
qed

lemma length_string_bytes [simp]: "length (string_bytes p) = length p"
  by (simp add: string_bytes_def)

lemma string_bytes_Nil [simp]: "string_bytes p = [] \<longleftrightarrow> p = []"
  by (simp add: string_bytes_def)

lemma encode_secret_Nil [simp]: "encode_secret b = [] \<longleftrightarrow> b = []"
  by (simp add: encode_secret_def secret_codec_prefix_def)

lemma valid_password_nonempty: "validate_vault_password p = None \<Longrightarrow> p \<noteq> []"
  by (auto simp: validate_vault_password_def)

lemma stored_password_nonempty: "stored_password v \<Longrightarrow> v \<noteq> []"
  by (auto simp: stored_password_def dest: valid_password_nonempty)

lemma stored_password_decodes:
  "length p < 2 ^ 63 \<Longrightarrow> decode_secret (encode_secret (string_bytes p)) = Inr (string_bytes p)"
  by (rule codec_round_trip) simp

lemma pw_invD:
  assumes "pw_inv s"
  shows "vault_ok (pd_vaults (db s) repo) (pd_changes (db s) repo)"
    and "pd_changes (db s) r = Some c \<Longrightarrow> pd_changes (db s) r' = Some c' \<Longrightarrow>
       pw_operation_uuid c = pw_operation_uuid c' \<Longrightarrow> r = r'"
    and "pd_changes (db s) r = Some c \<Longrightarrow> pw_operation_uuid c \<in> used s"
  using assms unfolding pw_inv_def by (blast intro: ranI)+

lemma inv_touch:
  assumes inv: "pw_inv s" and elsewhere: "agrees_elsewhere repo (db s) d"
    and here: "vault_ok (pd_vaults d repo) (pd_changes d repo)" and sub: "used s \<subseteq> U"
    and uuid: "\<And>c'. pd_changes d repo = Some c' \<Longrightarrow>
      (\<exists>c. pd_changes (db s) repo = Some c \<and> pw_operation_uuid c' = pw_operation_uuid c) \<or>
      pw_operation_uuid c' \<in> U - used s"
  shows "pw_inv \<lparr>db = d, used = U\<rparr>"
proof -
  have other: "pd_vaults d o' = pd_vaults (db s) o'" "pd_changes d o' = pd_changes (db s) o'"
    if "o' \<noteq> repo" for o' using elsewhere that by (auto simp: agrees_elsewhere_def)
  have ok: "vault_ok (pd_vaults d o') (pd_changes d o')" for o'
    using here pw_invD(1) [OF inv] other by (cases "o' = repo") auto
  have clash: "r = repo" if "pd_changes d r = Some c" "pd_changes d repo = Some c'"
    "pw_operation_uuid c = pw_operation_uuid c'" for r c c'
  proof (rule ccontr)
    assume ne: "r \<noteq> repo"
    with that(1) have old: "pd_changes (db s) r = Some c" by (simp add: other)
    with uuid [OF that(2)] that(3) pw_invD(3) [OF inv old] obtain c0 where
      "pd_changes (db s) repo = Some c0" "pw_operation_uuid c' = pw_operation_uuid c0" by auto
    with pw_invD(2) [OF inv old] that(3) ne show False by metis
  qed
  have "r = r'" if "pd_changes d r = Some c" "pd_changes d r' = Some c'"
    "pw_operation_uuid c = pw_operation_uuid c'" for r r' c c'
  proof (cases "r = repo \<or> r' = repo")
    case True
    with clash that show ?thesis by metis
  next
    case False
    with that other show ?thesis using pw_invD(2) [OF inv] by metis
  qed
  moreover have "pw_operation_uuid c \<in> U" if "pd_changes d r = Some c" for r c
  proof (cases "r = repo")
    case True
    with uuid that pw_invD(3) [OF inv] sub show ?thesis by fastforce
  next
    case False
    with that other pw_invD(3) [OF inv] sub show ?thesis by auto
  qed
  ultimately show ?thesis using ok by (auto simp: pw_inv_def ran_def)
qed

text \<open>The two rows of the vault after each operation.\<close>

lemma begin_SomeD:
  assumes "begin_vault_password_change repo u cand now d = Inr d'"
  obtains r where "pd_vaults d repo = Some r" "pd_changes d repo = None" "vs_pending r = []"
    "\<not> pending_transfer d repo" "validate_vault_password cand = None"
    "\<forall>p. decode_secret (vs_passphrase r) = Inr p \<longrightarrow> cand \<noteq> bytes_string p"
    "agrees_elsewhere repo d d'" "pd_changes d' repo = Some (new_change u now)"
    "pd_vaults d' repo = Some (r\<lparr>vs_pending := encode_secret (string_bytes cand)\<rparr>)"
  using assms by (auto simp: begin_vault_password_change_def agrees_elsewhere_def
      split: if_splits option.splits sum.splits)

lemma advance_SomeD:
  assumes "advance_vault_password_change repo f g now d = Inr d'"
  obtains c c' where "pd_changes d repo = Some c" "pw_phase c = f"
    "f = NativeStarted \<and> g = Publishing \<longrightarrow> pw_native_status c = Succeeded"
    "agrees_elsewhere repo d d'" "pd_vaults d' repo = pd_vaults d repo" "pd_changes d' repo = Some c'"
    "pw_phase c' = g" "pw_operation_uuid c' = pw_operation_uuid c"
    "pw_native_status c' = pw_native_status c" "pw_disposition c' = pw_disposition c"
  using assms by (auto simp: advance_vault_password_change_def agrees_elsewhere_def
      split: if_splits option.splits)

lemma verified_SomeD:
  assumes "advance_after_candidate_verification repo u now d = Inr d'"
  obtains c c' where "pd_changes d repo = Some c" "pw_phase c = NativeStarted"
    "agrees_elsewhere repo d d'" "pd_vaults d' repo = pd_vaults d repo" "pd_changes d' repo = Some c'"
    "pw_phase c' = Publishing" "pw_operation_uuid c' = pw_operation_uuid c"
    "pw_native_status c' = pw_native_status c" "pw_disposition c' = pw_disposition c"
  using assms by (auto simp: advance_after_candidate_verification_def agrees_elsewhere_def
      split: if_splits option.splits)

lemma record_SomeD:
  assumes "record_native_result repo st disp out err now d = Inr d'"
  obtains c c' where "pd_changes d repo = Some c" "pw_phase c = NativeStarted"
    "agrees_elsewhere repo d d'" "pd_vaults d' repo = pd_vaults d repo" "pd_changes d' repo = Some c'"
    "pw_phase c' = NativeStarted" "pw_operation_uuid c' = pw_operation_uuid c"
    "pw_disposition c' = RejectedBeforeMutation \<longrightarrow> pw_native_status c' = Failed \<and>
       (\<exists>r. pd_vaults d repo = Some r \<and> vs_engine r = ''restic'')"
  using assms by (auto simp: record_native_result_def agrees_elsewhere_def
      simp del: native_status_of.simps disposition_of.simps
      split: if_splits option.splits)

lemma reset_SomeD:
  assumes "reset_native_result_for_rerun repo u now d = Inr d'"
  obtains c c' where "pd_changes d repo = Some c" "pw_phase c = NativeStarted"
    "agrees_elsewhere repo d d'" "pd_vaults d' repo = pd_vaults d repo" "pd_changes d' repo = Some c'"
    "pw_phase c' = NativeStarted" "pw_operation_uuid c' = pw_operation_uuid c"
    "pw_disposition c' = UnknownMutation"
  using assms by (auto simp: reset_native_result_for_rerun_def agrees_elsewhere_def
      split: if_splits option.splits)

lemma abandon_SomeD:
  assumes "abandon_where P msg repo d = Inr d'"
  obtains c where "pd_changes d repo = Some c" "P c" "agrees_elsewhere repo d d'"
    "pd_changes d' repo = None"
    "pd_vaults d' repo = map_option (\<lambda>r. r\<lparr>vs_pending := []\<rparr>) (pd_vaults d repo)"
  using assms by (auto simp: abandon_where_def agrees_elsewhere_def split: if_splits option.splits)

lemmas abandon_defs = abandon_rolled_back_def abandon_prepared_def abandon_conclusive_unstarted_def
  abandon_rejected_before_mutation_def abandon_conclusive_pre_mutation_def

lemma commit_SomeD:
  assumes "commit_vault_password_change repo now d = Inr d'"
  obtains r c c' where "pd_vaults d repo = Some r" "pd_changes d repo = Some c"
    "vs_pending r \<noteq> []" "pw_phase c = Publishing" "agrees_elsewhere repo d d'"
    "pd_vaults d' repo = Some (r\<lparr>vs_passphrase := vs_pending r, vs_pending := []\<rparr>)"
    "pd_changes d' repo = Some c'" "pw_phase c' = CleanupPending"
    "pw_operation_uuid c' = pw_operation_uuid c"
    "pw_native_status c' = pw_native_status c" "pw_disposition c' = pw_disposition c"
  using assms by (auto simp: commit_vault_password_change_def agrees_elsewhere_def
      split: if_splits option.splits)

lemma complete_SomeD:
  assumes "complete_change_cleanup repo d = Inr d'"
  obtains r c where "pd_vaults d repo = Some r" "pd_changes d repo = Some c"
    "vs_pending r = []" "pw_phase c = CleanupPending" "agrees_elsewhere repo d d'"
    "pd_vaults d' repo = pd_vaults d repo" "pd_changes d' repo = None"
  using assms by (auto simp: complete_change_cleanup_def agrees_elsewhere_def
      split: if_splits option.splits)

lemma update_SomeD:
  assumes "update_repository_passphrase repo password d = Inr d'"
  obtains r where "validate_vault_password password = None" "pd_vaults d repo = Some r"
    "\<forall>c. pd_changes d repo = Some c \<longrightarrow> \<not> precommit (pw_phase c)"
    "agrees_elsewhere repo d d'" "pd_changes d' repo = pd_changes d repo"
    "pd_vaults d' repo = Some (r\<lparr>vs_passphrase := encode_secret (string_bytes password)\<rparr>)"
  using assms by (auto simp: update_repository_passphrase_def require_mutation_unreserved_def
      agrees_elsewhere_def split: if_splits option.splits)

lemma note_frame:
  "pd_vaults (record_change_error repo err now d) = pd_vaults d"
  "pd_transfers (record_change_error repo err now d) = pd_transfers d"
  "pd_changes (record_change_error repo err now d) o' =
     (if o' = repo then map_option (\<lambda>c. c\<lparr>pw_last_error := err, pw_updated_at := now\<rparr>) (pd_changes d repo)
      else pd_changes d o')"
  by (auto simp: record_change_error_def split: option.splits)

lemma transfer_frame:
  "begin_owner_transfer valid v repo a b now d = Inr d' \<Longrightarrow>
     pd_vaults d' = pd_vaults d \<and> pd_changes d' = pd_changes d"
  "advance_owner_transfer v f g now d = Inr d' \<Longrightarrow>
     pd_vaults d' = pd_vaults d \<and> pd_changes d' = pd_changes d"
  by (auto simp: begin_owner_transfer_def advance_owner_transfer_def split: if_splits option.splits)

section \<open>The invariant\<close>

lemma inv_same_rows:
  "pw_inv s \<Longrightarrow> pd_vaults d = pd_vaults (db s) \<Longrightarrow> pd_changes d = pd_changes (db s) \<Longrightarrow>
   pw_inv (s\<lparr>db := d\<rparr>)"
  by (simp add: pw_inv_def)

lemma db_update: "s\<lparr>db := d\<rparr> = \<lparr>db = d, used = used s\<rparr>"
  by (cases s) simp

lemma stored_password_differs:
  assumes "length cand < 2 ^ 63" and "\<forall>p. decode_secret v = Inr p \<longrightarrow> cand \<noteq> bytes_string p"
  shows "encode_secret (string_bytes cand) \<noteq> v"
  using assms stored_password_decodes [of cand] string_bytes_inverse by metis

lemma step_pw_inv:
  assumes "pw_step s s'" and inv: "pw_inv s"
  shows "pw_inv s'"
  using assms(1)
proof cases
  case (begins repo u cand now d)
  from begins(2) obtain r where r: "pd_vaults (db s) repo = Some r" "pd_changes (db s) repo = None"
    "validate_vault_password cand = None"
    "\<forall>p. decode_secret (vs_passphrase r) = Inr p \<longrightarrow> cand \<noteq> bytes_string p"
    "agrees_elsewhere repo (db s) d" "pd_changes d repo = Some (new_change u now)"
    "pd_vaults d repo = Some (r\<lparr>vs_pending := encode_secret (string_bytes cand)\<rparr>)"
    by (rule begin_SomeD)
  from stored_password_differs [OF begins(4) r(4)] r begins(4) pw_invD(1) [OF inv, of repo]
  have "vault_ok (pd_vaults d repo) (pd_changes d repo)"
    by (auto simp: vault_ok_def change_ok_def secrets_ok_def stored_password_def new_change_def
        dest: valid_password_nonempty)
  with inv_touch [OF inv r(5)] r(6) begins(1,3) show ?thesis by (auto simp: new_change_def)
next
  case (starts repo now d)
  from starts(2) show ?thesis unfolding starts(1) db_update
    by (rule advance_SomeD, intro inv_touch [OF inv])
      (use pw_invD(1) [OF inv, of repo] in
        \<open>auto simp: vault_ok_def change_ok_def split: option.splits\<close>)
next
  case (publishes repo now d)
  from publishes(2) show ?thesis unfolding publishes(1) db_update
    by (rule advance_SomeD, intro inv_touch [OF inv])
      (use pw_invD(1) [OF inv, of repo] in
        \<open>auto simp: vault_ok_def change_ok_def split: option.splits\<close>)
next
  case (verified repo u now d)
  from verified(2) show ?thesis unfolding verified(1) db_update
    by (rule verified_SomeD, intro inv_touch [OF inv])
      (use pw_invD(1) [OF inv, of repo] in
        \<open>auto simp: vault_ok_def change_ok_def split: option.splits\<close>)
next
  case (records repo st disp out err now d)
  from records(2) show ?thesis unfolding records(1) db_update
    by (rule record_SomeD, intro inv_touch [OF inv])
      (use pw_invD(1) [OF inv, of repo] in
        \<open>auto simp: vault_ok_def change_ok_def split: option.splits\<close>)
next
  case (resets repo u now d)
  from resets(2) show ?thesis unfolding resets(1) db_update
    by (rule reset_SomeD, intro inv_touch [OF inv])
      (use pw_invD(1) [OF inv, of repo] in
        \<open>auto simp: vault_ok_def change_ok_def split: option.splits\<close>)
next
  case (rolls_back repo u d)
  from rolls_back(2) [unfolded abandon_defs] show ?thesis unfolding rolls_back(1) db_update
    by (rule abandon_SomeD, intro inv_touch [OF inv])
      (use pw_invD(1) [OF inv, of repo] in
        \<open>auto simp: vault_ok_def change_ok_def secrets_ok_def split: option.splits\<close>)
next
  case (abandons repo d)
  from abandons(2) [unfolded abandon_defs] show ?thesis unfolding abandons(1) db_update
    by (rule abandon_SomeD, intro inv_touch [OF inv])
      (use pw_invD(1) [OF inv, of repo] in
        \<open>auto simp: vault_ok_def change_ok_def secrets_ok_def split: option.splits\<close>)
next
  case (unstarted repo d)
  from unstarted(2) [unfolded abandon_defs] show ?thesis unfolding unstarted(1) db_update
    by (rule abandon_SomeD, intro inv_touch [OF inv])
      (use pw_invD(1) [OF inv, of repo] in
        \<open>auto simp: vault_ok_def change_ok_def secrets_ok_def split: option.splits\<close>)
next
  case (rejected repo d)
  from rejected(2) [unfolded abandon_defs] show ?thesis unfolding rejected(1) db_update
    by (rule abandon_SomeD, intro inv_touch [OF inv])
      (use pw_invD(1) [OF inv, of repo] in
        \<open>auto simp: vault_ok_def change_ok_def secrets_ok_def split: option.splits\<close>)
next
  case (noted repo err now)
  show ?thesis unfolding noted(1) db_update
    by (intro inv_touch [OF inv, of repo])
      (use pw_invD(1) [OF inv, of repo] in
        \<open>auto simp: agrees_elsewhere_def note_frame vault_ok_def change_ok_def split: option.splits\<close>)
next
  case (commits repo now d)
  from commits(2) show ?thesis unfolding commits(1) db_update
    by (rule commit_SomeD, intro inv_touch [OF inv])
      (use pw_invD(1) [OF inv, of repo] in
        \<open>auto simp: vault_ok_def change_ok_def secrets_ok_def split: option.splits\<close>)
next
  case (completes repo d)
  from completes(2) show ?thesis unfolding completes(1) db_update
    by (rule complete_SomeD, intro inv_touch [OF inv])
      (use pw_invD(1) [OF inv, of repo] in
        \<open>auto simp: vault_ok_def change_ok_def secrets_ok_def split: option.splits\<close>)
next
  case (updates repo password d)
  from updates(2) obtain r where r: "validate_vault_password password = None"
    "pd_vaults (db s) repo = Some r"
    "\<forall>c. pd_changes (db s) repo = Some c \<longrightarrow> \<not> precommit (pw_phase c)"
    "agrees_elsewhere repo (db s) d" "pd_changes d repo = pd_changes (db s) repo"
    "pd_vaults d repo = Some (r\<lparr>vs_passphrase := encode_secret (string_bytes password)\<rparr>)"
    by (rule update_SomeD)
  have "vs_pending r = []"
    using r(2,3) pw_invD(1) [OF inv, of repo] by (auto simp: vault_ok_def change_ok_def split: option.splits)
  then have "vault_ok (pd_vaults d repo) (pd_changes d repo)"
    using r updates(3) pw_invD(1) [OF inv, of repo]
    by (auto simp: vault_ok_def change_ok_def secrets_ok_def stored_password_def split: option.splits)
  with inv_touch [OF inv r(4)] r(5) updates(1) show ?thesis by (auto simp: db_update)
next
  case (transfers valid v repo a b now d)
  with inv_same_rows [OF inv] transfer_frame(1) [OF transfers(2)] show ?thesis by simp
next
  case (transfer_advances v f g now d)
  with inv_same_rows [OF inv] transfer_frame(2) [OF transfer_advances(2)] show ?thesis by simp
qed

lemma init_pw_inv: "pw_init s \<Longrightarrow> pw_inv s"
  by (auto simp: pw_init_def pw_inv_def vault_ok_def change_ok_def secrets_ok_def ran_def
      split: option.splits)

interpretation password: step_system pw_init pw_step pw_inv
  by unfold_locales (blast intro: init_pw_inv step_pw_inv)+

section \<open>Properties\<close>

text \<open>
  C9. In every reachable state a vault has a pending candidate exactly while a change
  record in a precommit phase exists for it, the candidate differs from the committed
  password, the committed password always decodes to a valid vault password, and a
  recorded pre-mutation rejection belongs to a failed Restic command.
\<close>

theorem password_change_consistent:
  assumes "pw_init s0" and "pw_step\<^sup>*\<^sup>* s0 s" and "pd_vaults (db s) repo = Some r"
  shows "(vs_pending r \<noteq> [] \<longleftrightarrow>
      (\<exists>c. pd_changes (db s) repo = Some c \<and> precommit (pw_phase c))) \<and>
    (vs_pending r \<noteq> [] \<longrightarrow> vs_pending r \<noteq> vs_passphrase r) \<and>
    (\<exists>p. decode_secret (vs_passphrase r) = Inr (string_bytes p) \<and> validate_vault_password p = None) \<and>
    (\<forall>c. pd_changes (db s) repo = Some c \<and> pw_disposition c = RejectedBeforeMutation \<longrightarrow>
       pw_native_status c = Failed \<and> vs_engine r = ''restic'')"
proof -
  have ok: "vault_ok (Some r) (pd_changes (db s) repo)"
    using pw_invD(1) [OF password.inv_reachable [OF assms(1,2)], of repo] assms(3) by simp
  then have "stored_password (vs_passphrase r)" by (simp add: vault_ok_def secrets_ok_def)
  with stored_password_decodes have "\<exists>p. decode_secret (vs_passphrase r) = Inr (string_bytes p) \<and>
    validate_vault_password p = None" by (auto simp: stored_password_def)
  with ok show ?thesis
    by (cases "pd_changes (db s) repo") (auto simp: vault_ok_def change_ok_def secrets_ok_def)
qed

text \<open>A change keeps its candidate as long as it stays before its commit.\<close>

definition candidate_kept :: "string \<Rightarrow> string \<Rightarrow> string \<Rightarrow> pw_sys \<Rightarrow> bool" where
  "candidate_kept repo u v s \<longleftrightarrow> u \<in> used s \<and>
     (\<forall>c. pd_changes (db s) repo = Some c \<and> pw_operation_uuid c = u \<and> precommit (pw_phase c) \<longrightarrow>
        (\<exists>r. pd_vaults (db s) repo = Some r \<and> vs_pending r = v))"

lemma candidate_kept_elsewhere:
  assumes "candidate_kept repo u v s" and "agrees_elsewhere o' (db s) d" and "o' \<noteq> repo"
    and "used s \<subseteq> U"
  shows "candidate_kept repo u v \<lparr>db = d, used = U\<rparr>"
  using assms by (auto simp: candidate_kept_def agrees_elsewhere_def)

lemma candidate_kept_move:
  assumes kept: "candidate_kept repo u v s" and elsewhere: "agrees_elsewhere o' (db s) d"
    and same: "pd_vaults d o' = pd_vaults (db s) o'" and old: "pd_changes (db s) o' = Some c"
    and new: "pd_changes d o' = Some c'" "pw_operation_uuid c' = pw_operation_uuid c"
    and pre: "precommit (pw_phase c') \<Longrightarrow> precommit (pw_phase c)"
  shows "candidate_kept repo u v (s\<lparr>db := d\<rparr>)"
proof (cases "o' = repo")
  case True
  with assms show ?thesis by (auto simp: candidate_kept_def)
next
  case False
  from candidate_kept_elsewhere [OF kept elsewhere False subset_refl] show ?thesis
    by (simp add: db_update)
qed

lemma candidate_kept_dropped:
  assumes kept: "candidate_kept repo u v s" and elsewhere: "agrees_elsewhere o' (db s) d"
    and none: "\<forall>c'. pd_changes d o' = Some c' \<longrightarrow> \<not> precommit (pw_phase c')"
  shows "candidate_kept repo u v (s\<lparr>db := d\<rparr>)"
  using assms candidate_kept_elsewhere [OF kept elsewhere _ subset_refl]
  by (cases "o' = repo") (auto simp: candidate_kept_def db_update)

lemma step_candidate_kept:
  assumes "pw_step s s'" and inv: "pw_inv s" and kept: "candidate_kept repo u v s"
  shows "candidate_kept repo u v s'"
  using assms(1)
proof cases
  case (begins o' w cand now d)
  show ?thesis
  proof (cases "o' = repo")
    case True
    from begins(2) have "pd_changes d repo = Some (new_change w now)"
      unfolding True by (rule begin_SomeD)
    moreover have "u \<in> used s" using kept by (simp add: candidate_kept_def)
    moreover from this begins(3) have "u \<noteq> w" by auto
    ultimately show ?thesis using begins(1) by (simp add: candidate_kept_def new_change_def)
  next
    case False
    from begins(2) have "agrees_elsewhere o' (db s) d" by (rule begin_SomeD)
    from candidate_kept_elsewhere [OF kept this False] show ?thesis
      unfolding begins(1) by blast
  qed
next
  case (starts o' now d)
  from starts(2) show ?thesis unfolding starts(1)
    by (rule advance_SomeD) (rule candidate_kept_move [OF kept], assumption+, simp)
next
  case (publishes o' now d)
  from publishes(2) show ?thesis unfolding publishes(1)
    by (rule advance_SomeD) (rule candidate_kept_move [OF kept], assumption+, simp)
next
  case (verified o' w now d)
  from verified(2) show ?thesis unfolding verified(1)
    by (rule verified_SomeD) (rule candidate_kept_move [OF kept], assumption+, simp)
next
  case (records o' st disp out err now d)
  from records(2) show ?thesis unfolding records(1)
    by (rule record_SomeD) (rule candidate_kept_move [OF kept], assumption+, simp)
next
  case (resets o' w now d)
  from resets(2) show ?thesis unfolding resets(1)
    by (rule reset_SomeD) (rule candidate_kept_move [OF kept], assumption+, simp)
next
  case (rolls_back o' w d)
  from rolls_back(2) [unfolded abandon_defs] show ?thesis unfolding rolls_back(1)
    by (rule abandon_SomeD) (rule candidate_kept_dropped [OF kept], assumption, simp)
next
  case (abandons o' d)
  from abandons(2) [unfolded abandon_defs] show ?thesis unfolding abandons(1)
    by (rule abandon_SomeD) (rule candidate_kept_dropped [OF kept], assumption, simp)
next
  case (unstarted o' d)
  from unstarted(2) [unfolded abandon_defs] show ?thesis unfolding unstarted(1)
    by (rule abandon_SomeD) (rule candidate_kept_dropped [OF kept], assumption, simp)
next
  case (rejected o' d)
  from rejected(2) [unfolded abandon_defs] show ?thesis unfolding rejected(1)
    by (rule abandon_SomeD) (rule candidate_kept_dropped [OF kept], assumption, simp)
next
  case (noted o' err now)
  with kept show ?thesis by (auto simp: candidate_kept_def note_frame)
next
  case (commits o' now d)
  from commits(2) show ?thesis unfolding commits(1)
    by (rule commit_SomeD) (rule candidate_kept_dropped [OF kept], assumption, simp)
next
  case (completes o' d)
  from completes(2) show ?thesis unfolding completes(1)
    by (rule complete_SomeD) (rule candidate_kept_dropped [OF kept], assumption, simp)
next
  case (updates o' password d)
  from updates(2) show ?thesis unfolding updates(1)
    by (rule update_SomeD) (rule candidate_kept_dropped [OF kept], assumption, simp)
next
  case (transfers valid w o' a b now d)
  with kept transfer_frame(1) [OF transfers(2)] show ?thesis by (simp add: candidate_kept_def)
next
  case (transfer_advances w f g now d)
  with kept transfer_frame(2) [OF transfer_advances(2)] show ?thesis by (simp add: candidate_kept_def)
qed

interpretation candidate: stable_fact pw_init pw_step pw_inv "candidate_kept repo u v" for repo u v
  by unfold_locales (blast intro: step_candidate_kept)

text \<open>
  What a commit installs is the candidate its change began with: after any run
  between the begin and the commit of the same operation, the stored password decodes
  to exactly that candidate and no candidate is left pending.
\<close>

theorem commit_installs_candidate:
  assumes "pw_init s0" and "pw_step\<^sup>*\<^sup>* s0 s1"
    and "begin_vault_password_change repo u cand now (db s1) = Inr d" and "u \<notin> used s1"
    and "length cand < 2 ^ 63"
    and "pw_step\<^sup>*\<^sup>* \<lparr>db = d, used = insert u (used s1)\<rparr> s2"
    and "pd_changes (db s2) repo = Some c" and "pw_operation_uuid c = u"
    and "commit_vault_password_change repo now' (db s2) = Inr d'"
  shows "\<exists>r. pd_vaults d' repo = Some r \<and> vs_pending r = [] \<and>
    decode_secret (vs_passphrase r) = Inr (string_bytes cand)"
proof -
  let ?s = "\<lparr>db = d, used = insert u (used s1)\<rparr>"
  have inv: "pw_inv ?s"
    using step_pw_inv [OF pw_step.begins [OF assms(3-5)]] password.inv_reachable [OF assms(1,2)] by blast
  have "candidate_kept repo u (encode_secret (string_bytes cand)) ?s"
    using assms(3) by (rule begin_SomeD) (simp add: candidate_kept_def)
  from candidate.fact_run [OF assms(6) inv this]
  have kept: "candidate_kept repo u (encode_secret (string_bytes cand)) s2" .
  from assms(9) show ?thesis
    by (rule commit_SomeD)
      (use kept assms(7,8) stored_password_decodes [OF assms(5)] in \<open>auto simp: candidate_kept_def\<close>)
qed

definition publishing_kept ::
    "password_change \<Rightarrow> vault_secret_row \<Rightarrow> string \<Rightarrow> password_db \<Rightarrow> bool" where
  "publishing_kept c r repo d \<longleftrightarrow>
     (\<exists>c' r'. pd_changes d repo = Some c' \<and> pd_vaults d repo = Some r' \<and>
       pw_operation_uuid c' = pw_operation_uuid c \<and>
       (pw_phase c' = Publishing \<and> vs_pending r' = vs_pending r \<and> vs_passphrase r' = vs_passphrase r \<or>
        pw_phase c' = CleanupPending \<and> vs_passphrase r' = vs_pending r \<and> vs_pending r' = []))"

lemma publishing_elsewhere:
  "agrees_elsewhere o' d d' \<Longrightarrow> o' \<noteq> repo \<Longrightarrow> pd_changes d repo = Some c \<Longrightarrow>
   pw_phase c = Publishing \<Longrightarrow> pd_vaults d repo = Some r \<Longrightarrow> publishing_kept c r repo d'"
  by (auto simp: agrees_elsewhere_def publishing_kept_def)

lemma step_publishing:
  assumes "pw_step s s'" and c: "pd_changes (db s) repo = Some c" "pw_phase c = Publishing"
    and r: "pd_vaults (db s) repo = Some r"
  shows "publishing_kept c r repo (db s')"
  using assms(1)
proof cases
  case (begins o' w cand now d)
  from begins(2) show ?thesis
    by (rule begin_SomeD) (use c r begins(1) publishing_elsewhere [of o' "db s" d repo c r] in
        \<open>cases "o' = repo"; auto simp: publishing_kept_def\<close>)
next
  case (starts o' now d)
  from starts(2) show ?thesis
    by (rule advance_SomeD) (use c r starts(1) publishing_elsewhere [of o' "db s" d repo c r] in
        \<open>cases "o' = repo"; auto simp: publishing_kept_def\<close>)
next
  case (publishes o' now d)
  from publishes(2) show ?thesis
    by (rule advance_SomeD) (use c r publishes(1) publishing_elsewhere [of o' "db s" d repo c r] in
        \<open>cases "o' = repo"; auto simp: publishing_kept_def\<close>)
next
  case (verified o' w now d)
  from verified(2) show ?thesis
    by (rule verified_SomeD) (use c r verified(1) publishing_elsewhere [of o' "db s" d repo c r] in
        \<open>cases "o' = repo"; auto simp: publishing_kept_def\<close>)
next
  case (records o' st disp out err now d)
  from records(2) show ?thesis
    by (rule record_SomeD) (use c r records(1) publishing_elsewhere [of o' "db s" d repo c r] in
        \<open>cases "o' = repo"; auto simp: publishing_kept_def\<close>)
next
  case (resets o' w now d)
  from resets(2) show ?thesis
    by (rule reset_SomeD) (use c r resets(1) publishing_elsewhere [of o' "db s" d repo c r] in
        \<open>cases "o' = repo"; auto simp: publishing_kept_def\<close>)
next
  case (rolls_back o' w d)
  from rolls_back(2) [unfolded abandon_defs] show ?thesis
    by (rule abandon_SomeD) (use c r rolls_back(1) publishing_elsewhere [of o' "db s" d repo c r] in
        \<open>cases "o' = repo"; auto simp: publishing_kept_def\<close>)
next
  case (abandons o' d)
  from abandons(2) [unfolded abandon_defs] show ?thesis
    by (rule abandon_SomeD) (use c r abandons(1) publishing_elsewhere [of o' "db s" d repo c r] in
        \<open>cases "o' = repo"; auto simp: publishing_kept_def\<close>)
next
  case (unstarted o' d)
  from unstarted(2) [unfolded abandon_defs] show ?thesis
    by (rule abandon_SomeD) (use c r unstarted(1) publishing_elsewhere [of o' "db s" d repo c r] in
        \<open>cases "o' = repo"; auto simp: publishing_kept_def\<close>)
next
  case (rejected o' d)
  from rejected(2) [unfolded abandon_defs] show ?thesis
    by (rule abandon_SomeD) (use c r rejected(1) publishing_elsewhere [of o' "db s" d repo c r] in
        \<open>cases "o' = repo"; auto simp: publishing_kept_def\<close>)
next
  case (noted o' err now)
  then show ?thesis using c r by (auto simp: publishing_kept_def note_frame)
next
  case (commits o' now d)
  from commits(2) show ?thesis
    by (rule commit_SomeD) (use c r commits(1) publishing_elsewhere [of o' "db s" d repo c r] in
        \<open>cases "o' = repo"; auto simp: publishing_kept_def\<close>)
next
  case (completes o' d)
  from completes(2) show ?thesis
    by (rule complete_SomeD) (use c r completes(1) publishing_elsewhere [of o' "db s" d repo c r] in
        \<open>cases "o' = repo"; auto simp: publishing_kept_def\<close>)
next
  case (updates o' password d)
  from updates(2) show ?thesis
    by (rule update_SomeD)
      (use c r updates(1) publishing_elsewhere [of o' "db s" d repo c r] in
        \<open>cases "o' = repo"; auto simp: publishing_kept_def\<close>)
next
  case (transfers valid w o' a b now d)
  with c r transfer_frame(1) [OF transfers(2)] show ?thesis by (simp add: publishing_kept_def)
next
  case (transfer_advances w f g now d)
  with c r transfer_frame(2) [OF transfer_advances(2)] show ?thesis by (simp add: publishing_kept_def)
qed

text \<open>
  C10. A publishing change is never dropped and its candidate never lost: each step of
  any caller leaves the record publishing with the same passwords, or commits the
  candidate.
\<close>

theorem publishing_only_commits:
  assumes "pw_init s0" and "pw_step\<^sup>*\<^sup>* s0 s" and "pw_step s s'"
    and "pd_changes (db s) repo = Some c" and "pw_phase c = Publishing"
  shows "\<exists>r c' r'. pd_vaults (db s) repo = Some r \<and> pd_changes (db s') repo = Some c' \<and>
    pd_vaults (db s') repo = Some r' \<and> pw_operation_uuid c' = pw_operation_uuid c \<and>
    (pw_phase c' = Publishing \<and> vs_pending r' = vs_pending r \<and> vs_passphrase r' = vs_passphrase r \<or>
     pw_phase c' = CleanupPending \<and> vs_passphrase r' = vs_pending r \<and> vs_pending r' = [])"
proof -
  have "pd_vaults (db s) repo \<noteq> None"
    using pw_invD(1) [OF password.inv_reachable [OF assms(1,2)], of repo] assms(4)
    by (auto simp: vault_ok_def change_ok_def split: option.splits)
  then obtain r where r: "pd_vaults (db s) repo = Some r" by blast
  from step_publishing [OF assms(3-5) r] r show ?thesis
    unfolding publishing_kept_def by blast
qed

section \<open>Sample run\<close>

definition pw_start :: pw_sys where
  "pw_start = \<lparr>db = \<lparr>pd_vaults = [''v'' \<mapsto> \<lparr>vs_engine = ''restic'',
       vs_passphrase = encode_secret (string_bytes ''old''), vs_pending = []\<rparr>],
     pd_changes = Map.empty, pd_transfers = Map.empty, pd_reserved = {}\<rparr>, used = {}\<rparr>"

definition pw_phase_db :: "change_phase \<Rightarrow> native_status \<Rightarrow> password_db" where
  "pw_phase_db p st = \<lparr>pd_vaults = [''v'' \<mapsto> \<lparr>vs_engine = ''restic'',
       vs_passphrase = encode_secret (string_bytes ''old''),
       vs_pending = encode_secret (string_bytes ''new'')\<rparr>],
     pd_changes = [''v'' \<mapsto> \<lparr>pw_operation_uuid = ''u'', pw_phase = p, pw_native_status = st,
       pw_disposition = UnknownMutation, pw_native_output = [], pw_last_error = [],
       pw_created_at = ''t'', pw_updated_at = ''t''\<rparr>],
     pd_transfers = Map.empty, pd_reserved = {}\<rparr>"

definition pw_at :: "change_phase \<Rightarrow> native_status \<Rightarrow> pw_sys" where
  "pw_at p st = \<lparr>db = pw_phase_db p st, used = {''u''}\<rparr>"

lemma old_stored: "stored_password (encode_secret (string_bytes ''old''))"
proof -
  have "validate_vault_password ''old'' = None"
    by (simp add: validate_vault_password_def contains_any_def trim_space_plain)
  then show ?thesis unfolding stored_password_def by (intro exI [of _ "''old''"]) simp
qed

lemma pw_start_init: "pw_init pw_start"
  using old_stored by (auto simp: pw_init_def pw_start_def ran_def)

lemma pw_sample_begins:
  "begin_vault_password_change ''v'' ''u'' ''new'' ''t'' (db pw_start) = Inr (pw_phase_db Preparing NoResult)"
proof -
  have "validate_vault_password ''new'' = None"
    by (simp add: validate_vault_password_def contains_any_def trim_space_plain)
  moreover have "trim_space ''v'' = ''v''" "trim_space ''u'' = ''u''"
    by (simp_all add: trim_space_plain)
  moreover have "decode_secret (encode_secret (string_bytes ''old'')) = Inr (string_bytes ''old'')"
    by (rule stored_password_decodes) simp
  ultimately show ?thesis
    by (simp add: begin_vault_password_change_def pw_start_def pw_phase_db_def pending_transfer_def
        uuid_taken_def put_change_def new_change_def set_pending_def)
qed

lemma pw_sample_preparing: "pw_step pw_start (pw_at Preparing NoResult)"
  using pw_step.begins [OF pw_sample_begins] by (simp add: pw_at_def pw_start_def)

lemma pw_sample_moves:
  "pw_step (pw_at Preparing NoResult) (pw_at NativeStarted NoResult)"
  "pw_step (pw_at NativeStarted NoResult) (pw_at NativeStarted Succeeded)"
  "pw_step (pw_at NativeStarted Succeeded) (pw_at Publishing Succeeded)"
proof -
  show "pw_step (pw_at Preparing NoResult) (pw_at NativeStarted NoResult)"
    using pw_step.starts [of "''v''" "''t''" "pw_at Preparing NoResult" "pw_phase_db NativeStarted NoResult"]
    by (simp add: pw_at_def pw_phase_db_def advance_vault_password_change_def put_change_def)
  show "pw_step (pw_at NativeStarted NoResult) (pw_at NativeStarted Succeeded)"
    using pw_step.records [of "''v''" "''succeeded''" "''unknown''" "[]" "[]" "''t''"
        "pw_at NativeStarted NoResult" "pw_phase_db NativeStarted Succeeded"]
    by (simp add: pw_at_def pw_phase_db_def record_native_result_def put_change_def)
  show "pw_step (pw_at NativeStarted Succeeded) (pw_at Publishing Succeeded)"
    using pw_step.publishes [of "''v''" "''t''" "pw_at NativeStarted Succeeded" "pw_phase_db Publishing Succeeded"]
    by (simp add: pw_at_def pw_phase_db_def advance_vault_password_change_def put_change_def)
qed

lemma pw_sample_publishing:
  "pw_step\<^sup>*\<^sup>* (pw_at Preparing NoResult) (pw_at Publishing Succeeded)"
  "pw_step\<^sup>*\<^sup>* pw_start (pw_at Publishing Succeeded)"
  using pw_sample_preparing pw_sample_moves
  by (meson converse_rtranclp_into_rtranclp rtranclp.rtrancl_refl)+

definition pw_committed :: password_db where
  "pw_committed = the (case commit_vault_password_change ''v'' ''t'' (pw_phase_db Publishing Succeeded) of
     Inr d \<Rightarrow> Some d | Inl _ \<Rightarrow> None)"

lemma pw_sample_commits:
  "commit_vault_password_change ''v'' ''t'' (db (pw_at Publishing Succeeded)) = Inr pw_committed"
  by (simp add: pw_committed_def pw_at_def pw_phase_db_def commit_vault_password_change_def)

theorem password_change_consistent_witness:
  "\<exists>c. pd_changes (db (pw_at Publishing Succeeded)) ''v'' = Some c \<and> precommit (pw_phase c)"
proof -
  obtain r where "pd_vaults (db (pw_at Publishing Succeeded)) ''v'' = Some r"
    "vs_pending r = encode_secret (string_bytes ''new'')"
    by (auto simp: pw_at_def pw_phase_db_def)
  with password_change_consistent [OF pw_start_init pw_sample_publishing(2) this(1)] show ?thesis by simp
qed

theorem commit_installs_candidate_witness:
  "\<exists>r. pd_vaults pw_committed ''v'' = Some r \<and> vs_pending r = [] \<and>
    decode_secret (vs_passphrase r) = Inr (string_bytes ''new'')"
proof (rule commit_installs_candidate [OF pw_start_init rtranclp.rtrancl_refl pw_sample_begins _ _ _ _ _
      pw_sample_commits])
  show "pw_step\<^sup>*\<^sup>* \<lparr>db = pw_phase_db Preparing NoResult, used = insert ''u'' (used pw_start)\<rparr>
    (pw_at Publishing Succeeded)"
    using pw_sample_publishing(1) by (simp add: pw_at_def pw_start_def)
  show "pd_changes (db (pw_at Publishing Succeeded)) ''v'' =
    Some (the (pd_changes (db (pw_at Publishing Succeeded)) ''v''))"
    by (simp add: pw_at_def pw_phase_db_def)
qed (simp_all add: pw_start_def pw_at_def pw_phase_db_def)

theorem publishing_only_commits_witness:
  "\<exists>c r. pd_changes pw_committed ''v'' = Some c \<and> pd_vaults pw_committed ''v'' = Some r \<and>
    pw_phase c \<in> {Publishing, CleanupPending}"
proof -
  have c: "pd_changes (db (pw_at Publishing Succeeded)) ''v'' =
    Some (the (pd_changes (db (pw_at Publishing Succeeded)) ''v''))"
    by (simp add: pw_at_def pw_phase_db_def)
  have p: "pw_phase (the (pd_changes (db (pw_at Publishing Succeeded)) ''v'')) = Publishing"
    by (simp add: pw_at_def pw_phase_db_def)
  from publishing_only_commits [OF pw_start_init pw_sample_publishing(2)
      pw_step.commits [OF pw_sample_commits] c p]
  show ?thesis by auto
qed

end
