(* ===== verification/Operations.thy ===== *)
theory Operations
  imports GoErrors "HOL-Library.List_Lexorder" "HOL-Library.Char_ord" "HOL-Library.Product_Lexorder"
begin

text \<open>
  Operation records and the admission of work for a vault (\<open>database/operations.go\<close>,
  \<open>database/vault_operations.go\<close>).  A table read by several columns is the list of its
  rows in insertion order, the others are maps from their key.  An operation returns the
  changed tables or the error its transaction rolls back with.
\<close>

section \<open>Tables\<close>

record op_row =
  op_id :: string
  op_kind :: string
  op_status :: string
  op_title :: string
  op_job :: string
  op_repository :: string
  op_engine :: string
  op_started_at :: string
  op_finished_at :: string
  op_issue_kind :: string

text \<open>One care schedule of a vault: its integrity checks or its maintenance.\<close>

record care =
  care_schedule :: string
  care_next :: string
  care_last :: string
  care_status :: string

record repository_row =
  rr_engine :: string
  rr_check :: care
  rr_maintenance :: care
  rr_object_lock :: string

record target_row =
  tr_last_run :: string
  tr_last_status :: string

text \<open>What an admitted scheduled run took from its pair, and the admission it was part of.\<close>

record restoration =
  rs_operation :: string
  rs_group :: string
  rs_job :: string
  rs_repository :: string
  rs_missed :: int
  rs_first :: string
  rs_last :: string
  rs_state :: string

record admission_group =
  ag_id :: string
  ag_job :: string
  ag_generation :: int
  ag_admitted :: string
  ag_previous :: string
  ag_started :: bool

record operations_db =
  od_ops :: "op_row list"
  od_repositories :: "string \<rightharpoonup> repository_row"
  od_targets :: "string \<times> string \<rightharpoonup> target_row"
  od_restorations :: "restoration list"
  od_groups :: "admission_group list"

definition err_operation_active :: go_error where
  "err_operation_active = new_error ''the same operation is already queued or running''"

definition err_repository_task_active :: go_error where
  "err_repository_task_active = new_error ''repository task already has a running operation''"

definition err_vault_being_removed :: go_error where
  "err_vault_being_removed = new_error ''This vault is being removed.''"

definition err_vault_change_active :: go_error where
  "err_vault_change_active =
     new_error ''Another change to this vault is already in progress. Try again when it finishes.''"

definition password_kind :: string where "password_kind = ''vault_password''"
definition settings_kind :: string where "settings_kind = ''vault_settings''"
definition removal_kind :: string where "removal_kind = ''remove_vault''"
definition job_deletion_kind :: string where "job_deletion_kind = ''delete_job''"
definition locked_files_issue :: string where "locked_files_issue = ''locked_files''"

definition change_kinds :: "string list" where
  "change_kinds = [password_kind, settings_kind, removal_kind]"

definition active :: "op_row \<Rightarrow> bool" where
  "active o' \<longleftrightarrow> op_status o' = ''queued'' \<or> op_status o' = ''running''"

definition find_op :: "string \<Rightarrow> operations_db \<Rightarrow> op_row option" where
  "find_op i d = find (\<lambda>o'. op_id o' = i) (od_ops d)"

definition update_ops :: "(op_row \<Rightarrow> bool) \<Rightarrow> (op_row \<Rightarrow> op_row) \<Rightarrow> operations_db \<Rightarrow> operations_db" where
  "update_ops P f d = d\<lparr>od_ops := map (\<lambda>o'. if P o' then f o' else o') (od_ops d)\<rparr>"

definition engine_of :: "operations_db \<Rightarrow> string \<Rightarrow> string" where
  "engine_of d repo = (case od_repositories d repo of None \<Rightarrow> [] | Some r \<Rightarrow> rr_engine r)"

text \<open>\<open>id\<close> is the primary key: a second row with it is a constraint error.\<close>

definition insert_op :: "op_row \<Rightarrow> operations_db \<Rightarrow> operations_db result" where
  "insert_op o' d =
     (if find_op (op_id o') d \<noteq> None then Inl (new_error ''UNIQUE constraint failed'')
      else Inr (d\<lparr>od_ops := od_ops d @ [o']\<rparr>))"

section \<open>Admission\<close>

definition vault_removal_pending :: "operations_db \<Rightarrow> string \<Rightarrow> bool" where
  "vault_removal_pending d repo \<longleftrightarrow> repo \<noteq> [] \<and>
     list_ex (\<lambda>o'. op_repository o' = repo \<and> op_kind o' = removal_kind \<and> active o') (od_ops d)"

definition require_vault_not_being_removed :: "string \<Rightarrow> operations_db \<Rightarrow> go_error option" where
  "require_vault_not_being_removed repo d =
     (if vault_removal_pending d repo then Some err_vault_being_removed else None)"

definition require_no_vault_change :: "string \<Rightarrow> operations_db \<Rightarrow> go_error option" where
  "require_no_vault_change repo d =
     (if list_ex (\<lambda>o'. op_repository o' = repo \<and> op_kind o' \<in> set change_kinds \<and> active o') (od_ops d)
      then Some err_vault_change_active else None)"

definition repository_has_other_active_work ::
    "(string \<times> string \<Rightarrow> bool) \<Rightarrow> string \<Rightarrow> operations_db \<Rightarrow> bool" where
  "repository_has_other_active_work is_target repo d \<longleftrightarrow>
     list_ex (\<lambda>o'. active o' \<and>
       (op_repository o' = repo \<and> op_kind o' \<noteq> removal_kind \<or>
        op_kind o' = job_deletion_kind \<and> is_target (op_job o', repo))) (od_ops d)"

definition start_operation ::
    "string \<Rightarrow> string \<Rightarrow> string \<Rightarrow> string \<Rightarrow> string \<Rightarrow> string \<Rightarrow> operations_db \<Rightarrow> operations_db result" where
  "start_operation i kind title job repo now d =
     insert_op \<lparr>op_id = i, op_kind = kind, op_status = ''running'', op_title = title, op_job = job,
       op_repository = repo, op_engine = engine_of d repo, op_started_at = now, op_finished_at = [],
       op_issue_kind = []\<rparr> d"

record queued_operation =
  q_kind :: string
  q_title :: string
  q_job :: string
  q_repository :: string
  q_exclusive :: bool
  q_match_title :: bool
  q_vault_change :: bool

definition same_operation :: "queued_operation \<Rightarrow> op_row \<Rightarrow> bool" where
  "same_operation q o' \<longleftrightarrow> op_kind o' = q_kind q \<and> op_repository o' = q_repository q \<and>
     op_job o' = q_job q \<and> (\<not> q_match_title q \<or> op_title o' = q_title q) \<and> active o'"

definition queue_operation ::
    "queued_operation \<Rightarrow> string \<Rightarrow> string \<Rightarrow> operations_db \<Rightarrow> operations_db result" where
  "queue_operation q i now d =
     (if vault_removal_pending d (q_repository q) then Inl err_vault_being_removed
      else case (if q_vault_change q then require_no_vault_change (q_repository q) d else None) of
        Some e \<Rightarrow> Inl e
      | None \<Rightarrow>
          if q_exclusive q \<and> list_ex (same_operation q) (od_ops d) then Inl err_operation_active
          else insert_op \<lparr>op_id = i, op_kind = q_kind q, op_status = ''queued'', op_title = q_title q,
            op_job = q_job q, op_repository = q_repository q, op_engine = engine_of d (q_repository q),
            op_started_at = now, op_finished_at = [], op_issue_kind = []\<rparr> d)"

definition set_care :: "string \<Rightarrow> (care \<Rightarrow> care) \<Rightarrow> repository_row \<Rightarrow> repository_row" where
  "set_care kind f r =
     (if kind = ''maintenance'' then r\<lparr>rr_maintenance := f (rr_maintenance r)\<rparr>
      else r\<lparr>rr_check := f (rr_check r)\<rparr>)"

definition care_of :: "string \<Rightarrow> repository_row \<Rightarrow> care" where
  "care_of kind r = (if kind = ''maintenance'' then rr_maintenance r else rr_check r)"

definition update_repository ::
    "string \<Rightarrow> (repository_row \<Rightarrow> repository_row) \<Rightarrow> operations_db \<Rightarrow> operations_db result" where
  "update_repository repo f d =
     (case od_repositories d repo of None \<Rightarrow> Inl sql_no_rows
      | Some r \<Rightarrow> Inr (d\<lparr>od_repositories := (od_repositories d)(repo \<mapsto> f r)\<rparr>))"

definition activate_queued_operation :: "string \<Rightarrow> operations_db \<Rightarrow> operations_db result" where
  "activate_queued_operation i d =
     (case find (\<lambda>o'. op_id o' = i \<and> op_status o' = ''queued'') (od_ops d) of
        None \<Rightarrow> Inl sql_no_rows
      | Some o' \<Rightarrow>
          let d' = update_ops (\<lambda>r. op_id r = i \<and> op_status r = ''queued'')
                (\<lambda>r. r\<lparr>op_status := ''running''\<rparr>) d in
          if op_kind o' = ''check'' \<or> op_kind o' = ''maintenance''
          then update_repository (op_repository o')
                 (set_care (op_kind o') (\<lambda>c. c\<lparr>care_status := ''running''\<rparr>)) d'
          else Inr d')"

text \<open>\<open>strings.Title\<close> on the ASCII kinds.\<close>

definition title_separator :: "char \<Rightarrow> bool" where
  "title_separator c \<longleftrightarrow> \<not> (is_digit c \<or> 65 \<le> byte c \<and> byte c \<le> 90 \<or> 97 \<le> byte c \<and> byte c \<le> 122 \<or>
     byte c = 95 \<or> 127 < byte c)"

fun title_from :: "bool \<Rightarrow> string \<Rightarrow> string" where
  "title_from start [] = []"
| "title_from start (c # cs) =
     (if start \<and> 97 \<le> byte c \<and> byte c \<le> 122 then char_of (byte c - 32) else c) #
     title_from (title_separator c) cs"

definition repository_operation_title :: "string \<Rightarrow> string \<Rightarrow> string" where
  "repository_operation_title kind repo_name = title_from True kind @ '': '' @ repo_name"

definition start_repository_operation ::
    "string \<Rightarrow> string \<Rightarrow> string \<Rightarrow> string \<Rightarrow> string \<Rightarrow> string \<Rightarrow> operations_db \<Rightarrow> operations_db result" where
  "start_repository_operation repo repo_name engine kind i now d =
     (if od_repositories d repo = None then Inl sql_no_rows
      else if vault_removal_pending d repo then Inl err_vault_being_removed
      else if list_ex (\<lambda>o'. op_repository o' = repo \<and> op_kind o' = kind \<and> active o') (od_ops d)
      then Inl err_repository_task_active
      else case insert_op \<lparr>op_id = i, op_kind = kind, op_status = ''running'',
            op_title = repository_operation_title kind repo_name, op_job = [], op_repository = repo,
            op_engine = engine, op_started_at = now, op_finished_at = [], op_issue_kind = []\<rparr> d of
          Inl e \<Rightarrow> Inl e
        | Inr d' \<Rightarrow> update_repository repo (set_care kind (\<lambda>c. c\<lparr>care_status := ''running''\<rparr>)) d')"

section \<open>Completion\<close>

text \<open>
  The transaction that \<open>FinishRepositoryOperation\<close> passes to the operation log.
  \<open>next_run\<close> is \<open>NextRunFrom\<close> at the finish time, \<open>retry_at\<close> the object-lock retry time,
  \<open>decode_lock\<close> the JSON decoding of the object-lock settings (enrolled, paused).
\<close>

definition finish_repository_operation ::
    "(string \<Rightarrow> string) \<Rightarrow> string \<Rightarrow> (string \<Rightarrow> (bool \<times> bool) option) \<Rightarrow>
     string \<Rightarrow> string \<Rightarrow> string \<Rightarrow> string \<Rightarrow> string \<Rightarrow> operations_db \<Rightarrow> operations_db result" where
  "finish_repository_operation next_run retry_at decode_lock i repo kind status now d =
     (if kind \<noteq> ''maintenance'' \<and> kind \<noteq> ''check'' then Inl sql_no_rows
      else
        let P = (\<lambda>r. op_id r = i \<and> op_repository r = repo \<and> op_kind r = kind \<and> op_status r = ''running'') in
        if \<not> list_ex P (od_ops d) then Inl sql_no_rows
        else
          let d' = update_ops P (\<lambda>r. r\<lparr>op_status := status, op_finished_at := now\<rparr>) d in
          if status = ''interrupted''
          then update_repository repo (set_care kind (\<lambda>c. c\<lparr>care_status := status\<rparr>)) d'
          else case od_repositories d' repo of
              None \<Rightarrow> Inl sql_no_rows
            | Some r \<Rightarrow>
                let due = next_run (care_schedule (care_of kind r));
                    finish = (\<lambda>t. update_repository repo (set_care kind
                      (\<lambda>c. c\<lparr>care_last := now, care_next := t, care_status := status\<rparr>)) d') in
                if kind = ''maintenance'' \<and> status \<noteq> ''success'' \<and> status \<noteq> ''completed_with_issues''
                then (case decode_lock (rr_object_lock r) of
                    None \<Rightarrow> Inl (new_error ''decode stored object lock settings'')
                  | Some (enrolled, paused) \<Rightarrow> finish (if enrolled \<and> \<not> paused then retry_at else due))
                else finish due)"

definition update_target ::
    "string \<times> string \<Rightarrow> (target_row \<Rightarrow> target_row) \<Rightarrow> operations_db \<Rightarrow> operations_db result" where
  "update_target k f d =
     (case od_targets d k of None \<Rightarrow> Inl sql_no_rows
      | Some t \<Rightarrow> Inr (d\<lparr>od_targets := (od_targets d)(k \<mapsto> f t)\<rparr>))"

definition activate_backup_operation ::
    "string \<Rightarrow> string \<Rightarrow> string \<Rightarrow> operations_db \<Rightarrow> operations_db result" where
  "activate_backup_operation i job repo d =
     (let P = (\<lambda>r. op_id r = i \<and> op_job r = job \<and> op_repository r = repo \<and> op_status r = ''queued'') in
      if \<not> list_ex P (od_ops d) then Inl sql_no_rows
      else update_target (job, repo) (\<lambda>t. t\<lparr>tr_last_status := ''running''\<rparr>)
        (update_ops P (\<lambda>r. r\<lparr>op_status := ''running''\<rparr>) d))"

definition restorable :: "string \<Rightarrow> operations_db \<Rightarrow> bool" where
  "restorable i d \<longleftrightarrow> list_ex (\<lambda>r. rs_operation r = i \<and> rs_state r = ''eligible'') (od_restorations d)"

definition finish_backup_operation_with_issue_kind ::
    "string \<Rightarrow> string \<Rightarrow> string \<Rightarrow> string \<Rightarrow> string \<Rightarrow> string \<Rightarrow> operations_db \<Rightarrow> operations_db result" where
  "finish_backup_operation_with_issue_kind i job repo status issue now d =
     (if issue \<noteq> [] \<and> (issue \<noteq> locked_files_issue \<or> status \<noteq> ''completed_with_issues'')
      then Inl (new_error ''backup issue kind does not apply to status'')
      else
        let P = (\<lambda>r. op_id r = i \<and> (op_status r = ''running'' \<or>
                  op_status r = ''queued'' \<and> \<not> restorable (op_id r) d)) in
        if \<not> list_ex P (od_ops d) then Inl sql_no_rows
        else update_target (job, repo) (\<lambda>t. t\<lparr>tr_last_status := status, tr_last_run := now\<rparr>)
          (update_ops P (\<lambda>r. r\<lparr>op_status := status, op_issue_kind := issue, op_finished_at := now\<rparr>) d))"

definition finish_backup_operation ::
    "string \<Rightarrow> string \<Rightarrow> string \<Rightarrow> string \<Rightarrow> string \<Rightarrow> operations_db \<Rightarrow> operations_db result" where
  "finish_backup_operation i job repo status now =
     finish_backup_operation_with_issue_kind i job repo status [] now"

definition finish_operation :: "string \<Rightarrow> string \<Rightarrow> string \<Rightarrow> operations_db \<Rightarrow> operations_db" where
  "finish_operation i status now d =
     update_ops (\<lambda>r. op_id r = i) (\<lambda>r. r\<lparr>op_status := status, op_finished_at := now\<rparr>) d"

section \<open>Listing and pruning\<close>

definition list_operations :: "operations_db \<Rightarrow> int \<Rightarrow> op_row list" where
  "list_operations d limit =
     take (nat (if limit \<le> 0 then 200 else limit))
       (rev (sort_key (\<lambda>o'. (op_started_at o', op_id o')) (od_ops d)))"

definition list_active_operations :: "operations_db \<Rightarrow> op_row list" where
  "list_active_operations d =
     sort_key (\<lambda>o'. (op_started_at o', op_id o')) (filter active (od_ops d))"

definition get_operation :: "operations_db \<Rightarrow> string \<Rightarrow> op_row result" where
  "get_operation d i = (case find_op i d of None \<Rightarrow> Inl sql_no_rows | Some o' \<Rightarrow> Inr o')"

definition running_password_changes :: "operations_db \<Rightarrow> (string \<times> string) list" where
  "running_password_changes d =
     map (\<lambda>o'. (op_id o', op_repository o'))
       (sort_key (\<lambda>o'. (op_started_at o', op_id o'))
         (filter (\<lambda>o'. op_kind o' = password_kind \<and> op_status o' = ''running'') (od_ops d)))"

definition delete_expired_operation :: "string \<Rightarrow> operations_db \<Rightarrow> operations_db" where
  "delete_expired_operation i d =
     (let group = map_option rs_group (find (\<lambda>r. rs_operation r = i) (od_restorations d));
          left = filter (\<lambda>r. rs_operation r \<noteq> i) (od_restorations d);
          d' = d\<lparr>od_ops := filter (\<lambda>o'. op_id o' \<noteq> i) (od_ops d), od_restorations := left\<rparr> in
      case group of
        None \<Rightarrow> d'
      | Some g \<Rightarrow>
          if g \<noteq> [] \<and> \<not> list_ex (\<lambda>r. rs_group r = g) left
          then d'\<lparr>od_groups := filter (\<lambda>x. ag_id x \<noteq> g \<or> ag_started x) (od_groups d')\<rparr> else d')"

text \<open>The loop over the expired rows: \<open>stuck\<close> counts the logs that would not go.\<close>

fun prune_loop ::
    "(string \<Rightarrow> go_error option) \<Rightarrow> string list \<Rightarrow> nat \<times> (string \<times> go_error) option \<Rightarrow> operations_db \<Rightarrow>
     operations_db \<times> nat \<times> (string \<times> go_error) option" where
  "prune_loop remove_log [] acc d = (d, acc)"
| "prune_loop remove_log (i # is) (stuck, first) d =
     (case remove_log i of
        Some e \<Rightarrow> prune_loop remove_log is (stuck + 1, (if stuck = 0 then Some (i, e) else first)) d
      | None \<Rightarrow> prune_loop remove_log is (stuck, first) (delete_expired_operation i d))"

definition stuck_operation_logs_error :: "nat \<Rightarrow> (string \<times> go_error) option \<Rightarrow> go_error option" where
  "stuck_operation_logs_error count first =
     (if count = 0 then None
      else map_option (\<lambda>(i, e). wrap_error ''expired operation logs could not be removed'' e) first)"

text \<open>
  \<open>PruneOperations\<close>: \<open>expired days\<close> is SQLite's comparison of a finish time with the
  cutoff, \<open>remove_log\<close> the removal of an operation's log file.
\<close>

definition prune_operations ::
    "(int \<Rightarrow> string \<Rightarrow> bool) \<Rightarrow> (string \<Rightarrow> go_error option) \<Rightarrow> int \<Rightarrow> operations_db \<Rightarrow>
     operations_db \<times> go_error option" where
  "prune_operations expired remove_log days d =
     (if days \<le> 0 then (d, None)
      else
        let ids = map op_id (filter (\<lambda>o'. op_status o' \<noteq> ''running'' \<and> expired days (op_finished_at o')) (od_ops d)) in
        case prune_loop remove_log ids (0, None) d of
          (d', stuck, first) \<Rightarrow> (d', stuck_operation_logs_error stuck first))"

section \<open>The callers\<close>

text \<open>
  What the callers in \<open>api/\<close> and \<open>scheduler/\<close> pass: every vault administration kind
  is queued as a vault change, a manual check or maintenance is exclusive and belongs to
  no job, and a finish records a status that is not an active one.
\<close>

definition care_kinds :: "string list" where
  "care_kinds = [''check'', ''maintenance'']"

definition call_ok :: "queued_operation \<Rightarrow> bool" where
  "call_ok q \<longleftrightarrow> (q_kind q \<in> set change_kinds \<longrightarrow> q_vault_change q) \<and>
     (q_kind q \<in> set care_kinds \<longrightarrow> q_exclusive q \<and> \<not> q_match_title q \<and> q_job q = [])"

definition terminal :: "string \<Rightarrow> bool" where
  "terminal status \<longleftrightarrow> status \<noteq> ''queued'' \<and> status \<noteq> ''running''"

inductive ops_step :: "operations_db \<Rightarrow> operations_db \<Rightarrow> bool" where
  queues: "call_ok q \<Longrightarrow> queue_operation q i now d = Inr d' \<Longrightarrow> ops_step d d'"
| starts_care: "kind \<in> set care_kinds \<Longrightarrow>
     start_repository_operation repo rn eng kind i now d = Inr d' \<Longrightarrow> ops_step d d'"
| starts_backup: "start_operation i ''backup'' title job repo now d = Inr d' \<Longrightarrow> ops_step d d'"
| activates: "activate_queued_operation i d = Inr d' \<Longrightarrow> ops_step d d'"
| activates_backup: "activate_backup_operation i job repo d = Inr d' \<Longrightarrow> ops_step d d'"
| finishes_care: "terminal status \<Longrightarrow>
     finish_repository_operation nr ra dl i repo kind status now d = Inr d' \<Longrightarrow> ops_step d d'"
| finishes_backup: "terminal status \<Longrightarrow>
     finish_backup_operation_with_issue_kind i job repo status issue now d = Inr d' \<Longrightarrow> ops_step d d'"
| finishes: "terminal status \<Longrightarrow> ops_step d (finish_operation i status now d)"
| prunes: "fst (prune_operations expired remove_log days d) = d' \<Longrightarrow> ops_step d d'"

section \<open>Slots\<close>

text \<open>The groups of operations of which a vault may have only one queued or running.\<close>

definition change_slot :: "string \<Rightarrow> op_row \<Rightarrow> bool" where
  "change_slot repo o' \<longleftrightarrow> op_repository o' = repo \<and> op_kind o' \<in> set change_kinds \<and> active o'"

definition care_slot :: "string \<Rightarrow> string \<Rightarrow> op_row \<Rightarrow> bool" where
  "care_slot repo kind o' \<longleftrightarrow> op_repository o' = repo \<and> op_kind o' = kind \<and> active o'"

definition at_most_one :: "(op_row \<Rightarrow> bool) \<Rightarrow> op_row list \<Rightarrow> bool" where
  "at_most_one P os \<longleftrightarrow> length (filter P os) \<le> 1"

definition slots_ok :: "op_row list \<Rightarrow> bool" where
  "slots_ok os \<longleftrightarrow> (\<forall>repo. at_most_one (change_slot repo) os) \<and>
     (\<forall>repo. \<forall>kind\<in>set care_kinds. at_most_one (care_slot repo kind) os) \<and>
     (\<forall>o'\<in>set os. active o' \<longrightarrow> (op_kind o' \<in> set care_kinds \<longrightarrow> op_job o' = []) \<and> op_finished_at o' = [])"

definition ops_inv :: "operations_db \<Rightarrow> bool" where
  "ops_inv d \<longleftrightarrow> distinct (map op_id (od_ops d)) \<and> slots_ok (od_ops d)"

definition ops_init :: "operations_db \<Rightarrow> bool" where
  "ops_init d \<longleftrightarrow> distinct (map op_id (od_ops d)) \<and> \<not> list_ex active (od_ops d)"

lemma at_most_one_append:
  "at_most_one P os \<Longrightarrow> (P r \<Longrightarrow> \<not> list_ex P os) \<Longrightarrow> at_most_one P (os @ [r])"
  by (cases "P r") (auto simp: at_most_one_def list_ex_iff filter_empty_conv
      intro: filter_False [THEN arg_cong, of _ _ length, THEN trans])

lemma filter_update_length:
  "(\<And>r. r \<in> set os \<Longrightarrow> P r \<Longrightarrow> Q (f r) \<Longrightarrow> Q r) \<Longrightarrow>
   length (filter Q (map (\<lambda>r. if P r then f r else r) os)) \<le> length (filter Q os)"
proof (induction os)
  case (Cons r os)
  then have "length (filter Q (map (\<lambda>r. if P r then f r else r) os)) \<le> length (filter Q os)" by simp
  with Cons.prems [of r] show ?case by auto
qed simp

lemma at_most_one_update:
  "at_most_one Q os \<Longrightarrow> (\<And>r. r \<in> set os \<Longrightarrow> P r \<Longrightarrow> Q (f r) \<Longrightarrow> Q r) \<Longrightarrow>
   at_most_one Q (map (\<lambda>r. if P r then f r else r) os)"
  unfolding at_most_one_def using filter_update_length [of os P Q f] by (meson le_trans)

lemma at_most_one_filter:
  assumes "at_most_one Q os"
  shows "at_most_one Q (filter P os)"
proof -
  have "length (filter P (filter Q os)) \<le> length (filter Q os)" by (rule length_filter_le)
  with assms show ?thesis by (simp add: at_most_one_def filter_filter conj_commute)
qed

text \<open>An update that only moves rows towards the end of their life keeps the slots.\<close>

definition ages :: "(op_row \<Rightarrow> op_row) \<Rightarrow> op_row \<Rightarrow> bool" where
  "ages f r \<longleftrightarrow> op_id (f r) = op_id r \<and> op_kind (f r) = op_kind r \<and>
     op_repository (f r) = op_repository r \<and> op_job (f r) = op_job r \<and>
     (active (f r) \<longrightarrow> active r \<and> op_finished_at (f r) = op_finished_at r)"

lemma inv_update:
  assumes inv: "ops_inv d" and ages: "\<And>r. P r \<Longrightarrow> ages f r" and ops: "od_ops d' = od_ops (update_ops P f d)"
  shows "ops_inv d'"
proof -
  have ids: "map op_id (od_ops d') = map op_id (od_ops d)"
    unfolding ops by (simp add: update_ops_def) (use ages in \<open>auto simp: ages_def\<close>)
  have one: "at_most_one Q (od_ops d')"
    if "at_most_one Q (od_ops d)" "\<And>r. P r \<Longrightarrow> Q (f r) \<Longrightarrow> Q r" for Q
    using at_most_one_update [of Q "od_ops d" P f] that by (simp add: ops update_ops_def)
  have "at_most_one (change_slot repo) (od_ops d')" for repo
    by (rule one) (use inv ages in \<open>auto simp: ops_inv_def slots_ok_def change_slot_def ages_def\<close>)
  moreover have "at_most_one (care_slot repo kind) (od_ops d')" if "kind \<in> set care_kinds" for repo kind
    by (rule one) (use inv ages that in \<open>auto simp: ops_inv_def slots_ok_def care_slot_def ages_def\<close>)
  moreover have "(op_kind r \<in> set care_kinds \<longrightarrow> op_job r = []) \<and> op_finished_at r = []"
    if "r \<in> set (od_ops d')" "active r" for r
  proof -
    from that(1) obtain r0 where r0: "r0 \<in> set (od_ops d)" "r = (if P r0 then f r0 else r0)"
      by (auto simp: ops update_ops_def)
    with inv ages [of r0] that(2) show ?thesis
      by (cases "P r0") (auto simp: ops_inv_def slots_ok_def ages_def)
  qed
  ultimately show ?thesis using inv ids by (simp add: ops_inv_def slots_ok_def)
qed

lemma inv_insert:
  assumes inv: "ops_inv d" and fresh: "find_op (op_id r) d = None" and ops: "od_ops d' = od_ops d @ [r]"
    and change: "op_kind r \<in> set change_kinds \<Longrightarrow> \<not> list_ex (change_slot (op_repository r)) (od_ops d)"
    and care: "op_kind r \<in> set care_kinds \<Longrightarrow>
      \<not> list_ex (care_slot (op_repository r) (op_kind r)) (od_ops d) \<and> op_job r = []"
    and "op_finished_at r = []"
  shows "ops_inv d'"
proof -
  have "op_id r \<notin> op_id ` set (od_ops d)"
    using fresh by (auto simp: find_op_def find_None_iff)
  moreover have "at_most_one (change_slot repo) (od_ops d')" for repo
    unfolding ops by (rule at_most_one_append)
      (use inv change in \<open>auto simp: ops_inv_def slots_ok_def change_slot_def\<close>)
  moreover have "at_most_one (care_slot repo kind) (od_ops d')" if "kind \<in> set care_kinds" for repo kind
    unfolding ops by (rule at_most_one_append)
      (use inv care that in \<open>auto simp: ops_inv_def slots_ok_def care_slot_def\<close>)
  ultimately show ?thesis using inv care assms(6) by (auto simp: ops_inv_def slots_ok_def ops)
qed

lemma inv_filter:
  assumes "ops_inv d" and "od_ops d' = filter P (od_ops d)"
  shows "ops_inv d'"
  using assms by (auto simp: ops_inv_def slots_ok_def at_most_one_filter distinct_map_filter)

lemma insert_op_SomeD:
  "insert_op r d = Inr d' \<Longrightarrow> find_op (op_id r) d = None \<and> d' = d\<lparr>od_ops := od_ops d @ [r]\<rparr>"
  by (auto simp: insert_op_def split: if_splits)

lemma ops_tables_frame [simp]:
  "update_repository repo f d = Inr d' \<Longrightarrow> od_ops d' = od_ops d"
  "update_target k g d = Inr d' \<Longrightarrow> od_ops d' = od_ops d"
  by (auto simp: update_repository_def update_target_def split: option.splits)

lemma queue_SomeD:
  assumes "queue_operation q i now d = Inr d'"
  obtains r where "od_ops d' = od_ops d @ [r]" "find_op (op_id r) d = None" "op_kind r = q_kind q"
    "op_repository r = q_repository q" "op_job r = q_job q" "op_finished_at r = []"
    "op_status r = ''queued''" "\<not> vault_removal_pending d (q_repository q)"
    "q_vault_change q \<longrightarrow> \<not> list_ex (change_slot (q_repository q)) (od_ops d)"
    "q_exclusive q \<longrightarrow> \<not> list_ex (same_operation q) (od_ops d)"
  using assms by (auto simp: queue_operation_def require_no_vault_change_def change_slot_def [abs_def]
      dest!: insert_op_SomeD split: if_splits option.splits)

lemma start_care_SomeD:
  assumes "start_repository_operation repo rn eng kind i now d = Inr d'"
  obtains r where "od_ops d' = od_ops d @ [r]" "find_op (op_id r) d = None" "op_kind r = kind"
    "op_repository r = repo" "op_job r = []" "op_finished_at r = []" "op_status r = ''running''"
    "\<not> vault_removal_pending d repo" "\<not> list_ex (care_slot repo kind) (od_ops d)"
  using assms by (auto simp: start_repository_operation_def care_slot_def [abs_def]
      dest!: insert_op_SomeD split: if_splits sum.splits)

lemma start_SomeD:
  assumes "start_operation i kind title job repo now d = Inr d'"
  obtains r where "od_ops d' = od_ops d @ [r]" "find_op (op_id r) d = None" "op_kind r = kind"
    "op_repository r = repo" "op_finished_at r = []" "op_status r = ''running''"
  using assms by (auto simp: start_operation_def dest!: insert_op_SomeD)

lemma delete_expired_ops:
  "od_ops (delete_expired_operation i d) = filter (\<lambda>o'. op_id o' \<noteq> i) (od_ops d)"
  by (auto simp: delete_expired_operation_def Let_def split: option.splits)

lemma prune_loop_ops:
  "\<exists>P. od_ops (fst (prune_loop remove_log is acc d)) = filter P (od_ops d) \<and>
     (\<forall>r. P r \<longleftrightarrow> \<not> (op_id r \<in> set is \<and> remove_log (op_id r) = None))"
proof (induction remove_log "is" acc d rule: prune_loop.induct)
  case (1 remove_log acc d)
  then show ?case by (intro exI [of _ "\<lambda>_. True"]) simp
next
  case (2 remove_log i "is" stuck first d)
  show ?case
  proof (cases "remove_log i")
    case None
    from 2(1) [OF None] obtain P where P: "od_ops (fst (prune_loop remove_log is (stuck, first) (delete_expired_operation i d))) =
      filter P (od_ops (delete_expired_operation i d))"
      "\<forall>r. P r \<longleftrightarrow> \<not> (op_id r \<in> set is \<and> remove_log (op_id r) = None)" by blast
    with None show ?thesis
      by (intro exI [of _ "\<lambda>r. P r \<and> op_id r \<noteq> i"]) (auto simp: delete_expired_ops conj_commute)
  next
    case (Some e)
    from 2(2) [OF Some] obtain P where P: "od_ops (fst (prune_loop remove_log is (stuck + 1, if stuck = 0 then Some (i, e) else first) d)) =
      filter P (od_ops d)"
      "\<forall>r. P r \<longleftrightarrow> \<not> (op_id r \<in> set is \<and> remove_log (op_id r) = None)" by blast
    show ?thesis
    proof (intro exI [of _ P] conjI)
      show "od_ops (fst (prune_loop remove_log (i # is) (stuck, first) d)) = filter P (od_ops d)"
        using P(1) Some by simp
    qed (use P(2) Some in auto)
  qed
qed

lemma prune_ops:
  obtains P where "od_ops (fst (prune_operations expired remove_log days d)) = filter P (od_ops d)"
    "\<forall>r. \<not> P r \<longrightarrow> 0 < days \<and> remove_log (op_id r) = None \<and>
       (\<exists>r'\<in>set (od_ops d). op_id r' = op_id r \<and> op_status r' \<noteq> ''running'' \<and> expired days (op_finished_at r'))"
proof (cases "days \<le> 0")
  case True
  then show ?thesis using that [of "\<lambda>_. True"] by (simp add: prune_operations_def)
next
  case False
  let ?ids = "map op_id (filter (\<lambda>o'. op_status o' \<noteq> ''running'' \<and> expired days (op_finished_at o')) (od_ops d))"
  obtain P where P: "od_ops (fst (prune_loop remove_log ?ids (0, None) d)) = filter P (od_ops d)"
    "\<forall>r. P r \<longleftrightarrow> \<not> (op_id r \<in> set ?ids \<and> remove_log (op_id r) = None)"
    using prune_loop_ops by blast
  show ?thesis
  proof (rule that [of P])
    have "fst (prune_operations expired remove_log days d) = fst (prune_loop remove_log ?ids (0, None) d)"
      using False by (cases "prune_loop remove_log ?ids (0, None) d" rule: prod_cases3)
        (simp add: prune_operations_def Let_def)
    with P(1) show "od_ops (fst (prune_operations expired remove_log days d)) = filter P (od_ops d)"
      by simp
  qed (use P(2) False in auto)
qed

lemma step_ops_inv:
  assumes "ops_step d d'" and inv: "ops_inv d"
  shows "ops_inv d'"
  using assms(1)
proof cases
  case (queues q i now)
  from queues(2) obtain r where r: "od_ops d' = od_ops d @ [r]" "find_op (op_id r) d = None"
    "op_kind r = q_kind q" "op_repository r = q_repository q" "op_job r = q_job q"
    "op_finished_at r = []"
    "q_vault_change q \<longrightarrow> \<not> list_ex (change_slot (q_repository q)) (od_ops d)"
    "q_exclusive q \<longrightarrow> \<not> list_ex (same_operation q) (od_ops d)"
    by (rule queue_SomeD)
  show ?thesis
  proof (rule inv_insert [OF inv r(2) r(1)])
    show "\<not> list_ex (change_slot (op_repository r)) (od_ops d)" if "op_kind r \<in> set change_kinds"
      using that queues(1) r by (simp add: call_ok_def)
    show "\<not> list_ex (care_slot (op_repository r) (op_kind r)) (od_ops d) \<and> op_job r = []"
      if "op_kind r \<in> set care_kinds"
    proof -
      from that queues(1) r have q: "\<not> list_ex (same_operation q) (od_ops d)" "\<not> q_match_title q"
        "q_job q = []" by (simp_all add: call_ok_def)
      have "same_operation q o'" if o': "o' \<in> set (od_ops d)"
        "care_slot (op_repository r) (op_kind r) o'" for o'
      proof -
        have "op_job o' = []"
          using inv o' \<open>op_kind r \<in> set care_kinds\<close> by (auto simp: ops_inv_def slots_ok_def care_slot_def)
        with o'(2) q(2,3) r(3,4) show ?thesis by (simp add: same_operation_def care_slot_def)
      qed
      with q(1,3) r(5) show ?thesis by (auto simp: list_ex_iff)
    qed
  qed (use r in simp)
next
  case (starts_care kind repo rn eng i now)
  from starts_care(2) show ?thesis
  proof (rule start_care_SomeD)
    fix r assume r: "od_ops d' = od_ops d @ [r]" "find_op (op_id r) d = None" "op_kind r = kind"
      "op_repository r = repo" "op_job r = []" "op_finished_at r = []"
      "\<not> list_ex (care_slot repo kind) (od_ops d)"
    show ?thesis
      by (rule inv_insert [OF inv r(2) r(1)])
        (use r starts_care(1) in \<open>auto simp: care_kinds_def change_kinds_def password_kind_def
            settings_kind_def removal_kind_def\<close>)
  qed
next
  case (starts_backup i title job repo now)
  from starts_backup show ?thesis
  proof (rule start_SomeD)
    fix r assume r: "od_ops d' = od_ops d @ [r]" "find_op (op_id r) d = None"
      "op_kind r = ''backup''" "op_finished_at r = []"
    show ?thesis
      by (rule inv_insert [OF inv r(2) r(1)])
        (use r in \<open>auto simp: care_kinds_def change_kinds_def password_kind_def
            settings_kind_def removal_kind_def\<close>)
  qed
next
  case (activates i)
  then have "od_ops d' = od_ops (update_ops (\<lambda>r. op_id r = i \<and> op_status r = ''queued'')
      (\<lambda>r. r\<lparr>op_status := ''running''\<rparr>) d)"
    by (auto simp: activate_queued_operation_def Let_def split: option.splits if_splits)
  then show ?thesis by (rule inv_update [OF inv, rotated]) (auto simp: ages_def active_def)
next
  case (activates_backup i job repo)
  then have "od_ops d' = od_ops (update_ops (\<lambda>r. op_id r = i \<and> op_job r = job \<and>
      op_repository r = repo \<and> op_status r = ''queued'') (\<lambda>r. r\<lparr>op_status := ''running''\<rparr>) d)"
    by (auto simp: activate_backup_operation_def Let_def split: if_splits)
  then show ?thesis by (rule inv_update [OF inv, rotated]) (auto simp: ages_def active_def)
next
  case (finishes_care status nr ra dl i repo kind now)
  then have "od_ops d' = od_ops (update_ops (\<lambda>r. op_id r = i \<and> op_repository r = repo \<and>
      op_kind r = kind \<and> op_status r = ''running'') (\<lambda>r. r\<lparr>op_status := status, op_finished_at := now\<rparr>) d)"
    by (auto simp: finish_repository_operation_def Let_def split: if_splits option.splits)
  then show ?thesis
    by (rule inv_update [OF inv, rotated]) (use finishes_care(1) in \<open>auto simp: ages_def active_def terminal_def\<close>)
next
  case (finishes_backup status i job repo issue now)
  then have "od_ops d' = od_ops (update_ops (\<lambda>r. op_id r = i \<and> (op_status r = ''running'' \<or>
      op_status r = ''queued'' \<and> \<not> restorable (op_id r) d))
      (\<lambda>r. r\<lparr>op_status := status, op_issue_kind := issue, op_finished_at := now\<rparr>) d)"
    by (auto simp: finish_backup_operation_with_issue_kind_def Let_def split: if_splits)
  then show ?thesis
    by (rule inv_update [OF inv, rotated]) (use finishes_backup(1) in \<open>auto simp: ages_def active_def terminal_def\<close>)
next
  case (finishes status i now)
  show ?thesis unfolding finishes(1) finish_operation_def
    by (rule inv_update [OF inv, rotated, OF refl])
      (use finishes(2) in \<open>auto simp: ages_def active_def terminal_def\<close>)
next
  case (prunes expired remove_log days)
  with prune_ops [of expired remove_log days d] inv_filter [OF inv] show ?thesis by metis
qed

lemma init_ops_inv: "ops_init d \<Longrightarrow> ops_inv d"
proof -
  assume init: "ops_init d"
  have "filter (change_slot repo) (od_ops d) = []" "filter (care_slot repo kind) (od_ops d) = []"
    for repo kind
    using init by (auto simp: ops_init_def list_ex_iff filter_empty_conv change_slot_def care_slot_def)
  then have "at_most_one (change_slot repo) (od_ops d)" "at_most_one (care_slot repo kind) (od_ops d)"
    for repo kind by (simp_all add: at_most_one_def)
  with init show ?thesis by (auto simp: ops_inv_def slots_ok_def ops_init_def list_ex_iff)
qed

interpretation operations: step_system ops_init ops_step ops_inv
  by unfold_locales (blast intro: init_ops_inv step_ops_inv)+

section \<open>Properties\<close>

lemma at_most_oneD:
  assumes "at_most_one P os" and "r \<in> set os" "P r" and "r' \<in> set os" "P r'"
  shows "r = r'"
proof -
  have "r \<in> set (filter P os)" "r' \<in> set (filter P os)" using assms by auto
  with assms(1) show ?thesis
    unfolding at_most_one_def by (cases "filter P os" rule: remdups_adj.cases) auto
qed

text \<open>
  C11. A vault never has two password changes, settings saves or removals queued or
  running at once, nor two checks or two maintenance runs, whichever of the request
  path and the scheduler recorded them.
\<close>

theorem vault_work_exclusive:
  assumes "ops_init d0" and "ops_step\<^sup>*\<^sup>* d0 d"
    and "r \<in> set (od_ops d)" "active r" and "r' \<in> set (od_ops d)" "active r'"
    and "op_repository r = op_repository r'"
    and "op_kind r \<in> set change_kinds \<and> op_kind r' \<in> set change_kinds \<or>
      op_kind r \<in> set care_kinds \<and> op_kind r = op_kind r'"
  shows "r = r'"
proof -
  have inv: "slots_ok (od_ops d)"
    using operations.inv_reachable [OF assms(1,2)] by (simp add: ops_inv_def)
  from assms(8) show ?thesis
  proof
    assume k: "op_kind r \<in> set change_kinds \<and> op_kind r' \<in> set change_kinds"
    have "at_most_one (change_slot (op_repository r)) (od_ops d)" using inv by (simp add: slots_ok_def)
    from at_most_oneD [OF this assms(3) _ assms(5)] k assms show ?thesis by (simp add: change_slot_def)
  next
    assume k: "op_kind r \<in> set care_kinds \<and> op_kind r = op_kind r'"
    have "at_most_one (care_slot (op_repository r) (op_kind r)) (od_ops d)"
      using inv conjunct1 [OF k] unfolding slots_ok_def by blast
    from at_most_oneD [OF this assms(3) _ assms(5)] k assms show ?thesis by (simp add: care_slot_def)
  qed
qed

lemma update_keeps_ids:
  assumes "od_ops d' = od_ops (update_ops P f d)" and "\<And>r. op_id (f r) = op_id r"
  shows "op_id ` set (od_ops d') = op_id ` set (od_ops d)"
proof -
  have "map op_id (od_ops d') = map op_id (od_ops d)" by (simp add: assms update_ops_def)
  then show ?thesis by (metis list.set_map)
qed

text \<open>
  C12. While a vault's removal is queued or running, no step records new work for the
  vault, except the unchecked \<open>StartOperation\<close> of a backup.
\<close>

theorem removal_holds_back:
  assumes "ops_step d d'" and "vault_removal_pending d repo"
    and "r \<in> set (od_ops d')" and "op_id r \<notin> op_id ` set (od_ops d)"
    and "op_repository r = repo"
  shows "op_kind r = ''backup'' \<and> op_status r = ''running''"
  using assms(1)
proof cases
  case (queues q i now)
  from queues(2) obtain r' where r': "od_ops d' = od_ops d @ [r']" "op_repository r' = q_repository q"
    "\<not> vault_removal_pending d (q_repository q)" by (rule queue_SomeD)
  with assms(3,4) have "r = r'" by auto
  with r' assms(2,5) show ?thesis by simp
next
  case (starts_care kind rp rn eng i now)
  from starts_care(2) obtain r' where r': "od_ops d' = od_ops d @ [r']" "op_repository r' = rp"
    "\<not> vault_removal_pending d rp" by (rule start_care_SomeD)
  with assms(3,4) have "r = r'" by auto
  with r' assms(2,5) show ?thesis by simp
next
  case (starts_backup i title job rp now)
  from starts_backup obtain r' where r': "od_ops d' = od_ops d @ [r']" "op_kind r' = ''backup''"
    "op_status r' = ''running''" by (rule start_SomeD)
  with assms(3,4) have "r = r'" by auto
  with r' show ?thesis by simp
next
  case (activates i)
  then have "od_ops d' = od_ops (update_ops (\<lambda>r. op_id r = i \<and> op_status r = ''queued'')
      (\<lambda>r. r\<lparr>op_status := ''running''\<rparr>) d)"
    by (auto simp: activate_queued_operation_def Let_def split: option.splits if_splits)
  from update_keeps_ids [OF this] assms(3,4) show ?thesis by auto
next
  case (activates_backup i job rp)
  then have "od_ops d' = od_ops (update_ops (\<lambda>r. op_id r = i \<and> op_job r = job \<and>
      op_repository r = rp \<and> op_status r = ''queued'') (\<lambda>r. r\<lparr>op_status := ''running''\<rparr>) d)"
    by (auto simp: activate_backup_operation_def Let_def split: if_splits)
  from update_keeps_ids [OF this] assms(3,4) show ?thesis by auto
next
  case (finishes_care status nr ra dl i rp kind now)
  then have "od_ops d' = od_ops (update_ops (\<lambda>r. op_id r = i \<and> op_repository r = rp \<and>
      op_kind r = kind \<and> op_status r = ''running'') (\<lambda>r. r\<lparr>op_status := status, op_finished_at := now\<rparr>) d)"
    by (auto simp: finish_repository_operation_def Let_def split: if_splits option.splits)
  from update_keeps_ids [OF this] assms(3,4) show ?thesis by auto
next
  case (finishes_backup status i job rp issue now)
  then have "od_ops d' = od_ops (update_ops (\<lambda>r. op_id r = i \<and> (op_status r = ''running'' \<or>
      op_status r = ''queued'' \<and> \<not> restorable (op_id r) d))
      (\<lambda>r. r\<lparr>op_status := status, op_issue_kind := issue, op_finished_at := now\<rparr>) d)"
    by (auto simp: finish_backup_operation_with_issue_kind_def Let_def split: if_splits)
  from update_keeps_ids [OF this] assms(3,4) show ?thesis by auto
next
  case (finishes status i now)
  then have "od_ops d' = od_ops (update_ops (\<lambda>r. op_id r = i)
      (\<lambda>r. r\<lparr>op_status := status, op_finished_at := now\<rparr>) d)"
    by (simp add: finish_operation_def)
  from update_keeps_ids [OF this] assms(3,4) show ?thesis by auto
next
  case (prunes expired remove_log days)
  then obtain P where "od_ops d' = filter P (od_ops d)"
    using prune_ops [of expired remove_log days d] by metis
  with assms(3,4) show ?thesis by auto
qed

lemma update_none_left:
  "(\<And>r. P r \<Longrightarrow> \<not> P (f r)) \<Longrightarrow> \<not> list_ex P (od_ops (update_ops P f d))"
  by (auto simp: update_ops_def list_ex_iff)

lemma care_set_care [simp]: "care_of kind (set_care kind f r) = f (care_of kind r)"
  by (simp add: care_of_def set_care_def)

text \<open>
  \<open>FinishRepositoryOperation\<close> records exactly the due time the outcome asks for: an
  interrupted run keeps its schedule; a maintenance that did not succeed under an enrolled,
  unpaused object lock is retried soon; every other run is next due by its schedule.  It
  finishes an operation only once.
\<close>

theorem finish_repository_due:
  assumes "finish_repository_operation next_run retry_at decode_lock i repo kind status now d = Inr d'"
    and "od_repositories d repo = Some r" and "terminal status"
  shows "(\<exists>r'. od_repositories d' repo = Some r' \<and> care_status (care_of kind r') = status \<and>
      (if status = ''interrupted''
       then care_next (care_of kind r') = care_next (care_of kind r) \<and>
            care_last (care_of kind r') = care_last (care_of kind r)
       else care_last (care_of kind r') = now \<and>
            care_next (care_of kind r') =
              (if kind = ''maintenance'' \<and> status \<notin> {''success'', ''completed_with_issues''} \<and>
                  decode_lock (rr_object_lock r) = Some (True, False)
               then retry_at else next_run (care_schedule (care_of kind r))))) \<and>
    finish_repository_operation next_run retry_at decode_lock i repo kind status' now' d' = Inl sql_no_rows"
proof -
  let ?P = "\<lambda>r. op_id r = i \<and> op_repository r = repo \<and> op_kind r = kind \<and> op_status r = ''running''"
  let ?d = "update_ops ?P (\<lambda>r. r\<lparr>op_status := status, op_finished_at := now\<rparr>) d"
  have ops: "od_ops d' = od_ops ?d"
    using assms(1) by (auto simp: finish_repository_operation_def Let_def split: if_splits option.splits)
  have "\<not> list_ex ?P (od_ops d')"
    unfolding ops by (rule update_none_left) (use assms(3) in \<open>simp add: terminal_def\<close>)
  then have twice: "finish_repository_operation next_run retry_at decode_lock i repo kind status' now' d' = Inl sql_no_rows"
    by (simp add: finish_repository_operation_def Let_def)
  have repos: "od_repositories (update_ops P f d) = od_repositories d" for P f
    by (simp add: update_ops_def)
  have "\<exists>r'. od_repositories d' repo = Some r' \<and> care_status (care_of kind r') = status \<and>
      (if status = ''interrupted''
       then care_next (care_of kind r') = care_next (care_of kind r) \<and>
            care_last (care_of kind r') = care_last (care_of kind r)
       else care_last (care_of kind r') = now \<and>
            care_next (care_of kind r') =
              (if kind = ''maintenance'' \<and> status \<notin> {''success'', ''completed_with_issues''} \<and>
                  decode_lock (rr_object_lock r) = Some (True, False)
               then retry_at else next_run (care_schedule (care_of kind r))))"
  proof (cases "status = ''interrupted''")
    case True
    with assms(1) have "update_repository repo (set_care kind (\<lambda>c. c\<lparr>care_status := status\<rparr>)) ?d = Inr d'"
      by (simp add: finish_repository_operation_def Let_def split: if_splits)
    with assms(2) True show ?thesis
      by (auto simp: update_repository_def repos)
  next
    case False
    let ?due = "if kind = ''maintenance'' \<and> status \<notin> {''success'', ''completed_with_issues''} \<and>
        decode_lock (rr_object_lock r) = Some (True, False)
      then retry_at else next_run (care_schedule (care_of kind r))"
    from assms(1,2) False have "update_repository repo (set_care kind
        (\<lambda>c. c\<lparr>care_last := now, care_next := ?due, care_status := status\<rparr>)) ?d = Inr d'"
      by (cases "kind = ''maintenance''"; cases "status = ''success''"; cases "status = ''completed_with_issues''")
        (auto simp: finish_repository_operation_def Let_def repos split: if_splits option.splits prod.splits)
    with assms(2) False show ?thesis
      by (auto simp: update_repository_def repos)
  qed
  with twice show ?thesis by blast
qed

text \<open>
  Pruning never removes a queued or running operation, whatever the retention, and
  removes a finished one only after its log is gone.
\<close>

theorem prune_keeps_active:
  assumes "ops_init d0" and "ops_step\<^sup>*\<^sup>* d0 d" and "\<not> expired days []"
    and "r \<in> set (od_ops d)" and "r \<notin> set (od_ops (fst (prune_operations expired remove_log days d)))"
  shows "\<not> active r \<and> expired days (op_finished_at r) \<and> remove_log (op_id r) = None"
proof -
  have inv: "ops_inv d" by (rule operations.inv_reachable [OF assms(1,2)])
  from assms(4,5) obtain r' where r': "r' \<in> set (od_ops d)" "op_id r' = op_id r"
    "expired days (op_finished_at r')" "remove_log (op_id r) = None"
    using prune_ops [of expired remove_log days d] by (metis (no_types, lifting) set_filter mem_Collect_eq)
  with inv assms(4) have "r' = r"
    by (auto simp: ops_inv_def dest: inj_onD [OF distinct_map [THEN iffD1, THEN conjunct2]])
  with r' inv assms(3,4) show ?thesis by (auto simp: ops_inv_def slots_ok_def)
qed

section \<open>Sample runs\<close>

definition ops_start :: operations_db where
  "ops_start = \<lparr>od_ops = [\<lparr>op_id = ''old'', op_kind = ''restore'', op_status = ''success'',
       op_title = ''Restore'', op_job = [], op_repository = ''v'', op_engine = ''kopia'',
       op_started_at = ''2020'', op_finished_at = ''2021'', op_issue_kind = []\<rparr>],
     od_repositories = [''v'' \<mapsto> \<lparr>rr_engine = ''kopia'',
       rr_check = \<lparr>care_schedule = ''daily'', care_next = ''n'', care_last = ''l'', care_status = []\<rparr>,
       rr_maintenance = \<lparr>care_schedule = ''daily'', care_next = ''n'', care_last = ''l'', care_status = []\<rparr>,
       rr_object_lock = []\<rparr>],
     od_targets = Map.empty, od_restorations = [], od_groups = []\<rparr>"

lemma ops_start_init: "ops_init ops_start"
  by (simp add: ops_init_def ops_start_def active_def)

definition sample_removal :: queued_operation where
  "sample_removal = \<lparr>q_kind = removal_kind, q_title = ''Remove vault'', q_job = [],
     q_repository = ''v'', q_exclusive = False, q_match_title = False, q_vault_change = True\<rparr>"

definition queued_row :: op_row where
  "queued_row = \<lparr>op_id = ''rm'', op_kind = removal_kind, op_status = ''queued'', op_title = ''Remove vault'',
     op_job = [], op_repository = ''v'', op_engine = ''kopia'', op_started_at = ''2024'',
     op_finished_at = [], op_issue_kind = []\<rparr>"

definition ops_removing :: operations_db where
  "ops_removing = ops_start\<lparr>od_ops := od_ops ops_start @ [queued_row]\<rparr>"

lemma sample_removal_queued:
  "queue_operation sample_removal ''rm'' ''2024'' ops_start = Inr ops_removing"
  by (simp add: queue_operation_def sample_removal_def ops_start_def ops_removing_def queued_row_def
      insert_op_def find_op_def engine_of_def vault_removal_pending_def require_no_vault_change_def
      active_def)

lemma ops_removing_step: "ops_step ops_start ops_removing"
  by (rule ops_step.queues [OF _ sample_removal_queued])
    (simp add: call_ok_def sample_removal_def care_kinds_def removal_kind_def)

lemma ops_removing_reached: "ops_step\<^sup>*\<^sup>* ops_start ops_removing"
  using ops_removing_step by (rule r_into_rtranclp)

theorem vault_work_exclusive_witness:
  "hd (filter (change_slot ''v'') (od_ops ops_removing)) =
   last (filter (change_slot ''v'') (od_ops ops_removing))"
  by (rule vault_work_exclusive [OF ops_start_init ops_removing_reached])
    (simp_all add: ops_removing_def ops_start_def queued_row_def active_def change_kinds_def
      change_slot_def removal_kind_def password_kind_def settings_kind_def)

definition backup_row :: op_row where
  "backup_row = \<lparr>op_id = ''b'', op_kind = ''backup'', op_status = ''running'', op_title = ''Backup'',
     op_job = [], op_repository = ''v'', op_engine = ''kopia'', op_started_at = ''2025'',
     op_finished_at = [], op_issue_kind = []\<rparr>"

definition ops_unchecked :: operations_db where
  "ops_unchecked = ops_removing\<lparr>od_ops := od_ops ops_removing @ [backup_row]\<rparr>"

lemma backup_admitted:
  "start_operation ''b'' ''backup'' ''Backup'' [] ''v'' ''2025'' ops_removing = Inr ops_unchecked"
  by (simp add: start_operation_def insert_op_def find_op_def engine_of_def backup_row_def
      ops_unchecked_def ops_removing_def ops_start_def queued_row_def)

lemma ops_removing_pending: "vault_removal_pending ops_removing ''v''"
  by (simp add: vault_removal_pending_def ops_removing_def queued_row_def active_def)

text \<open>
  \<open>StartOperation\<close> itself does not ask whether the vault is being removed: it records
  a running backup beside a queued removal.
\<close>

theorem start_operation_unchecked:
  "\<exists>d. ops_init ops_start \<and> ops_step\<^sup>*\<^sup>* ops_start d \<and> vault_removal_pending d ''v'' \<and>
     (\<exists>r\<in>set (od_ops d). op_repository r = ''v'' \<and> op_kind r = ''backup'' \<and> op_status r = ''running'')"
proof (intro exI [of _ ops_unchecked] conjI)
  show "ops_step\<^sup>*\<^sup>* ops_start ops_unchecked"
    using ops_removing_reached ops_step.starts_backup [OF backup_admitted]
    by (rule rtranclp.rtrancl_into_rtrancl)
qed (simp_all add: ops_start_init vault_removal_pending_def ops_unchecked_def ops_removing_def
    queued_row_def active_def backup_row_def)

theorem removal_holds_back_witness:
  "op_kind backup_row = ''backup'' \<and> op_status backup_row = ''running''"
  by (rule removal_holds_back [OF ops_step.starts_backup [OF backup_admitted] ops_removing_pending])
    (simp_all add: ops_unchecked_def ops_removing_def ops_start_def queued_row_def backup_row_def)

definition ops_maintaining :: operations_db where
  "ops_maintaining = the (case start_repository_operation ''v'' ''V'' ''kopia'' ''maintenance'' ''m'' ''2024'' ops_start of
     Inr d \<Rightarrow> Some d | Inl _ \<Rightarrow> None)"

definition ops_maintained :: operations_db where
  "ops_maintained = the (case finish_repository_operation (\<lambda>s. s @ ''!'') ''soon''
       (\<lambda>_. Some (True, False)) ''m'' ''v'' ''maintenance'' ''failed'' ''2025'' ops_maintaining of
     Inr d \<Rightarrow> Some d | Inl _ \<Rightarrow> None)"

lemma sample_maintenance:
  "finish_repository_operation (\<lambda>s. s @ ''!'') ''soon'' (\<lambda>_. Some (True, False))
     ''m'' ''v'' ''maintenance'' ''failed'' ''2025'' ops_maintaining = Inr ops_maintained"
  by (simp add: ops_maintained_def ops_maintaining_def start_repository_operation_def ops_start_def
      vault_removal_pending_def insert_op_def find_op_def update_repository_def set_care_def
      finish_repository_operation_def update_ops_def Let_def active_def)

theorem finish_repository_due_witness:
  "\<exists>r'. od_repositories ops_maintained ''v'' = Some r' \<and> care_next (rr_maintenance r') = ''soon''"
proof -
  have r: "od_repositories ops_maintaining ''v'' = Some (the (od_repositories ops_maintaining ''v''))"
    by (simp add: ops_maintaining_def start_repository_operation_def ops_start_def
        vault_removal_pending_def insert_op_def find_op_def update_repository_def active_def)
  have t: "terminal ''failed''" by (simp add: terminal_def)
  from finish_repository_due [OF sample_maintenance r t] show ?thesis by (auto simp: care_of_def)
qed

theorem prune_keeps_active_witness:
  "\<not> active (hd (od_ops ops_removing)) \<and>
   hd (od_ops ops_removing) \<notin> set (od_ops (fst (prune_operations (\<lambda>_ t. t = ''2021'') (\<lambda>_. None) 30 ops_removing)))"
proof -
  let ?r = "hd (od_ops ops_removing)"
  have gone: "?r \<notin> set (od_ops (fst (prune_operations (\<lambda>_ t. t = ''2021'') (\<lambda>_. None) 30 ops_removing)))"
    by (simp add: prune_operations_def ops_removing_def ops_start_def queued_row_def
        delete_expired_operation_def Let_def)
  have "?r \<in> set (od_ops ops_removing)" by (simp add: ops_removing_def ops_start_def)
  with prune_keeps_active [OF ops_start_init ops_removing_reached _ this gone] gone show ?thesis by simp
qed

end
