(* ===== verification/LocalTime.thy ===== *)
theory LocalTime
  imports GoErrors
begin

text \<open>
  Instants and local readings (\<open>schedulevalue/schedule.go\<close>: \<open>wallClock\<close>,
  \<open>localInstant\<close>, \<open>NextLocal\<close>).  An instant is a number of nanoseconds since the epoch;
  a local wall-clock reading is the number a UTC clock showing the same date and time
  would have.  A \<open>time.Location\<close> is its offset before the first zone change and the
  sorted list of its changes, each with the offset that starts there.
\<close>

section \<open>Zones\<close>

record zone =
  z_first :: int
  z_changes :: "(int \<times> int) list"

definition period_at :: "zone \<Rightarrow> int \<Rightarrow> nat" where
  "period_at z t = length (takeWhile (\<lambda>c. fst c \<le> t) (z_changes z))"

definition offset_of :: "zone \<Rightarrow> nat \<Rightarrow> int" where
  "offset_of z k = (if k = 0 then z_first z else snd (z_changes z ! (k - 1)))"

definition change_at :: "zone \<Rightarrow> nat \<Rightarrow> int" where
  "change_at z k = fst (z_changes z ! (k - 1))"

text \<open>\<open>Time.Zone\<close> and \<open>Time.ZoneBounds\<close>; a missing bound is Go's zero time.\<close>

definition zone_offset :: "zone \<Rightarrow> int \<Rightarrow> int" where
  "zone_offset z t = offset_of z (period_at z t)"

definition zone_start :: "zone \<Rightarrow> int \<Rightarrow> int option" where
  "zone_start z t = (if period_at z t = 0 then None else Some (change_at z (period_at z t)))"

definition zone_end :: "zone \<Rightarrow> int \<Rightarrow> int option" where
  "zone_end z t =
     (if period_at z t < length (z_changes z) then Some (change_at z (period_at z t + 1)) else None)"

definition wall_clock :: "zone \<Rightarrow> int \<Rightarrow> int" where
  "wall_clock z t = t + zone_offset z t"

section \<open>Placing a reading\<close>

text \<open>
  \<open>guess\<close> is \<open>time.Date\<close> in the location, which leaves the choice open for a reading that
  is skipped or repeated; \<open>date_ok\<close> below is what its documentation promises.
\<close>

definition consider_candidate :: "zone \<Rightarrow> int \<Rightarrow> int \<Rightarrow> int option \<Rightarrow> int option" where
  "consider_candidate z reading candidate best =
     (if wall_clock z candidate = reading \<and> (case best of None \<Rightarrow> True | Some b \<Rightarrow> candidate < b)
      then Some candidate else best)"

definition local_instant :: "zone \<Rightarrow> (int \<Rightarrow> int) \<Rightarrow> int \<Rightarrow> int" where
  "local_instant z date reading =
     (let guess = date reading;
          offset = zone_offset z guess;
          c0 = consider_candidate z reading guess None;
          c1 = (case zone_start z guess of None \<Rightarrow> c0
                | Some s \<Rightarrow> consider_candidate z reading (guess + (offset - zone_offset z (s - 1))) c0);
          c2 = (case zone_end z guess of None \<Rightarrow> c1
                | Some e \<Rightarrow> consider_candidate z reading (guess + (offset - zone_offset z e)) c1) in
      case c2 of
        Some t \<Rightarrow> t
      | None \<Rightarrow>
          if wall_clock z guess > reading
          then (case zone_start z guess of Some s \<Rightarrow> s | None \<Rightarrow> guess)
          else (case zone_end z guess of Some e \<Rightarrow> e | None \<Rightarrow> guess))"

definition next_local :: "zone \<Rightarrow> (int \<Rightarrow> int) \<Rightarrow> int \<Rightarrow> (int \<Rightarrow> int) \<Rightarrow> int" where
  "next_local z date from_time advance = local_instant z date (advance (wall_clock z from_time))"

section \<open>Well-formed zones\<close>

text \<open>
  \<open>shift\<close> bounds every change of the offset; changes lie more than two such shifts apart,
  so a reading can be skipped or repeated by one change only.
\<close>

definition zone_ok :: "int \<Rightarrow> zone \<Rightarrow> bool" where
  "zone_ok shift z \<longleftrightarrow> 0 \<le> shift \<and>
     (\<forall>k<length (z_changes z). \<bar>offset_of z (Suc k) - offset_of z k\<bar> \<le> shift) \<and>
     (\<forall>k. 1 \<le> k \<and> k < length (z_changes z) \<longrightarrow> change_at z k + 2 * shift < change_at z (Suc k))"

text \<open>The change from period \<open>k\<close> to \<open>k + 1\<close> skips the reading.\<close>

definition skipped_by :: "zone \<Rightarrow> nat \<Rightarrow> int \<Rightarrow> bool" where
  "skipped_by z k r \<longleftrightarrow> k < length (z_changes z) \<and>
     change_at z (Suc k) + offset_of z k \<le> r \<and> r < change_at z (Suc k) + offset_of z (Suc k)"

definition occurs :: "zone \<Rightarrow> int \<Rightarrow> bool" where
  "occurs z r \<longleftrightarrow> (\<exists>t. wall_clock z t = r)"

text \<open>
  \<open>time.Date\<close>: for a reading that occurs, an instant with that reading; for a skipped one,
  an instant that is correct in one of the two zones involved in the change.
\<close>

definition date_ok :: "zone \<Rightarrow> (int \<Rightarrow> int) \<Rightarrow> bool" where
  "date_ok z date \<longleftrightarrow>
     (\<forall>r. if occurs z r then wall_clock z (date r) = r
          else (\<exists>k. skipped_by z k r \<and> (date r = r - offset_of z k \<or> date r = r - offset_of z (Suc k))))"

lemma zone_okD:
  assumes "zone_ok d z"
  shows "0 \<le> d" and "k < length (z_changes z) \<Longrightarrow> \<bar>offset_of z (Suc k) - offset_of z k\<bar> \<le> d"
    and "1 \<le> k \<Longrightarrow> k < length (z_changes z) \<Longrightarrow> change_at z k + 2 * d < change_at z (Suc k)"
  using assms by (simp_all add: zone_ok_def)

lemma changes_increase:
  assumes ok: "zone_ok d z" and "1 \<le> j" "j \<le> k" "k \<le> length (z_changes z)"
  shows "change_at z j + int (k - j) * (2 * d + 1) \<le> change_at z k"
  using assms(3,4)
proof (induction k rule: dec_induct)
  case (step k)
  then have "change_at z k + 2 * d < change_at z (Suc k)"
    using zone_okD(3) [OF ok, of k] assms(2) by simp
  moreover have "int (Suc k - j) = int (k - j) + 1" using step(1) by simp
  ultimately show ?case using step by (simp add: algebra_simps)
qed simp

lemma offsets_near:
  assumes ok: "zone_ok d z" and "j \<le> k" "k \<le> length (z_changes z)"
  shows "\<bar>offset_of z k - offset_of z j\<bar> \<le> int (k - j) * d"
  using assms(2,3)
proof (induction k rule: dec_induct)
  case (step k)
  then have "\<bar>offset_of z (Suc k) - offset_of z k\<bar> \<le> d" using zone_okD(2) [OF ok, of k] by simp
  moreover have "int (Suc k - j) * d = int (k - j) * d + d" using step(1) by (simp add: Suc_diff_le algebra_simps)
  ultimately show ?case using step by simp
qed simp

text \<open>The period of an instant: it lies between the two changes that bound the period.\<close>

lemma period_le: "period_at z t \<le> length (z_changes z)"
  by (simp add: period_at_def length_takeWhile_le)

lemma period_started:
  assumes "1 \<le> k" "k \<le> period_at z t"
  shows "change_at z k \<le> t"
proof -
  have "k - 1 < length (takeWhile (\<lambda>c. fst c \<le> t) (z_changes z))"
    using assms by (simp add: period_at_def)
  then show ?thesis
    using nth_mem [of "k - 1" "takeWhile (\<lambda>c. fst c \<le> t) (z_changes z)"]
    by (auto simp: change_at_def takeWhile_nth dest!: set_takeWhileD)
qed

lemma period_not_ended:
  assumes "period_at z t < length (z_changes z)"
  shows "t < change_at z (Suc (period_at z t))"
  using assms nth_length_takeWhile [of "\<lambda>c. fst c \<le> t" "z_changes z"]
  by (simp add: period_at_def change_at_def not_le)

lemma period_atI:
  assumes ok: "zone_ok d z" and le: "k \<le> length (z_changes z)"
    and start: "1 \<le> k \<Longrightarrow> change_at z k \<le> t"
    and stop: "k < length (z_changes z) \<Longrightarrow> t < change_at z (Suc k)"
  shows "period_at z t = k"
proof (rule ccontr)
  assume "period_at z t \<noteq> k"
  then consider "k < period_at z t" | "period_at z t < k" by linarith
  then show False
  proof cases
    case 1
    then have "change_at z (Suc k) \<le> t" by (intro period_started) simp_all
    moreover have "k < length (z_changes z)" using 1 period_le [of z t] by simp
    ultimately show False using stop by simp
  next
    case 2
    then have "t < change_at z (Suc (period_at z t))" using le by (intro period_not_ended) simp
    also have "\<dots> \<le> change_at z (Suc (period_at z t)) + int (k - Suc (period_at z t)) * (2 * d + 1)"
      using zone_okD(1) [OF ok] by simp
    also have "\<dots> \<le> change_at z k"
      using changes_increase [OF ok, of "Suc (period_at z t)" k] 2 le by simp
    finally show False using start 2 by simp
  qed
qed

text \<open>Readings of instants two or more periods apart are ordered as the instants are.\<close>

lemma far_periods:
  assumes ok: "zone_ok d z" and "period_at z t + 2 \<le> period_at z u"
  shows "wall_clock z t < wall_clock z u"
proof -
  let ?j = "period_at z t" and ?k = "period_at z u"
  have "t < change_at z (Suc ?j)"
    using assms(2) period_le [of z u] by (intro period_not_ended) simp
  moreover have "change_at z ?k \<le> u" using assms(2) by (intro period_started) simp_all
  moreover have "change_at z (Suc ?j) + int (?k - Suc ?j) * (2 * d + 1) \<le> change_at z ?k"
    using changes_increase [OF ok, of "Suc ?j" ?k] assms(2) period_le by simp
  moreover have "\<bar>offset_of z ?k - offset_of z ?j\<bar> \<le> int (?k - ?j) * d"
    using offsets_near [OF ok, of ?j ?k] assms(2) period_le by simp
  moreover have "int (?k - ?j) * d \<le> int (?k - Suc ?j) * (2 * d)"
  proof -
    have "int (?k - ?j) \<le> 2 * int (?k - Suc ?j)" using assms(2) by simp
    from mult_right_mono [OF this zone_okD(1) [OF ok]] show ?thesis by simp
  qed
  moreover have "int (?k - Suc ?j) * (2 * d + 1) = int (?k - Suc ?j) * (2 * d) + int (?k - Suc ?j)"
    by (simp add: algebra_simps)
  ultimately show ?thesis by (simp add: wall_clock_def zone_offset_def)
qed

lemma same_reading_near:
  assumes "zone_ok d z" "wall_clock z t = wall_clock z u"
  shows "period_at z u \<le> Suc (period_at z t)"
  using far_periods [OF assms(1), of t u] assms(2) by (cases "period_at z t + 2 \<le> period_at z u") auto

section \<open>The reading's instant\<close>

lemma consider_min:
  assumes "wall_clock z b = r"
  shows "\<exists>t. consider_candidate z r c (Some b) = Some t \<and> wall_clock z t = r \<and> t \<le> b \<and>
    (wall_clock z c = r \<longrightarrow> t \<le> c)"
  using assms by (auto simp: consider_candidate_def)

lemma consider_none: "\<not> occurs z r \<Longrightarrow> consider_candidate z r c None = None"
  by (auto simp: consider_candidate_def occurs_def)

lemma offset_before_change:
  assumes ok: "zone_ok d z" and k: "1 \<le> k" "k \<le> length (z_changes z)"
  shows "zone_offset z (change_at z k - 1) = offset_of z (k - 1)"
proof -
  have "period_at z (change_at z k - 1) = k - 1"
  proof (rule period_atI [OF ok])
    show "change_at z (k - 1) \<le> change_at z k - 1" if "1 \<le> k - 1"
    proof -
      have "k - 1 < length (z_changes z)" using k by simp
      from zone_okD(3) [OF ok that this] zone_okD(1) [OF ok] k show ?thesis by simp
    qed
  qed (use k in auto)
  then show ?thesis by (simp add: zone_offset_def)
qed

lemma offset_at_change:
  assumes ok: "zone_ok d z" and k: "1 \<le> k" "k \<le> length (z_changes z)"
  shows "zone_offset z (change_at z k) = offset_of z k"
proof -
  have "period_at z (change_at z k) = k"
  proof (rule period_atI [OF ok])
    show "change_at z k < change_at z (Suc k)" if "k < length (z_changes z)"
      using zone_okD(1) [OF ok] zone_okD(3) [OF ok, of k] that k by simp
  qed (use k in auto)
  then show ?thesis by (simp add: zone_offset_def)
qed

lemma local_instant_Some:
  "consider_candidate z r (date r) None = c0 \<Longrightarrow>
   (case zone_start z (date r) of None \<Rightarrow> c0
    | Some s \<Rightarrow> consider_candidate z r (date r + (zone_offset z (date r) - zone_offset z (s - 1))) c0) = c1 \<Longrightarrow>
   (case zone_end z (date r) of None \<Rightarrow> c1
    | Some e \<Rightarrow> consider_candidate z r (date r + (zone_offset z (date r) - zone_offset z e)) c1) = Some t \<Longrightarrow>
   local_instant z date r = t"
  unfolding local_instant_def Let_def by hypsubst (simp only: option.case)

lemma local_instant_occurs:
  assumes ok: "zone_ok d z" and "date_ok z date" and occ: "occurs z r"
  shows "wall_clock z (local_instant z date r) = r \<and>
    (\<forall>u. wall_clock z u = r \<longrightarrow> local_instant z date r \<le> u)"
proof -
  define g where "g = date r"
  define i where "i = period_at z g"
  have g: "wall_clock z g = r" using assms(2,3) by (simp add: date_ok_def g_def)
  then have gr: "g = r - offset_of z i" by (simp add: wall_clock_def zone_offset_def i_def)
  define c1 where "c1 = (case zone_start z g of None \<Rightarrow> Some g
    | Some s \<Rightarrow> consider_candidate z r (g + (zone_offset z g - zone_offset z (s - 1))) (Some g))"
  define c2 where "c2 = (case zone_end z g of None \<Rightarrow> c1
    | Some e \<Rightarrow> consider_candidate z r (g + (zone_offset z g - zone_offset z e)) c1)"
  have off: "zone_offset z g = offset_of z i" by (simp add: zone_offset_def i_def)
  obtain t1 where t1: "c1 = Some t1" "wall_clock z t1 = r" "t1 \<le> g"
    "1 \<le> i \<and> wall_clock z (r - offset_of z (i - 1)) = r \<longrightarrow> t1 \<le> r - offset_of z (i - 1)"
  proof (cases "i = 0")
    case True
    with g that show thesis by (auto simp: c1_def zone_start_def i_def)
  next
    case False
    then have "zone_start z g = Some (change_at z i)" "zone_offset z (change_at z i - 1) = offset_of z (i - 1)"
      using offset_before_change [OF ok, of i] period_le [of z g] by (simp_all add: zone_start_def i_def)
    then have "c1 = consider_candidate z r (g + (zone_offset z g - offset_of z (i - 1))) (Some g)"
      by (simp add: c1_def)
    also have "g + (zone_offset z g - offset_of z (i - 1)) = r - offset_of z (i - 1)"
      unfolding off by (simp add: gr)
    finally have "c1 = consider_candidate z r (r - offset_of z (i - 1)) (Some g)" .
    with consider_min [OF g] that show thesis by metis
  qed
  obtain t2 where t2: "c2 = Some t2" "wall_clock z t2 = r" "t2 \<le> t1"
    "i < length (z_changes z) \<and> wall_clock z (r - offset_of z (Suc i)) = r \<longrightarrow> t2 \<le> r - offset_of z (Suc i)"
  proof (cases "i < length (z_changes z)")
    case False
    with t1 that show thesis by (auto simp: c2_def zone_end_def i_def)
  next
    case True
    then have "zone_end z g = Some (change_at z (Suc i))" "zone_offset z (change_at z (Suc i)) = offset_of z (Suc i)"
      using offset_at_change [OF ok, of "Suc i"] by (simp_all add: zone_end_def i_def)
    then have "c2 = consider_candidate z r (g + (zone_offset z g - offset_of z (Suc i))) c1"
      by (simp add: c2_def)
    also have "g + (zone_offset z g - offset_of z (Suc i)) = r - offset_of z (Suc i)"
      unfolding off by (simp add: gr)
    finally have "c2 = consider_candidate z r (r - offset_of z (Suc i)) c1" .
    with consider_min [OF t1(2)] t1(1) that show thesis by metis
  qed
  have "local_instant z date r = t2"
  proof (rule local_instant_Some)
    show "consider_candidate z r (date r) None = Some g"
      using g by (simp add: consider_candidate_def g_def)
    show "(case zone_end z (date r) of None \<Rightarrow> c1
      | Some e \<Rightarrow> consider_candidate z r (date r + (zone_offset z (date r) - zone_offset z e)) c1) = Some t2"
      using t2(1) unfolding c2_def g_def .
  qed (simp only: c1_def g_def)
  moreover have "t2 \<le> u" if u: "wall_clock z u = r" for u
  proof -
    have ur: "u = r - offset_of z (period_at z u)" using u by (simp add: wall_clock_def zone_offset_def)
    have "period_at z u \<le> Suc i" "i \<le> Suc (period_at z u)"
      using same_reading_near [OF ok] u g by (simp_all add: i_def)
    then consider "period_at z u = i" | "1 \<le> i" "period_at z u = i - 1" | "period_at z u = Suc i"
      by linarith
    then show ?thesis
    proof cases
      case 1
      with ur gr t1(3) t2(3) show ?thesis by simp
    next
      case 2
      with ur t1(4) u t2(3) show ?thesis by auto
    next
      case 3
      with ur t2(4) u period_le [of z u] show ?thesis by auto
    qed
  qed
  ultimately show ?thesis using t2(2) by simp
qed

lemma local_instant_skipped:
  assumes ok: "zone_ok d z" and dok: "date_ok z date" and no: "\<not> occurs z r"
  shows "\<exists>k. skipped_by z k r \<and> local_instant z date r = change_at z (Suc k)"
proof -
  obtain k where k: "skipped_by z k r" and g: "date r = r - offset_of z k \<or> date r = r - offset_of z (Suc k)"
    using dok no unfolding date_ok_def by metis
  let ?T = "change_at z (Suc k)" and ?g = "date r"
  have kl: "k < length (z_changes z)" and lo: "?T + offset_of z k \<le> r" and hi: "r < ?T + offset_of z (Suc k)"
    using k by (simp_all add: skipped_by_def)
  have near: "\<bar>offset_of z (Suc k) - offset_of z k\<bar> \<le> d" by (rule zone_okD(2) [OF ok kl])
  have d0: "0 \<le> d" by (rule zone_okD(1) [OF ok])
  have "local_instant z date r =
      (if wall_clock z ?g > r then (case zone_start z ?g of Some s \<Rightarrow> s | None \<Rightarrow> ?g)
       else (case zone_end z ?g of Some e \<Rightarrow> e | None \<Rightarrow> ?g))"
    using consider_none [OF no] by (auto simp: local_instant_def Let_def split: option.splits)
  moreover from g have "(if wall_clock z ?g > r then (case zone_start z ?g of Some s \<Rightarrow> s | None \<Rightarrow> ?g)
       else (case zone_end z ?g of Some e \<Rightarrow> e | None \<Rightarrow> ?g)) = ?T"
  proof
    assume "?g = r - offset_of z k"
    then have "?T \<le> ?g" "?g < ?T + d" using lo hi near by auto
    moreover have "period_at z ?g = Suc k"
    proof (rule period_atI [OF ok])
      show "?g < change_at z (Suc (Suc k))" if "Suc k < length (z_changes z)"
        using zone_okD(3) [OF ok, of "Suc k"] that \<open>?g < ?T + d\<close> d0 by simp
    qed (use kl \<open>?T \<le> ?g\<close> in auto)
    ultimately show ?thesis
      using lo hi \<open>?g = r - offset_of z k\<close>
      by (simp add: wall_clock_def zone_offset_def zone_start_def)
  next
    assume g: "?g = r - offset_of z (Suc k)"
    then have "?g < ?T" "?T - d \<le> ?g" using lo hi near by auto
    moreover have "period_at z ?g = k"
    proof (rule period_atI [OF ok])
      show "change_at z k \<le> ?g" if "1 \<le> k"
        using zone_okD(3) [OF ok that kl] \<open>?T - d \<le> ?g\<close> d0 by simp
    qed (use kl \<open>?g < ?T\<close> in auto)
    ultimately show ?thesis
      using lo hi g kl by (simp add: wall_clock_def zone_offset_def zone_end_def)
  qed
  ultimately show ?thesis using k by auto
qed

text \<open>
  C25. A local reading is placed at the first instant whose wall clock shows it; a reading
  that a zone change skips is placed at the change itself.
\<close>

theorem local_instant_correct:
  assumes "zone_ok d z" and "date_ok z date"
  shows "if occurs z r
    then wall_clock z (local_instant z date r) = r \<and>
      (\<forall>u. wall_clock z u = r \<longrightarrow> local_instant z date r \<le> u)
    else (\<exists>k. skipped_by z k r \<and> local_instant z date r = change_at z (Suc k))"
  using local_instant_occurs [OF assms] local_instant_skipped [OF assms] by simp

text \<open>An instant is never more than one shift before or after its place on the clock.\<close>

lemma local_instant_not_before:
  assumes ok: "zone_ok d z" and dok: "date_ok z date" and le: "local_instant z date r \<le> t"
  shows "r \<le> wall_clock z t + d"
proof -
  have mono: "wall_clock z u \<le> wall_clock z t + d" if "u \<le> t" for u
  proof -
    have "period_at z u \<le> period_at z t"
    proof (rule ccontr)
      assume "\<not> ?thesis"
      then have "change_at z (Suc (period_at z t)) \<le> u" "t < change_at z (Suc (period_at z t))"
        using period_le [of z u] by (auto intro!: period_started period_not_ended)
      with that show False by simp
    qed
    then consider "period_at z u = period_at z t" | "period_at z t = Suc (period_at z u)"
      | "period_at z u + 2 \<le> period_at z t" by linarith
    then show ?thesis
    proof cases
      case 1
      with that zone_okD(1) [OF ok] show ?thesis by (simp add: wall_clock_def zone_offset_def)
    next
      case 2
      with zone_okD(2) [OF ok, of "period_at z u"] period_le [of z t] that show ?thesis
        by (simp add: wall_clock_def zone_offset_def)
    next
      case 3
      from far_periods [OF ok this] zone_okD(1) [OF ok] show ?thesis by simp
    qed
  qed
  show ?thesis
  proof (cases "occurs z r")
    case True
    with local_instant_occurs [OF ok dok] mono [OF le] show ?thesis by simp
  next
    case False
    from local_instant_skipped [OF ok dok this] obtain k where
      k: "skipped_by z k r" "local_instant z date r = change_at z (Suc k)" by blast
    then have "r < wall_clock z (change_at z (Suc k))"
      using offset_at_change [OF ok, of "Suc k"] by (simp add: skipped_by_def wall_clock_def)
    with mono [OF le] k(2) show ?thesis by simp
  qed
qed

text \<open>Samples: a zone with a spring and an autumn change of one hour (in minutes here).\<close>

definition sample_zone :: zone where
  "sample_zone = \<lparr>z_first = 60, z_changes = [(1000, 120), (9000, 60)]\<rparr>"

definition sample_date :: "int \<Rightarrow> int" where
  "sample_date r = (if r < 1060 then r - 60 else if r < 1120 then r - 120
     else if r < 9120 then r - 120 else r - 60)"

lemma sample_zone_ok: "zone_ok 60 sample_zone"
  by (auto simp: zone_ok_def sample_zone_def offset_of_def change_at_def less_Suc_eq nth_Cons')

lemma sample_wall:
  "wall_clock sample_zone t = (if t < 1000 then t + 60 else if t < 9000 then t + 120 else t + 60)"
  by (simp add: wall_clock_def zone_offset_def offset_of_def period_at_def sample_zone_def)

lemma sample_occurs: "occurs sample_zone r \<longleftrightarrow> r < 1060 \<or> 1120 \<le> r"
proof
  assume "r < 1060 \<or> 1120 \<le> r"
  then have "wall_clock sample_zone (sample_date r) = r" by (auto simp: sample_wall sample_date_def)
  then show "occurs sample_zone r" by (auto simp: occurs_def)
qed (auto simp: occurs_def sample_wall split: if_splits)

lemma sample_date_ok: "date_ok sample_zone sample_date"
  unfolding date_ok_def sample_occurs
proof (intro allI)
  fix r :: int
  show "if r < 1060 \<or> 1120 \<le> r then wall_clock sample_zone (sample_date r) = r
    else (\<exists>k. skipped_by sample_zone k r \<and>
      (sample_date r = r - offset_of sample_zone k \<or> sample_date r = r - offset_of sample_zone (Suc k)))"
  proof (cases "r < 1060 \<or> 1120 \<le> r")
    case True
    then show ?thesis by (auto simp: sample_wall sample_date_def)
  next
    case False
    then have "skipped_by sample_zone 0 r" "sample_date r = r - offset_of sample_zone (Suc 0)"
      by (auto simp: sample_date_def skipped_by_def sample_zone_def change_at_def offset_of_def)
    with False show ?thesis by auto
  qed
qed

theorem local_instant_correct_witness:
  "wall_clock sample_zone (local_instant sample_zone sample_date 9070) = 9070 \<and>
   local_instant sample_zone sample_date 9070 \<le> 9010 \<and>
   (\<exists>k. skipped_by sample_zone k 1100 \<and>
      local_instant sample_zone sample_date 1100 = change_at sample_zone (Suc k))"
  using local_instant_correct [OF sample_zone_ok sample_date_ok, of 9070]
    local_instant_correct [OF sample_zone_ok sample_date_ok, of 1100]
  by (simp add: sample_occurs) (simp add: sample_wall)

end
