(* ===== verification/Calendar.thy ===== *)
theory Calendar
  imports LocalTime
begin

text \<open>
  Calendar months on the local clock: the parts of Go's \<open>time\<close> package that
  \<open>nextCalendarMonths\<close> (\<open>database/jobs.go\<close>) uses, and that function.  A date is read from
  and written to a reading in nanoseconds by the proleptic Gregorian calendar.
\<close>

section \<open>Dates\<close>

definition day_ns :: int where "day_ns = 86400000000000"

record civil =
  c_year :: int
  c_month :: int
  c_day :: int
  c_clock :: int

definition leap :: "int \<Rightarrow> bool" where
  "leap y \<longleftrightarrow> y mod 4 = 0 \<and> (y mod 100 \<noteq> 0 \<or> y mod 400 = 0)"

definition days_in_month :: "int \<Rightarrow> int \<Rightarrow> int" where
  "days_in_month y m =
     (if m = 2 then (if leap y then 29 else 28)
      else if m = 4 \<or> m = 6 \<or> m = 9 \<or> m = 11 then 30 else 31)"

text \<open>Days from 0001-01-01 to the first of January of a year, to the first of a month.\<close>

definition days_before_year :: "int \<Rightarrow> int" where
  "days_before_year y = (let p = y - 1 in 365 * p + p div 4 - p div 100 + p div 400)"

fun days_before_month :: "int \<Rightarrow> nat \<Rightarrow> int" where
  "days_before_month y 0 = 0"
| "days_before_month y (Suc n) = days_before_month y n + days_in_month y (int n + 1)"

definition epoch_day :: int where "epoch_day = 719162"

text \<open>\<open>time.Date\<close> in UTC: the month is normalised into the year, the day is added.\<close>

definition date_reading :: "int \<Rightarrow> int \<Rightarrow> int \<Rightarrow> int \<Rightarrow> int" where
  "date_reading y m d clock =
     (let y' = y + (m - 1) div 12; n = nat ((m - 1) mod 12) in
      (days_before_year y' + days_before_month y' n + (d - 1) - epoch_day) * day_ns + clock)"

definition year_of_day :: "int \<Rightarrow> int" where
  "year_of_day n = (let q = 400 * n div 146097 in if days_before_year (q + 2) \<le> n then q + 2 else q + 1)"

fun month_of_day :: "int \<Rightarrow> nat \<Rightarrow> nat \<Rightarrow> int \<Rightarrow> int \<times> int" where
  "month_of_day y n 0 r = (int n + 1, r + 1)"
| "month_of_day y n (Suc left) r =
     (if r < days_in_month y (int n + 1) then (int n + 1, r + 1)
      else month_of_day y (Suc n) left (r - days_in_month y (int n + 1)))"

definition civil_of :: "int \<Rightarrow> civil" where
  "civil_of reading =
     (let n = reading div day_ns + epoch_day; y = year_of_day n;
          md = month_of_day y 0 11 (n - days_before_year y) in
      \<lparr>c_year = y, c_month = fst md, c_day = snd md, c_clock = reading mod day_ns\<rparr>)"

section \<open>Month steps\<close>

definition next_calendar_months :: "zone \<Rightarrow> (int \<Rightarrow> int) \<Rightarrow> int \<Rightarrow> int \<Rightarrow> int" where
  "next_calendar_months z date from_time months =
     (let c = civil_of (wall_clock z from_time);
          next_month_start = date (date_reading (c_year c) (c_month c + months) 1 (c_clock c));
          s = civil_of (wall_clock z next_month_start);
          last_day = c_day (civil_of (wall_clock z (date (date_reading (c_year s) (c_month s + 1) 0 0))));
          day = (if c_day c > last_day then last_day else c_day c) in
      date (date_reading (c_year s) (c_month s) day (c_clock c)))"

definition utc :: zone where "utc = \<lparr>z_first = 0, z_changes = []\<rparr>"

lemma wall_clock_utc [simp]: "wall_clock utc t = t"
  by (simp add: wall_clock_def zone_offset_def offset_of_def period_at_def utc_def)

lemma utc_ok: "0 \<le> d \<Longrightarrow> zone_ok d utc" "date_ok utc id"
  by (auto simp: zone_ok_def utc_def date_ok_def occurs_def
      wall_clock_utc [unfolded utc_def])

section \<open>The calendar round trip\<close>

lemma div_succ:
  fixes p k :: int
  assumes "0 < k"
  shows "(p + 1) div k = p div k + (if (p + 1) mod k = 0 then 1 else 0)"
proof -
  have r: "0 \<le> p mod k" "p mod k < k" and p: "k * (p div k) + p mod k = p" using assms by simp_all
  show ?thesis
  proof (cases "p mod k = k - 1")
    case True
    with p have "p + 1 = k * (p div k + 1)" by (simp add: algebra_simps)
    with assms show ?thesis by simp
  next
    case False
    with p have "(p + 1) div k = p div k" "(p + 1) mod k = p mod k + 1"
      using r by (intro int_div_pos_eq [of _ _ _ "p mod k + 1"] int_mod_pos_eq [of _ _ "p div k"]; simp)+
    with r show ?thesis by simp
  qed
qed

lemma div_pred:
  fixes y k :: int
  shows "0 < k \<Longrightarrow> y div k = (y - 1) div k + (if y mod k = 0 then 1 else 0)"
  using div_succ [of k "y - 1"] by (simp only: diff_add_cancel)

lemma year_sum:
  fixes y :: int
  shows "e = 365 * y + a' - b' + c' \<Longrightarrow> d = 365 * (y - 1) + a - b + c \<Longrightarrow>
   a' = a + p \<Longrightarrow> b' = b + q \<Longrightarrow> c' = c + r \<Longrightarrow> e = d + 365 + p - q + r"
  by simp

lemma leap_sum:
  "e = d + 365 + (if a then 1 else 0) - (if b then 1 else 0) + (if c then 1 else 0) \<Longrightarrow>
   (b \<Longrightarrow> a) \<Longrightarrow> (c \<Longrightarrow> b) \<Longrightarrow> e = d + (if a \<and> (\<not> b \<or> c) then 366 else (365 :: int))"
  by (cases a; cases b; cases c) simp_all

lemma year_step: "days_before_year (y + 1) = days_before_year y + (if leap y then 366 else 365)"
proof -
  have "y mod 4 = 0" if "y mod 100 = 0" using that mod_mod_cancel [of 4 100 y] by simp
  moreover have "y mod 100 = 0" if "y mod 400 = 0" using that mod_mod_cancel [of 100 400 y] by simp
  moreover have "days_before_year (y + 1) = days_before_year y + 365 +
    (if y mod 4 = 0 then 1 else 0) - (if y mod 100 = 0 then 1 else 0) + (if y mod 400 = 0 then 1 else 0)"
  proof (rule year_sum)
    show "days_before_year (y + 1) = 365 * y + y div 4 - y div 100 + y div 400"
      "days_before_year y = 365 * (y - 1) + (y - 1) div 4 - (y - 1) div 100 + (y - 1) div 400"
      by (simp_all add: days_before_year_def Let_def)
    show "y div 4 = (y - 1) div 4 + (if y mod 4 = 0 then 1 else 0)"
      "y div 100 = (y - 1) div 100 + (if y mod 100 = 0 then 1 else 0)"
      "y div 400 = (y - 1) div 400 + (if y mod 400 = 0 then 1 else 0)"
      by (rule div_pred, simp)+
  qed
  ultimately show ?thesis unfolding leap_def by (rule leap_sum [rotated])
qed

lemma year_mono: "y \<le> y' \<Longrightarrow> days_before_year y \<le> days_before_year y'"
proof (induction y' rule: int_ge_induct)
  case (step y')
  with year_step [of y'] show ?case by (simp split: if_splits)
qed simp

lemma year_start_before: "400 * (365 * y + a - b + c) \<le> 400 * n + 399"
  if "y = q" "4 * a \<le> q" "q < 100 * b + 100" "400 * c \<le> q" "146097 * q \<le> 400 * n" for y a b c q n :: int
proof -
  have "400 * (365 * y + a - b + c) = 146000 * q + 100 * (4 * a) - 4 * (100 * b) + 400 * c" using that(1) by simp
  moreover have "100 * (4 * a) \<le> 100 * q" using that(2) by simp
  moreover have "4 * (100 * b) \<ge> 4 * (q - 99)" using that(3) by simp
  ultimately show ?thesis using that(4,5) by simp
qed
lemma year_start_after: "400 * n < 400 * (365 * y + a - b + c)"
  if "y = q + 2" "q + 2 < 4 * a + 4" "100 * b \<le> q + 2" "q + 2 < 400 * c + 400" "400 * n < 146097 * (q + 1)" for y a b c q n :: int
proof -
  have "400 * (365 * y + a - b + c) = 146000 * (q + 2) + 100 * (4 * a) - 4 * (100 * b) + 400 * c" using that(1) by simp
  moreover have "100 * (4 * a) \<ge> 100 * (q - 1)" using that(2) by simp
  moreover have "4 * (100 * b) \<le> 4 * (q + 2)" using that(3) by simp
  ultimately show ?thesis using that(4,5) by simp
qed

lemma year_estimate:
  "days_before_year (400 * n div 146097 + 1) \<le> n" "n < days_before_year (400 * n div 146097 + 3)"
proof -
  define q where "q = 400 * n div 146097"
  have n: "146097 * q \<le> 400 * n" "400 * n < 146097 * (q + 1)"
  proof -
    define m where "m = 400 * n mod 146097"
    have "q * 146097 + m = 400 * n" unfolding q_def m_def by (rule div_mult_mod_eq)
    moreover have "0 \<le> m" "m < 146097" by (simp_all add: m_def)
    ultimately show "146097 * q \<le> 400 * n" "400 * n < 146097 * (q + 1)" by simp_all
  qed
  have div: "k * (p div k) \<le> p" "p < k * (p div k) + k" if "0 < k" for p k :: int
    using mult_div_mod_eq [of k p] pos_mod_bound [OF that, of p] pos_mod_sign [OF that, of p]
    by linarith+
  have "400 * days_before_year (q + 1) \<le> 400 * n + 399"
    unfolding days_before_year_def Let_def add_diff_cancel_right'
    by (rule year_start_before) (use div [of 4 q] div [of 100 q] div [of 400 q] n in simp_all)
  then show "days_before_year (400 * n div 146097 + 1) \<le> n" unfolding q_def by linarith
  have three: "q + 3 - 1 = q + 2" by simp
  have "400 * n < 400 * days_before_year (q + 3)"
    unfolding days_before_year_def Let_def three
    by (rule year_start_after) (use div [of 4 "q + 2"] div [of 100 "q + 2"] div [of 400 "q + 2"] n in simp_all)
  then show "n < days_before_year (400 * n div 146097 + 3)" unfolding q_def by linarith
qed

lemma year_of_day_bounds:
  "days_before_year (year_of_day n) \<le> n" "n < days_before_year (year_of_day n + 1)"
proof -
  define q where "q = 400 * n div 146097"
  have est: "days_before_year (q + 1) \<le> n" "n < days_before_year (q + 3)"
    using year_estimate [of n] by (simp_all add: q_def)
  have y: "year_of_day n = (if days_before_year (q + 2) \<le> n then q + 2 else q + 1)"
    by (simp add: year_of_day_def Let_def q_def)
  show "days_before_year (year_of_day n) \<le> n" using est(1) by (simp add: y)
  show "n < days_before_year (year_of_day n + 1)"
  proof (cases "days_before_year (q + 2) \<le> n")
    case True
    with est(2) show ?thesis by (simp add: y add.commute)
  next
    case False
    then show ?thesis by (simp add: y not_le add.commute)
  qed
qed

lemma year_of_dayI:
  assumes "days_before_year y \<le> n" "n < days_before_year (y + 1)"
  shows "year_of_day n = y"
proof (rule ccontr)
  let ?y = "year_of_day n"
  assume "?y \<noteq> y"
  then consider "?y + 1 \<le> y" | "y + 1 \<le> ?y" by linarith
  then show False
  proof cases
    case 1
    from year_mono [OF this] year_of_day_bounds(2) [of n] assms(1) show False by linarith
  next
    case 2
    from year_mono [OF this] year_of_day_bounds(1) [of n] assms(2) show False by linarith
  qed
qed

lemma days_in_month_bounds: "28 \<le> days_in_month y m" "days_in_month y m \<le> 31"
  by (simp_all add: days_in_month_def)

lemma month_mono: "n \<le> m \<Longrightarrow> days_before_month y n \<le> days_before_month y m"
proof (induction m rule: dec_induct)
  case (step m)
  with days_in_month_bounds(1) [of y "int m + 1"] show ?case by simp
qed simp

lemma month_of_day_found:
  assumes "n \<le> m" "m \<le> n + left" "0 \<le> d" "d < days_in_month y (int m + 1)"
  shows "month_of_day y n left (days_before_month y m - days_before_month y n + d) = (int m + 1, d + 1)"
  using assms
proof (induction left arbitrary: n)
  case (Suc left)
  show ?case
  proof (cases "n = m")
    case True
    with Suc.prems show ?thesis by simp
  next
    case False
    have mono: "days_before_month y (Suc n) \<le> days_before_month y m"
      using False Suc.prems(1) by (intro month_mono) simp
    with False Suc.prems Suc.IH [of "Suc n"] show ?thesis by (simp add: algebra_simps)
  qed
qed simp

lemma year_length: "days_before_month y 12 = (if leap y then 366 else 365)"
  by (simp add: eval_nat_numeral days_in_month_def)

lemma civil_of_date:
  assumes "0 \<le> m" "m < 12" "1 \<le> d" "d \<le> days_in_month y (m + 1)" "0 \<le> clock" "clock < day_ns"
  shows "civil_of (date_reading y (m + 1) d clock) = \<lparr>c_year = y, c_month = m + 1, c_day = d, c_clock = clock\<rparr>"
proof -
  define n where "n = nat m"
  have n: "int n = m" "n < 12" using assms(1,2) by (auto simp: n_def)
  let ?doy = "days_before_month y n + (d - 1)"
  let ?N = "days_before_year y + ?doy"
  have r: "date_reading y (m + 1) d clock = (?N - epoch_day) * day_ns + clock"
    using assms(1,2) by (simp add: date_reading_def Let_def n_def)
  have dn: "(0::int) < day_ns" by (simp add: day_ns_def)
  have "((?N - epoch_day) * day_ns + clock) div day_ns = ?N - epoch_day"
    "((?N - epoch_day) * day_ns + clock) mod day_ns = clock"
    using assms(5,6) by (intro int_div_pos_eq [of _ _ _ clock] int_mod_pos_eq [of _ _ "?N - epoch_day"];
        simp)+
  moreover have "0 \<le> days_before_month y n"
    using month_mono [of 0 n y] by simp
  moreover have "days_before_month y (Suc n) \<le> days_before_month y 12"
    using n(2) by (intro month_mono) simp
  ultimately have "year_of_day ?N = y"
    using assms(3,4) n year_step [of y] year_length [of y] by (intro year_of_dayI) auto
  moreover have "month_of_day y 0 11 ?doy = (m + 1, d)"
    using month_of_day_found [of 0 n 11 "d - 1" y] assms(3,4) n by simp
  ultimately show ?thesis
    using \<open>((?N - epoch_day) * day_ns + clock) div day_ns = ?N - epoch_day\<close>
      \<open>((?N - epoch_day) * day_ns + clock) mod day_ns = clock\<close>
    by (simp add: civil_of_def r Let_def add.assoc)
qed

lemma month_of_day_range:
  assumes "0 \<le> r" "r < days_before_month y (n + left + 1) - days_before_month y n"
  shows "\<exists>m d. month_of_day y n left r = (int m + 1, d + 1) \<and> n \<le> m \<and> m \<le> n + left \<and>
    0 \<le> d \<and> d < days_in_month y (int m + 1) \<and> days_before_month y n + r = days_before_month y m + d"
  using assms
proof (induction left arbitrary: n r)
  case 0
  then show ?case by (intro exI [of _ n] exI [of _ r]) simp
next
  case (Suc left)
  show ?case
  proof (cases "r < days_in_month y (int n + 1)")
    case True
    with Suc.prems show ?thesis by (intro exI [of _ n] exI [of _ r]) simp
  next
    case False
    with Suc.prems Suc.IH [of "r - days_in_month y (int n + 1)" "Suc n"]
    obtain m d where "month_of_day y (Suc n) left (r - days_in_month y (int n + 1)) = (int m + 1, d + 1)"
      "Suc n \<le> m" "m \<le> Suc n + left" "0 \<le> d" "d < days_in_month y (int m + 1)"
      "days_before_month y (Suc n) + (r - days_in_month y (int n + 1)) = days_before_month y m + d"
      by auto
    with False show ?thesis by (intro exI [of _ m] exI [of _ d]) simp
  qed
qed

lemma day_ns_pos: "0 < day_ns"
  by (simp add: day_ns_def)

lemma civil_range:
  obtains m d where "civil_of r = \<lparr>c_year = year_of_day (r div day_ns + epoch_day), c_month = int m + 1,
      c_day = d + 1, c_clock = r mod day_ns\<rparr>"
    "m < 12" "0 \<le> d" "d < days_in_month (year_of_day (r div day_ns + epoch_day)) (int m + 1)"
    "r = date_reading (year_of_day (r div day_ns + epoch_day)) (int m + 1) (d + 1) (r mod day_ns)"
proof -
  let ?n = "r div day_ns + epoch_day"
  let ?y = "year_of_day ?n"
  have "?n - days_before_year ?y < days_before_month ?y 12"
    using year_of_day_bounds(2) [of ?n] year_step [of ?y] year_length [of ?y] by simp
  with month_of_day_range [of "?n - days_before_year ?y" ?y 0 11] year_of_day_bounds(1) [of ?n]
  obtain m d where md: "month_of_day ?y 0 11 (?n - days_before_year ?y) = (int m + 1, d + 1)" "m \<le> 11"
    "0 \<le> d" "d < days_in_month ?y (int m + 1)" "?n - days_before_year ?y = days_before_month ?y m + d"
    by auto
  from md(5) have n: "days_before_year ?y + days_before_month ?y m + d - epoch_day = r div day_ns" by simp
  have "date_reading ?y (int m + 1) (d + 1) (r mod day_ns) =
      (days_before_year ?y + days_before_month ?y m + d - epoch_day) * day_ns + r mod day_ns"
    using md(2) by (simp add: date_reading_def Let_def)
  also have "\<dots> = r" unfolding n by simp
  finally have "date_reading ?y (int m + 1) (d + 1) (r mod day_ns) = r" .
  with md that [of m d] show thesis by (simp add: civil_of_def Let_def)
qed

text \<open>Moving a whole month on, or a day back from the first, by the calendar.\<close>

lemma date_reading_normal:
  "date_reading y m d clock = date_reading (y + (m - 1) div 12) ((m - 1) mod 12 + 1) d clock"
  by (simp add: date_reading_def Let_def)

lemma date_reading_month:
  assumes "m < 12"
  shows "date_reading y (int m + 2) d clock = date_reading y (int m + 1) (d + days_in_month y (int m + 1)) clock"
proof (cases "m = 11")
  case True
  then show ?thesis
    using year_step [of y] year_length [of y]
    by (simp add: date_reading_def Let_def eval_nat_numeral)
next
  case False
  with assms have "nat ((int m + 2 - 1) mod 12) = Suc m" "(int m + 2 - 1) div 12 = 0" by auto
  with assms show ?thesis by (simp add: date_reading_def Let_def)
qed

definition month_start :: "int \<Rightarrow> int" where
  "month_start k = date_reading (k div 12) (k mod 12 + 1) 1 0"

lemma month_start_step: "month_start (k + 1) = month_start k + days_in_month (k div 12) (k mod 12 + 1) * day_ns"
proof -
  define m where "m = nat (k mod 12)"
  have m: "m < 12" "k mod 12 = int m" by (simp_all add: m_def nat_less_iff)
  have "month_start (k + 1) = date_reading 0 (k + 2) 1 0"
    unfolding month_start_def by (subst (2) date_reading_normal) (simp add: add.commute)
  also have "\<dots> = date_reading (k div 12) (int m + 2) 1 0"
  proof (subst (1 2) date_reading_normal)
    have "k = 12 * (k div 12) + int m" unfolding m(2) [symmetric] by (rule mult_div_mod_eq [symmetric])
    then have k: "k + 1 = 12 * (k div 12) + (int m + 1)" by linarith
    have "(12 * (k div 12) + (int m + 1)) div 12 = k div 12 + (int m + 1) div 12"
      "(12 * (k div 12) + (int m + 1)) mod 12 = (int m + 1) mod 12"
      by (rule div_mult_self4, simp, rule mod_mult_self4)
    then have "(k + 1) div 12 = k div 12 + (int m + 1) div 12" "(k + 1) mod 12 = (int m + 1) mod 12"
      unfolding k [symmetric] .
    then show "date_reading (0 + (k + 2 - 1) div 12) ((k + 2 - 1) mod 12 + 1) 1 0 =
      date_reading (k div 12 + (int m + 2 - 1) div 12) ((int m + 2 - 1) mod 12 + 1) 1 0"
      by (simp add: add.commute)
  qed
  also have "\<dots> = date_reading (k div 12) (int m + 1) (1 + days_in_month (k div 12) (int m + 1)) 0"
    by (rule date_reading_month [OF m(1)])
  also have "\<dots> = month_start k + days_in_month (k div 12) (k mod 12 + 1) * day_ns"
    by (simp add: month_start_def date_reading_def Let_def m algebra_simps)
  finally show ?thesis .
qed

lemma month_start_bounds:
  "28 * int n * day_ns \<le> month_start (k + int n) - month_start k"
  "month_start (k + int n) - month_start k \<le> 31 * int n * day_ns"
proof (induction n)
  case (Suc n)
  have "month_start (k + int (Suc n)) = month_start (k + int n) +
      days_in_month ((k + int n) div 12) ((k + int n) mod 12 + 1) * day_ns"
    using month_start_step [of "k + int n"] by (simp add: algebra_simps)
  moreover define x where "x = days_in_month ((k + int n) div 12) ((k + int n) mod 12 + 1) * day_ns"
  moreover have "28 * day_ns \<le> x" "x \<le> 31 * day_ns"
    using days_in_month_bounds day_ns_pos by (simp_all add: x_def mult_right_mono)
  ultimately show "28 * int (Suc n) * day_ns \<le> month_start (k + int (Suc n)) - month_start k"
    "month_start (k + int (Suc n)) - month_start k \<le> 31 * int (Suc n) * day_ns"
    using Suc.IH by (simp_all only: of_nat_Suc distrib_left distrib_right)
qed simp_all

lemma next_months_utc:
  assumes "civil_of r = c" and "civil_of (date_reading (c_year c) (c_month c + k) 1 (c_clock c)) = s"
    and "c_day (civil_of (date_reading (c_year s) (c_month s + 1) 0 0)) = last_day"
  shows "next_calendar_months utc id r k =
    date_reading (c_year s) (c_month s) (min (c_day c) last_day) (c_clock c)"
  using assms by (auto simp: next_calendar_months_def Let_def min_def)

text \<open>
  On a clock without zone changes, a step of \<open>k\<close> months keeps the time of day and
  lands in the \<open>k\<close>-th following month, on the same day or on that month's last day; it is
  always later, and never by more than 31 days a month.
\<close>

theorem calendar_month_step:
  assumes "1 \<le> k"
  shows "let c = civil_of r; t = c_month c - 1 + k; y = c_year c + t div 12; m = t mod 12 + 1;
             n = next_calendar_months utc id r k in
    civil_of n = \<lparr>c_year = y, c_month = m, c_day = min (c_day c) (days_in_month y m),
                    c_clock = c_clock c\<rparr> \<and>
    r < n \<and> n \<le> r + 31 * k * day_ns"
proof -
  define Y where "Y = year_of_day (r div day_ns + epoch_day)"
  define clock where "clock = r mod day_ns"
  obtain M D where c: "civil_of r = \<lparr>c_year = Y, c_month = int M + 1, c_day = D + 1, c_clock = clock\<rparr>"
    and M: "M < 12" and D: "0 \<le> D" "D < days_in_month Y (int M + 1)"
    and r: "r = date_reading Y (int M + 1) (D + 1) clock"
    unfolding Y_def clock_def by (rule civil_range)
  have clock: "0 \<le> clock" "clock < day_ns" using day_ns_pos by (simp_all add: clock_def)
  define t where "t = int M + k"
  define y where "y = Y + t div 12"
  define m where "m = t mod 12"
  have m: "0 \<le> m" "m < 12" by (simp_all add: m_def)
  have start: "date_reading Y (int M + 1 + k) 1 clock = date_reading y (m + 1) 1 clock"
    by (subst date_reading_normal) (simp add: y_def m_def t_def)
  have s: "civil_of (date_reading y (m + 1) 1 clock) = \<lparr>c_year = y, c_month = m + 1, c_day = 1, c_clock = clock\<rparr>"
    using m clock days_in_month_bounds(1) [of y "m + 1"] by (intro civil_of_date) auto
  have "date_reading y (m + 2) 0 0 = date_reading y (m + 1) (days_in_month y (m + 1)) 0"
    using date_reading_month [of "nat m" y 0 0] m by (simp add: add.commute)
  then have last: "c_day (civil_of (date_reading y (m + 2) 0 0)) = days_in_month y (m + 1)"
    using m days_in_month_bounds(1) [of y "m + 1"] by (simp add: civil_of_date day_ns_pos)
  define day where "day = min (D + 1) (days_in_month y (m + 1))"
  have n: "next_calendar_months utc id r k = date_reading y (m + 1) day clock"
  proof -
    have "civil_of (date_reading (c_year (civil_of r)) (c_month (civil_of r) + k) 1 (c_clock (civil_of r))) =
        \<lparr>c_year = y, c_month = m + 1, c_day = 1, c_clock = clock\<rparr>"
      using start s by (simp add: c)
    from next_months_utc [OF refl this, of "days_in_month y (m + 1)"] last show ?thesis
      by (simp add: c day_def add.commute)
  qed
  have day: "1 \<le> day" "day \<le> days_in_month y (m + 1)"
    using D(1) days_in_month_bounds(1) [of y "m + 1"] by (auto simp: day_def)
  have civil: "civil_of (next_calendar_months utc id r k) =
      \<lparr>c_year = y, c_month = m + 1, c_day = day, c_clock = clock\<rparr>"
    unfolding n by (rule civil_of_date) (use m day clock in auto)
  have shape: "date_reading a (b + 1) d clock = month_start (12 * a + b) + (d - 1) * day_ns + clock"
    if "0 \<le> b" "b < 12" for a b d
    using that by (simp add: month_start_def date_reading_def Let_def algebra_simps)
  have total: "12 * y + m = 12 * Y + int M + k"
    using mult_div_mod_eq [of 12 t] by (simp add: y_def m_def t_def)
  have diff: "next_calendar_months utc id r k - r =
      (month_start (12 * Y + int M + k) - month_start (12 * Y + int M)) + (day - (D + 1)) * day_ns"
    unfolding n using r shape [of m y day] shape [of "int M" Y "D + 1"] m M total
    by (simp add: algebra_simps)
  have nn: "int (nat k) = k" using assms by simp
  note b = month_start_bounds [where n = "nat k" and k = "12 * Y + int M", unfolded nn]
  have "day - (D + 1) \<le> 0" "- 27 \<le> day - (D + 1)"
    using D days_in_month_bounds [of y "m + 1"] days_in_month_bounds [of Y "int M + 1"]
    by (auto simp: day_def)
  then have e: "(day - (D + 1)) * day_ns \<le> 0" "- 27 * day_ns \<le> (day - (D + 1)) * day_ns"
    using day_ns_pos mult_right_mono [of "- 27" "day - (D + 1)" day_ns]
    by (simp_all add: mult_le_0_iff)
  have "28 * day_ns \<le> 28 * k * day_ns" using assms day_ns_pos by simp
  with b e diff day_ns_pos have "r < next_calendar_months utc id r k"
    "next_calendar_months utc id r k \<le> r + 31 * k * day_ns" by linarith+
  with civil c show ?thesis by (simp add: Let_def y_def m_def t_def day_def)
qed

theorem calendar_month_step_witness:
  "let n = next_calendar_months utc id (date_reading 2024 1 31 0) 1 in
   date_reading 2024 1 31 0 < n \<and> n \<le> date_reading 2024 1 31 0 + 31 * 1 * day_ns"
  using calendar_month_step [of 1 "date_reading 2024 1 31 0"] by (simp add: Let_def)

section \<open>Months in a zone with changes\<close>

text \<open>
  \<open>NextRunFrom\<close> takes month steps in the finish time's own location.  A zone whose clocks
  go forward at midnight on the first of a month skips the first of that month; \<open>time.Date\<close>
  may answer with the last hour of the month before, and the step then counts from that
  month.  The sample is a zone four hours west of Greenwich that moves to three hours on
  2017-10-01, with the instants the Go implementation of \<open>time.Date\<close> answers.
\<close>

definition hour_ns :: int where "hour_ns = 3600000000000"

definition spring_change :: int where
  "spring_change = date_reading 2017 10 1 0 + 4 * hour_ns"

definition midnight_zone :: zone where
  "midnight_zone = \<lparr>z_first = - 4 * hour_ns, z_changes = [(spring_change, - 3 * hour_ns)]\<rparr>"

definition midnight_date :: "int \<Rightarrow> int" where
  "midnight_date r = (if r < spring_change - 4 * hour_ns then r + 4 * hour_ns else r + 3 * hour_ns)"

lemma hour_ns_pos: "0 < hour_ns"
  by (simp add: hour_ns_def)

lemma midnight_zone_ok: "zone_ok hour_ns midnight_zone"
  using hour_ns_pos by (auto simp: zone_ok_def midnight_zone_def offset_of_def change_at_def)

lemma midnight_wall:
  "wall_clock midnight_zone t = (if t < spring_change then t - 4 * hour_ns else t - 3 * hour_ns)"
  by (simp add: wall_clock_def zone_offset_def offset_of_def period_at_def midnight_zone_def)

lemma midnight_occurs:
  "occurs midnight_zone r \<longleftrightarrow> r < spring_change - 4 * hour_ns \<or> spring_change - 3 * hour_ns \<le> r"
proof
  assume "r < spring_change - 4 * hour_ns \<or> spring_change - 3 * hour_ns \<le> r"
  then have "wall_clock midnight_zone (midnight_date r) = r"
    using hour_ns_pos by (auto simp: midnight_wall midnight_date_def)
  then show "occurs midnight_zone r" by (auto simp: occurs_def)
qed (use hour_ns_pos in \<open>auto simp: occurs_def midnight_wall split: if_splits\<close>)

lemma midnight_date_ok: "date_ok midnight_zone midnight_date"
  unfolding date_ok_def
proof (intro allI)
  fix r
  show "if occurs midnight_zone r then wall_clock midnight_zone (midnight_date r) = r
    else (\<exists>k. skipped_by midnight_zone k r \<and> (midnight_date r = r - offset_of midnight_zone k \<or>
       midnight_date r = r - offset_of midnight_zone (Suc k)))"
  proof (cases "occurs midnight_zone r")
    case True
    then show ?thesis
      unfolding midnight_occurs using hour_ns_pos by (auto simp: midnight_wall midnight_date_def)
  next
    case False
    then have "spring_change - 4 * hour_ns \<le> r" "r < spring_change - 3 * hour_ns"
      by (simp_all add: midnight_occurs)
    then have "skipped_by midnight_zone 0 r" "midnight_date r = r - offset_of midnight_zone (Suc 0)"
      by (simp_all add: midnight_date_def skipped_by_def midnight_zone_def change_at_def offset_of_def)
    with False show ?thesis by auto
  qed
qed

definition stalled_from :: int where
  "stalled_from = date_reading 2017 9 1 (hour_ns div 2) + 4 * hour_ns"

text \<open>
  In such a zone a monthly step from the first of September, at half past midnight,
  gives the same instant back: the next run is never in the future.
\<close>

theorem month_step_can_stall:
  "\<exists>z date shift t. zone_ok shift z \<and> date_ok z date \<and> next_calendar_months z date t 1 = t"
proof (intro exI conjI)
  show "zone_ok hour_ns midnight_zone" by (rule midnight_zone_ok)
  show "date_ok midnight_zone midnight_date" by (rule midnight_date_ok)
  show "next_calendar_months midnight_zone midnight_date stalled_from 1 = stalled_from"
    by code_simp
qed

end
