(* ===== verification/Schedules.thy ===== *)
theory Schedules
  imports Calendar GoErrors
begin

text \<open>
  Schedule texts and the next run they give (\<open>schedulevalue/schedule.go\<close> and the schedule
  functions of \<open>database/jobs.go\<close>).  The cron parser is third-party code: it is an argument
  that gives, for a five-field expression, the search for the next matching reading and
  whether it finds one now.
\<close>

section \<open>Schedule texts\<close>

definition minute_ns :: int where "minute_ns = 60000000000"

definition max_custom_minutes :: nat where
  "max_custom_minutes = max_int64 div 60000000000"

definition max_custom_months :: nat where
  "max_custom_months = max_custom_minutes div (31 * 24 * 60)"

definition max_cron_expression_length :: nat where
  "max_cron_expression_length = 256"

definition cron_prefix :: string where
  "cron_prefix = ''cron:''"

definition custom_minutes :: "string \<Rightarrow> nat option" where
  "custom_minutes value =
     (if \<not> has_prefix value ''every:'' then None
      else let digits = trim_prefix value ''every:'' in
        if digits = [] then None
        else if \<not> all_digits digits then None
        else if digits_value digits > max_int64 \<or> digits_value digits = 0 \<or>
                digits_value digits > max_custom_minutes then None
        else Some (digits_value digits))"

definition custom_months :: "string \<Rightarrow> nat option" where
  "custom_months value =
     (if \<not> has_prefix value ''every-months:'' then None
      else let digits = trim_prefix value ''every-months:'' in
        if digits = [] then None
        else if \<not> all_digits digits then None
        else if digits_value digits > max_int64 \<or> digits_value digits = 0 \<or>
                digits_value digits > max_custom_months then None
        else Some (digits_value digits))"

definition fixed_schedules :: "string list" where
  "fixed_schedules = [[], ''manual'', ''hourly'', ''daily'', ''weekly'', ''monthly'']"

definition valid_schedule :: "string \<Rightarrow> bool" where
  "valid_schedule value \<longleftrightarrow> value \<in> set fixed_schedules \<or> custom_minutes value \<noteq> None"

record cron_schedule =
  cs_next :: "int \<Rightarrow> int option"
  cs_fires :: bool

type_synonym cron_parser = "string \<Rightarrow> cron_schedule option"

definition normalize_job :: "cron_parser \<Rightarrow> string \<Rightarrow> string option" where
  "normalize_job parse value =
     (if valid_schedule value then Some value
      else if custom_months value \<noteq> None then Some value
      else if \<not> has_prefix value cron_prefix then None
      else
        let raw = trim_prefix value cron_prefix in
        if length raw > max_cron_expression_length then None
        else
          let expression = trim_space raw in
          if expression = [] then None
          else
            let fs = split_fields expression in
            if length fs \<noteq> 5 then None
            else
              let joined = join_with '' '' fs in
              (case parse joined of
                 None \<Rightarrow> None
               | Some c \<Rightarrow> if \<not> cs_fires c then None else Some (cron_prefix @ joined)))"

definition valid_job_schedule :: "cron_parser \<Rightarrow> string \<Rightarrow> bool" where
  "valid_job_schedule parse value \<longleftrightarrow> normalize_job parse value \<noteq> None"

definition cron_expression :: "cron_parser \<Rightarrow> string \<Rightarrow> string option" where
  "cron_expression parse value =
     (case normalize_job parse value of
        Some normalized \<Rightarrow>
          if has_prefix normalized cron_prefix then Some (trim_prefix normalized cron_prefix) else None
      | None \<Rightarrow> None)"

section \<open>The cron search\<close>

text \<open>
  The loop of \<open>nextCronIn\<close>.  \<^const>\<open>None\<close> is not returning at all; \<open>Some None\<close> is Go's zero
  time, a schedule that never fires again.
\<close>

partial_function (option) cron_loop ::
    "(int \<Rightarrow> int option) \<Rightarrow> zone \<Rightarrow> (int \<Rightarrow> int) \<Rightarrow> int \<Rightarrow> int \<Rightarrow> int option option" where
  "cron_loop search z date from_time reading =
     (case search reading of
        None \<Rightarrow> Some None
      | Some r \<Rightarrow>
          if from_time < local_instant z date r then Some (Some (local_instant z date r))
          else cron_loop search z date from_time r)"

definition next_cron_in ::
    "cron_parser \<Rightarrow> string \<Rightarrow> int \<Rightarrow> zone \<Rightarrow> (int \<Rightarrow> int) \<Rightarrow> int option option" where
  "next_cron_in parse value from_time z date =
     (case cron_expression parse value of
        None \<Rightarrow> Some None
      | Some expression \<Rightarrow>
          (case parse expression of
             None \<Rightarrow> Some None
           | Some c \<Rightarrow> cron_loop (cs_next c) z date from_time (wall_clock z from_time)))"

lemma cron_expression_star:
  "parse ''* * * * *'' = Some c \<Longrightarrow> cs_fires c \<Longrightarrow>
    cron_expression parse ''cron:* * * * *'' = Some ''* * * * *''"
proof -
  assume p: "parse ''* * * * *'' = Some c" "cs_fires c"
  have stars: "f \<noteq> [] \<and> spaceless f" if "f \<in> set (replicate 5 ''*'')" for f
    using that by (simp add: spaceless_def leading_space_visible)
  have trim: "trim_space ''* * * * *'' = ''* * * * *''" by (rule trim_space_plain) simp_all
  have join: "join_with '' '' (replicate 5 ''*'') = ''* * * * *''" by (simp add: eval_nat_numeral)
  have split: "split_fields ''* * * * *'' = replicate 5 ''*''"
    using split_fields_join [of "replicate 5 ''*''", OF stars] by (simp only: join)
  have e: "\<not> valid_schedule ''cron:* * * * *''" "custom_months ''cron:* * * * *'' = None"
    by (simp_all add: valid_schedule_def fixed_schedules_def custom_minutes_def custom_months_def has_prefix_def)
  from p show ?thesis
    by (simp add: cron_expression_def normalize_job_def e trim split join
        max_cron_expression_length_def Let_def trim_prefix_def has_prefix_def cron_prefix_def)
qed

section \<open>The next run\<close>

text \<open>
  \<open>NextRunFrom\<close> and \<open>nextJobRunFrom\<close>, before the result is formatted: \<^const>\<open>None\<close> for no
  next run.  \<open>z\<close> and \<open>date\<close> are the finish time's location, \<open>lz\<close> and \<open>ldate\<close> the local one.
\<close>

definition next_run_from ::
    "cron_parser \<Rightarrow> zone \<Rightarrow> (int \<Rightarrow> int) \<Rightarrow> zone \<Rightarrow> (int \<Rightarrow> int) \<Rightarrow> string \<Rightarrow> int \<Rightarrow> int option option" where
  "next_run_from parse z date lz ldate schedule from_time =
     (if schedule = ''manual'' \<or> schedule = [] then Some None
      else if schedule = ''hourly'' then Some (Some (from_time + 60 * minute_ns))
      else if schedule = ''daily'' then Some (Some (from_time + day_ns))
      else if schedule = ''weekly'' then Some (Some (from_time + 7 * day_ns))
      else if schedule = ''monthly'' then Some (Some (next_calendar_months z date from_time 1))
      else case custom_minutes schedule of
        Some m \<Rightarrow> Some (Some (from_time + int m * minute_ns))
      | None \<Rightarrow>
          (case custom_months schedule of
             Some m \<Rightarrow> Some (Some (next_calendar_months z date from_time (int m)))
           | None \<Rightarrow> next_cron_in parse schedule from_time lz ldate))"

definition next_job_run_from ::
    "cron_parser \<Rightarrow> zone \<Rightarrow> (int \<Rightarrow> int) \<Rightarrow> zone \<Rightarrow> (int \<Rightarrow> int) \<Rightarrow> string \<Rightarrow> int \<Rightarrow> int option option" where
  "next_job_run_from parse z date lz ldate schedule from_time =
     (let days = (\<lambda>n reading. reading + n * day_ns);
          months = (\<lambda>n reading. next_calendar_months utc id reading n) in
      if schedule = ''daily'' then Some (Some (next_local lz ldate from_time (days 1)))
      else if schedule = ''weekly'' then Some (Some (next_local lz ldate from_time (days 7)))
      else if schedule = ''monthly'' then Some (Some (next_local lz ldate from_time (months 1)))
      else case custom_months schedule of
        Some m \<Rightarrow> Some (Some (next_local lz ldate from_time (months (int m))))
      | None \<Rightarrow> next_run_from parse z date lz ldate schedule from_time)"

definition calendar_margin :: int where "calendar_margin = 3 * 60 * minute_ns"
definition fixed_margin :: int where "fixed_margin = 5 * minute_ns"

text \<open>A schedule's whole period and the margin on it, for everything but cron.\<close>

definition schedule_period :: "string \<Rightarrow> (int \<times> int) option" where
  "schedule_period schedule =
     (if schedule = ''hourly'' then Some (60 * minute_ns, fixed_margin)
      else if schedule = ''daily'' then Some (day_ns, calendar_margin)
      else if schedule = ''weekly'' then Some (7 * day_ns, calendar_margin)
      else if schedule = ''monthly'' then Some (31 * day_ns, calendar_margin)
      else case custom_minutes schedule of
        Some m \<Rightarrow> Some (int m * minute_ns, fixed_margin)
      | None \<Rightarrow>
          (case custom_months schedule of
             Some m \<Rightarrow> Some (int m * (31 * day_ns), calendar_margin)
           | None \<Rightarrow> None))"

definition next_run_beyond_schedule ::
    "cron_parser \<Rightarrow> zone \<Rightarrow> (int \<Rightarrow> int) \<Rightarrow> string \<Rightarrow> int \<Rightarrow> int \<Rightarrow> bool option" where
  "next_run_beyond_schedule parse lz ldate schedule next_run now =
     (if \<not> now < next_run then Some False
      else if cron_expression parse schedule \<noteq> None
      then (case next_cron_in parse schedule now lz ldate of
          None \<Rightarrow> None
        | Some None \<Rightarrow> Some False
        | Some (Some first) \<Rightarrow>
            (case next_cron_in parse schedule first lz ldate of
               None \<Rightarrow> None
             | Some None \<Rightarrow> Some False
             | Some (Some second) \<Rightarrow> Some (second < next_run)))
      else case schedule_period schedule of
        None \<Rightarrow> Some False
      | Some (period, margin) \<Rightarrow>
          let ahead = time_sub next_run now in
          Some (period < ahead \<and> margin < ahead - period))"

section \<open>The search returns\<close>

text \<open>What the cron library documents: the next match lies after the time given.\<close>

definition search_ok :: "(int \<Rightarrow> int option) \<Rightarrow> bool" where
  "search_ok search \<longleftrightarrow> (\<forall>r r'. search r = Some r' \<longrightarrow> r < r')"

text \<open>The readings the search finds one after the other.\<close>

inductive found :: "(int \<Rightarrow> int option) \<Rightarrow> int \<Rightarrow> int \<Rightarrow> bool" for search where
  found_first: "search r = Some r' \<Longrightarrow> found search r r'"
| found_next: "search r = Some r' \<Longrightarrow> found search r' r'' \<Longrightarrow> found search r r''"

definition cron_result ::
    "(int \<Rightarrow> int option) \<Rightarrow> zone \<Rightarrow> (int \<Rightarrow> int) \<Rightarrow> int \<Rightarrow> int \<Rightarrow> int option \<Rightarrow> bool" where
  "cron_result search z date from_time start res \<longleftrightarrow>
     (case res of
        None \<Rightarrow> (\<forall>r. found search start r \<longrightarrow> local_instant z date r \<le> from_time)
      | Some t \<Rightarrow> from_time < t \<and>
          (\<exists>r. found search start r \<and> t = local_instant z date r \<and>
             (\<forall>r'. found search start r' \<and> r' < r \<longrightarrow> local_instant z date r' \<le> from_time)))"

lemma found_later: "found search r r' \<Longrightarrow> search_ok search \<Longrightarrow> r < r'"
  by (induction rule: found.induct) (auto simp: search_ok_def intro: less_trans)

lemma found_cases:
  "found search r r'' \<Longrightarrow> search r = Some r' \<Longrightarrow> r'' = r' \<or> found search r' r''"
  by (auto elim: found.cases)

lemma cron_loop_returns:
  assumes ok: "zone_ok d z" and dok: "date_ok z date" and sok: "search_ok search"
  shows "\<exists>res. cron_loop search z date from_time reading = Some res \<and>
    cron_result search z date from_time reading res"
proof (induction "nat (wall_clock z from_time + d - reading)" arbitrary: reading rule: less_induct)
  case less
  show ?case
  proof (cases "search reading")
    case None
    then have "\<not> found search reading r" for r by (auto elim: found.cases)
    with None show ?thesis by (simp add: cron_loop.simps [of search] cron_result_def)
  next
    case (Some r)
    then have r: "reading < r" using sok by (simp add: search_ok_def)
    show ?thesis
    proof (cases "from_time < local_instant z date r")
      case True
      have "\<not> (found search reading r' \<and> r' < r)" for r'
        using found_cases [of search reading r' r] found_later [of search r r'] Some sok by auto
      with True Some show ?thesis
        by (auto simp: cron_loop.simps [of search] cron_result_def intro: found.intros)
    next
      case False
      then have "local_instant z date r \<le> from_time" by simp
      from local_instant_not_before [OF ok dok this] r
      have "nat (wall_clock z from_time + d - r) < nat (wall_clock z from_time + d - reading)" by simp
      from less [OF this] obtain res where
        res: "cron_loop search z date from_time r = Some res" "cron_result search z date from_time r res"
        by blast
      have "cron_result search z date from_time reading res"
      proof (cases res)
        case None
        with res(2) False Some show ?thesis
          using found_cases [of search reading _ r] by (fastforce simp: cron_result_def)
      next
        case (Some t)
        with res(2) obtain r2 where r2: "from_time < t" "found search r r2" "t = local_instant z date r2"
          "\<forall>r'. found search r r' \<and> r' < r2 \<longrightarrow> local_instant z date r' \<le> from_time"
          by (auto simp: cron_result_def)
        have "found search reading r2" using \<open>search reading = Some r\<close> r2(2) by (rule found_next)
        moreover have "local_instant z date r' \<le> from_time" if "found search reading r'" "r' < r2" for r'
          using found_cases [OF that(1) \<open>search reading = Some r\<close>] r2(4) that(2) False by auto
        ultimately show ?thesis using r2(1,3) Some by (auto simp: cron_result_def)
      qed
      with res(1) False Some show ?thesis by (simp add: cron_loop.simps [of search])
    qed
  qed
qed

text \<open>
  C26. The search for the next cron run always returns, and returns the first matching
  reading after the current one whose instant lies in the future, or reports that there is
  none only when no matching reading has such an instant.
\<close>

theorem cron_search_correct:
  assumes "zone_ok d z" and "date_ok z date" and "cron_expression parse value = Some expression"
    and "parse expression = Some c" and "search_ok (cs_next c)"
  shows "\<exists>res. next_cron_in parse value from_time z date = Some res \<and>
    cron_result (cs_next c) z date from_time (wall_clock z from_time) res"
  using cron_loop_returns [OF assms(1,2,5)] assms(3,4) by (simp add: next_cron_in_def)

lemma cron_search_correct_witness:
  "\<exists>res. next_cron_in (\<lambda>_. Some \<lparr>cs_next = \<lambda>r. Some (r + 60), cs_fires = True\<rparr>)
      ''cron:* * * * *'' 5 sample_zone sample_date = Some res \<and>
    cron_result (\<lambda>r. Some (r + 60)) sample_zone sample_date 5 (wall_clock sample_zone 5) res"
  using cron_search_correct [OF sample_zone_ok sample_date_ok, of
      "\<lambda>_. Some \<lparr>cs_next = \<lambda>r. Some (r + 60), cs_fires = True\<rparr>" "''cron:* * * * *''"
      "''* * * * *''" "\<lparr>cs_next = \<lambda>r. Some (r + 60), cs_fires = True\<rparr>" 5]
  by (simp add: search_ok_def cron_expression_star)

section \<open>Normal forms\<close>

text \<open>What is stored for a job is a normal form: normalising it again changes nothing.\<close>

lemma normalize_job_stable:
  assumes "normalize_job parse value = Some y"
  shows "normalize_job parse y = Some y"
proof (cases "valid_schedule y \<or> custom_months y \<noteq> None")
  case True
  then show ?thesis by (auto simp: normalize_job_def)
next
  case False
  with assms have v: "\<not> valid_schedule value" "custom_months value = None"
    by (auto simp: normalize_job_def split: if_splits)
  let ?raw = "trim_prefix value cron_prefix"
  let ?fs = "split_fields (trim_space ?raw)"
  let ?joined = "join_with '' '' ?fs"
  from assms v obtain c where c: "length ?raw \<le> max_cron_expression_length" "length ?fs = 5"
    "parse ?joined = Some c" "cs_fires c" "y = cron_prefix @ ?joined"
    by (auto simp: normalize_job_def Let_def split: if_splits option.splits)
  have fs: "f \<noteq> [] \<and> spaceless f" if "f \<in> set ?fs" for f
    using that split_fields_spaceless [of "[]" "trim_space ?raw" f] by (simp add: split_fields_def)
  have ne: "?fs \<noteq> []" using c(2) by auto
  have trim: "trim_space ?joined = ?joined" using trim_space_spaceless_ends [OF ne fs] by simp
  have split: "split_fields ?joined = ?fs" using split_fields_join fs by blast
  have "length ?joined \<le> length (trim_space ?raw)"
    using split_fields_length [of "[]" "trim_space ?raw"] by (simp add: split_fields_def)
  also have "\<dots> \<le> length ?raw" by (rule trim_space_length)
  finally have len: "length ?joined \<le> max_cron_expression_length" using c(1) by simp
  have "?joined \<noteq> []" using ne fs by (cases ?fs; cases "tl ?fs") auto
  with False c len trim split show ?thesis by (auto simp: normalize_job_def Let_def)
qed

interpretation job_schedule: normaliser "normalize_job parse" for parse
  by unfold_locales (rule normalize_job_stable)

text \<open>
  The schedule texts the job store accepts unchanged are exactly the results of
  normalising: whatever is stored after a write is accepted unchanged when it is read back,
  with the blanks of a cron expression in their one normal form.
\<close>

theorem normal_schedules:
  "(\<exists>value. normalize_job parse value = Some y) \<longleftrightarrow> normalize_job parse y = Some y"
  by (rule job_schedule.image_fixed)

end
