(* ===== verification/StoragePath.thy ===== *)
theory StoragePath
  imports GoErrors
begin

text \<open>
  Storage paths and the facts recorded for them (\<open>storageidentity/path.go\<close>,
  \<open>binding.go\<close>, \<open>linux_mountinfo.go\<close>).  The platform is a record: whether it is Windows,
  the working directory, the Unicode lower-case tables and the operating system's path
  calls.
\<close>

record platform =
  pl_windows :: bool
  pl_cwd :: "string result"
  pl_lower :: "string \<Rightarrow> string"
  pl_win_is_abs :: "string \<Rightarrow> bool"
  pl_win_volume :: "string \<Rightarrow> string"
  pl_win_abs :: "string \<Rightarrow> string result"
  pl_win_join :: "string \<Rightarrow> string \<Rightarrow> string"

abbreviation backslash :: char where "backslash \<equiv> CHR 0x5C"
abbreviation slash :: char where "slash \<equiv> CHR ''/''"

definition unc_prefix :: string where
  "unc_prefix = [backslash, backslash, CHR ''?'', backslash] @ ''unc'' @ [backslash]"

definition long_prefix :: string where
  "long_prefix = [backslash, backslash, CHR ''?'', backslash]"

definition device_prefix :: string where
  "device_prefix = [backslash, backslash, CHR ''.'', backslash]"

definition share_prefix :: string where
  "share_prefix = [backslash, backslash]"

section \<open>Lexical paths\<close>

text \<open>\<open>path.Clean\<close>: the kept components, last first.\<close>

definition clean_step :: "bool \<Rightarrow> string list \<Rightarrow> string \<Rightarrow> string list" where
  "clean_step rooted kept part =
     (if part = [] \<or> part = ''.'' then kept
      else if part = ''..'' then
        (case kept of
           [] \<Rightarrow> if rooted then [] else [''..'']
         | k # ks \<Rightarrow> if k = ''..'' then ''..'' # kept else ks)
      else part # kept)"

definition clean_parts :: "bool \<Rightarrow> string \<Rightarrow> string list" where
  "clean_parts rooted s = rev (foldl (clean_step rooted) [] (split_on slash s))"

definition path_clean :: "string \<Rightarrow> string" where
  "path_clean s =
     (let rooted = has_prefix s ''/''; joined = join_with ''/'' (clean_parts rooted s) in
      if rooted then slash # joined else if joined = [] then ''.'' else joined)"

definition is_ascii_letter :: "char \<Rightarrow> bool" where
  "is_ascii_letter c \<longleftrightarrow> 65 \<le> byte c \<and> byte c \<le> 90 \<or> 97 \<le> byte c \<and> byte c \<le> 122"

definition is_windows_unc :: "(string \<Rightarrow> string) \<Rightarrow> string \<Rightarrow> bool" where
  "is_windows_unc uni v \<longleftrightarrow>
     (let l = to_lower uni v in
      has_prefix l unc_prefix \<or> has_prefix l share_prefix \<and> \<not> has_prefix l long_prefix)"

definition looks_like_canonical_windows_path :: "(string \<Rightarrow> string) \<Rightarrow> string \<Rightarrow> bool" where
  "looks_like_canonical_windows_path uni v \<longleftrightarrow>
     length v \<ge> 3 \<and> v ! 1 = CHR '':'' \<and> v ! 2 = backslash \<or> is_windows_unc uni v"

text \<open>The loop over the components: \<open>cleaned\<close> is kept in order.\<close>

fun clean_windows_parts :: "nat \<Rightarrow> string list \<Rightarrow> string list \<Rightarrow> string list" where
  "clean_windows_parts protected cleaned [] = cleaned"
| "clean_windows_parts protected cleaned (part # parts) =
     (if part = [] \<or> part = ''.'' then clean_windows_parts protected cleaned parts
      else if part = ''..'' then
        clean_windows_parts protected
          (if length cleaned > protected then butlast cleaned else cleaned) parts
      else clean_windows_parts protected (cleaned @ [part]) parts)"

definition windows_prefix :: "(string \<Rightarrow> string) \<Rightarrow> string \<Rightarrow> (string \<times> string \<times> nat) option" where
  "windows_prefix uni v =
     (if has_prefix (to_lower uni v) unc_prefix
      then Some (take (length unc_prefix) v, drop (length unc_prefix) v, 2)
      else if has_prefix v share_prefix then Some (share_prefix, drop 2 v, 2)
      else if length v \<ge> 3 \<and> v ! 1 = CHR '':'' \<and> v ! 2 = backslash then Some (take 3 v, drop 3 v, 0)
      else None)"

definition clean_windows_configured_path :: "(string \<Rightarrow> string) \<Rightarrow> string \<Rightarrow> string" where
  "clean_windows_configured_path uni value =
     (case windows_prefix uni (replace_byte slash backslash value) of
        None \<Rightarrow> []
      | Some (pre, remainder, protected) \<Rightarrow>
          let cleaned = clean_windows_parts protected [] (split_on backslash remainder);
              joined = join_with [backslash] cleaned in
          if length cleaned < protected then []
          else if (pre = share_prefix \<or> map lower_byte pre = unc_prefix) \<and> length cleaned < 2 then []
          else if joined = [] then pre
          else pre @ joined)"

definition canonical_configured_path :: "(string \<Rightarrow> string) \<Rightarrow> string \<Rightarrow> bool" where
  "canonical_configured_path uni v \<longleftrightarrow>
     (if looks_like_canonical_windows_path uni v then clean_windows_configured_path uni v = v
      else has_prefix v ''/'' \<and> path_clean v = v)"

definition validate_configured_path :: "platform \<Rightarrow> string \<Rightarrow> go_error option" where
  "validate_configured_path p value =
     (if value = [] then Some (new_error ''storage path is required'')
      else if contains_any value [CHR 0x00, CHR 0x0D, CHR 0x0A]
      then Some (new_error ''storage path contains an invalid character'')
      else
        let grammar = (if pl_windows p then replace_byte backslash slash value else value) in
        if ''..'' \<in> set (split_on slash grammar)
        then Some (new_error ''path cannot contain '..' components'')
        else None)"

text \<open>\<open>filepath.Abs\<close> on POSIX.\<close>

definition posix_abs :: "platform \<Rightarrow> string \<Rightarrow> string result" where
  "posix_abs p value =
     (if has_prefix value ''/'' then Inr (path_clean value)
      else case pl_cwd p of
        Inl e \<Rightarrow> Inl e
      | Inr wd \<Rightarrow> Inr (path_clean (if wd = [] then value else wd @ ''/'' @ value)))"

definition absolute_windows_configured_path :: "platform \<Rightarrow> string \<Rightarrow> string result" where
  "absolute_windows_configured_path p value =
     (if pl_win_is_abs p value then Inr value
      else
        let volume = pl_win_volume p value; tail = drop (length volume) value in
        (case pl_win_abs p (volume @ ''.'') of
           Inl e \<Rightarrow> Inl e
         | Inr base \<Rightarrow>
             if volume = [] \<and> has_prefix (replace_byte backslash slash tail) ''/''
             then Inr (pl_win_volume p base @ tail)
             else Inr (pl_win_join p base tail)))"

definition normalize_configured_path :: "platform \<Rightarrow> string \<Rightarrow> string result" where
  "normalize_configured_path p value =
     (case validate_configured_path p value of Some e \<Rightarrow> Inl e | None \<Rightarrow>
       (case (if pl_windows p then absolute_windows_configured_path p value else posix_abs p value) of
          Inl e \<Rightarrow> Inl (wrap_error ''make storage path absolute'' e)
        | Inr absolute \<Rightarrow>
            if pl_windows p then
              (let cleaned = clean_windows_configured_path (pl_lower p) absolute in
               if cleaned = [] then Inl (new_error ''storage path is not a canonical absolute path'')
               else Inr cleaned)
            else
              (let cleaned = path_clean absolute in
               if \<not> canonical_configured_path (pl_lower p) cleaned
               then Inl (new_error ''storage path is not a canonical absolute path'')
               else Inr cleaned)))"

definition windows_network_mount_from_text :: "(string \<Rightarrow> string) \<Rightarrow> string \<Rightarrow> string option" where
  "windows_network_mount_from_text uni value =
     (let v = replace_byte slash backslash value; l = to_lower uni v in
      case (if has_prefix l unc_prefix then Some (take (length unc_prefix) v)
            else if has_prefix v share_prefix \<and> \<not> has_prefix v long_prefix \<and> \<not> has_prefix v device_prefix
            then Some share_prefix
            else None) of
        None \<Rightarrow> None
      | Some pre \<Rightarrow>
          (case split_on backslash (drop (length pre) v) of
             server # share # _ \<Rightarrow>
               if server = [] \<or> share = [] then None else Some (pre @ server @ [backslash] @ share)
           | _ \<Rightarrow> None))"

definition upper_byte :: "char \<Rightarrow> char" where
  "upper_byte c = (if 97 \<le> byte c \<and> byte c \<le> 122 then char_of (byte c - 32) else c)"

definition windows_drive_from_text :: "string \<Rightarrow> string option" where
  "windows_drive_from_text value =
     (let v = replace_byte slash backslash value;
          v' = (if has_prefix v long_prefix then drop (length long_prefix) v else v) in
      if length v' \<ge> 2 \<and> v' ! 1 = CHR '':'' \<and> is_ascii_letter (v' ! 0)
      then Some (upper_byte (v' ! 0) # [CHR '':'', backslash]) else None)"

section \<open>Storage facts\<close>

definition max_fact_bytes :: nat where "max_fact_bytes = 32 * 1024"
definition max_legacy_binding_bytes :: nat where "max_legacy_binding_bytes = 256 * 1024"
definition binding_version :: string where "binding_version = ''storage_facts_v5''"
definition legacy_binding_version :: string where "legacy_binding_version = ''storage_identity_v4''"

record facts =
  mount_point :: string
  filesystem :: string

definition facts_empty :: "facts \<Rightarrow> bool" where
  "facts_empty f \<longleftrightarrow> mount_point f = [] \<and> filesystem f = []"

definition normalize_filesystem :: "(string \<Rightarrow> string) \<Rightarrow> string \<Rightarrow> string" where
  "normalize_filesystem uni value =
     (let v = to_lower uni (trim_space value) in
      if v = ''smb3'' then ''cifs'' else if v = ''nfs4'' then ''nfs'' else v)"

definition validate_facts :: "(string \<Rightarrow> string) \<Rightarrow> facts \<Rightarrow> go_error option" where
  "validate_facts uni f =
     (if length (mount_point f) > max_fact_bytes \<or> length (filesystem f) > max_fact_bytes
      then Some (new_error ''exceeds the storage fact limit'')
      else if has_control (mount_point f) \<or> has_control (filesystem f)
      then Some (new_error ''contains control characters'')
      else if filesystem f \<noteq> normalize_filesystem uni (filesystem f)
      then Some (new_error ''filesystem type is not normalized'')
      else if mount_point f \<noteq> [] \<and> trim_space (mount_point f) = []
      then Some (new_error ''mount point is blank'')
      else None)"

definition validate_binding_path :: "platform \<Rightarrow> string \<Rightarrow> go_error option" where
  "validate_binding_path p path =
     (case normalize_configured_path p path of
        Inl e \<Rightarrow> Some e
      | Inr normalized \<Rightarrow>
          if normalized \<noteq> path then Some (new_error ''storage path is not normalized'')
          else if has_control path then Some (new_error ''storage path contains control characters'')
          else None)"

text \<open>
  The JSON codec of the binding document is an argument: \<open>marshal\<close> writes a version and
  facts, \<open>unmarshal\<close> reads them with unknown fields and trailing data refused.
\<close>

record binding_json =
  bj_marshal :: "string \<Rightarrow> facts \<Rightarrow> string"
  bj_unmarshal :: "string \<Rightarrow> (string \<times> facts) option"

definition encode_binding :: "platform \<Rightarrow> binding_json \<Rightarrow> facts \<Rightarrow> string result" where
  "encode_binding p j f =
     (case validate_facts (pl_lower p) f of
        Some e \<Rightarrow> Inl e
      | None \<Rightarrow> Inr (bj_marshal j binding_version f))"

definition decode_binding ::
    "platform \<Rightarrow> binding_json \<Rightarrow> string \<Rightarrow> string \<Rightarrow> string \<Rightarrow> string \<Rightarrow> (facts \<times> bool) result" where
  "decode_binding p j version key json configured =
     (if version = legacy_binding_version then
        (if key = [] \<or> json = [] \<or> length key > max_legacy_binding_bytes \<or>
            length json > max_legacy_binding_bytes
         then Inl (new_error ''legacy storage binding is incomplete'')
         else case validate_binding_path p configured of
           Some e \<Rightarrow> Inl e
         | None \<Rightarrow> Inr (\<lparr>mount_point = [], filesystem = []\<rparr>, True))
      else if version \<noteq> binding_version then Inl (new_error ''unsupported storage binding version'')
      else case validate_binding_path p configured of Some e \<Rightarrow> Inl e | None \<Rightarrow>
        if key \<noteq> configured then Inl (new_error ''storage binding key does not match the configured path'')
        else case bj_unmarshal j json of
          None \<Rightarrow> Inl (new_error ''storage binding facts are invalid'')
        | Some (v, f) \<Rightarrow>
            if v \<noteq> binding_version then Inl (new_error ''storage binding facts have the wrong version'')
            else case encode_binding p j f of
              Inl e \<Rightarrow> Inl e
            | Inr canonical \<Rightarrow>
                if canonical \<noteq> json then Inl (new_error ''storage binding facts are not canonical'')
                else Inr (f, False))"

definition windows_shaped_mount :: "string \<Rightarrow> bool" where
  "windows_shaped_mount value \<longleftrightarrow>
     (let v = replace_byte slash backslash value in
      has_prefix v share_prefix \<or> length v \<ge> 2 \<and> v ! 1 = CHR '':'' \<and> is_ascii_letter (v ! 0))"

definition trim_right_byte :: "char \<Rightarrow> string \<Rightarrow> string" where
  "trim_right_byte c s = rev (dropWhile (\<lambda>x. x = c) (rev s))"

definition windows_mount_key :: "(string \<Rightarrow> string) \<Rightarrow> string \<Rightarrow> string" where
  "windows_mount_key uni value =
     (let v = to_lower uni (replace_byte slash backslash value) in
      trim_right_byte backslash
        (if has_prefix v unc_prefix then share_prefix @ drop (length unc_prefix) v
         else if has_prefix v long_prefix then drop (length long_prefix) v
         else v))"

definition same_mount_point :: "(string \<Rightarrow> string) \<Rightarrow> string \<Rightarrow> string \<Rightarrow> bool" where
  "same_mount_point uni left right \<longleftrightarrow>
     left \<noteq> [] \<and> right \<noteq> [] \<and>
     (if windows_shaped_mount left \<or> windows_shaped_mount right
      then windows_mount_key uni left = windows_mount_key uni right
      else left = right)"

section \<open>The Linux mount table\<close>

record linux_mount =
  lm_id :: nat
  lm_point :: string
  lm_filesystem :: string

definition octal_digit :: "char \<Rightarrow> bool" where
  "octal_digit c \<longleftrightarrow> 48 \<le> byte c \<and> byte c \<le> 55"

definition octal_value :: "string \<Rightarrow> nat" where
  "octal_value s = foldl (\<lambda>n c. 8 * n + (byte c - 48)) 0 s"

fun decode_mount_info :: "string \<Rightarrow> string result" where
  "decode_mount_info [] = Inr []"
| "decode_mount_info (c # cs) =
     (if c \<noteq> backslash then
        (case decode_mount_info cs of Inl e \<Rightarrow> Inl e | Inr r \<Rightarrow> Inr (c # r))
      else
        (case cs of
           x # y # z # rest \<Rightarrow>
             if \<not> (octal_digit x \<and> octal_digit y \<and> octal_digit z) \<or> octal_value [x, y, z] > 255
             then Inl (new_error ''invalid mountinfo escape'')
             else (case decode_mount_info rest of
                 Inl e \<Rightarrow> Inl e
               | Inr r \<Rightarrow> Inr (char_of (octal_value [x, y, z]) # r))
         | _ \<Rightarrow> Inl (new_error ''truncated mountinfo escape'')))"

definition max_mount_info_bytes :: nat where "max_mount_info_bytes = 4 * 1024 * 1024"
definition max_line_bytes :: nat where "max_line_bytes = 256 * 1024"

text \<open>\<open>strings.Split\<close> with a longer separator.\<close>

function split_seq :: "string \<Rightarrow> string \<Rightarrow> string \<Rightarrow> string list" where
  "split_seq sep part s =
     (if s = [] then [part]
      else if sep \<noteq> [] \<and> has_prefix s sep then part # split_seq sep [] (drop (length sep) s)
      else split_seq sep (part @ [hd s]) (tl s))"
  by pat_completeness auto
termination by (relation "measure (\<lambda>(sep, part, s). length s)") auto

declare split_seq.simps [simp del]

definition parse_mount_line :: "(string \<Rightarrow> string) \<Rightarrow> string \<Rightarrow> linux_mount result" where
  "parse_mount_line uni line =
     (case split_seq '' - '' [] line of
        [a, b] \<Rightarrow>
          let l = split_fields a; r = split_fields b in
          if length l < 6 \<or> length r < 3 then Inl (new_error ''malformed mountinfo record'')
          else (case parse_uint (l ! 0) of
              None \<Rightarrow> Inl (new_error ''invalid mountinfo mount ID'')
            | Some i \<Rightarrow>
                if i = 0 then Inl (new_error ''invalid mountinfo mount ID'')
                else (case decode_mount_info (l ! 4) of
                    Inl e \<Rightarrow> Inl e
                  | Inr point \<Rightarrow> Inr \<lparr>lm_id = i, lm_point = path_clean point,
                      lm_filesystem = to_lower uni (r ! 0)\<rparr>))
      | _ \<Rightarrow> Inl (new_error ''malformed mountinfo separator''))"

text \<open>
  \<open>bufio.ScanLines\<close>: the text between newlines, without a carriage return at its end and
  without an empty last line.  A line that fills the buffer stops the scanner.
\<close>

definition scan_lines :: "string \<Rightarrow> string list" where
  "scan_lines s =
     (let parts = split_on (CHR 0x0A) s in if last parts = [] then butlast parts else parts)"

definition drop_cr :: "string \<Rightarrow> string" where
  "drop_cr line = (if line \<noteq> [] \<and> last line = CHR 0x0D then butlast line else line)"

fun parse_mount_lines :: "(string \<Rightarrow> string) \<Rightarrow> string list \<Rightarrow> linux_mount list result" where
  "parse_mount_lines uni [] = Inr []"
| "parse_mount_lines uni (line # lines) =
     (if length line \<ge> max_line_bytes then Inl (new_error ''read mountinfo: token too long'')
      else case parse_mount_line uni (drop_cr line) of
        Inl e \<Rightarrow> Inl e
      | Inr m \<Rightarrow>
          (case parse_mount_lines uni lines of Inl e \<Rightarrow> Inl e | Inr ms \<Rightarrow> Inr (m # ms)))"

definition parse_linux_mount_info :: "(string \<Rightarrow> string) \<Rightarrow> string result \<Rightarrow> linux_mount list result" where
  "parse_linux_mount_info uni reader =
     (case reader of
        Inl e \<Rightarrow> Inl (wrap_error ''read mountinfo'' e)
      | Inr data \<Rightarrow>
          if length data > max_mount_info_bytes
          then Inl (new_error ''mountinfo exceeds 4 MiB limit'')
          else parse_mount_lines uni (scan_lines data))"

definition linux_mount_by_id :: "linux_mount list \<Rightarrow> nat \<Rightarrow> linux_mount result" where
  "linux_mount_by_id mounts i =
     (case filter (\<lambda>m. lm_id m = i) mounts of
        [] \<Rightarrow> Inl (new_error ''observed mount is absent from mountinfo'')
      | [m] \<Rightarrow> Inr m
      | _ \<Rightarrow> Inl (new_error ''duplicate mountinfo mount ID''))"

section \<open>Normal paths\<close>

definition plain_part :: "string \<Rightarrow> bool" where
  "plain_part part \<longleftrightarrow> part \<noteq> [] \<and> part \<noteq> ''.'' \<and> part \<noteq> ''..'' \<and> slash \<notin> set part"

lemma split_on_chars: "part \<in> set (split_on c s) \<Longrightarrow> set part \<subseteq> set s"
proof (induction s arbitrary: part)
  case (Cons x xs)
  show ?case
  proof (cases "split_on c xs")
    case Nil
    then show ?thesis by simp
  next
    case (Cons p ps)
    with Cons.prems Cons.IH show ?thesis by (fastforce split: if_splits)
  qed
qed simp

lemma clean_fold_rooted:
  "list_all plain_part kept \<Longrightarrow> (\<And>q. q \<in> set parts \<Longrightarrow> slash \<notin> set q) \<Longrightarrow>
   list_all plain_part (foldl (clean_step True) kept parts) \<and>
   set (foldl (clean_step True) kept parts) \<subseteq> set kept \<union> set parts"
proof (induction parts arbitrary: kept)
  case (Cons q parts)
  have "list_all plain_part (clean_step True kept q)"
    using Cons.prems by (cases kept) (auto simp: clean_step_def plain_part_def list_all_iff)
  moreover have "set (clean_step True kept q) \<subseteq> insert q (set kept)"
    using Cons.prems(1) by (cases kept) (auto simp: clean_step_def plain_part_def)
  ultimately show ?case using Cons.IH [of "clean_step True kept q"] Cons.prems(2) by fastforce
qed simp

lemma clean_fold_plain:
  "list_all plain_part parts \<Longrightarrow> foldl (clean_step True) kept parts = rev parts @ kept"
  by (induction parts arbitrary: kept) (auto simp: clean_step_def plain_part_def)

lemma clean_parts_rooted:
  "list_all plain_part (clean_parts True s)" "set (clean_parts True s) \<subseteq> set (split_on slash s)"
  using clean_fold_rooted [of "[]" "split_on slash s"] split_on_parts [of _ slash s]
  by (auto simp: clean_parts_def)

lemma join_chars: "set (join_with sep ps) \<subseteq> set sep \<union> \<Union> (set ` set ps)"
  by (induction sep ps rule: join_with.induct) auto

lemma join_split_plain:
  assumes "list_all plain_part ps"
  shows "split_on slash (slash # join_with ''/'' ps) = (if ps = [] then [[], []] else [] # ps)"
  using assms by (auto simp: list_all_iff plain_part_def intro!: split_join)

lemma path_clean_rooted: "has_prefix s ''/'' \<Longrightarrow> path_clean s = slash # join_with ''/'' (clean_parts True s)"
  by (simp add: path_clean_def)

lemma path_clean_idem:
  assumes "has_prefix s ''/''"
  shows "path_clean (path_clean s) = path_clean s"
proof -
  let ?ps = "clean_parts True s"
  have "clean_parts True (slash # join_with ''/'' ?ps) = ?ps"
    using clean_parts_rooted(1) [of s] join_split_plain [of ?ps] clean_fold_plain [of ?ps]
    by (auto simp: clean_parts_def clean_step_def)
  moreover have "has_prefix (slash # join_with ''/'' ?ps) ''/''" by (simp add: has_prefix_def)
  ultimately show ?thesis using assms by (simp add: path_clean_rooted)
qed

lemma path_clean_chars:
  assumes "has_prefix s ''/''"
  shows "set (path_clean s) \<subseteq> insert slash (set s)"
  using join_chars [of "''/''" "clean_parts True s"] clean_parts_rooted(2) [of s] split_on_chars [of _ slash s]
  by (fastforce simp: path_clean_rooted [OF assms])

lemma path_clean_no_dots:
  assumes "has_prefix s ''/''"
  shows "''..'' \<notin> set (split_on slash (path_clean s))"
  using clean_parts_rooted(1) [of s] join_split_plain [of "clean_parts True s"]
  by (auto simp: path_clean_rooted [OF assms] list_all_iff plain_part_def)

lemma contains_any_iff: "contains_any s cs \<longleftrightarrow> set s \<inter> set cs \<noteq> {}"
  by (auto simp: contains_any_def list_ex_iff)

text \<open>What \<open>os.Getwd\<close> gives: an absolute path, here without the refused characters.\<close>

definition cwd_ok :: "platform \<Rightarrow> bool" where
  "cwd_ok p \<longleftrightarrow> (\<forall>wd. pl_cwd p = Inr wd \<longrightarrow>
     has_prefix wd ''/'' \<and> \<not> contains_any wd [CHR 0x00, CHR 0x0D, CHR 0x0A])"

lemma posix_abs_rooted:
  assumes "posix_abs p value = Inr a" "cwd_ok p" "value \<noteq> []"
    "\<not> contains_any value [CHR 0x00, CHR 0x0D, CHR 0x0A]"
  obtains s where "a = path_clean s" "has_prefix s ''/''" "\<not> contains_any s [CHR 0x00, CHR 0x0D, CHR 0x0A]"
proof (cases "has_prefix value ''/''")
  case True
  with assms that show thesis by (auto simp: posix_abs_def)
next
  case False
  with assms obtain wd where wd: "pl_cwd p = Inr wd" "has_prefix wd ''/''"
    "\<not> contains_any wd [CHR 0x00, CHR 0x0D, CHR 0x0A]"
    by (auto simp: posix_abs_def cwd_ok_def split: sum.splits)
  with False assms(1) have "a = path_clean (wd @ ''/'' @ value)"
    by (auto simp: posix_abs_def has_prefix_def)
  moreover from wd(2) have "has_prefix (wd @ ''/'' @ value) ''/''" by (auto simp: has_prefix_iff)
  moreover have "\<not> contains_any (wd @ ''/'' @ value) [CHR 0x00, CHR 0x0D, CHR 0x0A]"
    using wd(3) assms(4) by (auto simp: contains_any_iff)
  ultimately show thesis using that by blast
qed

lemma posix_normalE:
  assumes "\<not> pl_windows p" "normalize_configured_path p value = Inr y"
  obtains a where "value \<noteq> []" "\<not> contains_any value [CHR 0x00, CHR 0x0D, CHR 0x0A]"
    "posix_abs p value = Inr a" "y = path_clean a" "canonical_configured_path (pl_lower p) y"
  using assms
  by (auto simp: normalize_configured_path_def validate_configured_path_def Let_def
      split: if_splits sum.splits)

lemma posix_normal_fixed:
  assumes "\<not> pl_windows p" "cwd_ok p" "normalize_configured_path p value = Inr y"
  shows "normalize_configured_path p y = Inr y"
proof -
  let ?bad = "[CHR 0x00, CHR 0x0D, CHR 0x0A]"
  from posix_normalE [OF assms(1,3)] obtain a where a: "value \<noteq> []" "\<not> contains_any value ?bad"
    "posix_abs p value = Inr a" "y = path_clean a" "canonical_configured_path (pl_lower p) y" .
  from posix_abs_rooted [OF a(3) assms(2) a(1,2)] obtain s where
    s: "a = path_clean s" "has_prefix s ''/''" "\<not> contains_any s ?bad" by blast
  then have y: "y = path_clean s" using a(4) by (simp add: path_clean_idem)
  have root: "has_prefix y ''/''" using s(2) by (simp add: y path_clean_rooted has_prefix_def)
  then have ne: "y \<noteq> []" by (auto simp: has_prefix_def)
  have "\<not> contains_any y ?bad"
    using path_clean_chars [OF s(2)] s(3) unfolding y contains_any_iff by auto
  moreover have "path_clean y = y" using s(2) by (simp add: y path_clean_idem)
  moreover have "''..'' \<notin> set (split_on slash y)" using path_clean_no_dots [OF s(2)] by (simp add: y)
  ultimately show ?thesis using a(5) root ne assms(1)
    by (simp add: normalize_configured_path_def validate_configured_path_def posix_abs_def)
qed

text \<open>
  Outside Windows the normal form of a path is final: it normalises to itself, and the
  check of every later run accepts it unless it holds a control character.
\<close>

theorem normal_path_accepted:
  assumes "\<not> pl_windows p" and "cwd_ok p" and "normalize_configured_path p value = Inr y"
  shows "normalize_configured_path p y = Inr y \<and> (validate_binding_path p y = None \<longleftrightarrow> \<not> has_control y)"
  using posix_normal_fixed [OF assms] by (simp add: validate_binding_path_def)

definition sample_posix :: platform where
  "sample_posix = \<lparr>pl_windows = False, pl_cwd = Inr ''/home'', pl_lower = map lower_byte,
     pl_win_is_abs = (\<lambda>_. False), pl_win_volume = (\<lambda>_. []), pl_win_abs = Inr, pl_win_join = (\<lambda>a b. a @ b)\<rparr>"

lemma sample_posix_normal: "normalize_configured_path sample_posix ''data//x/'' = Inr ''/home/data/x''"
  by code_simp

theorem normal_path_accepted_witness:
  "normalize_configured_path sample_posix ''/home/data/x'' = Inr ''/home/data/x'' \<and>
     validate_binding_path sample_posix ''/home/data/x'' = None"
proof -
  have "cwd_ok sample_posix" "\<not> pl_windows sample_posix" "\<not> has_control ''/home/data/x''"
    by (simp_all add: cwd_ok_def sample_posix_def has_prefix_def contains_any_def)
  with normal_path_accepted [OF _ _ sample_posix_normal] show ?thesis by blast
qed

definition sample_windows :: platform where
  "sample_windows = \<lparr>pl_windows = True, pl_cwd = Inr ''/'', pl_lower = map lower_byte,
     pl_win_is_abs = (\<lambda>v. has_prefix v share_prefix), pl_win_volume = (\<lambda>_. []), pl_win_abs = Inr,
     pl_win_join = (\<lambda>a b. a @ b)\<rparr>"

definition hidden_unc :: string where
  "hidden_unc = long_prefix @ [backslash] @ ''unc'' @ [backslash] @ ''server''"

text \<open>
  On Windows the normal form is not final: an extended path whose UNC marker hides
  behind an empty component is normalised to a path that the same function then refuses,
  so what a save stores would be rejected by every later run.
\<close>

theorem windows_normal_path_refused:
  "normalize_configured_path sample_windows hidden_unc = Inr (unc_prefix @ ''server'') \<and>
   normalize_configured_path sample_windows (unc_prefix @ ''server'') =
     Inl (new_error ''storage path is not a canonical absolute path'')"
  by code_simp

section \<open>Spellings of a Windows mount\<close>

lemma lower_byte_backslash [simp]: "lower_byte c = backslash \<longleftrightarrow> c = backslash"
proof (cases "65 \<le> byte c \<and> byte c \<le> 90")
  case True
  then have "byte (lower_byte c) \<noteq> 92" "byte c \<noteq> 92" by (auto simp: lower_byte_def)
  then show ?thesis by auto
next
  case False
  then have "lower_byte c = c" unfolding lower_byte_def by (rule if_not_P)
  then show ?thesis by simp
qed

lemma lower_lower [simp]: "lower_byte (lower_byte c) = lower_byte c"
  by (auto simp: lower_byte_def)

lemma lower_slash: "lower_byte c = slash \<longleftrightarrow> c = slash"
proof (cases "65 \<le> byte c \<and> byte c \<le> 90")
  case True
  then have "byte (lower_byte c) \<noteq> 47" "byte c \<noteq> 47" by (auto simp: lower_byte_def)
  then show ?thesis by auto
next
  case False
  then have "lower_byte c = c" unfolding lower_byte_def by (rule if_not_P)
  then show ?thesis by simp
qed

lemma ascii_append [simp]: "ascii_string (a @ b) \<longleftrightarrow> ascii_string a \<and> ascii_string b"
  by (simp add: ascii_string_def)

lemma lower_byte_ascii: "byte c < 128 \<Longrightarrow> byte (lower_byte c) < 128"
  by (auto simp: lower_byte_def)

lemma ascii_lower [simp]: "ascii_string s \<Longrightarrow> ascii_string (map lower_byte s)"
  by (auto simp: ascii_string_def list_all_iff lower_byte_ascii)

lemma ascii_replace [simp]: "ascii_string s \<Longrightarrow> byte b < 128 \<Longrightarrow> ascii_string (replace_byte a b s)"
  by (auto simp: ascii_string_def replace_byte_def list_all_iff)

lemma trim_right_append [simp]: "trim_right_byte c (s @ [c]) = trim_right_byte c s"
  by (simp add: trim_right_byte_def)

definition folded :: "string \<Rightarrow> string" where
  "folded v = map lower_byte (replace_byte slash backslash v)"

lemma folded_append [simp]: "folded (u @ v) = folded u @ folded v"
  by (simp add: folded_def replace_byte_def)

lemma folded_backslashes [simp]: "folded (replicate n backslash) = replicate n backslash"
  by (simp add: folded_def replace_byte_def)

lemma folded_long [simp]: "folded long_prefix = long_prefix"
  by code_simp

lemma unc_prefix_long: "unc_prefix = long_prefix @ ''unc'' @ [backslash]"
  by (simp add: unc_prefix_def long_prefix_def)

lemma mount_key_plain:
  assumes "ascii_string v" "\<not> has_prefix (folded v) long_prefix"
  shows "windows_mount_key uni v = trim_right_byte backslash (folded v)"
proof -
  have "\<not> has_prefix (folded v) unc_prefix"
    using assms(2) by (auto simp: unc_prefix_long has_prefix_iff)
  with assms show ?thesis by (simp add: windows_mount_key_def to_lower_ascii folded_def)
qed

lemma mount_key_long:
  assumes "ascii_string v" "folded v = long_prefix @ m" "\<not> has_prefix m (''unc'' @ [backslash])"
  shows "windows_mount_key uni v = trim_right_byte backslash m"
proof -
  have "\<not> has_prefix (folded v) unc_prefix"
    using assms(2,3) by (auto simp: unc_prefix_long has_prefix_iff)
  with assms show ?thesis by (simp add: windows_mount_key_def to_lower_ascii folded_def)
qed

lemma mount_key_share:
  assumes "ascii_string v" "folded v = unc_prefix @ m"
  shows "windows_mount_key uni v = trim_right_byte backslash (share_prefix @ m)"
  using assms by (simp add: windows_mount_key_def to_lower_ascii folded_def)

lemma trim_right_replicate [simp]: "trim_right_byte c (s @ replicate n c) = trim_right_byte c s"
proof (induction n)
  case (Suc n)
  have "s @ replicate (Suc n) c = (s @ replicate n c) @ [c]" by (simp add: replicate_append_same)
  with Suc show ?case by (metis trim_right_append)
qed simp

text \<open>
  The spellings of one mount: any case, either separator, separators at the end, and with
  or without the extended prefix.  A drive starts with a letter and a colon, a share with
  two separators and a server.
\<close>

definition drive_spelling :: "string \<Rightarrow> string \<Rightarrow> bool" where
  "drive_spelling v w \<longleftrightarrow> ascii_string w \<and>
     (\<exists>n. folded w = folded v @ replicate n backslash \<or>
          folded w = long_prefix @ folded v @ replicate n backslash)"

definition share_spelling :: "string \<Rightarrow> string \<Rightarrow> bool" where
  "share_spelling v w \<longleftrightarrow> ascii_string w \<and>
     (\<exists>n. folded w = share_prefix @ folded v @ replicate n backslash \<or>
          folded w = unc_prefix @ folded v @ replicate n backslash)"

definition drive_name :: "string \<Rightarrow> bool" where
  "drive_name v \<longleftrightarrow> (\<exists>a r. folded v = a # CHR '':'' # r \<and> is_ascii_letter a)"

definition share_name :: "string \<Rightarrow> bool" where
  "share_name v \<longleftrightarrow> (\<exists>a r. folded v = a # r \<and> a \<noteq> CHR ''?'' \<and> a \<noteq> backslash)"

lemma drive_key:
  assumes "drive_name v" "drive_spelling v w"
  shows "windows_mount_key uni w = trim_right_byte backslash (folded v)"
proof -
  from assms(1) obtain a r where v: "folded v = a # CHR '':'' # r" by (auto simp: drive_name_def)
  from assms(2) obtain n where asc: "ascii_string w" and
    "folded w = folded v @ replicate n backslash \<or> folded w = long_prefix @ folded v @ replicate n backslash"
    by (auto simp: drive_spelling_def)
  then consider "folded w = folded v @ replicate n backslash"
    | "folded w = long_prefix @ folded v @ replicate n backslash" by blast
  then show ?thesis
  proof cases
    case 1
    then have "\<not> has_prefix (folded w) long_prefix" by (simp add: v has_prefix_def long_prefix_def)
    with asc 1 show ?thesis by (simp add: mount_key_plain)
  next
    case 2
    have "\<not> has_prefix (folded v @ replicate n backslash) (''unc'' @ [backslash])"
      by (simp add: v has_prefix_def)
    with mount_key_long [OF asc 2] show ?thesis by simp
  qed
qed

lemma share_key:
  assumes "share_name v" "share_spelling v w"
  shows "windows_mount_key uni w = trim_right_byte backslash (share_prefix @ folded v)"
proof -
  from assms(1) obtain a r where v: "folded v = a # r" "a \<noteq> CHR ''?''" by (auto simp: share_name_def)
  from assms(2) obtain n where asc: "ascii_string w" and
    "folded w = share_prefix @ folded v @ replicate n backslash \<or>
     folded w = unc_prefix @ folded v @ replicate n backslash"
    by (auto simp: share_spelling_def)
  then consider "folded w = (share_prefix @ folded v) @ replicate n backslash"
    | "folded w = unc_prefix @ folded v @ replicate n backslash" by auto
  then show ?thesis
  proof cases
    case 1
    then have "\<not> has_prefix (folded w) long_prefix" using v by (simp add: has_prefix_def long_prefix_def share_prefix_def)
    from mount_key_plain [OF asc this, of uni] show ?thesis unfolding 1 trim_right_replicate .
  next
    case 2
    have "share_prefix @ folded v @ replicate n backslash = (share_prefix @ folded v) @ replicate n backslash"
      by simp
    with mount_key_share [OF asc 2] show ?thesis by (metis trim_right_replicate)
  qed
qed

lemma lower_colon: "lower_byte c = CHR '':'' \<longleftrightarrow> c = CHR '':''"
proof (cases "65 \<le> byte c \<and> byte c \<le> 90")
  case True
  then have "byte (lower_byte c) \<noteq> 58" "byte c \<noteq> 58" by (auto simp: lower_byte_def)
  then show ?thesis by auto
next
  case False
  then have "lower_byte c = c" unfolding lower_byte_def by (rule if_not_P)
  then show ?thesis by simp
qed

lemma lower_letter: "is_ascii_letter (lower_byte c) \<Longrightarrow> is_ascii_letter c"
  by (auto simp: is_ascii_letter_def lower_byte_def split: if_splits)

lemma drive_shaped: "folded w = a # CHR '':'' # r \<Longrightarrow> is_ascii_letter a \<Longrightarrow> windows_shaped_mount w"
  by (auto simp: windows_shaped_mount_def folded_def Let_def map_eq_Cons_conv lower_colon dest: lower_letter)

lemma share_shaped: "folded w = share_prefix @ u \<Longrightarrow> windows_shaped_mount w"
  by (auto simp: windows_shaped_mount_def folded_def Let_def map_eq_Cons_conv share_prefix_def has_prefix_def)

definition names_mount :: "string \<Rightarrow> string \<Rightarrow> bool" where
  "names_mount k w \<longleftrightarrow>
     (\<exists>v. drive_name v \<and> drive_spelling v w \<and> k = trim_right_byte backslash (folded v)) \<or>
     (\<exists>v. share_name v \<and> share_spelling v w \<and> k = trim_right_byte backslash (share_prefix @ folded v))"

lemma names_mount_key:
  assumes "names_mount k w"
  shows "windows_mount_key uni w = k" "windows_shaped_mount w" "w \<noteq> []"
proof -
  show "windows_mount_key uni w = k"
    using assms by (auto simp: names_mount_def drive_key share_key)
  have "long_prefix = share_prefix @ [CHR ''?'', backslash]" "unc_prefix = share_prefix @ drop 2 unc_prefix"
    by (simp_all add: long_prefix_def share_prefix_def unc_prefix_def)
  then show shaped: "windows_shaped_mount w"
    using assms unfolding names_mount_def drive_name_def drive_spelling_def share_spelling_def
    by (metis append.assoc append_Cons drive_shaped share_shaped)
  then show "w \<noteq> []"
    by (auto simp: windows_shaped_mount_def replace_byte_def has_prefix_def share_prefix_def)
qed

text \<open>
  C27. Two ASCII spellings of Windows mounts, drives or shares, count as the same mount point
  exactly when they spell the same mount: case, the kind of separator, separators at the
  end and the extended prefix make no difference, and nothing else is ignored.  (Spellings with other characters are
  folded by the case tables of Unicode, which the model leaves open.)
\<close>

theorem same_mount_spellings:
  assumes "names_mount k w" and "names_mount k' w'"
  shows "same_mount_point uni w w' \<longleftrightarrow> k = k'"
  using names_mount_key(1) [OF assms(1), of uni] names_mount_key(1) [OF assms(2), of uni]
    names_mount_key(2,3) [OF assms(1)] names_mount_key(3) [OF assms(2)]
  by (simp add: same_mount_point_def)

theorem same_mount_spellings_witness:
  "same_mount_point (map lower_byte) ''d:/Data/'' (long_prefix @ ''D:'' @ [backslash] @ ''data'')"
proof -
  let ?k = "''d:'' @ [backslash] @ ''data''"
  have f: "folded ''D:/data'' = ?k" "folded ''d:/Data/'' = ?k @ replicate 1 backslash"
    "folded (long_prefix @ ''D:'' @ [backslash] @ ''data'') = long_prefix @ ?k @ replicate 0 backslash"
    "trim_right_byte backslash ?k = ?k"
    by code_simp+
  have "drive_name ''D:/data''" by (simp add: drive_name_def f is_ascii_letter_def)
  moreover have "drive_spelling ''D:/data'' ''d:/Data/''"
    "drive_spelling ''D:/data'' (long_prefix @ ''D:'' @ [backslash] @ ''data'')"
    unfolding drive_spelling_def f(1) f(2) f(3)
    by (fastforce simp: ascii_string_def long_prefix_def)+
  ultimately have "names_mount ?k ''d:/Data/''"
    "names_mount ?k (long_prefix @ ''D:'' @ [backslash] @ ''data'')"
    unfolding names_mount_def using f(1,4) by metis+
  from same_mount_spellings [OF this] show ?thesis by blast
qed

section \<open>Stored bindings\<close>

text \<open>
  What the JSON library documents: reading a document gives back what was written, for texts in UTF-8 (other bytes
  are written as the replacement character).
\<close>

definition utf8_facts :: "facts \<Rightarrow> bool" where
  "utf8_facts f \<longleftrightarrow> valid_utf8 (mount_point f) \<and> valid_utf8 (filesystem f)"

definition json_ok :: "binding_json \<Rightarrow> bool" where
  "json_ok j \<longleftrightarrow> (\<forall>v f. valid_utf8 v \<longrightarrow> utf8_facts f \<longrightarrow> bj_unmarshal j (bj_marshal j v f) = Some (v, f))"

lemma decode_binding_stored:
  assumes "json_ok j" and "utf8_facts f"
  shows "decode_binding p j version key json configured = Inr (f, False) \<longleftrightarrow>
    version = binding_version \<and> key = configured \<and> validate_binding_path p configured = None \<and>
    encode_binding p j f = Inr json"
proof
  assume "decode_binding p j version key json configured = Inr (f, False)"
  then show "version = binding_version \<and> key = configured \<and> validate_binding_path p configured = None \<and>
      encode_binding p j f = Inr json"
    by (auto simp: decode_binding_def split: if_splits option.splits prod.splits sum.splits)
next
  have versions: "binding_version \<noteq> legacy_binding_version" "valid_utf8 binding_version"
    by (simp_all add: binding_version_def legacy_binding_version_def valid_utf8_ascii)
  assume a: "version = binding_version \<and> key = configured \<and> validate_binding_path p configured = None \<and>
      encode_binding p j f = Inr json"
  then have "json = bj_marshal j binding_version f"
    by (auto simp: encode_binding_def split: option.splits)
  with assms versions(2) have "bj_unmarshal j json = Some (binding_version, f)" by (simp add: json_ok_def)
  with a versions show "decode_binding p j version key json configured = Inr (f, False)"
    by (simp add: decode_binding_def)
qed

text \<open>
  C28. A stored binding is read as one of the current format exactly when it is what a save writes: the current version,
  the configured path as its key and the canonical encoding of valid facts; what is read are the facts that were
  saved, as long as they are UTF-8.  The only other rows that are read are those of the former format, by their
  version and size alone, and without any facts.
\<close>

theorem binding_round_trip:
  assumes "json_ok j" and "utf8_facts f"
  shows "decode_binding p j version key json configured = Inr (f, legacy) \<longleftrightarrow>
    validate_binding_path p configured = None \<and>
    (if legacy then version = legacy_binding_version \<and> key \<noteq> [] \<and> json \<noteq> [] \<and> length key \<le> max_legacy_binding_bytes \<and>
       length json \<le> max_legacy_binding_bytes \<and> f = \<lparr>mount_point = [], filesystem = []\<rparr>
     else version = binding_version \<and> key = configured \<and> encode_binding p j f = Inr json)"
proof (cases legacy)
  case True
  then show ?thesis by (auto simp: decode_binding_def split: if_splits option.splits prod.splits sum.splits)
qed (use decode_binding_stored [OF assms] in auto)

text \<open>A codec for the witness: each string behind its length in unary.\<close>

definition unary :: "string \<Rightarrow> string" where
  "unary s = replicate (length s) (CHR ''1'') @ CHR ''0'' # s"

definition read_unary :: "string \<Rightarrow> (string \<times> string) option" where
  "read_unary s =
     (let n = length (takeWhile (\<lambda>c. c = CHR ''1'') s); r = drop (n + 1) s in
      if n < length s \<and> n \<le> length r then Some (take n r, drop n r) else None)"

definition sample_json :: binding_json where
  "sample_json = \<lparr>bj_marshal = (\<lambda>v f. unary v @ unary (mount_point f) @ unary (filesystem f)),
     bj_unmarshal = (\<lambda>s.
       (case read_unary s of None \<Rightarrow> None | Some (v, s) \<Rightarrow>
       (case read_unary s of None \<Rightarrow> None | Some (m, s) \<Rightarrow>
       (case read_unary s of Some (f, []) \<Rightarrow> Some (v, \<lparr>mount_point = m, filesystem = f\<rparr>) | _ \<Rightarrow> None))))\<rparr>"

lemma takeWhile_run: "b \<noteq> a \<Longrightarrow> takeWhile (\<lambda>c. c = a) (replicate n a @ b # r) = replicate n a"
  by (induction n) auto

lemma read_unary_append: "read_unary (unary s @ t) = Some (s, t)"
proof -
  have "takeWhile (\<lambda>c. c = CHR ''1'') (unary s @ t) = replicate (length s) (CHR ''1'')"
    by (simp add: unary_def takeWhile_run)
  then show ?thesis by (simp add: read_unary_def unary_def)
qed

lemma sample_json_ok: "json_ok sample_json"
  using read_unary_append [of _ "[]"]
  by (simp add: json_ok_def sample_json_def read_unary_append)

theorem binding_round_trip_witness:
  "decode_binding sample_posix sample_json binding_version ''/home/data/x''
      (bj_marshal sample_json binding_version \<lparr>mount_point = ''/home'', filesystem = ''ext4''\<rparr>) ''/home/data/x'' =
    Inr (\<lparr>mount_point = ''/home'', filesystem = ''ext4''\<rparr>, False)"
proof -
  have "validate_binding_path sample_posix ''/home/data/x'' = None" by code_simp
  moreover have "validate_facts (pl_lower sample_posix) \<lparr>mount_point = ''/home'', filesystem = ''ext4''\<rparr> = None"
    by (simp add: validate_facts_def max_fact_bytes_def normalize_filesystem_def trim_space_plain
        to_lower_ascii ascii_string_def sample_posix_def lower_byte_def)
  ultimately show ?thesis using binding_round_trip [OF sample_json_ok,
      of "\<lparr>mount_point = ''/home'', filesystem = ''ext4''\<rparr>" _ _ _ _ _ False]
    by (simp add: encode_binding_def utf8_facts_def valid_utf8_ascii)
qed

section \<open>The mount table\<close>

text \<open>
  How the kernel writes a record (\<open>proc(5)\<close>): blanks, tabs, newlines and backslashes of a
  name as three octal digits, the fields separated by single blanks, a lone dash before the
  filesystem type.
\<close>

definition octal_escape :: "char \<Rightarrow> string" where
  "octal_escape c = backslash #
     map (\<lambda>n. char_of (48 + n)) [byte c div 64, byte c div 8 mod 8, byte c mod 8]"

definition mount_escape :: "string \<Rightarrow> string" where
  "mount_escape s = concat (map (\<lambda>c.
     if c \<in> set [CHR '' '', CHR 0x09, CHR 0x0A, backslash] then octal_escape c else [c]) s)"

lemma octal_digits:
  assumes "n < 256"
  shows "map (\<lambda>n. byte (char_of (48 + n) :: char)) [n div 64, n div 8 mod 8, n mod 8] =
    map (\<lambda>n. 48 + n) [n div 64, n div 8 mod 8, n mod 8]"
    "n div 64 \<le> 7" "8 * (8 * (n div 64) + n div 8 mod 8) + n mod 8 = n"
proof -
  show "n div 64 \<le> 7" using assms by simp
  moreover have "byte (char_of (48 + k) :: char) = 48 + k" if "k \<le> 7" for k :: nat using that by simp
  ultimately show "map (\<lambda>n. byte (char_of (48 + n) :: char)) [n div 64, n div 8 mod 8, n mod 8] =
      map (\<lambda>n. 48 + n) [n div 64, n div 8 mod 8, n mod 8]" by simp
  have "n div 64 = n div 8 div 8" by (simp add: div_mult2_eq flip: numeral_mult)
  then show "8 * (8 * (n div 64) + n div 8 mod 8) + n mod 8 = n" by simp
qed

lemma decode_escape:
  "decode_mount_info (octal_escape c @ s) =
     (case decode_mount_info s of Inl e \<Rightarrow> Inl e | Inr r \<Rightarrow> Inr (c # r))"
proof -
  have less: "byte c < 256" by simp
  note d = octal_digits [OF less]
  have "octal_digit (char_of (48 + byte c div 64))" "octal_digit (char_of (48 + byte c div 8 mod 8))"
    "octal_digit (char_of (48 + byte c mod 8))"
    using d(1,2) by (simp_all add: octal_digit_def)
  moreover have "octal_value (map (\<lambda>n. char_of (48 + n)) [byte c div 64, byte c div 8 mod 8, byte c mod 8]) = byte c"
    using d(1,3) by (simp add: octal_value_def)
  moreover have "\<not> 255 < byte c" using less by linarith
  ultimately show ?thesis by (cases "decode_mount_info s") (simp_all add: octal_escape_def)
qed

lemma mount_escape_round: "decode_mount_info (mount_escape s) = Inr s"
proof (induction s)
  case (Cons c s)
  have "mount_escape (c # s) =
      (if c \<in> set [CHR '' '', CHR 0x09, CHR 0x0A, backslash] then octal_escape c else [c]) @ mount_escape s"
    by (simp add: mount_escape_def)
  with Cons show ?case by (auto simp: decode_escape)
qed (simp add: mount_escape_def)

lemma split_seq_part:
  "CHR '' '' \<notin> set f \<Longrightarrow> split_seq '' - '' part (f @ t) = split_seq '' - '' (part @ f) t"
proof (induction f arbitrary: part)
  case (Cons c f)
  then have "\<not> has_prefix (c # f @ t) '' - ''" by (auto simp: has_prefix_def)
  with Cons show ?case by (simp add: split_seq.simps [of "'' - ''" part])
qed simp

definition mount_field :: "string \<Rightarrow> bool" where
  "mount_field f \<longleftrightarrow> f \<noteq> [] \<and> f \<noteq> ''-'' \<and> spaceless f"

lemma spaceless_no_blank: "spaceless f \<Longrightarrow> CHR '' '' \<notin> set f"
proof
  assume f: "spaceless f" "CHR '' '' \<in> set f"
  then obtain k where "k < length f" "f ! k = CHR '' ''" by (auto simp: in_set_conv_nth)
  then have "drop k f = CHR '' '' # drop (Suc k) f" by (metis Cons_nth_drop_Suc)
  with f(1) \<open>k < length f\<close> leading_space_blank show False by (force simp: spaceless_def)
qed

lemma split_seq_field:
  assumes "mount_field f" "t = [] \<or> hd t = CHR '' ''"
  shows "split_seq '' - '' part (CHR '' '' # f @ t) = split_seq '' - '' (part @ CHR '' '' # f) t"
proof -
  have "CHR '' '' \<notin> set f" using assms(1) by (simp add: mount_field_def spaceless_no_blank)
  moreover have "\<not> has_prefix (CHR '' '' # f @ t) '' - ''"
  proof
    assume "has_prefix (CHR '' '' # f @ t) '' - ''"
    then obtain r where "f @ t = CHR ''-'' # CHR '' '' # r" by (auto simp: has_prefix_iff)
    with assms \<open>CHR '' '' \<notin> set f\<close> show False
      by (cases f; cases "tl f") (auto simp: mount_field_def)
  qed
  ultimately show ?thesis
    using split_seq_part [of f "part @ '' ''" t] by (simp add: split_seq.simps [of "'' - ''" part])
qed

lemma join_blank: "join_with '' '' (f # fs) = f @ concat (map (Cons (CHR '' '')) fs)"
  by (induction fs arbitrary: f) auto

lemma split_seq_fields:
  assumes "list_all mount_field fs" "t = [] \<or> hd t = CHR '' ''"
  shows "split_seq '' - '' part (concat (map (Cons (CHR '' '')) fs) @ t) =
    split_seq '' - '' (part @ concat (map (Cons (CHR '' '')) fs)) t"
  using assms
proof (induction fs arbitrary: part)
  case (Cons f fs)
  have "concat (map (Cons (CHR '' '')) fs) @ t = [] \<or> hd (concat (map (Cons (CHR '' '')) fs) @ t) = CHR '' ''"
    using Cons.prems(2) by (cases fs) auto
  with Cons split_seq_field [of f "concat (map (Cons (CHR '' '')) fs) @ t" part] show ?case by simp
qed simp

lemma split_seq_join:
  assumes "list_all mount_field (f # fs)" "t = [] \<or> hd t = CHR '' ''"
  shows "split_seq '' - '' [] (join_with '' '' (f # fs) @ t) = split_seq '' - '' (join_with '' '' (f # fs)) t"
  using assms split_seq_part [of f "[]" "concat (map (Cons (CHR '' '')) fs) @ t"]
    split_seq_fields [of fs t f]
  by (simp add: join_blank mount_field_def spaceless_no_blank)

lemma split_fields_mount: "list_all mount_field fs \<Longrightarrow> split_fields (join_with '' '' fs) = fs"
  by (intro split_fields_join) (auto simp: list_all_iff mount_field_def)

definition mount_line :: "string list \<Rightarrow> string list \<Rightarrow> string" where
  "mount_line left right = join_with '' '' left @ '' - '' @ join_with '' '' right"

lemma mount_line_halves:
  assumes "list_all mount_field left" "left \<noteq> []" "list_all mount_field right" "right \<noteq> []"
  shows "split_seq '' - '' [] (mount_line left right) = [join_with '' '' left, join_with '' '' right]"
proof -
  obtain f fs g gs where c: "left = f # fs" "right = g # gs" using assms(2,4) by (meson neq_Nil_conv)
  have "split_seq '' - '' [] (mount_line left right) =
      split_seq '' - '' (join_with '' '' left) ('' - '' @ join_with '' '' right)"
    using split_seq_join [of f fs "'' - '' @ join_with '' '' right"] assms(1) by (simp add: mount_line_def c)
  also have "\<dots> = join_with '' '' left # split_seq '' - '' [] (join_with '' '' right)"
    by (simp add: split_seq.simps [of "'' - ''" "join_with '' '' left"] has_prefix_def)
  also have "split_seq '' - '' [] (join_with '' '' right) = [join_with '' '' right]"
    using split_seq_join [of g gs "[]"] assms(3)
    by (simp add: c split_seq.simps [of "'' - ''" _ "[]"])
  finally show ?thesis .
qed

text \<open>
  A record the kernel writes is read back: whatever the optional fields, as long as no
  field is a lone dash and no field holds further white space, the mount point comes out as
  it was named, cleaned, with the mount's number and filesystem type.
\<close>

theorem mount_record_read:
  assumes "list_all mount_field (number # parent # device # root # mount_escape point # options # optional)"
    and "list_all mount_field [fstype, source, super]"
    and "parse_uint number = Some n" and "n \<noteq> 0"
  shows "parse_mount_line uni
      (mount_line (number # parent # device # root # mount_escape point # options # optional) [fstype, source, super]) =
    Inr \<lparr>lm_id = n, lm_point = path_clean point, lm_filesystem = to_lower uni fstype\<rparr>"
proof -
  let ?l = "number # parent # device # root # mount_escape point # options # optional"
  have "split_fields (join_with '' '' ?l) = ?l" by (rule split_fields_mount) (rule assms(1))
  moreover have "split_fields (join_with '' '' [fstype, source, super]) = [fstype, source, super]"
    by (rule split_fields_mount) (rule assms(2))
  ultimately show ?thesis
    using mount_line_halves [OF assms(1) _ assms(2)] assms(3,4)
    by (simp add: parse_mount_line_def mount_escape_round del: join_with.simps)
qed

lemma spaceless_visible: "list_all (\<lambda>c. 33 \<le> byte c \<and> byte c < 127) f \<Longrightarrow> spaceless f"
  by (auto simp: spaceless_def hd_drop_conv_nth list_all_length intro!: leading_space_visible)

theorem mount_record_read_witness:
  "parse_mount_line (map lower_byte)
      (mount_line [''36'', ''25'', ''8:1'', ''/'', mount_escape ''/media/My Disk'', ''rw''] [''ext4'', ''/dev/sda1'', ''rw'']) =
    Inr \<lparr>lm_id = 36, lm_point = ''/media/My Disk'', lm_filesystem = ''ext4''\<rparr>"
proof -
  have e: "mount_escape ''/media/My Disk'' = ''/media/My'' @ octal_escape (CHR '' '') @ ''Disk''"
    by (simp add: mount_escape_def)
  have "path_clean ''/media/My Disk'' = ''/media/My Disk''" "to_lower (map lower_byte) ''ext4'' = ''ext4''"
    by code_simp+
  moreover have "parse_uint ''36'' = Some 36"
    by (simp add: parse_uint_def all_digits_def is_digit_def digits_value_def max_uint64_def)
  moreover have "list_all mount_field
      (''36'' # ''25'' # ''8:1'' # ''/'' # mount_escape ''/media/My Disk'' # ''rw'' # [])"
    "list_all mount_field [''ext4'', ''/dev/sda1'', ''rw'']"
    unfolding e by (simp_all add: mount_field_def spaceless_visible octal_escape_def)
  ultimately show ?thesis using mount_record_read [of "''36''" "''25''" "''8:1''" "''/''"] by simp
qed

definition no_break_space :: string where
  "no_break_space = map char_of [194, 160 :: nat]"

lemma no_break_encodings:
  "list_all (\<lambda>e. hd e = char_of (194 :: nat) \<longrightarrow> e = map char_of [194, 133 :: nat] \<or> e = no_break_space)
     space_encodings"
  by code_simp

lemma leading_space_no_break: "leading_space (no_break_space @ u) = 2"
proof -
  have "no_break_space \<in> set space_encodings" by code_simp
  then have "no_break_space \<in> set (filter (has_prefix (no_break_space @ u)) space_encodings)" by simp
  then obtain x xs where x: "filter (has_prefix (no_break_space @ u)) space_encodings = x # xs"
    by (cases "filter (has_prefix (no_break_space @ u)) space_encodings") auto
  then have "x \<in> set (filter (has_prefix (no_break_space @ u)) space_encodings)" by simp
  then have m: "x \<in> set space_encodings" "has_prefix (no_break_space @ u) x" by simp_all
  with space_encodings_ends have "x \<noteq> []" by (auto simp: list_all_iff)
  with m(2) have "hd x = char_of (194 :: nat)" by (cases x) (auto simp: has_prefix_iff no_break_space_def)
  with m(1) no_break_encodings have "x = map char_of [194, 133 :: nat] \<or> x = no_break_space"
    by (auto simp: list_all_iff)
  moreover have "\<not> has_prefix (no_break_space @ u) (map char_of [194, 133 :: nat])"
    by (simp add: has_prefix_def no_break_space_def)
  ultimately have "x = no_break_space" using m(2) by auto
  with x show ?thesis by (simp add: leading_space_def no_break_space_def)
qed

text \<open>
  Two records the kernel does write are not read back: a mount whose source is a lone
  dash makes the whole table unreadable, and a mount point with a no-break space, which the
  kernel does not escape, loses everything from that space on.
\<close>

theorem mount_records_misread:
  "parse_mount_line (map lower_byte) ''36 25 0:7 / /mnt rw - tmpfs - rw'' =
     Inl (new_error ''malformed mountinfo separator'') \<and>
   parse_mount_line (map lower_byte)
     (''36 25 8:1 / /media/My'' @ no_break_space @ ''Disk rw - ext4 /dev/sda1 rw'') =
     Inr \<lparr>lm_id = 36, lm_point = ''/media/My'', lm_filesystem = ''ext4''\<rparr>"
proof
  show "parse_mount_line (map lower_byte) ''36 25 0:7 / /mnt rw - tmpfs - rw'' =
      Inl (new_error ''malformed mountinfo separator'')"
    by (simp add: parse_mount_line_def split_seq.simps has_prefix_def)
  let ?a = "''36 25 8:1 / /media/My''" and ?b = "''Disk rw''" and ?r = "''ext4 /dev/sda1 rw''"
  have halves: "split_seq '' - '' [] (?a @ no_break_space @ ?b @ '' - '' @ ?r) = [?a @ no_break_space @ ?b, ?r]"
    by (simp add: split_seq.simps has_prefix_def no_break_space_def)
  have "leading_space (no_break_space @ ?b) = 2" by (rule leading_space_no_break)
  then have "split_fields (?a @ no_break_space @ ?b) = [''36'', ''25'', ''8:1'', ''/'', ''/media/My'', ''Disk'', ''rw'']"
    by (simp add: split_fields_def split_fields_from.simps leading_space_visible leading_space_blank
        no_break_space_def)
  moreover have "split_fields ?r = [''ext4'', ''/dev/sda1'', ''rw'']"
    by (simp add: split_fields_def split_fields_from.simps leading_space_visible leading_space_blank)
  moreover have "parse_uint ''36'' = Some 36"
    by (simp add: parse_uint_def all_digits_def is_digit_def digits_value_def max_uint64_def)
  moreover have "path_clean ''/media/My'' = ''/media/My''" "to_lower (map lower_byte) ''ext4'' = ''ext4''"
    by code_simp+
  ultimately show "parse_mount_line (map lower_byte)
      (''36 25 8:1 / /media/My'' @ no_break_space @ ''Disk rw - ext4 /dev/sda1 rw'') =
      Inr \<lparr>lm_id = 36, lm_point = ''/media/My'', lm_filesystem = ''ext4''\<rparr>"
    using halves by (simp add: parse_mount_line_def)
qed

end
