(* ===== verification/StorageProbe.thy ===== *)
theory StorageProbe
  imports StoragePath
begin

text \<open>
  The storage probe as the Linux helper runs it (\<open>storageidentity/probe.go\<close>,
  \<open>facts_linux.go\<close>) and the checks on both ends of its protocol.  The file system is a
  record of what the kernel answers: what opening a path gives, and for an opened folder
  its status, one directory entry, and its mount ID.
\<close>

section \<open>The kernel's answers\<close>

text \<open>An error is a system error number, the package's own \<open>errNotDirectory\<close>, or neither.\<close>

datatype os_error = NotDirectory | Errno int | OtherError

record node =
  nd_stat :: "os_error option"
  nd_dir :: bool
  nd_read :: "os_error option"
  nd_statx :: "os_error + nat"
  nd_fdinfo :: "os_error + string"

record world =
  wd_open :: "string \<Rightarrow> os_error + node"
  wd_mountinfo :: "os_error + string"

definition access_ok :: string where "access_ok = ''ok''"
definition access_missing :: string where "access_missing = ''missing''"
definition access_denied :: string where "access_denied = ''denied''"
definition access_failed :: string where "access_failed = ''failed''"

definition mount_present :: string where "mount_present = ''present''"
definition mount_absent :: string where "mount_absent = ''absent''"
definition mount_denied :: string where "mount_denied = ''denied''"
definition mount_failed :: string where "mount_failed = ''failed''"

definition step_open_folder :: string where "step_open_folder = ''open_folder''"
definition step_read_entry :: string where "step_read_entry = ''read_entry''"
definition step_mount_point :: string where "step_mount_point = ''mount_point''"
definition step_filesystem_type :: string where "step_filesystem_type = ''filesystem_type''"
definition step_mount_point_check :: string where "step_mount_point_check = ''mount_point_check''"

definition probe_source :: string where "probe_source = ''source''"
definition probe_vault :: string where "probe_vault = ''vault''"
definition probe_vault_create :: string where "probe_vault_create = ''vault_create''"
definition helper_version :: string where "helper_version = ''storage_probe_v5''"

lemmas probe_words = access_ok_def access_missing_def access_denied_def access_failed_def
  mount_present_def mount_absent_def mount_denied_def mount_failed_def
  step_open_folder_def step_read_entry_def step_mount_point_def step_filesystem_type_def
  step_mount_point_check_def probe_source_def probe_vault_def probe_vault_create_def helper_version_def

record helper_request =
  hr_version :: string
  hr_operation :: string
  hr_kind :: string
  hr_path :: string
  hr_mount_point :: string

record fact_failure =
  ff_step :: string
  ff_code :: int

record mount_check =
  mc_state :: string
  mc_step :: string
  mc_code :: int

record helper_response =
  hp_version :: string
  hp_access :: string
  hp_step :: string
  hp_code :: int
  hp_mount_point :: string
  hp_filesystem :: string
  hp_fact_failures :: "fact_failure list"
  hp_missing_tail :: string
  hp_recorded_mount :: "mount_check option"

definition response_facts :: "helper_response \<Rightarrow> facts" where
  "response_facts r = \<lparr>mount_point = hp_mount_point r, filesystem = hp_filesystem r\<rparr>"

text \<open>The code of the failure recorded for a step; the zero value when there is none.\<close>

definition fact_failure_code :: "string \<Rightarrow> helper_response \<Rightarrow> int" where
  "fact_failure_code step r =
     (case find (\<lambda>f. ff_step f = step) (hp_fact_failures r) of None \<Rightarrow> 0 | Some f \<Rightarrow> ff_code f)"

section \<open>Error classes\<close>

definition classify_error_code :: "int \<Rightarrow> string" where
  "classify_error_code code =
     (if code = 2 \<or> code = 20 then access_missing
      else if code = 13 \<or> code = 1 then access_denied
      else access_failed)"

definition classify_windows_error_code :: "int \<Rightarrow> string" where
  "classify_windows_error_code code =
     (if code \<in> {2, 3, 267} then access_missing
      else if code \<in> {5, 86, 1219, 1326, 1330, 1331, 1907, 1909} then access_denied
      else access_failed)"

definition os_error_code :: "os_error \<Rightarrow> int option" where
  "os_error_code e = (case e of Errno c \<Rightarrow> Some c | _ \<Rightarrow> None)"

definition classify_open_error :: "os_error \<Rightarrow> string \<times> int" where
  "classify_open_error e =
     (if e = NotDirectory then (access_missing, 20)
      else case os_error_code e of
        None \<Rightarrow> (access_failed, 0)
      | Some code \<Rightarrow> (classify_error_code code, code))"

definition is_access_denied :: "os_error \<Rightarrow> bool" where
  "is_access_denied e \<longleftrightarrow> fst (classify_open_error e) = access_denied"

definition failed_access :: "string \<Rightarrow> os_error \<Rightarrow> helper_response" where
  "failed_access step e =
     \<lparr>hp_version = [], hp_access = fst (classify_open_error e), hp_step = step,
      hp_code = snd (classify_open_error e), hp_mount_point = [], hp_filesystem = [],
      hp_fact_failures = [], hp_missing_tail = [], hp_recorded_mount = None\<rparr>"

definition open_directory :: "world \<Rightarrow> string \<Rightarrow> os_error + node" where
  "open_directory w path =
     (case wd_open w path of
        Inl e \<Rightarrow> Inl e
      | Inr n \<Rightarrow>
          (case nd_stat n of
             Some e \<Rightarrow> Inl e
           | None \<Rightarrow> if nd_dir n then Inr n else Inl NotDirectory))"

section \<open>The facts of an opened folder\<close>

definition both_facts_failed :: "int \<Rightarrow> fact_failure list" where
  "both_facts_failed code =
     [\<lparr>ff_step = step_mount_point, ff_code = code\<rparr>, \<lparr>ff_step = step_filesystem_type, ff_code = code\<rparr>]"

fun parse_fdinfo_lines :: "string list \<Rightarrow> nat option" where
  "parse_fdinfo_lines [] = None"
| "parse_fdinfo_lines (line # lines) =
     (let name = takeWhile (\<lambda>c. c \<noteq> CHR '':'') line in
      if name = line \<or> trim_space name \<noteq> ''mnt_id'' then parse_fdinfo_lines lines
      else case parse_uint (trim_space (drop (length name + 1) line)) of
          None \<Rightarrow> None
        | Some i \<Rightarrow> if i = 0 then None else Some i)"

definition parse_fdinfo_mount_id :: "string \<Rightarrow> nat option" where
  "parse_fdinfo_mount_id data = parse_fdinfo_lines (split_on (CHR 0x0A) data)"

definition proc_fdinfo_mount_id :: "node \<Rightarrow> os_error + nat" where
  "proc_fdinfo_mount_id n =
     (case nd_fdinfo n of
        Inl e \<Rightarrow> Inl e
      | Inr data \<Rightarrow> (case parse_fdinfo_mount_id data of None \<Rightarrow> Inl OtherError | Some i \<Rightarrow> Inr i))"

text \<open>\<open>nd_statx\<close> is the mount ID the kernel reports, zero when it reports none.\<close>

definition statx_opened_mount_id :: "node \<Rightarrow> os_error + nat" where
  "statx_opened_mount_id n =
     (case nd_statx n of Inl e \<Rightarrow> Inl e | Inr i \<Rightarrow> if i = 0 then Inl OtherError else Inr i)"

definition read_proc_mount_info :: "platform \<Rightarrow> world \<Rightarrow> os_error + linux_mount list" where
  "read_proc_mount_info p w =
     (case wd_mountinfo w of
        Inl e \<Rightarrow> Inl e
      | Inr data \<Rightarrow>
          (case parse_linux_mount_info (pl_lower p) (Inr data) of
             Inl e \<Rightarrow> Inl OtherError
           | Inr ms \<Rightarrow> Inr ms))"

definition code_of :: "os_error \<Rightarrow> int" where
  "code_of e = (case os_error_code e of None \<Rightarrow> 0 | Some c \<Rightarrow> c)"

definition observe_facts :: "platform \<Rightarrow> world \<Rightarrow> node \<Rightarrow> facts \<times> fact_failure list" where
  "observe_facts p w n =
     (let none = \<lparr>mount_point = [], filesystem = []\<rparr>;
          ident = (case statx_opened_mount_id n of
            Inr i \<Rightarrow> Inr i
          | Inl e \<Rightarrow>
              (case proc_fdinfo_mount_id n of
                 Inr i \<Rightarrow> Inr i
               | Inl fallback \<Rightarrow> Inl (if code_of fallback = 0 then code_of e else code_of fallback))) in
      case ident of
        Inl code \<Rightarrow> (none, both_facts_failed code)
      | Inr i \<Rightarrow>
          (case read_proc_mount_info p w of
             Inl e \<Rightarrow> (none, both_facts_failed (code_of e))
           | Inr mounts \<Rightarrow>
               (case linux_mount_by_id mounts i of
                  Inl e \<Rightarrow> (none, both_facts_failed 0)
                | Inr m \<Rightarrow>
                    (\<lparr>mount_point = lm_point m, filesystem = normalize_filesystem (pl_lower p) (lm_filesystem m)\<rparr>, []))))"

definition sanitize_facts :: "platform \<Rightarrow> facts \<times> fact_failure list \<Rightarrow> facts \<times> fact_failure list" where
  "sanitize_facts p ff =
     (let f0 = (fst ff)\<lparr>filesystem := normalize_filesystem (pl_lower p) (filesystem (fst ff))\<rparr>;
          bad_mount = mount_point f0 \<noteq> [] \<and>
            validate_facts (pl_lower p) \<lparr>mount_point = mount_point f0, filesystem = []\<rparr> \<noteq> None;
          f1 = (if bad_mount then f0\<lparr>mount_point := []\<rparr> else f0);
          fails1 = (if bad_mount then snd ff @ [\<lparr>ff_step = step_mount_point, ff_code = 0\<rparr>] else snd ff);
          bad_fs = filesystem f1 \<noteq> [] \<and>
            validate_facts (pl_lower p) \<lparr>mount_point = [], filesystem = filesystem f1\<rparr> \<noteq> None;
          f2 = (if bad_fs then f1\<lparr>filesystem := []\<rparr> else f1);
          fails2 = (if bad_fs then fails1 @ [\<lparr>ff_step = step_filesystem_type, ff_code = 0\<rparr>] else fails1) in
      (f2, fails2))"

definition opened_response :: "platform \<Rightarrow> world \<Rightarrow> node \<Rightarrow> helper_response" where
  "opened_response p w n =
     (case sanitize_facts p (observe_facts p w n) of (f, failures) \<Rightarrow>
        \<lparr>hp_version = [], hp_access = access_ok, hp_step = [], hp_code = 0,
         hp_mount_point = mount_point f, hp_filesystem = filesystem f, hp_fact_failures = failures,
         hp_missing_tail = [], hp_recorded_mount = None\<rparr>)"

section \<open>Probes\<close>

definition probe_folder :: "platform \<Rightarrow> world \<Rightarrow> string \<Rightarrow> bool \<Rightarrow> helper_response" where
  "probe_folder p w path read_entry =
     (case open_directory w path of
        Inl e \<Rightarrow> failed_access step_open_folder e
      | Inr n \<Rightarrow>
          (case (if read_entry then nd_read n else None) of
             Some e \<Rightarrow>
               let r = failed_access step_read_entry e in
               if hp_access r = access_missing then r\<lparr>hp_access := access_failed\<rparr> else r
           | None \<Rightarrow> opened_response p w n))"

text \<open>\<open>filepath.Dir\<close> and \<open>filepath.Base\<close> outside Windows.\<close>

definition path_dir :: "string \<Rightarrow> string" where
  "path_dir s = path_clean (rev (dropWhile (\<lambda>c. c \<noteq> slash) (rev s)))"

definition path_base :: "string \<Rightarrow> string" where
  "path_base s =
     (if s = [] then ''.''
      else let t = trim_right_byte slash s; b = rev (takeWhile (\<lambda>c. c \<noteq> slash) (rev t)) in
        if b = [] then ''/'' else b)"

partial_function (option) probe_creation_parent ::
    "platform \<Rightarrow> world \<Rightarrow> string \<Rightarrow> string list \<Rightarrow> helper_response option" where
  "probe_creation_parent p w candidate tail =
     (case open_directory w candidate of
        Inr n \<Rightarrow> Some ((opened_response p w n)\<lparr>hp_missing_tail := join_with ''/'' (rev tail)\<rparr>)
      | Inl e \<Rightarrow>
          if fst (classify_open_error e) \<noteq> access_missing \<or> e = NotDirectory
          then Some (failed_access step_open_folder e)
          else if path_dir candidate = candidate then Some (failed_access step_open_folder e)
          else probe_creation_parent p w (path_dir candidate) (tail @ [path_base candidate]))"

definition check_recorded_mount :: "platform \<Rightarrow> world \<Rightarrow> string \<Rightarrow> mount_check" where
  "check_recorded_mount p w point =
     (case open_directory w point of
        Inl e \<Rightarrow>
          (let access = fst (classify_open_error e); code = snd (classify_open_error e) in
           \<lparr>mc_state = (if access = access_missing then mount_absent
                        else if access = access_denied then mount_denied else mount_failed),
            mc_step = step_mount_point_check, mc_code = code\<rparr>)
      | Inr n \<Rightarrow>
          (let (f, failures) = observe_facts p w n in
           if mount_point f = [] then
             \<lparr>mc_state = mount_failed, mc_step = step_mount_point_check,
              mc_code = foldl (\<lambda>c fl. if ff_step fl = step_mount_point then ff_code fl else c) 0 failures\<rparr>
           else if same_mount_point (pl_lower p) (mount_point f) point
           then \<lparr>mc_state = mount_present, mc_step = [], mc_code = 0\<rparr>
           else \<lparr>mc_state = mount_absent, mc_step = [], mc_code = 0\<rparr>))"

definition validate_helper_request :: "platform \<Rightarrow> helper_request \<Rightarrow> go_error option" where
  "validate_helper_request p q =
     (if hr_version q \<noteq> helper_version \<or> hr_operation q \<noteq> ''probe''
      then Some (new_error ''unsupported storage helper request'')
      else if hr_kind q \<notin> {probe_source, probe_vault, probe_vault_create}
      then Some (new_error ''unsupported storage probe kind'')
      else case validate_binding_path p (hr_path q) of
        Some e \<Rightarrow> Some (wrap_error ''storage probe path is invalid'' e)
      | None \<Rightarrow>
          if hr_mount_point q \<noteq> [] then
            if hr_kind q = probe_vault_create
            then Some (new_error ''a creation probe has no recorded mount point'')
            else if length (hr_mount_point q) > max_fact_bytes \<or> has_control (hr_mount_point q) \<or>
                    trim_space (hr_mount_point q) = []
            then Some (new_error ''recorded mount point is invalid'')
            else None
          else None)"

text \<open>\<^const>\<open>None\<close> is a walk that never ends.\<close>

definition execute_request :: "platform \<Rightarrow> world \<Rightarrow> helper_request \<Rightarrow> helper_response result option" where
  "execute_request p w q =
     (case validate_helper_request p q of
        Some e \<Rightarrow> Some (Inl e)
      | None \<Rightarrow>
          (case (if hr_kind q = probe_vault_create then probe_creation_parent p w (hr_path q) []
                 else
                   let r = probe_folder p w (hr_path q) (hr_kind q = probe_source) in
                   Some (if hp_access r = access_missing \<and> hr_mount_point q \<noteq> []
                         then r\<lparr>hp_recorded_mount := Some (check_recorded_mount p w (hr_mount_point q))\<rparr>
                         else r)) of
             None \<Rightarrow> None
           | Some r \<Rightarrow> Some (Inr (r\<lparr>hp_version := helper_version\<rparr>))))"

section \<open>The parent's check\<close>

definition mount_check_error :: "mount_check \<Rightarrow> go_error option" where
  "mount_check_error c =
     (if mc_state c = mount_present \<or> mc_state c = mount_absent then
        (if mc_state c = mount_present \<and> (mc_step c \<noteq> [] \<or> mc_code c \<noteq> 0)
         then Some (new_error ''storage helper mount point check is inconsistent'') else None)
      else if mc_state c = mount_denied \<or> mc_state c = mount_failed then
        (if mc_step c \<noteq> step_mount_point_check
         then Some (new_error ''storage helper mount point check is inconsistent'') else None)
      else Some (new_error ''storage helper mount point state is invalid''))"

definition validate_helper_response :: "platform \<Rightarrow> helper_request \<Rightarrow> helper_response \<Rightarrow> go_error option" where
  "validate_helper_response p q r =
     (if hp_version r \<noteq> helper_version then Some (new_error ''unsupported storage helper response'')
      else case validate_facts (pl_lower p) (response_facts r) of
        Some e \<Rightarrow> Some (wrap_error ''storage helper facts are invalid'' e)
      | None \<Rightarrow>
          if \<not> list_all (\<lambda>f. ff_step f = step_mount_point \<or> ff_step f = step_filesystem_type) (hp_fact_failures r)
          then Some (new_error ''storage helper fact failure is invalid'')
          else if hp_missing_tail r \<noteq> [] \<and> (hr_kind q \<noteq> probe_vault_create \<or> hp_access r \<noteq> access_ok)
          then Some (new_error ''storage helper returned an unexpected missing tail'')
          else if hp_access r = access_ok then
            (if hp_step r \<noteq> [] \<or> hp_code r \<noteq> 0 \<or> hp_recorded_mount r \<noteq> None
             then Some (new_error ''storage helper success response is inconsistent'') else None)
          else if hp_access r \<in> {access_missing, access_denied, access_failed} then
            (if hp_step r \<noteq> step_open_folder \<and> hp_step r \<noteq> step_read_entry
             then Some (new_error ''storage helper failure step is invalid'')
             else if \<not> facts_empty (response_facts r) \<or> hp_fact_failures r \<noteq> []
             then Some (new_error ''storage helper failure response contains facts'')
             else if (hp_access r = access_missing \<and> hr_mount_point q \<noteq> []) \<noteq> (hp_recorded_mount r \<noteq> None)
             then Some (new_error ''storage helper mount point check is inconsistent'')
             else case hp_recorded_mount r of None \<Rightarrow> None | Some c \<Rightarrow> mount_check_error c)
          else Some (new_error ''storage helper access result is invalid''))"

section \<open>The walk to the parent ends\<close>

abbreviation weight :: "string list \<Rightarrow> nat" where
  "weight ps \<equiv> sum_list (map (\<lambda>q. Suc (length q)) ps)"

lemma weight_split: "weight (split_on c s) = length s + 1"
proof (induction s)
  case (Cons x s)
  then show ?case by (cases "split_on c s") auto
qed simp

lemma weight_clean: "weight (foldl (clean_step True) kept parts) \<le> weight kept + weight parts"
proof (induction parts arbitrary: kept)
  case (Cons q parts)
  have "weight (clean_step True kept q) \<le> weight kept + (length q + 1)"
    by (auto simp: clean_step_def split: list.split)
  with Cons [of "clean_step True kept q"] show ?case by simp
qed simp

lemma weight_join: "ps \<noteq> [] \<Longrightarrow> length (join_with ''/'' ps) + 1 = weight ps"
proof (induction ps)
  case (Cons q ps)
  then show ?case by (cases ps) (auto simp: join_with_Cons)
qed simp

lemma path_clean_length:
  assumes "has_prefix s ''/''"
  shows "length (path_clean s) \<le> length s"
proof -
  obtain t where t: "s = slash # t" using assms by (auto simp: has_prefix_iff)
  let ?ps = "clean_parts True s"
  have "weight (rev ?ps) \<le> weight (split_on slash t)"
    using weight_clean [of "[]" "split_on slash t"] by (simp add: clean_parts_def t clean_step_def)
  then have "weight ?ps \<le> length t + 1" by (simp add: weight_split rev_map [symmetric])
  then show ?thesis
    unfolding path_clean_rooted [OF assms] using weight_join [of ?ps] t by (cases "?ps = []") auto
qed

lemma dir_part:
  assumes "has_prefix s ''/''"
  shows "has_prefix (rev (dropWhile (\<lambda>c. c \<noteq> slash) (rev s))) ''/''"
    and "length (rev (dropWhile (\<lambda>c. c \<noteq> slash) (rev s))) \<le> length s"
    and "length (rev (dropWhile (\<lambda>c. c \<noteq> slash) (rev s))) = length s \<Longrightarrow>
      rev (dropWhile (\<lambda>c. c \<noteq> slash) (rev s)) = s"
proof -
  obtain t where t: "s = slash # t" using assms by (auto simp: has_prefix_iff)
  let ?d = "dropWhile (\<lambda>c. c \<noteq> slash)"
  have "rev (?d (rev s)) = slash # rev (?d (rev t)) \<or> rev (?d (rev s)) = ''/''"
    by (cases "slash \<in> set t") (auto simp: t dropWhile_append1 dropWhile_append3)
  then show "has_prefix (rev (?d (rev s))) ''/''" by (auto simp: has_prefix_def)
  show "length (rev (?d (rev s))) \<le> length s" using length_dropWhile_le [of _ "rev s"] by simp
  have split: "takeWhile (\<lambda>c. c \<noteq> slash) (rev s) @ ?d (rev s) = rev s" by (rule takeWhile_dropWhile_id)
  assume "length (rev (?d (rev s))) = length s"
  moreover have "length (takeWhile (\<lambda>c. c \<noteq> slash) (rev s)) + length (?d (rev s)) = length s"
    using arg_cong [OF split, of length] by (simp only: length_append length_rev)
  ultimately have "takeWhile (\<lambda>c. c \<noteq> slash) (rev s) = []" by simp
  with split have "?d (rev s) = rev s" by simp
  then show "rev (?d (rev s)) = s" by simp
qed

lemma path_dir_shorter:
  assumes "has_prefix s ''/''" "path_clean s = s" "path_dir s \<noteq> s"
  shows "length (path_dir s) < length s" "has_prefix (path_dir s) ''/''" "path_clean (path_dir s) = path_dir s"
proof -
  let ?d = "rev (dropWhile (\<lambda>c. c \<noteq> slash) (rev s))"
  note d = dir_part [OF assms(1)]
  have "length ?d \<noteq> length s"
    using d(3) assms(2,3) by (auto simp: path_dir_def)
  with d(2) path_clean_length [OF d(1)] show "length (path_dir s) < length s" by (simp add: path_dir_def)
  show "has_prefix (path_dir s) ''/''"
    by (simp add: path_dir_def path_clean_rooted [OF d(1)] has_prefix_def)
  show "path_clean (path_dir s) = path_dir s" by (simp add: path_dir_def path_clean_idem [OF d(1)])
qed

definition creation_answer :: "platform \<Rightarrow> world \<Rightarrow> helper_response \<Rightarrow> bool" where
  "creation_answer p w r \<longleftrightarrow> (\<exists>n m. r = (opened_response p w n)\<lparr>hp_missing_tail := m\<rparr>) \<or>
     (\<exists>e. r = failed_access step_open_folder e)"

lemma creation_walk_ends:
  "has_prefix c ''/'' \<Longrightarrow> path_clean c = c \<Longrightarrow>
   \<exists>r. probe_creation_parent p w c tail = Some r \<and> creation_answer p w r"
proof (induction "length c" arbitrary: c tail rule: less_induct)
  case less
  show ?case
  proof (cases "open_directory w c")
    case (Inr n)
    then show ?thesis by (auto simp: probe_creation_parent.simps [of p w c] creation_answer_def)
  next
    case (Inl e)
    show ?thesis
    proof (cases "fst (classify_open_error e) \<noteq> access_missing \<or> e = NotDirectory \<or> path_dir c = c")
      case True
      with Inl show ?thesis by (auto simp: probe_creation_parent.simps [of p w c] creation_answer_def)
    next
      case False
      with Inl have "probe_creation_parent p w c tail =
          probe_creation_parent p w (path_dir c) (tail @ [path_base c])"
        by (simp add: probe_creation_parent.simps [of p w c])
      with False less path_dir_shorter [of c] show ?thesis by auto
    qed
  qed
qed

section \<open>The protocol\<close>

lemma validate_facts_empty: "validate_facts uni \<lparr>mount_point = [], filesystem = []\<rparr> = None"
  by (simp add: validate_facts_def normalize_filesystem_def trim_space_def trim_left_space_id
      trim_right_space_id to_lower_def ascii_string_def)

lemma validate_facts_parts:
  "validate_facts uni \<lparr>mount_point = m, filesystem = []\<rparr> = None \<Longrightarrow>
   validate_facts uni \<lparr>mount_point = [], filesystem = f\<rparr> = None \<Longrightarrow>
   validate_facts uni \<lparr>mount_point = m, filesystem = f\<rparr> = None"
  by (auto simp: validate_facts_def split: if_splits)

lemma facts_eta: "\<lparr>mount_point = mount_point f, filesystem = filesystem f\<rparr> = f"
  by (cases f) simp

abbreviation fact_step :: "fact_failure \<Rightarrow> bool" where
  "fact_step f \<equiv> ff_step f = step_mount_point \<or> ff_step f = step_filesystem_type"

lemma observe_steps: "list_all fact_step (snd (observe_facts p w n))"
  by (auto simp: observe_facts_def both_facts_failed_def Let_def split: sum.splits)

lemma sanitized:
  assumes "sanitize_facts p ff = (f, fails)" "list_all fact_step (snd ff)"
  shows "validate_facts (pl_lower p) f = None" "list_all fact_step fails"
proof -
  show "list_all fact_step fails"
    using assms by (auto simp: sanitize_facts_def Let_def split: if_splits)
  have "validate_facts (pl_lower p) \<lparr>mount_point = mount_point f, filesystem = []\<rparr> = None"
    "validate_facts (pl_lower p) \<lparr>mount_point = [], filesystem = filesystem f\<rparr> = None"
    using assms(1) validate_facts_empty
    by (auto simp: sanitize_facts_def Let_def split: if_splits)
  then have "validate_facts (pl_lower p) \<lparr>mount_point = mount_point f, filesystem = filesystem f\<rparr> = None"
    by (rule validate_facts_parts)
  then show "validate_facts (pl_lower p) f = None" by (simp add: facts_eta)
qed

lemma access_words [simp]:
  "access_missing \<noteq> access_ok" "access_denied \<noteq> access_ok" "access_failed \<noteq> access_ok"
  "access_denied \<noteq> access_missing" "access_failed \<noteq> access_missing" "access_failed \<noteq> access_denied"
  "access_ok \<noteq> access_missing" "access_ok \<noteq> access_denied" "access_ok \<noteq> access_failed"
  "access_missing \<noteq> access_denied" "access_missing \<noteq> access_failed" "access_denied \<noteq> access_failed"
  by (simp_all add: probe_words)

lemma access_class: "fst (classify_open_error e) \<in> {access_missing, access_denied, access_failed}"
  by (auto simp: classify_open_error_def classify_error_code_def split: option.splits)

lemma opened_accepted:
  "m = [] \<or> hr_kind q = probe_vault_create \<Longrightarrow>
   validate_helper_response p q ((opened_response p w n)\<lparr>hp_missing_tail := m, hp_version := helper_version\<rparr>) = None"
proof -
  assume m: "m = [] \<or> hr_kind q = probe_vault_create"
  obtain f fails where s: "sanitize_facts p (observe_facts p w n) = (f, fails)" by (cases "sanitize_facts p (observe_facts p w n)")
  from sanitized [OF s observe_steps] m show ?thesis
    by (auto simp: validate_helper_response_def opened_response_def s response_facts_def facts_eta)
qed

lemma failed_accepted:
  assumes "step = step_open_folder \<or> step = step_read_entry"
    and "a \<in> {access_missing, access_denied, access_failed}"
    and "(a = access_missing \<and> hr_mount_point q \<noteq> []) = (c \<noteq> None)"
    and "\<And>k. c = Some k \<Longrightarrow> mount_check_error k = None"
  shows "validate_helper_response p q ((failed_access step e)\<lparr>hp_access := a, hp_recorded_mount := c,
      hp_version := helper_version\<rparr>) = None"
  using assms validate_facts_empty
  by (auto simp: validate_helper_response_def failed_access_def response_facts_def facts_empty_def
      split: option.split)

lemma recorded_mount_accepted: "mount_check_error (check_recorded_mount p w point) = None"
  by (auto simp: check_recorded_mount_def mount_check_error_def Let_def probe_words split: sum.splits prod.splits)

lemma failed_parts:
  "hp_access (failed_access step e) = fst (classify_open_error e)"
  "(failed_access step e)\<lparr>hp_version := v\<rparr> =
     (failed_access step e)\<lparr>hp_access := fst (classify_open_error e), hp_recorded_mount := None, hp_version := v\<rparr>"
  by (simp_all add: failed_access_def)

lemma probe_folder_cases:
  obtains (opened) n where "open_directory w path = Inr n" "probe_folder p w path re = opened_response p w n"
  | (failed) step e a where "step = step_open_folder \<or> step = step_read_entry"
      "a \<in> {access_missing, access_denied, access_failed}"
      "probe_folder p w path re = (failed_access step e)\<lparr>hp_access := a\<rparr>"
proof (cases "open_directory w path")
  case (Inl e)
  moreover have "failed_access step_open_folder e =
      (failed_access step_open_folder e)\<lparr>hp_access := fst (classify_open_error e)\<rparr>"
    by (simp add: failed_access_def)
  ultimately have "probe_folder p w path re =
      (failed_access step_open_folder e)\<lparr>hp_access := fst (classify_open_error e)\<rparr>"
    by (simp add: probe_folder_def)
  with access_class [of e] show thesis by (intro failed [of step_open_folder "fst (classify_open_error e)" e]) auto
next
  case (Inr n)
  show thesis
  proof (cases "if re then nd_read n else None")
    case None
    with Inr opened show thesis by (simp add: probe_folder_def)
  next
    case (Some e)
    let ?a = "if fst (classify_open_error e) = access_missing then access_failed else fst (classify_open_error e)"
    have "probe_folder p w path re = (failed_access step_read_entry e)\<lparr>hp_access := ?a\<rparr>"
      using Inr Some by (simp add: probe_folder_def failed_parts(1))
    with access_class [of e] show thesis by (intro failed [of step_read_entry ?a e]) auto
  qed
qed

lemma folder_accepted:
  assumes "hr_kind q \<noteq> probe_vault_create" "probe_folder p w path re = r"
  shows "validate_helper_response p q
    ((if hp_access r = access_missing \<and> hr_mount_point q \<noteq> []
      then r\<lparr>hp_recorded_mount := Some (check_recorded_mount p w (hr_mount_point q))\<rparr> else r)
     \<lparr>hp_version := helper_version\<rparr>) = None"
  using assms(2)
proof (cases rule: probe_folder_cases [of w path p re])
  case (opened n)
  have "(opened_response p w n)\<lparr>hp_version := helper_version\<rparr> =
      (opened_response p w n)\<lparr>hp_missing_tail := [], hp_version := helper_version\<rparr>"
    by (simp add: opened_response_def split: prod.split)
  moreover have "hp_access (opened_response p w n) = access_ok"
    by (simp add: opened_response_def split: prod.split)
  ultimately show ?thesis using opened assms(2) opened_accepted [of "[]" q p w n] by auto
next
  case (failed step e a)
  have r: "r = (failed_access step e)\<lparr>hp_access := a\<rparr>" using failed assms(2) by simp
  then have none: "r\<lparr>hp_version := helper_version\<rparr> =
      (failed_access step e)\<lparr>hp_access := a, hp_recorded_mount := None, hp_version := helper_version\<rparr>"
    by (simp add: failed_access_def)
  show ?thesis
    using failed_accepted [OF failed(1,2), of q "Some (check_recorded_mount p w (hr_mount_point q))" p e]
      failed_accepted [OF failed(1,2), of q None p e] recorded_mount_accepted [of p w "hr_mount_point q"] none
    by (auto simp: r)
qed

text \<open>
  C29. The two ends of the helper protocol agree: for every valid request on POSIX (with the facts read as on
  Linux) the helper answers, whatever the kernel reports, and the parent accepts the answer.  In
  particular the walk to an existing parent always ends.
\<close>

theorem helper_answer_accepted:
  assumes "\<not> pl_windows p" and "cwd_ok p" and "validate_helper_request p q = None"
  shows "\<exists>r. execute_request p w q = Some (Inr r) \<and> validate_helper_response p q r = None"
proof (cases "hr_kind q = probe_vault_create")
  case True
  from assms(3) have path: "normalize_configured_path p (hr_path q) = Inr (hr_path q)"
    by (auto simp: validate_helper_request_def validate_binding_path_def split: if_splits option.splits sum.splits)
  from posix_normalE [OF assms(1) this] obtain a where a: "hr_path q \<noteq> []"
    "\<not> contains_any (hr_path q) [CHR 0x00, CHR 0x0D, CHR 0x0A]"
    "posix_abs p (hr_path q) = Inr a" "hr_path q = path_clean a" .
  from posix_abs_rooted [OF a(3) assms(2) a(1,2)] obtain s where s: "a = path_clean s" "has_prefix s ''/''" by blast
  then have "hr_path q = path_clean s" using a(4) path_clean_idem by simp
  then have "has_prefix (hr_path q) ''/''" "path_clean (hr_path q) = hr_path q"
    using path_clean_idem [OF s(2)] by (simp_all add: path_clean_rooted [OF s(2)] has_prefix_def)
  from creation_walk_ends [OF this, of p w "[]"] obtain r where
    r: "probe_creation_parent p w (hr_path q) [] = Some r" "creation_answer p w r" by blast
  then have "execute_request p w q = Some (Inr (r\<lparr>hp_version := helper_version\<rparr>))"
    using assms(3) True by (simp add: execute_request_def)
  moreover have "hr_mount_point q = []"
    using assms(3) True by (auto simp: validate_helper_request_def split: if_splits option.splits)
  then have failed: "validate_helper_response p q ((failed_access step_open_folder e)
      \<lparr>hp_access := fst (classify_open_error e), hp_recorded_mount := None, hp_version := helper_version\<rparr>) = None"
    for e by (intro failed_accepted access_class) simp_all
  have "validate_helper_response p q (r\<lparr>hp_version := helper_version\<rparr>) = None"
    using r(2) opened_accepted [OF disjI2, OF True] failed
    by (auto simp: creation_answer_def failed_parts(2))
  ultimately show ?thesis by blast
next
  case False
  with assms(3) folder_accepted [OF False refl, of p w "hr_path q" "hr_kind q = probe_source"] show ?thesis
    by (auto simp: execute_request_def Let_def)
qed

definition sample_node :: node where
  "sample_node = \<lparr>nd_stat = None, nd_dir = True, nd_read = None, nd_statx = Inr 36, nd_fdinfo = Inl OtherError\<rparr>"

definition sample_world :: world where
  "sample_world = \<lparr>wd_open = (\<lambda>path. if path = ''/home'' then Inr sample_node else Inl (Errno 2)),
     wd_mountinfo = Inl (Errno 5)\<rparr>"

definition sample_request :: helper_request where
  "sample_request = \<lparr>hr_version = helper_version, hr_operation = ''probe'', hr_kind = probe_vault_create,
     hr_path = ''/home/data/x'', hr_mount_point = []\<rparr>"

theorem helper_answer_accepted_witness:
  "\<exists>r. execute_request sample_posix sample_world sample_request = Some (Inr r) \<and>
     validate_helper_response sample_posix sample_request r = None"
proof (rule helper_answer_accepted)
  show "\<not> pl_windows sample_posix" "cwd_ok sample_posix"
    by (simp_all add: cwd_ok_def sample_posix_def has_prefix_def contains_any_def)
  have "validate_binding_path sample_posix ''/home/data/x'' = None" by code_simp
  then show "validate_helper_request sample_posix sample_request = None"
    by (simp add: validate_helper_request_def sample_request_def)
qed

end
