(* ===== verification/StorageDecision.thy ===== *)
theory StorageDecision
  imports StorageProbe
begin

text \<open>
  From a probe to a decision (\<open>storageavailability/observer.go\<close>) and to the observation
  the database accepts (\<open>validateAvailabilityObservation\<close> in \<open>database/availability.go\<close>).
  The observer is an argument, as in the code; a context is read through its error.
\<close>

definition err_observer_unavailable :: go_error where
  "err_observer_unavailable = new_error ''bounded storage observation is unavailable''"

definition err_helper_slots_exhausted :: go_error where
  "err_helper_slots_exhausted = new_error ''storage helper slots are held by helpers that stopped responding''"

definition result_run :: string where "result_run = ''run''"
definition result_pause :: string where "result_pause = ''pause''"
definition result_error :: string where "result_error = ''error''"

definition step_helper :: string where "step_helper = ''helper''"
definition step_binding :: string where "step_binding = ''binding''"
definition step_path :: string where "step_path = ''path''"

definition reason_none :: string where "reason_none = []"
definition reason_not_checked :: string where "reason_not_checked = ''not_checked''"
definition reason_missing :: string where "reason_missing = ''storage_missing''"
definition reason_mismatch :: string where "reason_mismatch = ''identity_mismatch''"
definition reason_failed :: string where "reason_failed = ''observation_failed''"
definition reason_timeout :: string where "reason_timeout = ''observation_timeout''"
definition reason_slots :: string where "reason_slots = ''observation_slots_exhausted''"

lemmas reason_words = reason_none_def reason_not_checked_def reason_missing_def reason_mismatch_def
  reason_failed_def reason_timeout_def reason_slots_def

lemmas result_words = result_run_def result_pause_def result_error_def

section \<open>One probe\<close>

type_synonym observer = "helper_request \<Rightarrow> helper_response result"

text \<open>\<open>outer\<close> and \<open>bounded\<close> are the errors of the caller's and the probe's context after the call.\<close>

definition probe ::
    "platform \<Rightarrow> observer option \<Rightarrow> go_error option \<Rightarrow> go_error option \<Rightarrow>
     string \<Rightarrow> string \<Rightarrow> string \<Rightarrow> helper_response result" where
  "probe p obs outer bounded path kind point =
     (case validate_binding_path p path of
        Some e \<Rightarrow> Inl e
      | None \<Rightarrow>
          (case obs of
             None \<Rightarrow> Inl err_observer_unavailable
           | Some observe \<Rightarrow>
               let q = \<lparr>hr_version = helper_version, hr_operation = ''probe'', hr_kind = kind,
                        hr_path = path, hr_mount_point = point\<rparr> in
               (case observe q of
                  Inl e \<Rightarrow>
                    if errors_is e context_canceled \<or>
                       (case outer of None \<Rightarrow> False | Some o' \<Rightarrow> errors_is o' context_canceled)
                    then Inl context_canceled
                    else if errors_is e err_helper_slots_exhausted then Inl err_helper_slots_exhausted
                    else if errors_is e deadline_exceeded \<or>
                       (case bounded of None \<Rightarrow> False | Some b \<Rightarrow> errors_is b deadline_exceeded)
                    then Inl deadline_exceeded
                    else Inl err_observer_unavailable
                | Inr r \<Rightarrow>
                    (case validate_helper_response p q r of
                       Some e \<Rightarrow> Inl err_observer_unavailable
                     | None \<Rightarrow> Inr r))))"

section \<open>The decision\<close>

record check =
  ck_result :: string
  ck_reason :: string
  ck_step :: string
  ck_code :: int
  ck_observed :: facts
  ck_legacy :: bool
  ck_canceled :: bool

definition plain_check :: "string \<Rightarrow> string \<Rightarrow> string \<Rightarrow> int \<Rightarrow> check" where
  "plain_check result reason step code =
     \<lparr>ck_result = result, ck_reason = reason, ck_step = step, ck_code = code,
      ck_observed = \<lparr>mount_point = [], filesystem = []\<rparr>, ck_legacy = False, ck_canceled = False\<rparr>"

definition canceled_check :: check where
  "canceled_check = (plain_check result_pause reason_timeout step_helper 0)\<lparr>ck_canceled := True\<rparr>"

definition error_check :: "string \<Rightarrow> string \<Rightarrow> int \<Rightarrow> check" where
  "error_check = plain_check result_error"

definition pause_check :: "string \<Rightarrow> string \<Rightarrow> int \<Rightarrow> check" where
  "pause_check = plain_check result_pause"

definition decide :: "platform \<Rightarrow> facts \<Rightarrow> bool \<Rightarrow> helper_response result \<Rightarrow> check" where
  "decide p recorded legacy answer =
     (case answer of
        Inl e \<Rightarrow>
          if errors_is e err_helper_slots_exhausted then pause_check reason_slots step_helper 0
          else if errors_is e deadline_exceeded then pause_check reason_timeout step_helper 0
          else error_check reason_failed step_helper 0
      | Inr r \<Rightarrow>
          if hp_access r = access_ok then
            (let check = (plain_check result_run reason_none [] 0)
                   \<lparr>ck_observed := response_facts r, ck_legacy := legacy\<rparr> in
             if legacy then check
             else if mount_point recorded \<noteq> [] \<and> hp_mount_point r = []
             then pause_check reason_failed step_mount_point (fact_failure_code step_mount_point r)
             else if mount_point recorded \<noteq> [] \<and>
                     \<not> same_mount_point (pl_lower p) (mount_point recorded) (hp_mount_point r)
             then pause_check reason_mismatch step_mount_point 0
             else if filesystem recorded \<noteq> [] \<and> hp_filesystem r = []
             then pause_check reason_failed step_filesystem_type (fact_failure_code step_filesystem_type r)
             else if filesystem recorded \<noteq> [] \<and>
                     normalize_filesystem (pl_lower p) (filesystem recorded) \<noteq> hp_filesystem r
             then pause_check reason_mismatch step_filesystem_type 0
             else check)
          else if hp_access r = access_missing then
            (if legacy then pause_check reason_missing (hp_step r) (hp_code r)
             else if mount_point recorded = [] then error_check reason_missing (hp_step r) (hp_code r)
             else case hp_recorded_mount r of
               None \<Rightarrow> error_check reason_missing (hp_step r) (hp_code r)
             | Some m \<Rightarrow>
                 if mc_state m = mount_present then error_check reason_missing (hp_step r) (hp_code r)
                 else if mc_state m = mount_absent then pause_check reason_missing (hp_step r) (hp_code r)
                 else if mc_state m = mount_denied then error_check reason_failed (mc_step m) (mc_code m)
                 else pause_check reason_failed (mc_step m) (mc_code m))
          else if hp_access r = access_denied then error_check reason_failed (hp_step r) (hp_code r)
          else pause_check reason_failed (hp_step r) (hp_code r))"

text \<open>
  The support log keeps one entry per subject while the decision does not change; a
  message is the tuple of its fixed labels.
\<close>

record support =
  su_last :: "string \<rightharpoonup> string \<times> string \<times> string \<times> string \<times> int"
  su_log :: "(string \<times> string \<times> string \<times> string \<times> int) list"

definition record_decision :: "string \<Rightarrow> string \<Rightarrow> check \<Rightarrow> support \<Rightarrow> support" where
  "record_decision key stage c s =
     (if ck_result c = result_run then s\<lparr>su_last := (su_last s)(key := None)\<rparr>
      else
        let message = (stage, ck_result c, ck_reason c, ck_step c, ck_code c) in
        if su_last s key = Some message then s
        else s\<lparr>su_last := (su_last s)(key \<mapsto> message), su_log := su_log s @ [message]\<rparr>)"

section \<open>Sources and vaults\<close>

record job_source =
  js_id :: string
  js_source :: string
  js_resolved :: string
  js_version :: string
  js_key :: string
  js_json :: string

record vault_location =
  vl_id :: string
  vl_connector :: string
  vl_location :: string
  vl_canonical :: string
  vl_version :: string
  vl_key :: string
  vl_json :: string

text \<open>What a check needs beside its subject: the probe's observer and the contexts around it.\<close>

record probing =
  pr_platform :: platform
  pr_json :: binding_json
  pr_observer :: "observer option"
  pr_outer :: "go_error option"
  pr_bounded :: "go_error option"

definition source_location :: "job_source \<Rightarrow> string" where
  "source_location job = (if js_resolved job \<noteq> [] then js_resolved job else js_source job)"

definition check_source_path :: "probing \<Rightarrow> job_source \<Rightarrow> string \<Rightarrow> support \<Rightarrow> check \<times> support" where
  "check_source_path pr job path s =
     (let p = pr_platform pr;
          path_error = errors_join [validate_binding_path p path, validate_binding_path p (js_source job)];
          decoded = decode_binding p (pr_json pr) (js_version job) (js_key job) (js_json job) (js_source job);
          recorded = (\<lambda>c. (c, if pr_outer pr = None
            then record_decision (''source:'' @ js_id job) ''source_before_run'' c s else s)) in
      if path_error \<noteq> None then recorded (error_check reason_mismatch step_path 0)
      else case decoded of
        Inl e \<Rightarrow> recorded (error_check reason_mismatch step_binding 0)
      | Inr (f, legacy) \<Rightarrow>
          if path \<noteq> source_location job then recorded (error_check reason_mismatch step_binding 0)
          else
            let answer = probe p (pr_observer pr) (pr_outer pr) (pr_bounded pr) path probe_source (mount_point f) in
            if (case answer of Inl e \<Rightarrow> errors_is e context_canceled | Inr _ \<Rightarrow> False)
            then (canceled_check, s)
            else recorded (decide p f legacy answer))"

definition check_source :: "probing \<Rightarrow> job_source \<Rightarrow> support \<Rightarrow> check \<times> support" where
  "check_source pr job = check_source_path pr job (source_location job)"

definition check_repository :: "probing \<Rightarrow> vault_location \<Rightarrow> support \<Rightarrow> check \<times> support" where
  "check_repository pr repo s =
     (if vl_connector repo \<noteq> ''fs'' then (plain_check result_run reason_none [] 0, s)
      else
        let p = pr_platform pr;
            decoded = decode_binding p (pr_json pr) (vl_version repo) (vl_key repo) (vl_json repo) (vl_location repo);
            recorded = (\<lambda>c. (c, if pr_outer pr = None
              then record_decision (''vault:'' @ vl_id repo) ''vault_before_run'' c s else s)) in
        if validate_binding_path p (vl_location repo) \<noteq> None
        then recorded (error_check reason_mismatch step_path 0)
        else case decoded of
          Inl e \<Rightarrow> recorded (error_check reason_mismatch step_binding 0)
        | Inr (f, legacy) \<Rightarrow>
            let answer = probe p (pr_observer pr) (pr_outer pr) (pr_bounded pr) (vl_location repo) probe_vault
                  (mount_point f) in
            if (case answer of Inl e \<Rightarrow> errors_is e context_canceled | Inr _ \<Rightarrow> False)
            then (canceled_check, s)
            else recorded (decide p f legacy answer))"

section \<open>Observations\<close>

record conversion =
  cv_location :: string
  cv_from_version :: string
  cv_from_key :: string
  cv_from_json :: string
  cv_to_version :: string
  cv_to_key :: string
  cv_to_json :: string

record observation =
  ob_state :: string
  ob_reason :: string
  ob_checked_at :: int
  ob_conclusive :: bool
  ob_conversion :: "conversion option"

definition storage_available :: string where "storage_available = ''available''"
definition storage_unavailable :: string where "storage_unavailable = ''unavailable''"
definition storage_unknown :: string where "storage_unknown = ''unknown''"

lemmas storage_words = storage_available_def storage_unavailable_def storage_unknown_def

definition check_observation :: "int \<Rightarrow> check \<Rightarrow> observation" where
  "check_observation now c =
     (if ck_result c = result_run then
        \<lparr>ob_state = storage_available, ob_reason = [], ob_checked_at = now, ob_conclusive = False, ob_conversion = None\<rparr>
      else if ck_result c = result_pause then
        \<lparr>ob_state = storage_unavailable, ob_reason = ck_reason c, ob_checked_at = now, ob_conclusive = False,
         ob_conversion = None\<rparr>
      else
        \<lparr>ob_state = storage_unknown, ob_reason = ck_reason c, ob_checked_at = now, ob_conclusive = True,
         ob_conversion = None\<rparr>)"

definition observe_source :: "probing \<Rightarrow> int \<Rightarrow> job_source \<Rightarrow> support \<Rightarrow> observation" where
  "observe_source pr now job s =
     (let c = fst (check_source pr job s); ob = check_observation now c in
      if ck_result c = result_run \<and> ck_legacy c then
        (case encode_binding (pr_platform pr) (pr_json pr) (ck_observed c) of
           Inl e \<Rightarrow> ob
         | Inr encoded \<Rightarrow> ob\<lparr>ob_conversion := Some
             \<lparr>cv_location = source_location job, cv_from_version = js_version job, cv_from_key = js_key job,
              cv_from_json = js_json job, cv_to_version = binding_version, cv_to_key = js_source job,
              cv_to_json = encoded\<rparr>\<rparr>)
      else ob)"

definition observe_repository :: "probing \<Rightarrow> int \<Rightarrow> vault_location \<Rightarrow> support \<Rightarrow> observation" where
  "observe_repository pr now repo s =
     (if vl_connector repo \<noteq> ''fs'' then
        \<lparr>ob_state = storage_available, ob_reason = [], ob_checked_at = now, ob_conclusive = False, ob_conversion = None\<rparr>
      else check_observation now (fst (check_repository pr repo s)))"

text \<open>Times are nanoseconds since the zero time, so zero is \<open>IsZero\<close>.\<close>

definition validate_availability_observation :: "observation \<Rightarrow> int \<Rightarrow> go_error option" where
  "validate_availability_observation ob now =
     (if ob_checked_at ob = 0 then Some (new_error ''storage availability check time is required'')
      else if ob_checked_at ob > now + 1000000000
      then Some (new_error ''storage availability check time is in the future'')
      else
        let state_error =
          (if ob_state ob = storage_available then
             (if ob_reason ob \<noteq> reason_none
              then Some (new_error ''available storage must not contain an unavailable reason'') else None)
           else if ob_state ob = storage_unavailable then
             (if ob_reason ob \<notin> {reason_missing, reason_mismatch, reason_failed, reason_timeout, reason_slots}
              then Some (new_error ''storage availability reason is invalid'') else None)
           else if ob_state ob = storage_unknown then
             (if ob_reason ob \<notin> {reason_not_checked, reason_failed, reason_timeout, reason_mismatch, reason_missing}
              then Some (new_error ''unknown storage availability reason is invalid'') else None)
           else Some (new_error ''storage availability state is invalid'')) in
        if state_error \<noteq> None then state_error
        else if ob_conclusive ob \<and> (ob_state ob \<noteq> storage_unknown \<or>
               ob_reason ob \<notin> {reason_mismatch, reason_failed, reason_missing})
        then Some (new_error ''conclusive storage failure classification is invalid'')
        else if ob_conversion ob \<noteq> None \<and> ob_state ob \<noteq> storage_available
        then Some (new_error ''source binding conversion requires an available observation'')
        else None)"

section \<open>Requirements of a run\<close>

text \<open>The typed errors of the two admissions: the reason, wrapping the unavailable error for a pause.\<close>

definition err_source_unavailable :: go_error where
  "err_source_unavailable = new_error ''source storage is unavailable''"

definition err_repository_unavailable :: go_error where
  "err_repository_unavailable = new_error ''repository storage is unavailable''"

definition require_source_path_available :: "probing \<Rightarrow> job_source \<Rightarrow> string \<Rightarrow> support \<Rightarrow> go_error option" where
  "require_source_path_available pr job path s =
     (let c = fst (check_source_path pr job path s) in
      if ck_canceled c \<or> (case pr_outer pr of None \<Rightarrow> False | Some e \<Rightarrow> errors_is e context_canceled)
      then Some context_canceled
      else if ck_result c = result_run then None
      else if ck_result c = result_pause then Some (wrap_error (ck_reason c) err_source_unavailable)
      else Some (new_error (''source storage validation failed: '' @ ck_reason c)))"

definition admit_repository_storage :: "probing \<Rightarrow> vault_location \<Rightarrow> support \<Rightarrow> check \<times> go_error option" where
  "admit_repository_storage pr repo s =
     (let c = fst (check_repository pr repo s) in
      (c, if ck_canceled c \<or> (case pr_outer pr of None \<Rightarrow> False | Some e \<Rightarrow> errors_is e context_canceled)
          then Some context_canceled
          else if ck_result c = result_run then None
          else if ck_result c = result_pause then Some (wrap_error (ck_reason c) err_repository_unavailable)
          else Some (new_error (''repository storage validation failed: '' @ ck_reason c))))"

section \<open>Saving a binding\<close>

record binding_failure =
  bf_reason :: string
  bf_step :: string
  bf_code :: int
  bf_permission_denied :: bool
  bf_timeout :: bool

datatype bind_error = BindCanceled | BindFailure binding_failure | BindRefused go_error

definition bind_failure :: "string \<Rightarrow> string \<Rightarrow> int \<Rightarrow> bind_error" where
  "bind_failure reason step code = BindFailure \<lparr>bf_reason = reason, bf_step = step, bf_code = code,
     bf_permission_denied = False, bf_timeout = False\<rparr>"

definition is_permission_denied :: "bind_error \<Rightarrow> bool" where
  "is_permission_denied e = (case e of BindFailure f \<Rightarrow> bf_permission_denied f | _ \<Rightarrow> False)"

definition resolution_reason :: "bind_error \<Rightarrow> string" where
  "resolution_reason e =
     (case e of
        BindFailure f \<Rightarrow> if bf_reason f \<noteq> [] then bf_reason f
          else if bf_timeout f then reason_timeout else reason_failed
      | BindCanceled \<Rightarrow> reason_failed
      | BindRefused g \<Rightarrow> if errors_is g deadline_exceeded then reason_timeout else reason_failed)"

definition resolution_step :: "bind_error \<Rightarrow> string \<times> int" where
  "resolution_step e = (case e of BindFailure f \<Rightarrow> (bf_step f, bf_code f) | _ \<Rightarrow> (step_helper, 0))"

record stored_binding =
  sb_version :: string
  sb_key :: string
  sb_json :: string

definition bind_filesystem ::
    "probing \<Rightarrow> string \<Rightarrow> string \<Rightarrow> string \<Rightarrow> support \<Rightarrow> (bind_error + stored_binding) \<times> support" where
  "bind_filesystem pr path kind stage s =
     (let p = pr_platform pr in
      if validate_binding_path p path \<noteq> None then (Inl (bind_failure reason_failed step_path 0), s)
      else case probe p (pr_observer pr) (pr_outer pr) (pr_bounded pr) path kind [] of
        Inl e \<Rightarrow>
          if errors_is e context_canceled then (Inl BindCanceled, s)
          else if errors_is e err_helper_slots_exhausted then (Inl (bind_failure reason_slots step_helper 0), s)
          else if errors_is e deadline_exceeded
          then (Inl (BindFailure \<lparr>bf_reason = reason_timeout, bf_step = step_helper, bf_code = 0,
                  bf_permission_denied = False, bf_timeout = True\<rparr>), s)
          else (Inl (bind_failure reason_failed step_helper 0), s)
      | Inr r \<Rightarrow>
          if hp_access r = access_ok then
            (let s' = s\<lparr>su_log := su_log s @
                   map (\<lambda>f. (stage, [], ''fact_unavailable'', ff_step f, ff_code f)) (hp_fact_failures r)\<rparr> in
             case encode_binding p (pr_json pr) (response_facts r) of
               Inl e \<Rightarrow> (Inl (bind_failure reason_failed step_helper 0), s')
             | Inr encoded \<Rightarrow>
                 (Inr \<lparr>sb_version = binding_version, sb_key = path, sb_json = encoded\<rparr>, s'))
          else if hp_access r = access_missing then (Inl (bind_failure reason_missing (hp_step r) (hp_code r)), s)
          else if hp_access r = access_denied
          then (Inl (BindFailure \<lparr>bf_reason = reason_failed, bf_step = hp_step r, bf_code = hp_code r,
                  bf_permission_denied = True, bf_timeout = False\<rparr>), s)
          else (Inl (bind_failure reason_failed (hp_step r) (hp_code r)), s))"

text \<open>\<open>identity\<close> is \<open>vaultidentity.PhysicalIdentityWithOptions\<close> on the vault's address.\<close>

definition bind_repository ::
    "(vault_location \<Rightarrow> string result) \<Rightarrow> probing \<Rightarrow> vault_location \<Rightarrow> bool \<Rightarrow> support \<Rightarrow>
     (bind_error + vault_location) \<times> support" where
  "bind_repository identity pr repo creation s =
     (if vl_connector repo \<noteq> ''fs'' then
        (if vl_version repo \<noteq> [] \<or> vl_key repo \<noteq> [] \<or> vl_json repo \<noteq> []
         then (Inl (BindRefused (new_error ''direct connector contains a filesystem storage binding'')), s)
         else case identity repo of
           Inl e \<Rightarrow> (Inl (BindRefused e), s)
         | Inr i \<Rightarrow> (Inr (repo\<lparr>vl_canonical := i\<rparr>), s))
      else case normalize_configured_path (pr_platform pr) (vl_location repo) of
        Inl e \<Rightarrow> (Inl (BindRefused e), s)
      | Inr configured \<Rightarrow>
          (case bind_filesystem pr configured (if creation then probe_vault_create else probe_vault)
                  (if creation then ''vault_create_destination'' else ''vault_connect_destination'') s of
             (Inl e, s') \<Rightarrow> (Inl e, s')
           | (Inr b, s') \<Rightarrow>
               (Inr (repo\<lparr>vl_location := configured, vl_canonical := configured, vl_version := sb_version b,
                       vl_key := sb_key b, vl_json := sb_json b\<rparr>), s')))"

definition bind_job_source ::
    "probing \<Rightarrow> job_source \<Rightarrow> string \<Rightarrow> support \<Rightarrow> (bind_error + job_source) \<times> support" where
  "bind_job_source pr job stage s =
     (case normalize_configured_path (pr_platform pr) (js_source job) of
        Inl e \<Rightarrow> (Inl (BindRefused e), s)
      | Inr configured \<Rightarrow>
          (case bind_filesystem pr configured probe_source stage s of
             (Inl e, s') \<Rightarrow> (Inl e, s')
           | (Inr b, s') \<Rightarrow>
               (Inr (job\<lparr>js_source := configured, js_version := sb_version b, js_key := sb_key b,
                       js_json := sb_json b\<rparr>), s')))"

definition bind_job_source_alias ::
    "probing \<Rightarrow> job_source \<Rightarrow> string \<Rightarrow> support \<Rightarrow> (bind_error + job_source) \<times> support" where
  "bind_job_source_alias pr job location s =
     (case normalize_configured_path (pr_platform pr) location of
        Inl e \<Rightarrow> (Inl (BindRefused e), s)
      | Inr configured \<Rightarrow>
          (case validate_binding_path (pr_platform pr) (js_source job) of
             Some e \<Rightarrow> (Inl (BindRefused e), s)
           | None \<Rightarrow>
               (case bind_filesystem pr configured probe_source ''job_source_update'' s of
                  (Inl e, s') \<Rightarrow> (Inl e, s')
                | (Inr b, s') \<Rightarrow>
                    (Inr (job\<lparr>js_resolved := (if configured = js_source job then [] else configured),
                            js_version := sb_version b, js_key := js_source job, js_json := sb_json b\<rparr>), s'))))"

section \<open>The helper as observer\<close>

text \<open>The observer that runs the helper of \<open>StorageProbe\<close> on a file system.\<close>

definition run_helper :: "platform \<Rightarrow> world \<Rightarrow> observer" where
  "run_helper p w q = (case execute_request p w q of Some r \<Rightarrow> r | None \<Rightarrow> Inl deadline_exceeded)"

definition folder_answer :: "platform \<Rightarrow> world \<Rightarrow> string \<Rightarrow> string \<Rightarrow> string \<Rightarrow> helper_response" where
  "folder_answer p w path kind point =
     (let r = probe_folder p w path (kind = probe_source) in
      (if hp_access r = access_missing \<and> point \<noteq> []
       then r\<lparr>hp_recorded_mount := Some (check_recorded_mount p w point)\<rparr> else r)
      \<lparr>hp_version := helper_version\<rparr>)"

definition point_ok :: "string \<Rightarrow> bool" where
  "point_ok point \<longleftrightarrow> length point \<le> max_fact_bytes \<and> \<not> has_control point \<and> (point \<noteq> [] \<longrightarrow> trim_space point \<noteq> [])"

lemma probe_kinds [simp]:
  "probe_source \<noteq> probe_vault_create" "probe_vault \<noteq> probe_vault_create" "probe_vault \<noteq> probe_source"
  "probe_vault_create \<noteq> probe_source" "probe_vault_create \<noteq> probe_vault" "probe_source \<noteq> probe_vault"
  by (simp_all add: probe_words)

lemma probe_helper:
  assumes "validate_binding_path p path = None" "kind \<in> {probe_source, probe_vault}" "point_ok point"
  shows "probe p (Some (run_helper p w)) outer bounded path kind point = Inr (folder_answer p w path kind point)"
proof -
  let ?q = "\<lparr>hr_version = helper_version, hr_operation = ''probe'', hr_kind = kind, hr_path = path,
      hr_mount_point = point\<rparr>"
  have kind: "kind \<noteq> probe_vault_create" using assms(2) by auto
  have "validate_helper_request p ?q = None"
    using assms by (auto simp: validate_helper_request_def point_ok_def)
  then have "run_helper p w ?q = Inr (folder_answer p w path kind point)"
    using kind by (simp add: run_helper_def execute_request_def folder_answer_def Let_def)
  moreover have "validate_helper_response p ?q (folder_answer p w path kind point) = None"
    using folder_accepted [of ?q p w path "kind = probe_source", OF _ refl] kind
    unfolding folder_answer_def Let_def helper_request.select_convs by blast
  ultimately show ?thesis using assms(1) by (simp add: probe_def)
qed

lemma folder_answer_access:
  "hp_access (folder_answer p w path kind point) = hp_access (probe_folder p w path (kind = probe_source))"
  by (simp add: folder_answer_def Let_def)

lemma folder_answer_opened:
  assumes "open_directory w path = Inr n" "kind = probe_source \<longrightarrow> nd_read n = None"
  shows "hp_access (folder_answer p w path kind point) = access_ok"
    "response_facts (folder_answer p w path kind point) = fst (sanitize_facts p (observe_facts p w n))"
  using assms
  by (auto simp: folder_answer_def probe_folder_def Let_def opened_response_def response_facts_def facts_eta
      split: prod.split)

lemma folder_answer_ok:
  assumes "hp_access (folder_answer p w path kind point) = access_ok"
  obtains n where "open_directory w path = Inr n" "kind = probe_source \<longrightarrow> nd_read n = None"
proof (cases rule: probe_folder_cases [of w path p "kind = probe_source"])
  case (opened n)
  moreover have "kind = probe_source \<longrightarrow> nd_read n = None"
  proof (rule ccontr)
    assume "\<not> (kind = probe_source \<longrightarrow> nd_read n = None)"
    then obtain e where "kind = probe_source" "nd_read n = Some e" by auto
    with opened(1) have "hp_access (probe_folder p w path (kind = probe_source)) \<noteq> access_ok"
      using access_class [of e] by (auto simp: probe_folder_def Let_def failed_parts(1))
    with assms show False by (simp add: folder_answer_access)
  qed
  ultimately show thesis using that by blast
next
  case (failed step e a)
  with assms show thesis by (auto simp: folder_answer_access)
qed

section \<open>When work may run\<close>

definition facts_match :: "platform \<Rightarrow> facts \<Rightarrow> facts \<Rightarrow> bool" where
  "facts_match p recorded seen \<longleftrightarrow>
     (mount_point recorded \<noteq> [] \<longrightarrow> same_mount_point (pl_lower p) (mount_point recorded) (mount_point seen)) \<and>
     (filesystem recorded \<noteq> [] \<longrightarrow> filesystem seen \<noteq> [] \<and>
        normalize_filesystem (pl_lower p) (filesystem recorded) = filesystem seen)"

lemma plain_check_simps [simp]:
  "ck_result (plain_check a b c d) = a" "ck_reason (plain_check a b c d) = b"
  "ck_canceled (plain_check a b c d) = False" "ck_legacy (plain_check a b c d) = False"
  by (simp_all add: plain_check_def)

lemma result_words_distinct [simp]:
  "result_pause \<noteq> result_run" "result_error \<noteq> result_run" "result_pause \<noteq> result_error"
  "result_run \<noteq> result_pause" "result_run \<noteq> result_error" "result_error \<noteq> result_pause"
  by (simp_all add: result_words)

lemma decide_run:
  "ck_result (decide p f legacy (Inr r)) = result_run \<longleftrightarrow>
     hp_access r = access_ok \<and> (legacy \<or> facts_match p f (response_facts r))"
  by (auto simp: decide_def Let_def pause_check_def error_check_def facts_match_def same_mount_point_def
      response_facts_def split: option.splits)

lemma decode_binding_ok:
  assumes "decode_binding p j version key json configured = Inr (f, legacy)"
  shows "legacy \<Longrightarrow> f = \<lparr>mount_point = [], filesystem = []\<rparr>"
    and "\<not> legacy \<Longrightarrow> validate_facts (pl_lower p) f = None"
  using assms
  by (auto simp: decode_binding_def encode_binding_def split: if_splits option.splits prod.splits sum.splits)

lemma decoded_point_ok:
  assumes "decode_binding p j version key json configured = Inr (f, legacy)"
  shows "point_ok (mount_point f)"
proof (cases legacy)
  case True
  with decode_binding_ok(1) [OF assms] show ?thesis by (simp add: point_ok_def)
next
  case False
  with decode_binding_ok(2) [OF assms] show ?thesis
    by (auto simp: point_ok_def validate_facts_def split: if_splits)
qed

text \<open>The answer a check of a vault decides on, and the check's result.\<close>

lemma check_repository_result:
  assumes "vl_connector repo = ''fs''" "pr_observer pr = Some (run_helper (pr_platform pr) w)"
    and "decode_binding (pr_platform pr) (pr_json pr) (vl_version repo) (vl_key repo) (vl_json repo)
      (vl_location repo) = Inr (f, legacy)"
    and "validate_binding_path (pr_platform pr) (vl_location repo) = None"
  shows "fst (check_repository pr repo s) =
    decide (pr_platform pr) f legacy (Inr (folder_answer (pr_platform pr) w (vl_location repo) probe_vault (mount_point f)))"
  using assms probe_helper [OF assms(4) _ decoded_point_ok [OF assms(3)], of probe_vault w]
  by (simp add: check_repository_def Let_def)

lemma check_repository_refused:
  assumes "vl_connector repo = ''fs''"
    and "validate_binding_path (pr_platform pr) (vl_location repo) \<noteq> None \<or>
      (\<exists>e. decode_binding (pr_platform pr) (pr_json pr) (vl_version repo) (vl_key repo) (vl_json repo)
        (vl_location repo) = Inl e)"
  shows "ck_result (fst (check_repository pr repo s)) = result_error"
  using assms by (auto simp: check_repository_def Let_def error_check_def)

text \<open>
  C30. A vault's work runs exactly when its folder opens now and every recorded fact is
  observed again on the opened folder; only a binding from before the facts were recorded
  runs on the opened folder alone.  An empty folder left behind by an unmounted share, a
  different file system mounted there and an unreadable binding never run.
\<close>

theorem run_needs_facts:
  assumes "vl_connector repo = ''fs''" and "pr_observer pr = Some (run_helper (pr_platform pr) w)"
  shows "ck_result (fst (check_repository pr repo s)) = result_run \<longleftrightarrow>
    validate_binding_path (pr_platform pr) (vl_location repo) = None \<and>
    (\<exists>f legacy n. decode_binding (pr_platform pr) (pr_json pr) (vl_version repo) (vl_key repo) (vl_json repo)
        (vl_location repo) = Inr (f, legacy) \<and>
      open_directory w (vl_location repo) = Inr n \<and>
      (legacy \<or> facts_match (pr_platform pr) f
         (fst (sanitize_facts (pr_platform pr) (observe_facts (pr_platform pr) w n)))))"
    (is "?run \<longleftrightarrow> ?path \<and> (\<exists>f legacy n. ?ok f legacy n)")
proof
  assume run: ?run
  then have none: "\<not> (validate_binding_path (pr_platform pr) (vl_location repo) \<noteq> None \<or>
      (\<exists>e. decode_binding (pr_platform pr) (pr_json pr) (vl_version repo) (vl_key repo) (vl_json repo)
        (vl_location repo) = Inl e))"
    using check_repository_refused [OF assms(1), of pr s] by (metis result_words_distinct(2))
  then have path: ?path by blast
  from none obtain f legacy where
    d: "decode_binding (pr_platform pr) (pr_json pr) (vl_version repo) (vl_key repo) (vl_json repo)
      (vl_location repo) = Inr (f, legacy)"
    by (cases "decode_binding (pr_platform pr) (pr_json pr) (vl_version repo) (vl_key repo) (vl_json repo)
      (vl_location repo)") auto
  let ?r = "folder_answer (pr_platform pr) w (vl_location repo) probe_vault (mount_point f)"
  from run check_repository_result [OF assms d path] have
    a: "hp_access ?r = access_ok" "legacy \<or> facts_match (pr_platform pr) f (response_facts ?r)"
    by (simp_all add: decide_run)
  from folder_answer_ok [OF a(1)] obtain n where "open_directory w (vl_location repo) = Inr n" .
  with a(2) d path show "?path \<and> (\<exists>f legacy n. ?ok f legacy n)"
    using folder_answer_opened(2) [of w "vl_location repo" n probe_vault] by fastforce
next
  assume "?path \<and> (\<exists>f legacy n. ?ok f legacy n)"
  then obtain f legacy n where path: ?path and ok: "?ok f legacy n" by blast
  then show ?run
    using check_repository_result [OF assms _ path] folder_answer_opened [of w "vl_location repo" n probe_vault]
    by (fastforce simp: decide_run)
qed

text \<open>
  C31. A vault folder that is gone is an error the user sees exactly when the recorded mount
  point is still mounted there or may not be read; when it is gone too, or answers anything
  else, the work pauses.
\<close>

theorem missing_folder_outcome:
  assumes "vl_connector repo = ''fs''" and "pr_observer pr = Some (run_helper (pr_platform pr) w)"
    and "validate_binding_path (pr_platform pr) (vl_location repo) = None"
    and "decode_binding (pr_platform pr) (pr_json pr) (vl_version repo) (vl_key repo) (vl_json repo)
      (vl_location repo) = Inr (f, False)"
    and "mount_point f \<noteq> []" and "open_directory w (vl_location repo) = Inl (Errno 2)"
  shows "ck_result (fst (check_repository pr repo s)) =
    (if (case open_directory w (mount_point f) of
           Inr n \<Rightarrow> same_mount_point (pl_lower (pr_platform pr))
             (mount_point (fst (observe_facts (pr_platform pr) w n))) (mount_point f)
         | Inl e \<Rightarrow> is_access_denied e)
     then result_error else result_pause)"
proof -
  let ?p = "pr_platform pr"
  let ?r = "folder_answer ?p w (vl_location repo) probe_vault (mount_point f)"
  let ?m = "check_recorded_mount ?p w (mount_point f)"
  have "probe_folder ?p w (vl_location repo) False = failed_access step_open_folder (Errno 2)"
    using assms(6) by (simp add: probe_folder_def)
  moreover have "hp_access (failed_access step_open_folder (Errno 2)) = access_missing"
    by (simp add: failed_access_def classify_open_error_def os_error_code_def classify_error_code_def)
  ultimately have r: "hp_access ?r = access_missing" "hp_recorded_mount ?r = Some ?m"
    using assms(5) by (simp_all add: folder_answer_def Let_def)
  then have "ck_result (decide ?p f False (Inr ?r)) =
      (if mc_state ?m = mount_present \<or> mc_state ?m = mount_denied then result_error else result_pause)"
    using assms(5) by (auto simp: decide_def error_check_def pause_check_def probe_words)
  moreover have "(mc_state ?m = mount_present \<or> mc_state ?m = mount_denied) \<longleftrightarrow>
      (case open_directory w (mount_point f) of
           Inr n \<Rightarrow> same_mount_point (pl_lower ?p) (mount_point (fst (observe_facts ?p w n))) (mount_point f)
         | Inl e \<Rightarrow> is_access_denied e)"
    by (auto simp: check_recorded_mount_def is_access_denied_def same_mount_point_def probe_words Let_def
        split: sum.split prod.split)
  ultimately show ?thesis using check_repository_result [OF assms(1,2,4,3)] by simp
qed

section \<open>Every observation is accepted\<close>

text \<open>The reasons each result may carry.\<close>

definition reasons_ok :: "check \<Rightarrow> bool" where
  "reasons_ok c \<longleftrightarrow>
     (if ck_result c = result_run then True
      else if ck_result c = result_pause
      then ck_reason c \<in> {reason_missing, reason_mismatch, reason_failed, reason_timeout, reason_slots}
      else ck_reason c \<in> {reason_mismatch, reason_failed, reason_missing})"

lemma decide_reasons: "reasons_ok (decide p f legacy a)"
proof (cases a)
  case (Inl e)
  then show ?thesis by (simp add: decide_def reasons_ok_def error_check_def pause_check_def)
next
  case (Inr r)
  consider "hp_access r = access_ok" | "hp_access r = access_missing"
    | "hp_access r \<noteq> access_ok" "hp_access r \<noteq> access_missing" by blast
  then show ?thesis
  proof cases
    case 1
    with Inr show ?thesis
      by (simp add: decide_def reasons_ok_def error_check_def pause_check_def Let_def)
  next
    case 2
    with Inr show ?thesis
      by (simp add: decide_def reasons_ok_def error_check_def pause_check_def split: option.split)
  next
    case 3
    with Inr show ?thesis by (simp add: decide_def reasons_ok_def error_check_def pause_check_def)
  qed
qed

lemma check_source_reasons: "reasons_ok (fst (check_source pr job s))"
proof -
  have "reasons_ok (error_check reason_mismatch step n)" "reasons_ok canceled_check" for step n
    by (simp_all add: reasons_ok_def error_check_def canceled_check_def plain_check_def)
  with decide_reasons show ?thesis
    by (simp add: check_source_def check_source_path_def Let_def split: sum.split prod.split)
qed

lemma check_repository_reasons: "reasons_ok (fst (check_repository pr repo s))"
proof -
  have "reasons_ok (error_check reason_mismatch step n)" "reasons_ok canceled_check"
    "reasons_ok (plain_check result_run reason_none step n)" for step n
    by (simp_all add: reasons_ok_def error_check_def canceled_check_def plain_check_def)
  with decide_reasons show ?thesis
    by (simp add: check_repository_def Let_def split: sum.split prod.split)
qed

lemma check_observation_accepted:
  assumes "reasons_ok c" "at \<noteq> 0" "at \<le> now + 1000000000"
  shows "validate_availability_observation (check_observation at c) now = None"
proof -
  consider "ck_result c = result_run" | "ck_result c = result_pause"
    | "ck_result c \<noteq> result_run" "ck_result c \<noteq> result_pause" by blast
  then show ?thesis
  proof cases
    case 1
    with assms show ?thesis
      by (simp add: check_observation_def validate_availability_observation_def reason_none_def)
  next
    case 2
    with assms have "ck_reason c \<in> {reason_missing, reason_mismatch, reason_failed, reason_timeout, reason_slots}"
      by (simp add: reasons_ok_def)
    with 2 assms(2,3) show ?thesis
      by (simp add: check_observation_def validate_availability_observation_def storage_words)
  next
    case 3
    with assms have "ck_reason c \<in> {reason_mismatch, reason_failed, reason_missing}"
      by (simp add: reasons_ok_def)
    with 3 assms(2,3) show ?thesis
      by (auto simp: check_observation_def validate_availability_observation_def storage_words)
  qed
qed

lemma observe_repository_checked:
  "observe_repository pr at repo s = check_observation at (fst (check_repository pr repo s))"
proof (cases "vl_connector repo = ''fs''")
  case False
  then have "ck_result (fst (check_repository pr repo s)) = result_run" by (simp add: check_repository_def)
  with False show ?thesis by (simp only: observe_repository_def check_observation_def if_True not_False_eq_True simp_thms)
qed (simp add: observe_repository_def)

lemma conversion_accepted:
  assumes "validate_availability_observation ob now = None" "ob_state ob = storage_available"
  shows "validate_availability_observation (ob\<lparr>ob_conversion := c\<rparr>) now = None"
proof -
  have "storage_available \<noteq> storage_unavailable" "storage_available \<noteq> storage_unknown" by (simp_all add: storage_words)
  with assms show ?thesis by (simp add: validate_availability_observation_def Let_def split: if_splits)
qed

lemma observe_source_cases:
  "observe_source pr at job s = check_observation at (fst (check_source pr job s)) \<or>
   (\<exists>c. ck_result (fst (check_source pr job s)) = result_run \<and>
     observe_source pr at job s = (check_observation at (fst (check_source pr job s)))\<lparr>ob_conversion := c\<rparr>)"
  unfolding observe_source_def Let_def by (auto split: sum.split)

text \<open>
  C32. Whatever the observer answers and however the contexts end, the observations of a
  source and of a vault are ones the admission transaction accepts: every result carries a
  reason the database knows for it, and a conversion only comes with available storage.
\<close>

theorem observations_accepted:
  assumes "at \<noteq> 0" and "at \<le> now + 1000000000"
  shows "validate_availability_observation (observe_source pr at job s) now = None \<and>
    validate_availability_observation (observe_repository pr at repo s) now = None"
proof
  note ok = check_observation_accepted [OF check_source_reasons assms, of pr job s]
  show "validate_availability_observation (observe_source pr at job s) now = None"
    using observe_source_cases [of pr at job s]
  proof (elim disjE exE conjE)
    fix c
    assume "ck_result (fst (check_source pr job s)) = result_run"
    then have "ob_state (check_observation at (fst (check_source pr job s))) = storage_available"
      by (simp add: check_observation_def)
    with ok show ?thesis if "observe_source pr at job s =
        (check_observation at (fst (check_source pr job s)))\<lparr>ob_conversion := c\<rparr>"
      using that by (simp only: conversion_accepted)
  qed (simp add: ok)
  show "validate_availability_observation (observe_repository pr at repo s) now = None"
    unfolding observe_repository_checked by (rule check_observation_accepted [OF check_repository_reasons assms])
qed

theorem observations_accepted_witness:
  "validate_availability_observation (observe_source
      \<lparr>pr_platform = sample_posix, pr_json = sample_json, pr_observer = None, pr_outer = None, pr_bounded = None\<rparr>
      5 \<lparr>js_id = ''j'', js_source = ''/home'', js_resolved = [], js_version = [], js_key = [], js_json = []\<rparr>
      \<lparr>su_last = Map.empty, su_log = []\<rparr>) 5 = None"
  by (rule observations_accepted [THEN conjunct1]) simp_all

section \<open>What is saved may run\<close>

lemma bind_filesystem_stored:
  assumes "pr_observer pr = Some (run_helper (pr_platform pr) w)" "json_ok (pr_json pr)"
    and utf8: "\<And>path n. open_directory w path = Inr n \<Longrightarrow> utf8_facts (fst (sanitize_facts (pr_platform pr) (observe_facts (pr_platform pr) w n)))"
    and "bind_filesystem pr path probe_source stage s = (Inr b, s')"
  obtains n where "validate_binding_path (pr_platform pr) path = None" "open_directory w path = Inr n"
    "nd_read n = None"
    "decode_binding (pr_platform pr) (pr_json pr) (sb_version b) path (sb_json b) path =
       Inr (fst (sanitize_facts (pr_platform pr) (observe_facts (pr_platform pr) w n)), False)"
    "sb_key b = path"
proof -
  let ?p = "pr_platform pr"
  have path: "validate_binding_path ?p path = None"
    using assms(4) by (auto simp: bind_filesystem_def Let_def split: if_splits)
  have "point_ok []" by (simp add: point_ok_def)
  from probe_helper [OF path _ this, of probe_source w "pr_outer pr" "pr_bounded pr"]
  have answer: "probe ?p (pr_observer pr) (pr_outer pr) (pr_bounded pr) path probe_source [] =
      Inr (folder_answer ?p w path probe_source [])"
    by (simp add: assms(1))
  with assms(4) path have ok: "hp_access (folder_answer ?p w path probe_source []) = access_ok"
    by (auto simp: bind_filesystem_def Let_def split: if_splits)
  with assms(4) path answer have b: "encode_binding ?p (pr_json pr)
      (response_facts (folder_answer ?p w path probe_source [])) = Inr (sb_json b)"
    "sb_version b = binding_version" "sb_key b = path"
    by (auto simp: bind_filesystem_def Let_def split: if_splits sum.splits)
  from folder_answer_ok [OF ok] obtain n where n: "open_directory w path = Inr n" "nd_read n = None"
    by auto
  with b(1) have "encode_binding ?p (pr_json pr) (fst (sanitize_facts ?p (observe_facts ?p w n))) = Inr (sb_json b)"
    by (simp add: folder_answer_opened(2))
  then show thesis using that path n b(2,3) decode_binding_stored [OF assms(2) utf8 [OF n(1)]] by blast
qed

lemma facts_match_refl: "validate_facts (pl_lower p) f = None \<Longrightarrow> facts_match p f f"
  by (auto simp: facts_match_def same_mount_point_def validate_facts_def split: if_splits)

lemma check_source_result:
  assumes "pr_observer pr = Some (run_helper (pr_platform pr) w)"
    and "validate_binding_path (pr_platform pr) (js_source job) = None"
    and "validate_binding_path (pr_platform pr) (source_location job) = None"
    and "decode_binding (pr_platform pr) (pr_json pr) (js_version job) (js_key job) (js_json job)
      (js_source job) = Inr (f, legacy)"
  shows "fst (check_source pr job s) = decide (pr_platform pr) f legacy
    (Inr (folder_answer (pr_platform pr) w (source_location job) probe_source (mount_point f)))"
proof -
  have "errors_join [validate_binding_path (pr_platform pr) (source_location job),
      validate_binding_path (pr_platform pr) (js_source job)] = None"
    using assms(2,3) by simp
  then show ?thesis
    using assms probe_helper [OF assms(3) _ decoded_point_ok [OF assms(4)], of probe_source w]
    by (simp add: check_source_def check_source_path_def Let_def del: errors_join_None)
qed

lemma empty_path_refused: "validate_binding_path p [] \<noteq> None"
  by (simp add: validate_binding_path_def normalize_configured_path_def validate_configured_path_def)

lemma bind_job_source_saved:
  assumes "bind_job_source pr job stage s = (Inr saved, s')" "js_resolved job = []"
  obtains b where "bind_filesystem pr (js_source saved) probe_source stage s = (Inr b, s')"
    "js_version saved = sb_version b" "js_json saved = sb_json b" "js_key saved = sb_key b"
    "source_location saved = js_source saved"
  using assms
  by (auto simp: bind_job_source_def source_location_def split: sum.splits prod.splits)

lemma bind_alias_saved:
  assumes "bind_job_source_alias pr job location s = (Inr saved, s')"
  obtains b path where "bind_filesystem pr path probe_source ''job_source_update'' s = (Inr b, s')"
    "js_version saved = sb_version b" "js_json saved = sb_json b" "js_key saved = js_source saved"
    "validate_binding_path (pr_platform pr) (js_source saved) = None"
    "path \<noteq> [] \<Longrightarrow> source_location saved = path"
  using assms
  by (auto simp: bind_job_source_alias_def source_location_def split: sum.splits prod.splits option.splits if_splits)

text \<open>What the check of a saved source finds.\<close>

lemma saved_binding_runs:
  assumes "pr_observer pr = Some (run_helper (pr_platform pr) w)" "json_ok (pr_json pr)"
    and utf8: "\<And>path n. open_directory w path = Inr n \<Longrightarrow> utf8_facts (fst (sanitize_facts (pr_platform pr) (observe_facts (pr_platform pr) w n)))"
    and "bind_filesystem pr (source_location saved) probe_source stage s = (Inr b, s')"
    and "js_version saved = sb_version b" "js_json saved = sb_json b" "js_key saved = js_source saved"
    and "validate_binding_path (pr_platform pr) (js_source saved) = None"
  shows "ck_result (fst (check_source pr saved t)) = result_run"
proof -
  let ?p = "pr_platform pr" and ?path = "source_location saved"
  from bind_filesystem_stored [OF assms(1-4)] obtain n where
    n: "validate_binding_path ?p ?path = None" "open_directory w ?path = Inr n" "nd_read n = None"
    "decode_binding ?p (pr_json pr) (sb_version b) ?path (sb_json b) ?path =
       Inr (fst (sanitize_facts ?p (observe_facts ?p w n)), False)" .
  let ?f = "fst (sanitize_facts ?p (observe_facts ?p w n))"
  have "decode_binding ?p (pr_json pr) (js_version saved) (js_key saved) (js_json saved) (js_source saved) =
      Inr (?f, False)"
    using n(4) assms(5-8) decode_binding_stored [OF assms(2) utf8 [OF n(2)]] by simp
  from check_source_result [OF assms(1,8) n(1) this]
  have "fst (check_source pr saved t) = decide ?p ?f False
      (Inr (folder_answer ?p w ?path probe_source (mount_point ?f)))" .
  moreover have "facts_match ?p ?f ?f"
    using decode_binding_ok(2) [OF n(4)] by (intro facts_match_refl) simp
  ultimately show ?thesis using folder_answer_opened [of w ?path n probe_source] n(2,3) by (simp add: decide_run)
qed

text \<open>
  A source that was saved may run: right after a save on the same file system, with or
  without an alias, the check of the new binding succeeds.  (The helper
  answers in JSON, so what it observes is UTF-8.)
\<close>

theorem saved_source_runs:
  assumes "pr_observer pr = Some (run_helper (pr_platform pr) w)" and "json_ok (pr_json pr)"
    and utf8: "\<And>path n. open_directory w path = Inr n \<Longrightarrow> utf8_facts (fst (sanitize_facts (pr_platform pr) (observe_facts (pr_platform pr) w n)))"
    and "bind_job_source pr job stage s = (Inr saved, s') \<and> js_resolved job = [] \<or>
      bind_job_source_alias pr job location s = (Inr saved, s')"
  shows "ck_result (fst (check_source pr saved t)) = result_run"
  using assms(4)
proof (elim disjE conjE)
  assume "bind_job_source pr job stage s = (Inr saved, s')" "js_resolved job = []"
  from bind_job_source_saved [OF this] obtain b where
    b: "bind_filesystem pr (js_source saved) probe_source stage s = (Inr b, s')"
    "js_version saved = sb_version b" "js_json saved = sb_json b" "js_key saved = sb_key b"
    "source_location saved = js_source saved" .
  have "validate_binding_path (pr_platform pr) (js_source saved) = None \<and> sb_key b = js_source saved"
    by (rule bind_filesystem_stored [OF assms(1,2) utf8 b(1)]) simp_all
  with saved_binding_runs [OF assms(1,2) utf8 _ b(2,3), where stage = stage and s = s and s' = s' and t = t] b
  show ?thesis by simp
next
  assume "bind_job_source_alias pr job location s = (Inr saved, s')"
  from bind_alias_saved [OF this] obtain b path where
    b: "bind_filesystem pr path probe_source ''job_source_update'' s = (Inr b, s')"
    "js_version saved = sb_version b" "js_json saved = sb_json b" "js_key saved = js_source saved"
    "validate_binding_path (pr_platform pr) (js_source saved) = None"
    "path \<noteq> [] \<Longrightarrow> source_location saved = path" by blast
  have "validate_binding_path (pr_platform pr) path = None" by (rule bind_filesystem_stored [OF assms(1,2) utf8 b(1)]) simp_all
  then have "path \<noteq> []" using empty_path_refused by metis
  with b(6) have "source_location saved = path" by simp
  with saved_binding_runs [OF assms(1,2) utf8 _ b(2-5), where stage = "''job_source_update''" and s = s and s' = s' and t = t] b(1)
  show ?thesis by simp
qed

section \<open>A sample machine\<close>

text \<open>Only \<open>/home\<close> exists, and the mount table cannot be read.\<close>

definition sample_probing :: probing where
  "sample_probing = \<lparr>pr_platform = sample_posix, pr_json = sample_json,
     pr_observer = Some (run_helper sample_posix sample_world), pr_outer = None, pr_bounded = None\<rparr>"

definition no_facts :: facts where
  "no_facts = \<lparr>mount_point = [], filesystem = []\<rparr>"

definition home_facts :: facts where
  "home_facts = \<lparr>mount_point = ''/home'', filesystem = []\<rparr>"

definition sample_vault :: "string \<Rightarrow> facts \<Rightarrow> vault_location" where
  "sample_vault location f = \<lparr>vl_id = ''v'', vl_connector = ''fs'', vl_location = location, vl_canonical = location,
     vl_version = binding_version, vl_key = location, vl_json = bj_marshal sample_json binding_version f\<rparr>"

definition sample_support :: support where
  "sample_support = \<lparr>su_last = Map.empty, su_log = []\<rparr>"

lemma sample_probing_simps [simp]:
  "pr_platform sample_probing = sample_posix" "pr_json sample_probing = sample_json"
  "pr_observer sample_probing = Some (run_helper sample_posix sample_world)"
  by (simp_all add: sample_probing_def)

lemma sample_paths:
  "validate_binding_path sample_posix ''/home'' = None"
  "validate_binding_path sample_posix ''/home/data/x'' = None"
  by code_simp+

lemma sample_facts_valid:
  "validate_facts (pl_lower sample_posix) no_facts = None"
  "validate_facts (pl_lower sample_posix) home_facts = None"
proof -
  have "trim_space ''/home'' = ''/home''" "trim_space [] = []"
    by (simp_all add: trim_space_plain) (simp add: trim_space_def trim_left_space_id trim_right_space_id)
  then show "validate_facts (pl_lower sample_posix) no_facts = None"
    "validate_facts (pl_lower sample_posix) home_facts = None"
    by (simp_all add: no_facts_def home_facts_def validate_facts_def max_fact_bytes_def normalize_filesystem_def
        to_lower_def ascii_string_def)
qed

lemma sample_facts_utf8: "utf8_facts no_facts" "utf8_facts home_facts"
  by (simp_all add: utf8_facts_def no_facts_def home_facts_def valid_utf8_ascii)

lemma sample_decodes:
  assumes "validate_binding_path sample_posix location = None" "validate_facts (pl_lower sample_posix) f = None" "utf8_facts f"
  shows "decode_binding sample_posix sample_json (vl_version (sample_vault location f))
    (vl_key (sample_vault location f)) (vl_json (sample_vault location f)) (vl_location (sample_vault location f)) =
    Inr (f, False)"
  using assms by (simp add: decode_binding_stored [OF sample_json_ok assms(3)] sample_vault_def encode_binding_def)

lemma sample_opens: "open_directory sample_world ''/home'' = Inr sample_node"
  "open_directory sample_world ''/home/data/x'' = Inl (Errno 2)"
  by (simp_all add: open_directory_def sample_world_def sample_node_def)

lemma sample_observed:
  "observe_facts sample_posix sample_world sample_node = (no_facts, both_facts_failed 5)"
  "fst (sanitize_facts sample_posix (no_facts, fails)) = no_facts"
  by (simp_all add: observe_facts_def sample_node_def statx_opened_mount_id_def read_proc_mount_info_def
      sample_world_def code_of_def os_error_code_def no_facts_def sanitize_facts_def Let_def
      normalize_filesystem_def trim_space_def trim_left_space_id trim_right_space_id to_lower_def ascii_string_def)

theorem run_needs_facts_witness:
  "ck_result (fst (check_repository sample_probing (sample_vault ''/home'' no_facts) sample_support)) = result_run \<and>
   ck_result (fst (check_repository sample_probing (sample_vault ''/home'' home_facts) sample_support)) \<noteq> result_run"
proof -
  have match: "facts_match sample_posix no_facts no_facts" "\<not> facts_match sample_posix home_facts no_facts"
    by (simp_all add: facts_match_def no_facts_def home_facts_def same_mount_point_def)
  have v: "vl_connector (sample_vault l f) = ''fs''" "vl_location (sample_vault l f) = l" for l f
    by (simp_all add: sample_vault_def)
  note d = sample_decodes [OF sample_paths(1) sample_facts_valid(1) sample_facts_utf8(1), unfolded v]
    sample_decodes [OF sample_paths(1) sample_facts_valid(2) sample_facts_utf8(2), unfolded v]
  have spec: "ck_result (fst (check_repository sample_probing (sample_vault ''/home'' f) sample_support)) = result_run \<longleftrightarrow>
      facts_match sample_posix f no_facts"
    if "decode_binding sample_posix sample_json (vl_version (sample_vault ''/home'' f))
      (vl_key (sample_vault ''/home'' f)) (vl_json (sample_vault ''/home'' f)) ''/home'' = Inr (f, False)" for f
    using run_needs_facts [of "sample_vault ''/home'' f" sample_probing sample_world sample_support] that
    by (simp add: v sample_paths sample_opens sample_observed) blast
  show ?thesis using spec [OF d(1)] spec [OF d(2)] match by simp
qed

theorem missing_folder_outcome_witness:
  "ck_result (fst (check_repository sample_probing (sample_vault ''/home/data/x'' home_facts) sample_support)) =
     result_pause"
proof -
  have v: "vl_connector (sample_vault l f) = ''fs''" "vl_location (sample_vault l f) = l" for l f
    by (simp_all add: sample_vault_def)
  note d = sample_decodes [OF sample_paths(2) sample_facts_valid(2) sample_facts_utf8(2), unfolded v]
  have "mount_point home_facts \<noteq> []" "mount_point home_facts = ''/home''" "mount_point no_facts = []"
    by (simp_all add: home_facts_def no_facts_def)
  then show ?thesis
    using missing_folder_outcome [of "sample_vault ''/home/data/x'' home_facts" sample_probing sample_world home_facts
        sample_support] d
    by (simp add: v sample_paths sample_opens sample_observed same_mount_point_def)
qed

definition sample_job :: job_source where
  "sample_job = \<lparr>js_id = ''j'', js_source = ''/home'', js_resolved = [], js_version = [], js_key = [], js_json = []\<rparr>"

lemma sample_all_utf8:
  "open_directory sample_world path = Inr n \<Longrightarrow>
    utf8_facts (fst (sanitize_facts sample_posix (observe_facts sample_posix sample_world n)))"
  using sample_opens sample_observed sample_facts_utf8(1)
  by (auto simp: open_directory_def sample_world_def split: if_splits)

theorem saved_source_runs_witness:
  "\<exists>saved. fst (bind_job_source sample_probing sample_job ''job_create_source'' sample_support) = Inr saved \<and>
     ck_result (fst (check_source sample_probing saved sample_support)) = result_run"
proof -
  let ?r = "folder_answer sample_posix sample_world ''/home'' probe_source []"
  have "normalize_configured_path sample_posix ''/home'' = Inr ''/home''" by code_simp
  moreover have "probe sample_posix (Some (run_helper sample_posix sample_world)) outer bounded ''/home'' probe_source [] =
      Inr ?r" for outer bounded
    by (intro probe_helper sample_paths) (simp_all add: point_ok_def)
  moreover have "nd_read sample_node = None" by (simp add: sample_node_def)
  with folder_answer_opened [OF sample_opens(1), of probe_source sample_posix "[]"]
  have "hp_access ?r = access_ok" "response_facts ?r = no_facts"
    by (simp_all add: sample_observed)
  ultimately obtain saved s' where
    "bind_job_source sample_probing sample_job ''job_create_source'' sample_support = (Inr saved, s')"
    by (simp add: bind_job_source_def bind_filesystem_def sample_job_def sample_paths encode_binding_def
        sample_facts_valid Let_def)
  moreover have "js_resolved sample_job = []" by (simp add: sample_job_def)
  ultimately have "ck_result (fst (check_source sample_probing saved sample_support)) = result_run"
    using saved_source_runs [of sample_probing sample_world, OF _ _ _ disjI1] sample_json_ok sample_all_utf8 by simp
  with \<open>bind_job_source _ _ _ _ = _\<close> show ?thesis by auto
qed

end
