(* ===== verification/AppUpdate.thy ===== *)
theory AppUpdate
  imports GoErrors "HOL-Library.Word"
begin

text \<open>
  Application updates: semantic versions (\<open>models/version.go\<close>), the stored state of the
  update check (\<open>database/app_update.go\<close>) and the single-flight check that fills it
  (\<open>appupdate/service.go\<close>).  The settings table is a map; a transaction that fails leaves
  it unchanged.  An instant is a number of nanoseconds, and the reading of a stored time text
  (\<open>time.Parse\<close> with \<open>RFC3339Nano\<close>) is the argument \<open>parse_time\<close>.
\<close>

section \<open>Semantic versions\<close>

datatype semantic_version =
  SemanticVersion (sv_major: "64 word") (sv_minor: "64 word") (sv_patch: "64 word")

definition err_value_out_of_range :: go_error where
  "err_value_out_of_range = new_error ''value out of range''"

definition parse_version_component :: "string \<Rightarrow> 64 word result" where
  "parse_version_component part =
     (if part = [] \<or> (length part > 1 \<and> part ! 0 = CHR ''0'')
      then Inl (new_error ''version must use canonical decimal components'')
      else if \<not> all_digits part
      then Inl (new_error ''version must contain decimal components only'')
      else case parse_uint part of
        None \<Rightarrow> Inl (wrap_error ''version component exceeds uint64'' err_value_out_of_range)
      | Some n \<Rightarrow> Inr (word_of_nat n))"

fun parse_version_components :: "string list \<Rightarrow> 64 word list result" where
  "parse_version_components [] = Inr []"
| "parse_version_components (part # parts) =
     (case parse_version_component part of
        Inl e \<Rightarrow> Inl e
      | Inr v \<Rightarrow>
          (case parse_version_components parts of Inl e \<Rightarrow> Inl e | Inr vs \<Rightarrow> Inr (v # vs)))"

definition parse_semantic_version :: "string \<Rightarrow> semantic_version result" where
  "parse_semantic_version value =
     (let parts = split_on CHR ''.'' value in
      if length parts \<noteq> 3 then Inl (new_error ''version must use MAJOR.MINOR.PATCH'')
      else case parse_version_components parts of
        Inl e \<Rightarrow> Inl e
      | Inr values \<Rightarrow> Inr (SemanticVersion (values ! 0) (values ! 1) (values ! 2)))"

fun compare_parts :: "64 word list \<Rightarrow> 64 word list \<Rightarrow> int" where
  "compare_parts (l # ls) (r # rs) = (if l < r then - 1 else if l > r then 1 else compare_parts ls rs)"
| "compare_parts _ _ = 0"

definition compare_semantic_versions :: "semantic_version \<Rightarrow> semantic_version \<Rightarrow> int" where
  "compare_semantic_versions left right =
     compare_parts [sv_major left, sv_minor left, sv_patch left]
       [sv_major right, sv_minor right, sv_patch right]"

definition replicaro_version :: string where "replicaro_version = ''1.0.8''"

text \<open>The text of a version, and the order of versions the comparison stands for.\<close>

definition print_version :: "semantic_version \<Rightarrow> string" where
  "print_version v = join_with ''.''
     (map (\<lambda>w. decimal (unat w)) [sv_major v, sv_minor v, sv_patch v])"

instantiation semantic_version :: linorder
begin

definition less_eq_semantic_version :: "semantic_version \<Rightarrow> semantic_version \<Rightarrow> bool" where
  "v \<le> w \<longleftrightarrow> compare_semantic_versions v w \<le> 0"

definition less_semantic_version :: "semantic_version \<Rightarrow> semantic_version \<Rightarrow> bool" where
  "v < w \<longleftrightarrow> compare_semantic_versions v w < 0"

instance
proof
  fix x y z :: semantic_version
  show "(x < y) = (x \<le> y \<and> \<not> y \<le> x)"
    by (cases x; cases y)
      (auto simp: less_semantic_version_def less_eq_semantic_version_def compare_semantic_versions_def)
  show "x \<le> x"
    by (cases x) (auto simp: less_eq_semantic_version_def compare_semantic_versions_def)
  show "x \<le> y \<Longrightarrow> y \<le> z \<Longrightarrow> x \<le> z"
    by (cases x; cases y; cases z)
      (auto simp: less_eq_semantic_version_def compare_semantic_versions_def split: if_splits)
  show "x \<le> y \<Longrightarrow> y \<le> x \<Longrightarrow> x = y"
    by (cases x; cases y)
      (auto simp: less_eq_semantic_version_def compare_semantic_versions_def split: if_splits)
  show "x \<le> y \<or> y \<le> x"
    by (cases x; cases y)
      (auto simp: less_eq_semantic_version_def compare_semantic_versions_def split: if_splits)
qed

end

lemma compare_newer: "compare_semantic_versions v w > 0 \<longleftrightarrow> w < v"
  by (cases v; cases w) (auto simp: less_semantic_version_def compare_semantic_versions_def)

lemma compare_not_newer: "compare_semantic_versions v w \<ge> 0 \<longleftrightarrow> w \<le> v"
  by (cases v; cases w) (auto simp: less_eq_semantic_version_def compare_semantic_versions_def)

lemma version_component_canonical:
  "parse_version_component part = Inr w \<longleftrightarrow> part = decimal (unat w)"
proof
  assume p: "parse_version_component part = Inr w"
  then have c: "canonical_decimal part"
    by (auto simp: parse_version_component_def canonical_decimal_def hd_conv_nth split: if_splits)
  from p have "digits_value part < 2 ^ 64" "w = word_of_nat (digits_value part)"
    by (auto simp: parse_version_component_def parse_uint_def max_uint64_def split: if_splits)
  then have "unat w = digits_value part" by (simp add: unat_of_nat)
  with c show "part = decimal (unat w)" by (simp add: decimal_digits_value)
next
  assume p: "part = decimal (unat w)"
  have "unat w < 2 ^ 64" using unsigned_less [of w, where ?'a = nat] by simp
  moreover have "canonical_decimal part" unfolding p by (rule decimal_canonical)
  ultimately show "parse_version_component part = Inr w"
    by (auto simp: parse_version_component_def parse_uint_def max_uint64_def canonical_decimal_def p hd_conv_nth)
qed

lemma version_components_canonical:
  "parse_version_components parts = Inr ws \<longleftrightarrow> parts = map (\<lambda>w. decimal (unat w)) ws"
proof (induction parts arbitrary: ws)
  case (Cons part parts)
  show ?case
  proof (cases ws)
    case Nil
    then show ?thesis by (auto split: sum.splits)
  next
    case ws: (Cons w ws')
    have "parse_version_component part = Inr w \<and> parse_version_components parts = Inr ws' \<longleftrightarrow>
        part = decimal (unat w) \<and> parts = map (\<lambda>w. decimal (unat w)) ws'"
      by (simp only: Cons.IH version_component_canonical)
    then show ?thesis
      by (cases "parse_version_component part"; cases "parse_version_components parts")
        (auto simp: ws)
  qed
qed auto

lemma decimal_no_dot: "CHR ''.'' \<notin> set (decimal n)"
  using decimal_digits(1) [of n] by (auto simp: all_digits_def is_digit_def list_all_iff)

lemma version_text: "parse_semantic_version s = Inr v \<longleftrightarrow> s = print_version v"
proof
  assume p: "parse_semantic_version s = Inr v"
  then obtain ws where ws: "length (split_on CHR ''.'' s) = 3"
      "parse_version_components (split_on CHR ''.'' s) = Inr ws"
      "v = SemanticVersion (ws ! 0) (ws ! 1) (ws ! 2)"
    by (auto simp: parse_semantic_version_def Let_def split: if_splits sum.splits)
  then have split: "split_on CHR ''.'' s = map (\<lambda>w. decimal (unat w)) ws"
    by (simp add: version_components_canonical)
  with ws(1) have "length ws = 3" by simp
  then have "ws = [ws ! 0, ws ! 1, ws ! 2]"
    by (auto simp: numeral_3_eq_3 length_Suc_conv)
  then have "print_version v = join_with ''.'' (split_on CHR ''.'' s)"
    using ws(3) split by (metis print_version_def semantic_version.sel)
  then show "s = print_version v" by simp
next
  assume s: "s = print_version v"
  let ?ws = "[sv_major v, sv_minor v, sv_patch v]"
  have "split_on CHR ''.'' s = map (\<lambda>w. decimal (unat w)) ?ws"
    unfolding s print_version_def by (rule split_join) (auto simp: decimal_no_dot)
  moreover from this have "parse_version_components (split_on CHR ''.'' s) = Inr ?ws"
    by (simp only: version_components_canonical)
  ultimately show "parse_semantic_version s = Inr v"
    by (simp add: parse_semantic_version_def Let_def)
qed

text \<open>C33. A text is accepted as a version exactly when it is the canonical text of the
  version it is read as, and the comparison is the lexicographic order of the components, seen
  from both sides.\<close>

theorem version_round_trip:
  "(parse_semantic_version s = Inr v \<longleftrightarrow> s = print_version v) \<and>
   (compare_semantic_versions v w < 0 \<longleftrightarrow>
      sv_major v < sv_major w \<or> sv_major v = sv_major w \<and>
      (sv_minor v < sv_minor w \<or> sv_minor v = sv_minor w \<and> sv_patch v < sv_patch w)) \<and>
   compare_semantic_versions w v = - compare_semantic_versions v w \<and>
   (compare_semantic_versions v w = 0 \<longleftrightarrow> v = w)"
  by (cases v; cases w) (auto simp: version_text compare_semantic_versions_def)

section \<open>The stored state\<close>

type_synonym settings_table = "string \<rightharpoonup> string"

definition app_update_disable_automatic_key :: string where
  "app_update_disable_automatic_key = ''disableAutomaticUpdateChecks''"
definition app_update_last_automatic_attempt_key :: string where
  "app_update_last_automatic_attempt_key = ''appUpdateLastAutomaticAttemptAt''"
definition app_update_last_result_key :: string where
  "app_update_last_result_key = ''appUpdateLastResult''"
definition app_update_last_available_version_key :: string where
  "app_update_last_available_version_key = ''appUpdateLastAvailableVersion''"
definition app_update_skipped_version_key :: string where
  "app_update_skipped_version_key = ''appUpdateSkippedVersion''"

lemmas app_update_keys = app_update_disable_automatic_key_def app_update_last_automatic_attempt_key_def
  app_update_last_result_key_def app_update_last_available_version_key_def
  app_update_skipped_version_key_def

record app_update_state =
  disable_automatic_checks :: bool
  last_automatic_attempt_at :: string
  last_result :: string
  last_available_version :: string
  skipped_version :: string

definition stored_text :: "settings_table \<Rightarrow> string \<Rightarrow> string" where
  "stored_text t key = (case t key of None \<Rightarrow> [] | Some value \<Rightarrow> value)"

definition scan_app_update_state :: "settings_table \<Rightarrow> app_update_state" where
  "scan_app_update_state t =
     \<lparr>disable_automatic_checks = (stored_text t app_update_disable_automatic_key = ''true''),
      last_automatic_attempt_at = stored_text t app_update_last_automatic_attempt_key,
      last_result = stored_text t app_update_last_result_key,
      last_available_version = stored_text t app_update_last_available_version_key,
      skipped_version = stored_text t app_update_skipped_version_key\<rparr>"

definition put_app_update_setting :: "settings_table \<Rightarrow> string \<Rightarrow> string \<Rightarrow> settings_table" where
  "put_app_update_setting t key value = t(key \<mapsto> value)"

definition newer_text :: "string \<Rightarrow> semantic_version \<Rightarrow> bool" where
  "newer_text text running =
     (case parse_semantic_version text of
        Inl _ \<Rightarrow> False
      | Inr v \<Rightarrow> compare_semantic_versions v running > 0)"

definition keep_skipped :: "string \<Rightarrow> semantic_version \<Rightarrow> string" where
  "keep_skipped text running =
     (case parse_semantic_version text of
        Inl _ \<Rightarrow> []
      | Inr skipped \<Rightarrow> if compare_semantic_versions running skipped \<ge> 0 then [] else text)"

definition known_results :: "string list" where
  "known_results = [''up_to_date'', ''update_available'', ''unavailable'']"

definition normalize_app_update_state :: "string \<Rightarrow> settings_table \<Rightarrow> settings_table result" where
  "normalize_app_update_state running_version t =
     (case parse_semantic_version running_version of
        Inl e \<Rightarrow> Inl (wrap_error ''parse running Replicaro version'' e)
      | Inr running \<Rightarrow>
          let state = scan_app_update_state t;
              available_valid = newer_text (last_available_version state) running;
              available = (if available_valid then last_available_version state else []);
              res = (if \<not> available_valid \<and> last_result state = ''update_available'' then []
                     else last_result state);
              res = (if res \<noteq> [] \<and> res \<notin> set known_results then [] else res);
              skipped = keep_skipped (skipped_version state) running
          in Inr (put_app_update_setting (put_app_update_setting (put_app_update_setting t
               app_update_last_result_key res)
               app_update_last_available_version_key available)
               app_update_skipped_version_key skipped))"

definition record_app_update_automatic_attempt :: "string \<Rightarrow> settings_table \<Rightarrow> settings_table" where
  "record_app_update_automatic_attempt attempted_at t =
     put_app_update_setting t app_update_last_automatic_attempt_key attempted_at"

definition complete_app_update_check ::
  "string \<Rightarrow> string \<Rightarrow> string \<Rightarrow> settings_table \<Rightarrow> settings_table result" where
  "complete_app_update_check result available_version running_version t =
     (if result \<notin> set known_results then Inl (new_error ''invalid application update result'')
      else
        let state = scan_app_update_state t;
            next_state =
              (if result = ''update_available'' then
                 (case parse_semantic_version available_version of
                    Inl e \<Rightarrow> Inl e
                  | Inr available \<Rightarrow>
                      Inr (available_version,
                        case parse_semantic_version (skipped_version state) of
                          Inl _ \<Rightarrow> []
                        | Inr skipped \<Rightarrow>
                            if compare_semantic_versions available skipped > 0 then []
                            else skipped_version state))
               else if result = ''up_to_date'' then
                 (case parse_semantic_version running_version of
                    Inl e \<Rightarrow> Inl e
                  | Inr running \<Rightarrow> Inr ([], keep_skipped (skipped_version state) running))
               else Inr (last_available_version state, skipped_version state))
        in case next_state of
             Inl e \<Rightarrow> Inl e
           | Inr (available, skipped) \<Rightarrow>
               let t = put_app_update_setting t app_update_last_result_key result in
               Inr (if result \<noteq> ''unavailable''
                    then put_app_update_setting (put_app_update_setting t
                           app_update_last_available_version_key available)
                           app_update_skipped_version_key skipped
                    else t))"

definition skip_current_app_update_version ::
  "string \<Rightarrow> string \<Rightarrow> settings_table \<Rightarrow> (settings_table \<times> app_update_state \<times> bool) result" where
  "skip_current_app_update_version displayed_version running_version t =
     (case parse_semantic_version displayed_version of
        Inl e \<Rightarrow> Inl e
      | Inr _ \<Rightarrow>
          (case parse_semantic_version running_version of
             Inl e \<Rightarrow> Inl e
           | Inr running \<Rightarrow>
               let state = scan_app_update_state t;
                   stored = (case parse_semantic_version (last_available_version state) of
                      Inl _ \<Rightarrow> False
                    | Inr available \<Rightarrow> last_available_version state = displayed_version \<and>
                        compare_semantic_versions available running > 0)
               in if stored
                  then Inr (put_app_update_setting t app_update_skipped_version_key displayed_version,
                        state\<lparr>skipped_version := displayed_version\<rparr>, True)
                  else Inr (t, state, False)))"

definition day_nanoseconds :: int where "day_nanoseconds = 24 * 3600 * 1000000000"

definition app_update_automatic_due :: "(string \<Rightarrow> int option) \<Rightarrow> app_update_state \<Rightarrow> int \<Rightarrow> bool" where
  "app_update_automatic_due parse_time state now =
     (if disable_automatic_checks state then False
      else case parse_time (last_automatic_attempt_at state) of
        None \<Rightarrow> True
      | Some prev \<Rightarrow> if prev > now then True else time_sub now prev \<ge> day_nanoseconds)"

definition app_update_automatic_wait ::
  "(string \<Rightarrow> int option) \<Rightarrow> settings_table \<Rightarrow> int \<Rightarrow> int \<times> bool" where
  "app_update_automatic_wait parse_time t now =
     (let state = scan_app_update_state t in
      if disable_automatic_checks state then (0, False)
      else case parse_time (last_automatic_attempt_at state) of
        None \<Rightarrow> (0, True)
      | Some prev \<Rightarrow>
          if prev > now then (0, True)
          else let wait = day_nanoseconds - time_sub now prev in
            (if wait < 0 then 0 else wait, True))"

section \<open>What the stored state says\<close>

text \<open>
  The state the page shows is meaningful to the running program: the result is a known one,
  an available or skipped version is a version newer than the running one, and an available
  update has its version.
\<close>

definition shown_ok :: "semantic_version \<Rightarrow> string \<Rightarrow> string \<Rightarrow> string \<Rightarrow> bool" where
  "shown_ok running res available skipped \<longleftrightarrow>
     (res = [] \<or> res \<in> set known_results) \<and>
     (available = [] \<or> newer_text available running) \<and>
     (skipped = [] \<or> newer_text skipped running) \<and>
     (res = ''update_available'' \<longrightarrow> available \<noteq> [])"

definition update_state_ok :: "semantic_version \<Rightarrow> settings_table \<Rightarrow> bool" where
  "update_state_ok running t \<longleftrightarrow>
     (let s = scan_app_update_state t in
      shown_ok running (last_result s) (last_available_version s) (skipped_version s))"

lemma stored_text_put [simp]:
  "stored_text (put_app_update_setting t k v) k' = (if k' = k then v else stored_text t k')"
  by (simp add: stored_text_def put_app_update_setting_def)

lemma app_update_keys_distinct [simp]:
  "app_update_last_result_key \<noteq> app_update_last_available_version_key"
  "app_update_last_available_version_key \<noteq> app_update_last_result_key"
  "app_update_last_result_key \<noteq> app_update_skipped_version_key"
  "app_update_skipped_version_key \<noteq> app_update_last_result_key"
  "app_update_last_available_version_key \<noteq> app_update_skipped_version_key"
  "app_update_skipped_version_key \<noteq> app_update_last_available_version_key"
  "app_update_last_automatic_attempt_key \<noteq> app_update_last_result_key"
  "app_update_last_automatic_attempt_key \<noteq> app_update_last_available_version_key"
  "app_update_last_automatic_attempt_key \<noteq> app_update_skipped_version_key"
  "app_update_last_automatic_attempt_key \<noteq> app_update_disable_automatic_key"
  "app_update_last_result_key \<noteq> app_update_last_automatic_attempt_key"
  "app_update_last_available_version_key \<noteq> app_update_last_automatic_attempt_key"
  "app_update_skipped_version_key \<noteq> app_update_last_automatic_attempt_key"
  "app_update_disable_automatic_key \<noteq> app_update_last_automatic_attempt_key"
  "app_update_disable_automatic_key \<noteq> app_update_last_result_key"
  "app_update_disable_automatic_key \<noteq> app_update_last_available_version_key"
  "app_update_disable_automatic_key \<noteq> app_update_skipped_version_key"
  "app_update_last_result_key \<noteq> app_update_disable_automatic_key"
  "app_update_last_available_version_key \<noteq> app_update_disable_automatic_key"
  "app_update_skipped_version_key \<noteq> app_update_disable_automatic_key"
  by (simp_all add: app_update_keys)

lemma scan_selects [simp]:
  "disable_automatic_checks (scan_app_update_state t) =
     (stored_text t app_update_disable_automatic_key = ''true'')"
  "last_automatic_attempt_at (scan_app_update_state t) =
     stored_text t app_update_last_automatic_attempt_key"
  "last_result (scan_app_update_state t) = stored_text t app_update_last_result_key"
  "last_available_version (scan_app_update_state t) =
     stored_text t app_update_last_available_version_key"
  "skipped_version (scan_app_update_state t) = stored_text t app_update_skipped_version_key"
  by (simp_all add: scan_app_update_state_def)

lemma newer_text_keep_skipped: "keep_skipped text running \<noteq> [] \<Longrightarrow>
    keep_skipped text running = text \<and> newer_text text running"
  by (auto simp: keep_skipped_def newer_text_def compare_not_newer compare_newer
      split: sum.splits if_splits)

lemma keep_skipped_cases: "keep_skipped text running = [] \<or> newer_text (keep_skipped text running) running"
  using newer_text_keep_skipped by metis

lemma newer_text_Nil [simp]: "\<not> newer_text [] running"
proof -
  have "parse_semantic_version [] = Inl (new_error ''version must use MAJOR.MINOR.PATCH'')"
    by (simp add: parse_semantic_version_def)
  then show ?thesis by (simp add: newer_text_def)
qed

lemma normalize_establishes_ok:
  assumes "normalize_app_update_state running_version t = Inr t'"
    and "parse_semantic_version running_version = Inr running"
  shows "update_state_ok running t'"
proof -
  let ?a = "newer_text (stored_text t app_update_last_available_version_key) running"
  let ?r = "stored_text t app_update_last_result_key"
  let ?r' = "if \<not> ?a \<and> ?r = ''update_available'' then [] else ?r"
  have "update_state_ok running t' = shown_ok running
      (if ?r' \<noteq> [] \<and> ?r' \<notin> set known_results then [] else ?r')
      (if ?a then stored_text t app_update_last_available_version_key else [])
      (keep_skipped (stored_text t app_update_skipped_version_key) running)"
    using assms by (auto simp: normalize_app_update_state_def Let_def update_state_ok_def)
  then show ?thesis
    using keep_skipped_cases [of _ running] by (auto simp: shown_ok_def known_results_def)
qed

lemma complete_writes:
  assumes c: "complete_app_update_check result available_version running_version t = Inr t'"
  shows "stored_text t' app_update_last_result_key = result \<and>
    stored_text t' app_update_disable_automatic_key = stored_text t app_update_disable_automatic_key \<and>
    stored_text t' app_update_last_automatic_attempt_key =
      stored_text t app_update_last_automatic_attempt_key"
  using c by (auto simp: complete_app_update_check_def Let_def split: if_splits sum.splits)

lemma complete_found:
  assumes c: "complete_app_update_check ''update_available'' available_version running_version t = Inr t'"
  shows "stored_text t' app_update_last_available_version_key = available_version \<and>
    (stored_text t' app_update_skipped_version_key = [] \<or>
     stored_text t' app_update_skipped_version_key = stored_text t app_update_skipped_version_key)"
  using c by (auto simp: complete_app_update_check_def Let_def known_results_def split: if_splits sum.splits)

lemma complete_current:
  assumes c: "complete_app_update_check ''up_to_date'' available_version running_version t = Inr t'"
    and running: "parse_semantic_version running_version = Inr running"
  shows "stored_text t' app_update_last_available_version_key = [] \<and>
    stored_text t' app_update_skipped_version_key =
      keep_skipped (stored_text t app_update_skipped_version_key) running"
  using c running by (auto simp: complete_app_update_check_def Let_def known_results_def)

lemma complete_unavailable:
  assumes c: "complete_app_update_check ''unavailable'' available_version running_version t = Inr t'"
  shows "stored_text t' app_update_last_available_version_key =
      stored_text t app_update_last_available_version_key \<and>
    stored_text t' app_update_skipped_version_key = stored_text t app_update_skipped_version_key"
  using c by (auto simp: complete_app_update_check_def Let_def known_results_def)

lemma complete_keeps_ok:
  assumes ok: "update_state_ok running t"
    and c: "complete_app_update_check result available_version running_version t = Inr t'"
    and running: "parse_semantic_version running_version = Inr running"
    and newer: "result = ''update_available'' \<Longrightarrow> newer_text available_version running"
  shows "update_state_ok running t'"
proof -
  note w = complete_writes [OF c]
  from c have "result \<in> set known_results"
    by (auto simp: complete_app_update_check_def split: if_splits)
  then consider (found) "result = ''update_available''" | (current) "result = ''up_to_date''"
    | (none) "result = ''unavailable''"
    by (auto simp: known_results_def)
  then show ?thesis
  proof cases
    case found
    with complete_found c w ok newer show ?thesis
      by (fastforce simp: update_state_ok_def shown_ok_def known_results_def)
  next
    case current
    with complete_current [OF _ running] c w keep_skipped_cases [of _ running] show ?thesis
      by (simp add: update_state_ok_def shown_ok_def known_results_def)
  next
    case none
    with complete_unavailable c w ok show ?thesis
      by (simp add: update_state_ok_def shown_ok_def known_results_def)
  qed
qed

lemma skip_keeps_ok:
  assumes "update_state_ok running t"
    and "skip_current_app_update_version displayed running_version t = Inr (t', state, stored)"
    and "parse_semantic_version running_version = Inr running"
  shows "update_state_ok running t'"
  using assms
  by (auto simp: skip_current_app_update_version_def Let_def update_state_ok_def shown_ok_def
      newer_text_def split: sum.splits if_splits)

lemma attempt_keeps_ok: "update_state_ok running (record_app_update_automatic_attempt a t) \<longleftrightarrow>
    update_state_ok running t"
  by (simp add: update_state_ok_def record_app_update_automatic_attempt_def)

lemma toggle_keeps_ok: "update_state_ok running
      (put_app_update_setting t app_update_disable_automatic_key v) \<longleftrightarrow> update_state_ok running t"
  by (simp add: update_state_ok_def)

text \<open>The loop waits exactly until the next check is due.\<close>

lemma automatic_wait_due:
  "app_update_automatic_wait parse_time t now = (0, True) \<longleftrightarrow>
     app_update_automatic_due parse_time (scan_app_update_state t) now"
  by (auto simp: app_update_automatic_wait_def app_update_automatic_due_def Let_def split: option.splits)

end
