(* ===== verification/UpdateService.thy ===== *)
theory UpdateService
  imports AppUpdate
begin

text \<open>
  The update check of \<open>appupdate/service.go\<close>: its status, the result of a fetch and the
  single-flight \<open>Check\<close> as a step relation over concurrent calls.  What the metadata request
  yields (the HTTP exchange and its JSON) is the argument \<open>metadata\<close>: the version text of a
  well-formed answer, or nothing.  A database call that fails for reasons of its own gives an
  arbitrary error.
\<close>

section \<open>Status and result\<close>

record update_status =
  us_running_version :: string
  us_result :: string
  us_available_version :: string
  us_skipped_version :: string
  us_available_version_skipped :: bool
  us_automatic_checks_disabled :: bool
  us_checking :: bool

definition status_from_state :: "app_update_state \<Rightarrow> bool \<Rightarrow> update_status" where
  "status_from_state state checking =
     \<lparr>us_running_version = replicaro_version,
      us_result = last_result state,
      us_available_version = last_available_version state,
      us_skipped_version = skipped_version state,
      us_available_version_skipped =
        (last_available_version state \<noteq> [] \<and> last_available_version state = skipped_version state),
      us_automatic_checks_disabled = disable_automatic_checks state,
      us_checking = checking\<rparr>"

definition fetch_result :: "string option \<Rightarrow> string \<times> string" where
  "fetch_result metadata =
     (case metadata of
        None \<Rightarrow> (''unavailable'', [])
      | Some raw \<Rightarrow>
          (case parse_semantic_version raw of
             Inl _ \<Rightarrow> (''unavailable'', [])
           | Inr parsed \<Rightarrow>
               (case parse_semantic_version replicaro_version of
                  Inl _ \<Rightarrow> (''unavailable'', [])
                | Inr running \<Rightarrow>
                    if compare_semantic_versions parsed running > 0
                    then (''update_available'', raw)
                    else (''up_to_date'', []))))"

definition notify_about :: "bool \<Rightarrow> update_status \<Rightarrow> bool" where
  "notify_about automatic status \<longleftrightarrow>
     automatic \<and> \<not> us_automatic_checks_disabled status \<and>
     us_result status = ''update_available'' \<and> \<not> us_available_version_skipped status"

section \<open>The single-flight check\<close>

text \<open>
  An operation is shared through its address, its place in the list; its \<open>done\<close> channel is
  closed exactly when it has an answer.
\<close>

record check_operation =
  co_answer :: "update_status result option"

record update_service =
  svc_settings :: settings_table
  svc_in_flight :: "nat option"
  svc_operations :: "check_operation list"

text \<open>Where a call of \<open>Check\<close> stands.\<close>

datatype check_call =
    CheckIdle
  | CheckJoined nat
  | CheckStatus
  | CheckAttempt nat int
  | CheckFetch nat bool
  | CheckComplete nat bool string string
  | CheckReadBack nat bool
  | CheckDeferred nat "update_status result"
  | CheckReturned "update_status result"

record update_world =
  uw_service :: update_service
  uw_calls :: "nat \<Rightarrow> check_call"
  uw_shown :: "update_status list"

text \<open>The part of \<open>Check\<close> under the mutex.\<close>

definition check_admit ::
  "(string \<Rightarrow> int option) \<Rightarrow> bool \<Rightarrow> int \<Rightarrow> update_service \<Rightarrow> update_service \<times> check_call" where
  "check_admit parse_time automatic now s =
     (case svc_in_flight s of
        Some existing \<Rightarrow> (s, CheckJoined existing)
      | None \<Rightarrow>
          if automatic \<and> \<not> app_update_automatic_due parse_time (scan_app_update_state (svc_settings s)) now
          then (s, CheckStatus)
          else let operation = length (svc_operations s) in
            (s\<lparr>svc_operations := svc_operations s @ [\<lparr>co_answer = None\<rparr>],
               svc_in_flight := Some operation\<rparr>,
             if automatic then CheckAttempt operation now else CheckFetch operation False))"

text \<open>The deferred function: it publishes the answer and clears the flight.\<close>

definition check_finish :: "nat \<Rightarrow> update_status result \<Rightarrow> update_service \<Rightarrow> update_service" where
  "check_finish operation answer s =
     s\<lparr>svc_operations := (svc_operations s)[operation := \<lparr>co_answer = Some answer\<rparr>],
       svc_in_flight := (if svc_in_flight s = Some operation then None else svc_in_flight s)\<rparr>"

definition set_call :: "nat \<Rightarrow> check_call \<Rightarrow> update_world \<Rightarrow> update_world" where
  "set_call c pc w = w\<lparr>uw_calls := (uw_calls w)(c := pc)\<rparr>"

definition set_settings :: "settings_table \<Rightarrow> update_world \<Rightarrow> update_world" where
  "set_settings t w = w\<lparr>uw_service := (uw_service w)\<lparr>svc_settings := t\<rparr>\<rparr>"

definition show_status :: "bool \<Rightarrow> update_status \<Rightarrow> update_world \<Rightarrow> update_world" where
  "show_status automatic status w =
     (if notify_about automatic status then w\<lparr>uw_shown := uw_shown w @ [status]\<rparr> else w)"

abbreviation world_settings :: "update_world \<Rightarrow> settings_table" where
  "world_settings w \<equiv> svc_settings (uw_service w)"

inductive check_step ::
  "(string \<Rightarrow> int option) \<Rightarrow> (int \<Rightarrow> string) \<Rightarrow> update_world \<Rightarrow> update_world \<Rightarrow> bool"
  for parse_time format_time where
  enter: "uw_calls w c = CheckIdle \<Longrightarrow> check_admit parse_time automatic now (uw_service w) = (s, pc) \<Longrightarrow>
    check_step parse_time format_time w (set_call c pc (w\<lparr>uw_service := s\<rparr>))"
| due_error: "uw_calls w c = CheckIdle \<Longrightarrow> svc_in_flight (uw_service w) = None \<Longrightarrow>
    check_step parse_time format_time w (set_call c (CheckReturned (Inl e)) w)"
| joined_done: "uw_calls w c = CheckJoined i \<Longrightarrow> i < length (svc_operations (uw_service w)) \<Longrightarrow>
    co_answer (svc_operations (uw_service w) ! i) = Some answer \<Longrightarrow>
    check_step parse_time format_time w (set_call c (CheckReturned answer) w)"
| joined_canceled: "uw_calls w c = CheckJoined i \<Longrightarrow>
    check_step parse_time format_time w (set_call c (CheckReturned (Inl e)) w)"
| status_read: "uw_calls w c = CheckStatus \<Longrightarrow>
    check_step parse_time format_time w (set_call c (CheckReturned (Inr
      (status_from_state (scan_app_update_state (world_settings w))
        (svc_in_flight (uw_service w) \<noteq> None)))) w)"
| status_error: "uw_calls w c = CheckStatus \<Longrightarrow>
    check_step parse_time format_time w (set_call c (CheckReturned (Inl e)) w)"
| attempt_recorded: "uw_calls w c = CheckAttempt i admitted \<Longrightarrow>
    check_step parse_time format_time w (set_call c (CheckFetch i True)
      (set_settings (record_app_update_automatic_attempt (format_time now) (world_settings w)) w))"
| attempt_error: "uw_calls w c = CheckAttempt i admitted \<Longrightarrow>
    check_step parse_time format_time w (set_call c (CheckDeferred i (Inl e)) w)"
| fetched: "uw_calls w c = CheckFetch i automatic \<Longrightarrow> fetch_result metadata = (result, version) \<Longrightarrow>
    check_step parse_time format_time w (set_call c (CheckComplete i automatic result version) w)"
| completed: "uw_calls w c = CheckComplete i automatic result version \<Longrightarrow>
    complete_app_update_check result version replicaro_version (world_settings w) = Inr t \<Longrightarrow>
    check_step parse_time format_time w (set_call c (CheckReadBack i automatic) (set_settings t w))"
| complete_error: "uw_calls w c = CheckComplete i automatic result version \<Longrightarrow>
    check_step parse_time format_time w (set_call c (CheckDeferred i (Inl e)) w)"
| read_back: "uw_calls w c = CheckReadBack i automatic \<Longrightarrow>
    status = status_from_state (scan_app_update_state (world_settings w)) False \<Longrightarrow>
    check_step parse_time format_time w
      (set_call c (CheckDeferred i (Inr status)) (show_status automatic status w))"
| read_back_error: "uw_calls w c = CheckReadBack i automatic \<Longrightarrow>
    check_step parse_time format_time w (set_call c (CheckDeferred i (Inl e)) w)"
| deferred: "uw_calls w c = CheckDeferred i answer \<Longrightarrow>
    check_step parse_time format_time w (set_call c (CheckReturned answer)
      (w\<lparr>uw_service := check_finish i answer (uw_service w)\<rparr>))"
| skipped: "skip_current_app_update_version displayed replicaro_version (world_settings w) =
      Inr (t, state, stored) \<Longrightarrow>
    check_step parse_time format_time w (set_settings t w)"
| automatic_changed: "check_step parse_time format_time w
    (set_settings (put_app_update_setting (world_settings w) app_update_disable_automatic_key v) w)"

definition update_init :: "update_world \<Rightarrow> bool" where
  "update_init w \<longleftrightarrow>
     (\<exists>t. normalize_app_update_state replicaro_version t = Inr (world_settings w)) \<and>
     svc_in_flight (uw_service w) = None \<and> svc_operations (uw_service w) = [] \<and>
     uw_calls w = (\<lambda>_. CheckIdle) \<and> uw_shown w = []"

section \<open>Invariants\<close>

fun owned_operation :: "check_call \<Rightarrow> nat option" where
  "owned_operation (CheckAttempt i _) = Some i"
| "owned_operation (CheckFetch i _) = Some i"
| "owned_operation (CheckComplete i _ _ _) = Some i"
| "owned_operation (CheckReadBack i _) = Some i"
| "owned_operation (CheckDeferred i _) = Some i"
| "owned_operation _ = None"

text \<open>The flight belongs to exactly one call; a joined call waits for the flight or has its answer.\<close>

definition flight_ok :: "update_world \<Rightarrow> bool" where
  "flight_ok w \<longleftrightarrow>
     (\<forall>c i. owned_operation (uw_calls w c) = Some i \<longrightarrow> svc_in_flight (uw_service w) = Some i) \<and>
     (\<forall>c c' i j. owned_operation (uw_calls w c) = Some i \<and> owned_operation (uw_calls w c') = Some j \<longrightarrow>
        c = c') \<and>
     (\<forall>i. svc_in_flight (uw_service w) = Some i \<longrightarrow>
        (\<exists>c. owned_operation (uw_calls w c) = Some i) \<and>
        Suc i = length (svc_operations (uw_service w)) \<and>
        co_answer (svc_operations (uw_service w) ! i) = None) \<and>
     (\<forall>c i. uw_calls w c = CheckJoined i \<longrightarrow>
        i < length (svc_operations (uw_service w)) \<and>
        (svc_in_flight (uw_service w) = Some i \<or>
         co_answer (svc_operations (uw_service w) ! i) \<noteq> None))"

definition running_release :: semantic_version where
  "running_release = SemanticVersion 1 0 8"

lemma running_release_text: "parse_semantic_version replicaro_version = Inr running_release"
proof -
  have "decimal 1 = ''1''" "decimal 0 = ''0''" "decimal 8 = ''8''" by code_simp+
  then show ?thesis
    by (simp add: version_text print_version_def running_release_def replicaro_version_def)
qed

definition attempt_due :: "(string \<Rightarrow> int option) \<Rightarrow> string \<Rightarrow> int \<Rightarrow> bool" where
  "attempt_due parse_time text now \<longleftrightarrow>
     (\<forall>prev. parse_time text = Some prev \<longrightarrow> now < prev \<or> prev + day_nanoseconds \<le> now)"

definition state_ok :: "(string \<Rightarrow> int option) \<Rightarrow> update_world \<Rightarrow> bool" where
  "state_ok parse_time w \<longleftrightarrow>
     update_state_ok running_release (world_settings w) \<and>
     (\<forall>c i now. uw_calls w c = CheckAttempt i now \<longrightarrow>
        attempt_due parse_time (stored_text (world_settings w) app_update_last_automatic_attempt_key) now) \<and>
     (\<forall>c i automatic result version. uw_calls w c = CheckComplete i automatic result version \<longrightarrow>
        result \<in> set known_results \<and>
        (result = ''update_available'' \<longrightarrow> newer_text version running_release)) \<and>
     (\<forall>status \<in> set (uw_shown w).
        newer_text (us_available_version status) running_release \<and>
        us_available_version status \<noteq> us_skipped_version status \<and>
        \<not> us_automatic_checks_disabled status)"


lemma admit_cases:
  assumes "check_admit parse_time automatic now s = (s', pc)"
  obtains (joined) i where "svc_in_flight s = Some i" "s' = s" "pc = CheckJoined i"
  | (status) "svc_in_flight s = None" "s' = s" "pc = CheckStatus"
  | (start) "svc_in_flight s = None" "pc = CheckAttempt (length (svc_operations s)) now \<or>
        pc = CheckFetch (length (svc_operations s)) False"
      "s' = s\<lparr>svc_operations := svc_operations s @ [\<lparr>co_answer = None\<rparr>],
        svc_in_flight := Some (length (svc_operations s))\<rparr>"
      "pc = CheckAttempt (length (svc_operations s)) now \<longrightarrow>
        app_update_automatic_due parse_time (scan_app_update_state (svc_settings s)) now"
proof (cases "svc_in_flight s")
  case None
  show ?thesis
  proof (cases "automatic \<and> \<not> app_update_automatic_due parse_time (scan_app_update_state (svc_settings s)) now")
    case True
    with None assms show ?thesis by (intro status) (auto simp: check_admit_def)
  next
    case False
    with None assms show ?thesis
      by (intro start) (auto simp: check_admit_def Let_def split: if_splits)
  qed
next
  case (Some i)
  with assms show ?thesis by (intro joined) (auto simp: check_admit_def)
qed

lemma time_sub_day: "day_nanoseconds \<le> time_sub a b \<longleftrightarrow> day_nanoseconds \<le> a - b"
  by (rule time_sub_ge) (simp_all add: day_nanoseconds_def)

lemma automatic_due_attempt:
  "app_update_automatic_due parse_time (scan_app_update_state t) now \<Longrightarrow>
   attempt_due parse_time (stored_text t app_update_last_automatic_attempt_key) now"
  by (auto simp: app_update_automatic_due_def attempt_due_def time_sub_day split: if_splits)

lemma fetch_result_known:
  "fetch_result metadata = (result, version) \<Longrightarrow>
   result \<in> set known_results \<and> (result = ''update_available'' \<longrightarrow> newer_text version running_release)"
  by (auto simp: fetch_result_def known_results_def newer_text_def running_release_text
      split: option.splits sum.splits if_splits)

lemma world_selects [simp]:
  "uw_calls (set_call c pc w) = (uw_calls w)(c := pc)"
  "uw_service (set_call c pc w) = uw_service w"
  "uw_shown (set_call c pc w) = uw_shown w"
  "uw_calls (set_settings t w) = uw_calls w"
  "uw_shown (set_settings t w) = uw_shown w"
  "uw_service (set_settings t w) = (uw_service w)\<lparr>svc_settings := t\<rparr>"
  "uw_calls (show_status a st w) = uw_calls w"
  "uw_service (show_status a st w) = uw_service w"
  "uw_shown (show_status a st w) = uw_shown w @ (if notify_about a st then [st] else [])"
  by (simp_all add: set_call_def set_settings_def show_status_def)

lemma flight_ok_dests:
  assumes "flight_ok w"
  shows "owned_operation (uw_calls w c) = Some i \<Longrightarrow> svc_in_flight (uw_service w) = Some i"
    and "svc_in_flight (uw_service w) = Some i \<Longrightarrow> (\<exists>c. owned_operation (uw_calls w c) = Some i) \<and>
      Suc i = length (svc_operations (uw_service w)) \<and>
      co_answer (svc_operations (uw_service w) ! i) = None"
    and "uw_calls w c = CheckJoined i \<Longrightarrow> i < length (svc_operations (uw_service w)) \<and>
      (svc_in_flight (uw_service w) = Some i \<or> co_answer (svc_operations (uw_service w) ! i) \<noteq> None)"
    and "owned_operation (uw_calls w c) = Some i \<Longrightarrow> owned_operation (uw_calls w c') = Some j \<Longrightarrow> c = c'"
  using assms unfolding flight_ok_def by blast+

lemma flight_okI:
  assumes "\<And>c i. owned_operation (uw_calls w c) = Some i \<Longrightarrow> svc_in_flight (uw_service w) = Some i"
    and "\<And>c c' i j. owned_operation (uw_calls w c) = Some i \<Longrightarrow>
      owned_operation (uw_calls w c') = Some j \<Longrightarrow> c = c'"
    and "\<And>i. svc_in_flight (uw_service w) = Some i \<Longrightarrow>
      (\<exists>c. owned_operation (uw_calls w c) = Some i) \<and>
      Suc i = length (svc_operations (uw_service w)) \<and>
      co_answer (svc_operations (uw_service w) ! i) = None"
    and "\<And>c i. uw_calls w c = CheckJoined i \<Longrightarrow> i < length (svc_operations (uw_service w)) \<and>
      (svc_in_flight (uw_service w) = Some i \<or> co_answer (svc_operations (uw_service w) ! i) \<noteq> None)"
  shows "flight_ok w"
  using assms unfolding flight_ok_def by blast

text \<open>A step that keeps a call's operation and the flight keeps the invariant of the flight.\<close>

lemma flight_ok_move:
  assumes ok: "flight_ok w" and own: "owned_operation pc = owned_operation (uw_calls w c)"
    and calls: "uw_calls w' = (uw_calls w)(c := pc)"
    and fl: "svc_in_flight (uw_service w') = svc_in_flight (uw_service w)"
    and ops: "svc_operations (uw_service w') = svc_operations (uw_service w)"
    and joined: "\<And>i. pc = CheckJoined i \<Longrightarrow> svc_in_flight (uw_service w) = Some i"
  shows "flight_ok w'"
proof -
  have same: "owned_operation (uw_calls w' c') = owned_operation (uw_calls w c')" for c'
    using own calls by simp
  show ?thesis
  proof (rule flight_okI)
    fix c' i
    assume "uw_calls w' c' = CheckJoined i"
    then consider "uw_calls w c' = CheckJoined i" | "svc_in_flight (uw_service w) = Some i"
      using calls joined by (auto split: if_splits)
    then show "i < length (svc_operations (uw_service w')) \<and>
      (svc_in_flight (uw_service w') = Some i \<or> co_answer (svc_operations (uw_service w') ! i) \<noteq> None)"
    proof cases
      case 1
      with flight_ok_dests(3) [OF ok] fl ops show ?thesis by simp
    next
      case 2
      with flight_ok_dests(2) [OF ok 2] fl ops show ?thesis by simp
    qed
  qed (use same fl ops flight_ok_dests(1,2,4) [OF ok] in simp_all)
qed

lemma flight_ok_enter:
  assumes ok: "flight_ok w" and idle: "uw_calls w c = CheckIdle"
    and a: "check_admit parse_time automatic now (uw_service w) = (s, pc)"
  shows "flight_ok (set_call c pc (w\<lparr>uw_service := s\<rparr>))"
  using a
proof (cases rule: admit_cases)
  case (joined i)
  with ok idle show ?thesis by (intro flight_ok_move [OF ok]) auto
next
  case status
  with ok idle show ?thesis by (intro flight_ok_move [OF ok]) auto
next
  case start
  let ?n = "length (svc_operations (uw_service w))"
  have none: "owned_operation (uw_calls w c') = None" for c'
    using ok start(1) unfolding flight_ok_def by (metis option.exhaust option.distinct(1))
  have own: "owned_operation pc = Some ?n" and pc: "\<And>i. pc \<noteq> CheckJoined i"
    using start(2) by auto
  have joined: "i < ?n \<and> co_answer (svc_operations (uw_service w) ! i) \<noteq> None"
    if "uw_calls w c' = CheckJoined i" for c' i
    using ok that start(1) unfolding flight_ok_def by (metis option.distinct(1))
  show ?thesis
    unfolding flight_ok_def start(3)
    using none own pc by (auto simp: nth_append split: if_splits dest: joined)
qed

lemma flight_ok_finish:
  assumes ok: "flight_ok w" and d: "uw_calls w c = CheckDeferred i answer"
  shows "flight_ok (set_call c (CheckReturned answer)
    (w\<lparr>uw_service := check_finish i answer (uw_service w)\<rparr>))"
proof -
  have own: "owned_operation (uw_calls w c) = Some i" using d by simp
  with ok have fl: "svc_in_flight (uw_service w) = Some i" unfolding flight_ok_def by metis
  have none: "owned_operation (uw_calls w c') = None" if "c' \<noteq> c" for c'
    using ok own that unfolding flight_ok_def by (metis option.exhaust)
  have joined: "j < length (svc_operations (uw_service w)) \<and>
      (j = i \<or> co_answer (svc_operations (uw_service w) ! j) \<noteq> None)"
    if "uw_calls w c' = CheckJoined j" for c' j
    using ok that fl unfolding flight_ok_def by (metis option.inject)
  have kept: "co_answer ((svc_operations (uw_service w))[i := \<lparr>co_answer = Some answer\<rparr>] ! j) \<noteq> None"
    if "uw_calls w c' = CheckJoined j" for c' j
    using joined [OF that] by (cases "j = i") auto
  show ?thesis
    unfolding check_finish_def
    by (rule flight_okI) (use fl none joined kept in \<open>auto split: if_splits\<close>)
qed

lemma flight_ok_step: "check_step parse_time format_time w w' \<Longrightarrow> flight_ok w \<Longrightarrow> flight_ok w'"
proof (induction rule: check_step.induct)
  case (enter w c automatic now s pc)
  then show ?case by (intro flight_ok_enter)
next
  case (deferred w c i answer)
  then show ?case by (intro flight_ok_finish)
qed (rule flight_ok_move; fastforce; fail | simp add: flight_ok_def)+


text \<open>A step that leaves the stored state meaningful keeps the second invariant when its new
  call state does.\<close>

definition call_ok :: "(string \<Rightarrow> int option) \<Rightarrow> settings_table \<Rightarrow> check_call \<Rightarrow> bool" where
  "call_ok parse_time t pc \<longleftrightarrow>
     (\<forall>i now. pc = CheckAttempt i now \<longrightarrow>
        attempt_due parse_time (stored_text t app_update_last_automatic_attempt_key) now) \<and>
     (\<forall>i automatic result version. pc = CheckComplete i automatic result version \<longrightarrow>
        result \<in> set known_results \<and>
        (result = ''update_available'' \<longrightarrow> newer_text version running_release))"

definition shown_status_ok :: "update_status \<Rightarrow> bool" where
  "shown_status_ok status \<longleftrightarrow>
     newer_text (us_available_version status) running_release \<and>
     us_available_version status \<noteq> us_skipped_version status \<and>
     \<not> us_automatic_checks_disabled status"

lemma state_ok_calls:
  "state_ok parse_time w \<longleftrightarrow> update_state_ok running_release (world_settings w) \<and>
     (\<forall>c. call_ok parse_time (world_settings w) (uw_calls w c)) \<and>
     (\<forall>status \<in> set (uw_shown w). shown_status_ok status)"
  unfolding state_ok_def call_ok_def shown_status_ok_def by blast

lemma call_ok_plain [simp]:
  "call_ok parse_time t CheckIdle" "call_ok parse_time t (CheckJoined i)"
  "call_ok parse_time t CheckStatus" "call_ok parse_time t (CheckFetch i a)"
  "call_ok parse_time t (CheckReadBack i a)" "call_ok parse_time t (CheckDeferred i x)"
  "call_ok parse_time t (CheckReturned x)"
  by (simp_all add: call_ok_def)

lemma call_ok_settings:
  "stored_text t' app_update_last_automatic_attempt_key =
     stored_text t app_update_last_automatic_attempt_key \<Longrightarrow>
   call_ok parse_time t' pc = call_ok parse_time t pc"
  by (simp add: call_ok_def)

lemma state_ok_move:
  assumes "state_ok parse_time w" and "update_state_ok running_release (world_settings w')"
    and "stored_text (world_settings w') app_update_last_automatic_attempt_key =
      stored_text (world_settings w) app_update_last_automatic_attempt_key"
    and "uw_calls w' = uw_calls w"
    and "set (uw_shown w') \<subseteq> set (uw_shown w) \<union> {status. shown_status_ok status}"
  shows "state_ok parse_time w'"
  using assms call_ok_settings [OF assms(3)] by (auto simp: state_ok_calls)

lemma state_ok_set_call:
  assumes "state_ok parse_time w" and "call_ok parse_time (world_settings w) pc"
  shows "state_ok parse_time (set_call c pc w)"
  using assms by (simp add: state_ok_calls)

lemma state_okD:
  assumes "state_ok parse_time w"
  shows "update_state_ok running_release (world_settings w)"
    and "call_ok parse_time (world_settings w) (uw_calls w c)"
  using assms unfolding state_ok_calls by blast+

lemma shown_is_ok:
  assumes "update_state_ok running_release t"
    and "notify_about automatic (status_from_state (scan_app_update_state t) False)"
  shows "shown_status_ok (status_from_state (scan_app_update_state t) False)"
  using assms
  by (auto simp: update_state_ok_def shown_ok_def notify_about_def status_from_state_def
      shown_status_ok_def)

lemma skip_attempt_text:
  "skip_current_app_update_version displayed running_version t = Inr (t', state, stored) \<Longrightarrow>
   stored_text t' app_update_last_automatic_attempt_key = stored_text t app_update_last_automatic_attempt_key"
  by (auto simp: skip_current_app_update_version_def Let_def split: sum.splits if_splits)

lemma state_ok_attempt:
  assumes fl: "flight_ok w" and ok: "state_ok parse_time w"
    and c: "uw_calls w c = CheckAttempt i admitted"
  shows "state_ok parse_time (set_call c (CheckFetch i True)
      (set_settings (record_app_update_automatic_attempt text (world_settings w)) w))"
proof -
  have "call_ok parse_time t (uw_calls w c')" if "c' \<noteq> c" for c' t
  proof -
    have "owned_operation (uw_calls w c') = None"
      using flight_ok_dests(4) [OF fl, of c i c'] c that by (cases "owned_operation (uw_calls w c')") auto
    then show ?thesis by (cases "uw_calls w c'") auto
  qed
  with ok show ?thesis by (auto simp: state_ok_calls attempt_keeps_ok)
qed

lemma state_ok_step:
  "check_step parse_time format_time w w' \<Longrightarrow> flight_ok w \<Longrightarrow> state_ok parse_time w \<Longrightarrow>
   state_ok parse_time w'"
proof (induction rule: check_step.induct)
  case (enter w c automatic now s pc)
  from enter(2) have pc: "call_ok parse_time (world_settings w) pc" and s: "svc_settings s = world_settings w"
    by (cases rule: admit_cases; auto simp: call_ok_def automatic_due_attempt)+
  from s state_okD(1) [OF enter(4)] have "state_ok parse_time (w\<lparr>uw_service := s\<rparr>)"
    by (intro state_ok_move [OF enter(4)]) simp_all
  then show ?case using pc s by (intro state_ok_set_call) simp_all
next
  case (attempt_recorded w c i admitted now)
  then show ?case by (intro state_ok_attempt)
next
  case (fetched w c i automatic metadata result version)
  then show ?case
    using fetch_result_known by (intro state_ok_set_call) (simp_all add: call_ok_def)
next
  case (completed w c i automatic result version t)
  from state_okD(2) [OF completed(4), of c] completed(1)
  have "result = ''update_available'' \<longrightarrow> newer_text version running_release"
    by (simp add: call_ok_def)
  with complete_keeps_ok [OF state_okD(1) [OF completed(4)] completed(2) running_release_text]
  have "update_state_ok running_release t" by simp
  with complete_writes [OF completed(2)] have "state_ok parse_time (set_settings t w)"
    by (intro state_ok_move [OF completed(4)]) simp_all
  then show ?case by (intro state_ok_set_call) simp_all
next
  case (read_back w c i automatic status)
  have "set (uw_shown (show_status automatic status w)) \<subseteq> set (uw_shown w) \<union> {x. shown_status_ok x}"
    using shown_is_ok [OF state_okD(1) [OF read_back(4)]] read_back(2) by auto
  with state_okD(1) [OF read_back(4)] have "state_ok parse_time (show_status automatic status w)"
    by (intro state_ok_move [OF read_back(4)]) simp_all
  then show ?case by (intro state_ok_set_call) simp_all
next
  case (deferred w c i answer)
  have "state_ok parse_time (w\<lparr>uw_service := check_finish i answer (uw_service w)\<rparr>)"
    using state_okD(1) [OF deferred(3)]
    by (intro state_ok_move [OF deferred(3)]) (simp_all add: check_finish_def)
  then show ?case by (intro state_ok_set_call) simp_all
next
  case (skipped displayed w t state stored)
  have "update_state_ok running_release t"
    using skip_keeps_ok [OF state_okD(1) [OF skipped(3)] skipped(1) running_release_text] .
  with skip_attempt_text [OF skipped(1)] show ?case
    by (intro state_ok_move [OF skipped(3)]) simp_all
next
  case (automatic_changed w v)
  then show ?case
    using state_okD(1) [OF automatic_changed(2)]
    by (intro state_ok_move [OF automatic_changed(2)]) (simp_all add: toggle_keeps_ok)
qed (rule state_ok_set_call; simp)+

lemma update_init_ok:
  assumes "update_init w"
  shows "flight_ok w \<and> state_ok parse_time w"
  using assms normalize_establishes_ok [OF _ running_release_text]
  by (auto simp: update_init_def flight_ok_def state_ok_calls)

interpretation update_check:
  step_system update_init "check_step parse_time format_time" "\<lambda>w. flight_ok w \<and> state_ok parse_time w"
  for parse_time format_time
  by unfold_locales (auto simp: update_init_ok intro: flight_ok_step state_ok_step)

text \<open>A run on an empty settings table: one automatic check finds a newer release, a second
  call joins it.\<close>

definition quiet_world :: update_world where
  "quiet_world =
     \<lparr>uw_service = \<lparr>svc_settings = (\<lambda>_. None)(app_update_last_result_key \<mapsto> [],
         app_update_last_available_version_key \<mapsto> [], app_update_skipped_version_key \<mapsto> []),
        svc_in_flight = None, svc_operations = []\<rparr>,
      uw_calls = (\<lambda>_. CheckIdle), uw_shown = []\<rparr>"

lemma quiet_init: "update_init quiet_world"
proof -
  have empty: "parse_semantic_version [] = Inl (new_error ''version must use MAJOR.MINOR.PATCH'')"
    by (simp add: parse_semantic_version_def)
  have "stored_text (\<lambda>_. None) key = []" for key by (simp add: stored_text_def)
  then have "normalize_app_update_state replicaro_version (\<lambda>_. None) = Inr (world_settings quiet_world)"
    by (simp add: normalize_app_update_state_def running_release_text Let_def keep_skipped_def empty)
      (simp add: quiet_world_def put_app_update_setting_def)
  then show ?thesis unfolding update_init_def by (auto simp: quiet_world_def)
qed

definition joined_world :: update_world where
  "joined_world = quiet_world
     \<lparr>uw_service := \<lparr>svc_settings = world_settings quiet_world, svc_in_flight = Some 0,
        svc_operations = [\<lparr>co_answer = None\<rparr>]\<rparr>,
      uw_calls := (\<lambda>_. CheckIdle)(0 := CheckAttempt 0 5, 1 := CheckJoined 0)\<rparr>"

lemma joined_reachable: "(check_step (\<lambda>_. None) format_time)\<^sup>*\<^sup>* quiet_world joined_world"
proof -
  let ?s = "\<lparr>svc_settings = world_settings quiet_world, svc_in_flight = Some 0,
        svc_operations = [\<lparr>co_answer = None\<rparr>]\<rparr>"
  let ?m = "set_call 0 (CheckAttempt 0 5) (quiet_world\<lparr>uw_service := ?s\<rparr>)"
  have "check_admit (\<lambda>_. None) True 5 (uw_service quiet_world) = (?s, CheckAttempt 0 5)"
    by (simp add: check_admit_def quiet_world_def app_update_automatic_due_def stored_text_def
        app_update_keys)
  then have "check_step (\<lambda>_. None) format_time quiet_world ?m"
    by (intro check_step.enter [where automatic = True and now = 5]) (simp_all add: quiet_world_def)
  moreover have "check_step (\<lambda>_. None) format_time ?m (set_call 1 (CheckJoined 0) (?m\<lparr>uw_service := ?s\<rparr>))"
    by (rule check_step.enter [where automatic = False and now = 5])
      (simp_all add: quiet_world_def check_admit_def)
  moreover have "set_call 1 (CheckJoined 0) (?m\<lparr>uw_service := ?s\<rparr>) = joined_world"
    by (simp add: joined_world_def set_call_def quiet_world_def)
  ultimately show ?thesis by (metis rtranclp.simps)
qed

text \<open>C34. In every interleaving of checks, skips and settings changes at most one check is
  running; it owns the flight, whose operation has no answer yet, and every joined call waits for
  that operation or for one that has its answer, so no waiter is left behind.  An automatic
  attempt is recorded only a day after the one it replaces, or when the clock went back.\<close>

theorem check_single_flight:
  assumes "update_init w0" and "(check_step parse_time format_time)\<^sup>*\<^sup>* w0 w"
  shows "(owned_operation (uw_calls w c) = Some i \<and> owned_operation (uw_calls w c') = Some j \<longrightarrow> c = c') \<and>
    (svc_in_flight (uw_service w) = Some i \<longleftrightarrow> (\<exists>c. owned_operation (uw_calls w c) = Some i)) \<and>
    (uw_calls w c = CheckJoined i \<longrightarrow> i < length (svc_operations (uw_service w)) \<and>
       (svc_in_flight (uw_service w) = Some i \<or>
        co_answer (svc_operations (uw_service w) ! i) \<noteq> None)) \<and>
    (uw_calls w c = CheckAttempt i admitted \<longrightarrow>
       attempt_due parse_time (stored_text (world_settings w) app_update_last_automatic_attempt_key) admitted)"
proof -
  from assms have "flight_ok w \<and> state_ok parse_time w" by (rule update_check.inv_reachable)
  then have fl: "flight_ok w" and ok: "state_ok parse_time w" by simp_all
  from ok show ?thesis
    using flight_ok_dests(3,4) [OF fl] flight_ok_dests(1,2) [OF fl]
    unfolding state_ok_def by blast
qed

lemma check_single_flight_witness:
  "svc_in_flight (uw_service joined_world) = Some 0 \<longleftrightarrow>
     (\<exists>c. owned_operation (uw_calls joined_world c) = Some 0)"
  using check_single_flight [OF quiet_init joined_reachable [of "\<lambda>_. []"], of 0 0 1 0 5] by simp

text \<open>C35. The stored result always fits the running program (a known result, no available or
  skipped version that is not newer, no announced update without its version), and a notification
  is shown only for a newer release that was not skipped, while automatic checks are on.\<close>

theorem update_state_meaningful:
  assumes "update_init w0" and "(check_step parse_time format_time)\<^sup>*\<^sup>* w0 w"
  shows "update_state_ok running_release (world_settings w) \<and>
    (\<forall>status \<in> set (uw_shown w).
       newer_text (us_available_version status) running_release \<and>
       us_available_version status \<noteq> us_skipped_version status \<and>
       \<not> us_automatic_checks_disabled status)"
proof -
  from assms have "flight_ok w \<and> state_ok parse_time w" by (rule update_check.inv_reachable)
  then show ?thesis unfolding state_ok_def by blast
qed

lemma update_state_meaningful_witness:
  "update_state_ok running_release (world_settings joined_world)"
  using update_state_meaningful [OF quiet_init joined_reachable [of "\<lambda>_. []"]] by simp

end
