(* ===== verification/SnapshotTags.thy ===== *)
theory SnapshotTags
  imports Prelude "HOL-Library.Multiset"
begin

text \<open>
  The snapshot tags of \<open>models/snapshot.go\<close>: the ownership markers that say which profile
  and job a snapshot belongs to, how a snapshot is shown, and the optional presentation tags
  with the percent-encoded machine name.  A tag is a Go string (bytes).  The \<open>uuid\<close> package is
  an argument: what it parses, its nil value and its text form.
\<close>

record 'u uuid_package =
  uuid_parse :: "string \<Rightarrow> 'u option"
  uuid_nil :: 'u
  uuid_text :: "'u \<Rightarrow> string"

definition snapshot_profile_marker_prefix :: string where
  "snapshot_profile_marker_prefix = ''replicaro-profile:''"
definition snapshot_ownership_marker_prefix :: string where
  "snapshot_ownership_marker_prefix = ''replicaro-job:''"
definition snapshot_client_marker_prefix :: string where
  "snapshot_client_marker_prefix = ''replicaro-client:''"
definition snapshot_machine_marker_prefix :: string where
  "snapshot_machine_marker_prefix = ''replicaro-machine:''"

lemmas marker_prefixes = snapshot_profile_marker_prefix_def snapshot_ownership_marker_prefix_def
  snapshot_client_marker_prefix_def snapshot_machine_marker_prefix_def

section \<open>Ownership\<close>

datatype ownership_status =
  OwnershipMissing | OwnershipValid | OwnershipMalformed | OwnershipDuplicate | OwnershipConflicting

record ownership_marker =
  om_status :: ownership_status
  om_profile_id :: string
  om_job_id :: string
  om_markers :: "string list"

text \<open>\<open>err == nil && parsed != uuid.Nil && parsed.String() == value\<close>\<close>

definition canonical_uuid :: "'u uuid_package \<Rightarrow> string \<Rightarrow> bool" where
  "canonical_uuid u value =
     (case uuid_parse u value of
        None \<Rightarrow> False
      | Some parsed \<Rightarrow> parsed \<noteq> uuid_nil u \<and> uuid_text u parsed = value)"

definition profile_marker :: "string \<Rightarrow> bool" where
  "profile_marker tag \<longleftrightarrow> tag = ''replicaro-profile'' \<or> has_prefix tag snapshot_profile_marker_prefix"

definition job_marker :: "string \<Rightarrow> bool" where
  "job_marker tag \<longleftrightarrow> tag = ''replicaro-job'' \<or> has_prefix tag snapshot_ownership_marker_prefix"

text \<open>\<open>m[value]++\<close> on the counting maps.\<close>

fun count_value :: "string \<Rightarrow> (string \<times> nat) list \<Rightarrow> (string \<times> nat) list" where
  "count_value v [] = [(v, 1)]"
| "count_value v ((w, n) # ws) = (if w = v then (w, Suc n) # ws else (w, n) # count_value v ws)"

record marker_scan =
  ms_markers :: "string list"
  ms_profiles :: "(string \<times> nat) list"
  ms_jobs :: "(string \<times> nat) list"
  ms_malformed :: bool

definition scan_marker :: "'u uuid_package \<Rightarrow> marker_scan \<Rightarrow> string \<Rightarrow> marker_scan" where
  "scan_marker u s tag =
     (if \<not> profile_marker tag \<and> \<not> job_marker tag then s
      else
        let s = s\<lparr>ms_markers := ms_markers s @ [tag]\<rparr>;
            value = trim_prefix tag
              (if profile_marker tag then snapshot_profile_marker_prefix
               else snapshot_ownership_marker_prefix)
        in if \<not> canonical_uuid u value then s\<lparr>ms_malformed := True\<rparr>
           else if profile_marker tag then s\<lparr>ms_profiles := count_value value (ms_profiles s)\<rparr>
           else s\<lparr>ms_jobs := count_value value (ms_jobs s)\<rparr>)"

definition classify_snapshot_ownership :: "'u uuid_package \<Rightarrow> string list \<Rightarrow> ownership_marker" where
  "classify_snapshot_ownership u tags =
     (let s = foldl (scan_marker u) \<lparr>ms_markers = [], ms_profiles = [], ms_jobs = [], ms_malformed = False\<rparr> tags;
          answer = (\<lambda>status profile_id job_id.
            \<lparr>om_status = status, om_profile_id = profile_id, om_job_id = job_id,
             om_markers = ms_markers s\<rparr>)
      in if ms_markers s = [] then answer OwnershipMissing [] []
         else if ms_malformed s then answer OwnershipMalformed [] []
         else (case (ms_profiles s, ms_jobs s) of
           ([(p, n)], [(j, m)]) \<Rightarrow>
             if n \<noteq> 1 then answer OwnershipDuplicate [] []
             else if m \<noteq> 1 then answer OwnershipDuplicate p []
             else answer OwnershipValid p j
         | _ \<Rightarrow> answer OwnershipConflicting [] []))"

definition reserved_component :: "string \<Rightarrow> bool" where
  "reserved_component tag \<longleftrightarrow>
     tag = ''replicaro-profile'' \<or> has_prefix tag snapshot_profile_marker_prefix \<or>
     tag = ''replicaro-job'' \<or> has_prefix tag snapshot_ownership_marker_prefix \<or>
     tag = ''replicaro-client'' \<or> has_prefix tag snapshot_client_marker_prefix \<or>
     tag = ''replicaro-machine'' \<or> has_prefix tag snapshot_machine_marker_prefix"

definition contains_reserved_ownership_tag :: "string \<Rightarrow> bool" where
  "contains_reserved_ownership_tag value =
     list_ex (\<lambda>tag. reserved_component (trim_space tag)) (split_on CHR '','' value)"

section \<open>Presentation\<close>

datatype presentation = NotPresented | Managed | Unmanaged | Hidden

record tagged_snapshot =
  sn_tags :: "string list"
  sn_ownership :: ownership_marker
  sn_presentation :: presentation
  sn_managed_job_id :: string

definition classify_snapshot_presentation ::
  "tagged_snapshot \<Rightarrow> string \<Rightarrow> (string \<Rightarrow> bool) \<Rightarrow> presentation" where
  "classify_snapshot_presentation sn profile_uuid known_jobs =
     (let marker = sn_ownership sn in
      if om_status marker \<noteq> OwnershipValid then Unmanaged
      else if om_profile_id marker \<noteq> profile_uuid then Hidden
      else if \<not> known_jobs (om_job_id marker) then Unmanaged
      else Managed)"

definition present_snapshot :: "tagged_snapshot \<Rightarrow> string \<Rightarrow> (string \<Rightarrow> bool) \<Rightarrow> tagged_snapshot" where
  "present_snapshot sn profile_uuid known_jobs =
     (let p = classify_snapshot_presentation sn profile_uuid known_jobs in
      sn\<lparr>sn_presentation := p,
         sn_managed_job_id := (if p = Managed then om_job_id (sn_ownership sn) else [])\<rparr>)"

definition snapshot_with_tags :: "'u uuid_package \<Rightarrow> tagged_snapshot \<Rightarrow> string list \<Rightarrow> tagged_snapshot" where
  "snapshot_with_tags u sn tags =
     sn\<lparr>sn_tags := tags, sn_ownership := classify_snapshot_ownership u tags\<rparr>"

section \<open>Machine names\<close>

definition hex_value :: "char \<Rightarrow> int" where
  "hex_value c =
     (if 48 \<le> byte c \<and> byte c \<le> 57 then int (byte c) - 48
      else if 65 \<le> byte c \<and> byte c \<le> 70 then int (byte c) - 65 + 10
      else - 1)"

definition is_presentation_unreserved :: "char \<Rightarrow> bool" where
  "is_presentation_unreserved c \<longleftrightarrow>
     65 \<le> byte c \<and> byte c \<le> 90 \<or> 97 \<le> byte c \<and> byte c \<le> 122 \<or>
     48 \<le> byte c \<and> byte c \<le> 57 \<or> c = CHR ''.'' \<or> c = CHR ''_'' \<or> c = CHR ''-''"

definition valid_snapshot_machine_os :: "string \<Rightarrow> bool" where
  "valid_snapshot_machine_os os_name \<longleftrightarrow> os_name = ''windows'' \<or> os_name = ''darwin'' \<or> os_name = ''linux''"

definition valid_snapshot_machine_name :: "string \<Rightarrow> bool" where
  "valid_snapshot_machine_name name \<longleftrightarrow>
     name \<noteq> [] \<and> length name \<le> 255 \<and> valid_utf8 name \<and> trim_space name = name \<and> \<not> has_control name"

text \<open>\<open>strings.LastIndexByte\<close>, with None for -1.\<close>

fun last_index_byte :: "string \<Rightarrow> char \<Rightarrow> nat option" where
  "last_index_byte [] c = None"
| "last_index_byte (x # xs) c =
     (case last_index_byte xs c of
        Some i \<Rightarrow> Some (Suc i)
      | None \<Rightarrow> if x = c then Some 0 else None)"

fun decode_machine_name :: "string \<Rightarrow> string option" where
  "decode_machine_name [] = Some []"
| "decode_machine_name (c # cs) =
     (if c = CHR ''%'' then
        (case cs of
           h # l # rest \<Rightarrow>
             if hex_value h < 0 \<or> hex_value l < 0 then None
             else let b = char_of (nat (hex_value h * 16 + hex_value l)) in
               if is_presentation_unreserved b then None
               else map_option (Cons b) (decode_machine_name rest)
         | _ \<Rightarrow> None)
      else if \<not> is_presentation_unreserved c then None
      else map_option (Cons c) (decode_machine_name cs))"

definition parse_snapshot_machine_value :: "string \<Rightarrow> string option" where
  "parse_snapshot_machine_value value =
     (case last_index_byte value CHR ''@'' of
        None \<Rightarrow> None
      | Some separator \<Rightarrow>
          if separator = 0 \<or> separator = length value - 1 then None
          else let os_name = drop (separator + 1) value in
            if \<not> valid_snapshot_machine_os os_name then None
            else (case decode_machine_name (take separator value) of
                None \<Rightarrow> None
              | Some decoded \<Rightarrow>
                  if decoded = [] \<or> length decoded > 255 \<or> \<not> valid_utf8 decoded then None
                  else if \<not> valid_snapshot_machine_name decoded then None
                  else Some (decoded @ ''@'' @ os_name)))"

definition upper_hex_digit :: "nat \<Rightarrow> char" where
  "upper_hex_digit n = char_of (if n < 10 then 48 + n else 55 + n)"

definition encode_machine_byte :: "char \<Rightarrow> string" where
  "encode_machine_byte c =
     (if is_presentation_unreserved c then [c]
      else [CHR ''%'', upper_hex_digit (byte c div 16), upper_hex_digit (byte c mod 16)])"

definition encode_snapshot_machine_tag :: "string \<Rightarrow> string \<Rightarrow> string \<times> bool" where
  "encode_snapshot_machine_tag name os_name =
     (if \<not> valid_snapshot_machine_name name \<or> \<not> valid_snapshot_machine_os os_name then ([], False)
      else let tag = snapshot_machine_marker_prefix @ concat (map encode_machine_byte name) @ ''@'' @ os_name
        in (tag, length tag \<le> 384))"

record presentation_scan =
  ps_clients :: "string list"
  ps_machines :: "string list"
  ps_client_malformed :: bool
  ps_machine_malformed :: bool

definition scan_presentation_tag ::
  "'u uuid_package \<Rightarrow> presentation_scan \<Rightarrow> string \<Rightarrow> presentation_scan" where
  "scan_presentation_tag u s tag =
     (if tag = ''replicaro-client'' \<or> has_prefix tag snapshot_client_marker_prefix then
        let value = trim_prefix tag snapshot_client_marker_prefix in
        if \<not> canonical_uuid u value \<or> length tag > 128 then s\<lparr>ps_client_malformed := True\<rparr>
        else s\<lparr>ps_clients := ps_clients s @ [value]\<rparr>
      else if tag = ''replicaro-machine'' \<or> has_prefix tag snapshot_machine_marker_prefix then
        (case parse_snapshot_machine_value (trim_prefix tag snapshot_machine_marker_prefix) of
           None \<Rightarrow> s\<lparr>ps_machine_malformed := True\<rparr>
         | Some decoded \<Rightarrow>
             if length tag > 384 then s\<lparr>ps_machine_malformed := True\<rparr>
             else s\<lparr>ps_machines := ps_machines s @ [decoded]\<rparr>)
      else s)"

definition parse_snapshot_presentation_tags :: "'u uuid_package \<Rightarrow> string list \<Rightarrow> string \<times> string" where
  "parse_snapshot_presentation_tags u tags =
     (let s = foldl (scan_presentation_tag u) \<lparr>ps_clients = [], ps_machines = [],
            ps_client_malformed = False, ps_machine_malformed = False\<rparr> tags
      in (if \<not> ps_client_malformed s \<and> length (ps_clients s) = 1 then ps_clients s ! 0 else [],
          if \<not> ps_machine_malformed s \<and> length (ps_machines s) = 1 then ps_machines s ! 0 else []))"

section \<open>Machine names are read as they were written\<close>

lemma hex_digit_value [simp]: "n < 16 \<Longrightarrow> hex_value (upper_hex_digit n) = int n"
  by (auto simp: hex_value_def upper_hex_digit_def)

lemma hex_value_digit:
  assumes "0 \<le> hex_value c"
  shows "\<exists>n < 16. c = upper_hex_digit n \<and> hex_value c = int n"
proof -
  consider "48 \<le> byte c \<and> byte c \<le> 57" | "65 \<le> byte c \<and> byte c \<le> 70"
    using assms by (auto simp: hex_value_def split: if_splits)
  then show ?thesis
  proof cases
    case 1
    then have "byte c - 48 < 16" "48 + (byte c - 48) = byte c" "byte c - 48 < 10" by auto
    with 1 show ?thesis
      by (intro exI [of _ "byte c - 48"]) (auto simp: upper_hex_digit_def hex_value_def)
  next
    case 2
    then have "byte c - 55 < 16" "55 + (byte c - 55) = byte c" "\<not> byte c - 55 < 10" by auto
    with 2 show ?thesis
      by (intro exI [of _ "byte c - 55"]) (auto simp: upper_hex_digit_def hex_value_def)
  qed
qed

lemma byte_high: "byte c div 16 < 16"
proof -
  have "byte c < 256" by simp
  then show ?thesis by presburger
qed

lemma decode_encode_byte:
  "decode_machine_name (encode_machine_byte c @ s) = map_option (Cons c) (decode_machine_name s)"
proof (cases "is_presentation_unreserved c")
  case True
  then have "c \<noteq> CHR ''%''" by (auto simp: is_presentation_unreserved_def)
  with True show ?thesis by (simp add: encode_machine_byte_def)
next
  case False
  note byte_high [of c]
  moreover have "nat (int (byte c div 16) * 16 + int (byte c mod 16)) = byte c"
    by (simp add: nat_add_distrib nat_mult_distrib)
  ultimately show ?thesis using False by (simp add: encode_machine_byte_def Let_def)
qed

lemma decode_encode_name: "decode_machine_name (concat (map encode_machine_byte name)) = Some name"
  by (induction name) (simp_all add: decode_encode_byte)

lemma encode_decoded_name:
  "decode_machine_name s = Some d \<Longrightarrow> s = concat (map encode_machine_byte d)"
proof (induction s arbitrary: d rule: decode_machine_name.induct)
  case (2 c cs)
  show ?case
  proof (cases "c = CHR ''%''")
    case True
    from 2(3) True obtain h l rest where cs: "cs = h # l # rest"
      by (auto split: list.splits)
    let ?b = "char_of (nat (hex_value h * 16 + hex_value l)) :: char"
    from 2(3) True cs have hl: "0 \<le> hex_value h" "0 \<le> hex_value l" "\<not> is_presentation_unreserved ?b"
      by (auto simp: Let_def split: if_splits)
    from 2(3) True cs hl obtain d' where d': "decode_machine_name rest = Some d'" "d = ?b # d'"
      by (auto simp: Let_def)
    from hl obtain m n where mn: "m < 16" "h = upper_hex_digit m" "hex_value h = int m"
      "n < 16" "l = upper_hex_digit n" "hex_value l = int n"
      by (meson hex_value_digit)
    then have b: "nat (hex_value h * 16 + hex_value l) = 16 * m + n" by simp
    have "16 * m + n < 256" using mn by simp
    then have "byte ?b = 16 * m + n" unfolding b by simp
    with mn hl(3) have "encode_machine_byte ?b = [CHR ''%'', h, l]"
      by (simp add: encode_machine_byte_def)
    moreover have "rest = concat (map encode_machine_byte d')"
      using 2(1) [OF True cs refl] hl d'(1) by (simp add: not_less)
    ultimately show ?thesis using True cs d'(2) by simp
  next
    case False
    with 2(3) obtain d' where "is_presentation_unreserved c" "decode_machine_name cs = Some d'" "d = c # d'"
      by (auto split: if_splits)
    with 2(2) [OF False] show ?thesis by (simp add: encode_machine_byte_def)
  qed
qed simp

lemma last_index_byte_append: "c \<notin> set b \<Longrightarrow> last_index_byte (a @ c # b) c = Some (length a)"
proof (induction a)
  case Nil
  have "c \<notin> set b \<Longrightarrow> last_index_byte b c = None" by (induction b) auto
  with Nil show ?case by simp
qed simp

lemma last_index_byte_split:
  "last_index_byte s c = Some i \<Longrightarrow> i < length s \<and> s = take i s @ c # drop (Suc i) s"
proof (induction s arbitrary: i)
  case (Cons x xs)
  then show ?case by (cases "last_index_byte xs c") (auto split: if_splits)
qed simp

lemma encoded_name_no_at: "CHR ''@'' \<notin> set (concat (map encode_machine_byte name))"
proof -
  have hex: "CHR ''@'' \<noteq> upper_hex_digit n" if "n < 16" for n
  proof
    assume "CHR ''@'' = upper_hex_digit n"
    then have "hex_value CHR ''@'' = int n" using hex_digit_value [OF that] by simp
    then show False by (simp add: hex_value_def)
  qed
  have "CHR ''@'' \<notin> set (encode_machine_byte c)" for c
    using hex [OF byte_high, of c] hex [of "byte c mod 16"]
    by (auto simp: encode_machine_byte_def is_presentation_unreserved_def)
  then show ?thesis by auto
qed

lemma machine_os_no_at: "valid_snapshot_machine_os os \<Longrightarrow> CHR ''@'' \<notin> set os \<and> os \<noteq> []"
  by (auto simp: valid_snapshot_machine_os_def)

lemma machine_value_read:
  "parse_snapshot_machine_value v = Some label \<longleftrightarrow>
    (\<exists>name os. valid_snapshot_machine_name name \<and> valid_snapshot_machine_os os \<and>
       v = concat (map encode_machine_byte name) @ ''@'' @ os \<and> label = name @ ''@'' @ os)"
proof
  assume p: "parse_snapshot_machine_value v = Some label"
  then obtain i where i: "last_index_byte v CHR ''@'' = Some i"
    by (auto simp: parse_snapshot_machine_value_def split: option.splits)
  with p obtain d where d: "valid_snapshot_machine_os (drop (i + 1) v)"
      "decode_machine_name (take i v) = Some d" "valid_snapshot_machine_name d"
      "label = d @ ''@'' @ drop (i + 1) v"
    by (auto simp: parse_snapshot_machine_value_def Let_def split: if_splits option.splits)
  from last_index_byte_split [OF i] encode_decoded_name [OF d(2)]
  have "v = concat (map encode_machine_byte d) @ ''@'' @ drop (i + 1) v" by simp
  with d show "\<exists>name os. valid_snapshot_machine_name name \<and> valid_snapshot_machine_os os \<and>
       v = concat (map encode_machine_byte name) @ ''@'' @ os \<and> label = name @ ''@'' @ os"
    by blast
next
  assume "\<exists>name os. valid_snapshot_machine_name name \<and> valid_snapshot_machine_os os \<and>
       v = concat (map encode_machine_byte name) @ ''@'' @ os \<and> label = name @ ''@'' @ os"
  then obtain name os where n: "valid_snapshot_machine_name name" "valid_snapshot_machine_os os"
      "v = concat (map encode_machine_byte name) @ ''@'' @ os" "label = name @ ''@'' @ os"
    by blast
  let ?e = "concat (map encode_machine_byte name)"
  have "last_index_byte v CHR ''@'' = Some (length ?e)"
    using n(3) last_index_byte_append [of "CHR ''@''" os ?e] machine_os_no_at [OF n(2)] by simp
  moreover have "?e \<noteq> []"
    using n(1) by (cases name) (auto simp: valid_snapshot_machine_name_def encode_machine_byte_def)
  moreover have "length ?e \<noteq> length v - 1" using n(3) machine_os_no_at [OF n(2)] by simp
  moreover have "take (length ?e) v = ?e" "drop (length ?e + 1) v = os" using n(3) by simp_all
  moreover have "name \<noteq> []" "length name \<le> 255" "valid_utf8 name"
    using n(1) by (simp_all add: valid_snapshot_machine_name_def)
  moreover have "decode_machine_name ?e = Some name" by (rule decode_encode_name)
  ultimately show "parse_snapshot_machine_value v = Some label"
    unfolding parse_snapshot_machine_value_def Let_def
    using n(1,2,4) by (simp del: map_concat concat.simps)
qed

text \<open>A machine tag is read exactly when it is what the producer writes for a name and an
  operating system it accepts, and it gives that name and system back.\<close>

theorem machine_tag_round_trip:
  "snd (parse_snapshot_presentation_tags u [tag]) = label \<and> label \<noteq> [] \<longleftrightarrow>
    (\<exists>name os. encode_snapshot_machine_tag name os = (tag, True) \<and> label = name @ ''@'' @ os)"
proof -
  have other: "\<not> has_prefix tag snapshot_client_marker_prefix" "tag \<noteq> ''replicaro-client''"
    if "has_prefix tag snapshot_machine_marker_prefix"
    using that by (auto simp: has_prefix_iff marker_prefixes)
  have bare: "parse_snapshot_machine_value ''replicaro-machine'' = None"
    by (simp add: parse_snapshot_machine_value_def)
  have read: "snd (parse_snapshot_presentation_tags u [tag]) = label \<and> label \<noteq> [] \<longleftrightarrow>
      has_prefix tag snapshot_machine_marker_prefix \<and> length tag \<le> 384 \<and> label \<noteq> [] \<and>
      parse_snapshot_machine_value (trim_prefix tag snapshot_machine_marker_prefix) = Some label"
    using other bare
    by (auto simp: parse_snapshot_presentation_tags_def scan_presentation_tag_def Let_def
        trim_prefix_def has_prefix_def [of "''replicaro-machine''"] marker_prefixes
        split: option.splits)
  show ?thesis
  proof
    assume "snd (parse_snapshot_presentation_tags u [tag]) = label \<and> label \<noteq> []"
    then obtain r where r: "tag = snapshot_machine_marker_prefix @ r" "length tag \<le> 384"
        "parse_snapshot_machine_value r = Some label"
      unfolding read by (auto simp: has_prefix_iff)
    then show "\<exists>name os. encode_snapshot_machine_tag name os = (tag, True) \<and> label = name @ ''@'' @ os"
      unfolding machine_value_read encode_snapshot_machine_tag_def Let_def by fastforce
  next
    assume "\<exists>name os. encode_snapshot_machine_tag name os = (tag, True) \<and> label = name @ ''@'' @ os"
    then obtain name os where n: "encode_snapshot_machine_tag name os = (tag, True)"
        "label = name @ ''@'' @ os" by blast
    let ?r = "concat (map encode_machine_byte name) @ ''@'' @ os"
    from n(1) have t: "tag = snapshot_machine_marker_prefix @ ?r" "length tag \<le> 384"
        "valid_snapshot_machine_name name" "valid_snapshot_machine_os os"
      by (auto simp: encode_snapshot_machine_tag_def Let_def split: if_splits)
    then have "parse_snapshot_machine_value ?r = Some label"
      unfolding machine_value_read using n(2) by blast
    with t n(2) show "snd (parse_snapshot_presentation_tags u [tag]) = label \<and> label \<noteq> []"
      unfolding read by simp
  qed
qed

section \<open>Ownership is one profile marker and one job marker\<close>

lemma marker_exclusive: "profile_marker tag \<Longrightarrow> \<not> job_marker tag"
  by (auto simp: profile_marker_def job_marker_def has_prefix_iff marker_prefixes)

definition marker_value :: "string \<Rightarrow> string" where
  "marker_value tag = trim_prefix tag
     (if profile_marker tag then snapshot_profile_marker_prefix else snapshot_ownership_marker_prefix)"

lemma count_values:
  "foldl (\<lambda>ws v. count_value v ws) [] vs = [] \<longleftrightarrow> vs = []"
  "foldl (\<lambda>ws v. count_value v ws) [] vs = [(p, n)] \<longleftrightarrow> 0 < n \<and> vs = replicate n p"
proof -
  have ne: "count_value v ws \<noteq> []" for v ws by (cases "(v, ws)" rule: count_value.cases) auto
  show empty: "foldl (\<lambda>ws v. count_value v ws) [] vs = [] \<longleftrightarrow> vs = []" for vs
    by (induction vs rule: rev_induct) (simp_all add: ne)
  have step: "count_value v ws = [(p, n)] \<longleftrightarrow>
      v = p \<and> (ws = [] \<and> n = 1 \<or> (\<exists>m. n = Suc m \<and> ws = [(p, m)]))" for v ws n
    by (cases "(v, ws)" rule: count_value.cases) (auto simp: ne)
  show "foldl (\<lambda>ws v. count_value v ws) [] vs = [(p, n)] \<longleftrightarrow> 0 < n \<and> vs = replicate n p"
  proof (induction vs arbitrary: n rule: rev_induct)
    case (snoc v vs)
    have "foldl (\<lambda>ws v. count_value v ws) [] (vs @ [v]) = [(p, n)] \<longleftrightarrow>
        v = p \<and> (vs = [] \<and> n = 1 \<or> (\<exists>m. n = Suc m \<and> 0 < m \<and> vs = replicate m p))"
      by (simp add: step empty snoc.IH)
    also have "\<dots> \<longleftrightarrow> 0 < n \<and> vs @ [v] = replicate n p"
    proof (cases n)
      case (Suc m)
      then have "replicate n p = replicate m p @ [p]" by (simp add: replicate_append_same)
      with Suc show ?thesis by (cases m) auto
    qed simp
    finally show ?case .
  qed auto
qed

abbreviation ownership_tags :: "string list \<Rightarrow> string list" where
  "ownership_tags tags \<equiv> filter (\<lambda>tag. profile_marker tag \<or> job_marker tag) tags"

lemma scan_markers:
  "foldl (scan_marker u) \<lparr>ms_markers = [], ms_profiles = [], ms_jobs = [], ms_malformed = False\<rparr> tags =
    \<lparr>ms_markers = ownership_tags tags,
     ms_profiles = foldl (\<lambda>ws v. count_value v ws) []
       (map marker_value (filter (\<lambda>t. profile_marker t \<and> canonical_uuid u (marker_value t)) tags)),
     ms_jobs = foldl (\<lambda>ws v. count_value v ws) []
       (map marker_value (filter (\<lambda>t. job_marker t \<and> canonical_uuid u (marker_value t)) tags)),
     ms_malformed = list_ex (\<lambda>t. (profile_marker t \<or> job_marker t) \<and>
        \<not> canonical_uuid u (marker_value t)) tags\<rparr>"
  (is "?scan tags = ?spec tags")
proof (induction tags rule: rev_induct)
  case (snoc tag tags)
  have "?scan (tags @ [tag]) = scan_marker u (?spec tags) tag" using snoc by simp
  also have "\<dots> = ?spec (tags @ [tag])"
    using marker_exclusive [of tag]
    by (auto simp: scan_marker_def Let_def marker_value_def)
  finally show ?case .
qed simp

lemma classified_valid:
  "om_status (classify_snapshot_ownership u tags) = OwnershipValid \<and>
   om_profile_id (classify_snapshot_ownership u tags) = p \<and>
   om_job_id (classify_snapshot_ownership u tags) = j \<longleftrightarrow>
   (\<forall>t \<in> set (ownership_tags tags). canonical_uuid u (marker_value t)) \<and>
   map marker_value (filter profile_marker tags) = [p] \<and>
   map marker_value (filter job_marker tags) = [j]"
proof -
  let ?P = "map marker_value (filter (\<lambda>t. profile_marker t \<and> canonical_uuid u (marker_value t)) tags)"
  let ?J = "map marker_value (filter (\<lambda>t. job_marker t \<and> canonical_uuid u (marker_value t)) tags)"
  let ?C = "foldl (\<lambda>ws v. count_value v ws) []"
  have "om_status (classify_snapshot_ownership u tags) = OwnershipValid \<and>
      om_profile_id (classify_snapshot_ownership u tags) = p \<and>
      om_job_id (classify_snapshot_ownership u tags) = j \<longleftrightarrow>
      ownership_tags tags \<noteq> [] \<and>
      (\<forall>t \<in> set (ownership_tags tags). canonical_uuid u (marker_value t)) \<and>
      ?C ?P = [(p, 1)] \<and> ?C ?J = [(j, 1)]"
    unfolding classify_snapshot_ownership_def scan_markers Let_def
    by (auto simp: list_ex_iff split: list.splits prod.splits)
  also have "\<dots> \<longleftrightarrow> ownership_tags tags \<noteq> [] \<and>
      (\<forall>t \<in> set (ownership_tags tags). canonical_uuid u (marker_value t)) \<and> ?P = [p] \<and> ?J = [j]"
    by (simp add: count_values)
  also have "\<dots> \<longleftrightarrow> (\<forall>t \<in> set (ownership_tags tags). canonical_uuid u (marker_value t)) \<and>
      map marker_value (filter profile_marker tags) = [p] \<and>
      map marker_value (filter job_marker tags) = [j]"
  proof (cases "\<forall>t \<in> set (ownership_tags tags). canonical_uuid u (marker_value t)")
    case True
    then have "filter (\<lambda>t. profile_marker t \<and> canonical_uuid u (marker_value t)) tags =
        filter profile_marker tags"
      "filter (\<lambda>t. job_marker t \<and> canonical_uuid u (marker_value t)) tags = filter job_marker tags"
      by (auto intro: filter_cong)
    moreover have "ownership_tags tags = [] \<Longrightarrow> filter profile_marker tags = []"
      by (auto simp: filter_empty_conv)
    ultimately show ?thesis by auto
  next
    case False
    then show ?thesis by blast
  qed
  finally show ?thesis .
qed

lemma mset_markers:
  "mset (ownership_tags tags) = mset (filter profile_marker tags) + mset (filter job_marker tags)"
  using marker_exclusive by (induction tags) auto

definition uuid_text_length :: "'u uuid_package \<Rightarrow> bool" where
  "uuid_text_length u \<longleftrightarrow> (\<forall>x. length (uuid_text u x) = 36)"

lemma canonical_marker:
  assumes "uuid_text_length u" and "canonical_uuid u (marker_value t)"
  shows "profile_marker t \<Longrightarrow> t = snapshot_profile_marker_prefix @ marker_value t"
    and "job_marker t \<Longrightarrow> t = snapshot_ownership_marker_prefix @ marker_value t"
proof -
  have len: "length (marker_value t) = 36"
    using assms by (cases "uuid_parse u (marker_value t)")
      (simp_all add: canonical_uuid_def uuid_text_length_def, metis)
  { assume p: "profile_marker t"
    have "t \<noteq> ''replicaro-profile''"
    proof
      assume "t = ''replicaro-profile''"
      with p have "marker_value t = ''replicaro-profile''"
        by (simp add: marker_value_def trim_prefix_def has_prefix_def marker_prefixes)
      with len show False by simp
    qed
    with p show "t = snapshot_profile_marker_prefix @ marker_value t"
      by (auto simp: marker_value_def profile_marker_def has_prefix_iff)
  next
    assume j: "job_marker t"
    then have np: "\<not> profile_marker t" using marker_exclusive by blast
    have "t \<noteq> ''replicaro-job''"
    proof
      assume "t = ''replicaro-job''"
      with np have "marker_value t = ''replicaro-job''"
        by (simp add: marker_value_def trim_prefix_def has_prefix_def marker_prefixes)
      with len show False by simp
    qed
    with j np show "t = snapshot_ownership_marker_prefix @ marker_value t"
      by (auto simp: marker_value_def job_marker_def has_prefix_iff)
  }
qed

lemma marker_of_value [simp]:
  "profile_marker (snapshot_profile_marker_prefix @ v)" "job_marker (snapshot_ownership_marker_prefix @ v)"
  "\<not> job_marker (snapshot_profile_marker_prefix @ v)" "\<not> profile_marker (snapshot_ownership_marker_prefix @ v)"
  using marker_exclusive by (auto simp: profile_marker_def job_marker_def marker_prefixes has_prefix_def)

lemma marker_value_of_value [simp]:
  "marker_value (snapshot_profile_marker_prefix @ v) = v"
  "marker_value (snapshot_ownership_marker_prefix @ v) = v"
  by (simp_all add: marker_value_def)

lemma owned_iff_markers:
  assumes u: "uuid_text_length u"
  shows "(\<forall>t \<in> set (ownership_tags tags). canonical_uuid u (marker_value t)) \<and>
     map marker_value (filter profile_marker tags) = [p] \<and>
     map marker_value (filter job_marker tags) = [j] \<longleftrightarrow>
   mset (ownership_tags tags) =
     {#snapshot_profile_marker_prefix @ p, snapshot_ownership_marker_prefix @ j#} \<and>
   canonical_uuid u p \<and> canonical_uuid u j"
    (is "?l \<longleftrightarrow> ?r")
proof
  assume l: ?l
  then obtain a b where ab: "filter profile_marker tags = [a]" "filter job_marker tags = [b]"
      "marker_value a = p" "marker_value b = j"
    by (auto simp: map_eq_Cons_conv)
  then have "a \<in> set (filter profile_marker tags)" "b \<in> set (filter job_marker tags)" by simp_all
  then have "profile_marker a" "job_marker b" "canonical_uuid u (marker_value a)"
      "canonical_uuid u (marker_value b)"
    using l by auto
  with canonical_marker [OF u] ab have "a = snapshot_profile_marker_prefix @ p"
    "b = snapshot_ownership_marker_prefix @ j" "canonical_uuid u p" "canonical_uuid u j" by metis+
  moreover have "mset (ownership_tags tags) = {#a, b#}" unfolding mset_markers ab by simp
  ultimately show ?r by simp
next
  assume r: ?r
  let ?a = "snapshot_profile_marker_prefix @ p" and ?b = "snapshot_ownership_marker_prefix @ j"
  from r have "filter_mset profile_marker (mset (ownership_tags tags)) = {#?a#}"
    "filter_mset job_marker (mset (ownership_tags tags)) = {#?b#}" by simp_all
  then have "mset (filter profile_marker tags) = {#?a#}" "mset (filter job_marker tags) = {#?b#}"
    by (simp_all flip: mset_filter) (simp_all add: filter_filter conj_commute conj_disj_distribL cong: conj_cong)
  then have f: "filter profile_marker tags = [?a]" "filter job_marker tags = [?b]"
    by (simp_all del: mset_filter)
  moreover from r have "set (ownership_tags tags) = {?a, ?b}"
    by (metis set_mset_mset set_mset_add_mset_insert set_mset_empty)
  ultimately show ?l using r by simp
qed

section \<open>User tags cannot claim a snapshot\<close>

definition visible_ascii :: "string \<Rightarrow> bool" where
  "visible_ascii p \<longleftrightarrow> p \<noteq> [] \<and> list_all (\<lambda>c. 33 \<le> byte c \<and> byte c < 127) p"

lemma trailing_space_encoding:
  assumes "trailing_space s \<noteq> 0"
  shows "\<exists>e r. e \<in> set space_encodings \<and> s = r @ e \<and> trailing_space s = length e"
proof -
  from assms obtain e es where f: "filter (has_suffix s) space_encodings = e # es"
    by (auto simp: trailing_space_def split: list.splits)
  then have "e \<in> set (filter (has_suffix s) space_encodings)" by simp
  then have "e \<in> set space_encodings" "has_suffix s e" by simp_all
  moreover from this obtain r where "s = r @ e" by (auto simp: has_suffix_iff)
  moreover from f have "trailing_space s = length e" by (simp add: trailing_space_def)
  ultimately show ?thesis by blast
qed

lemma trim_right_keeps_prefix:
  assumes "visible_ascii p"
  shows "has_prefix s p \<Longrightarrow> has_prefix (trim_right_space s) p"
proof (induction s rule: trim_right_space.induct)
  case (1 s)
  show ?case
  proof (cases "trailing_space s = 0 \<or> s = []")
    case True
    with 1 show ?thesis by (simp add: trim_right_space_id)
  next
    case False
    then obtain e r where e: "e \<in> set space_encodings" "s = r @ e" "trailing_space s = length e"
      using trailing_space_encoding by blast
    from 1(2) obtain q where q: "s = p @ q" by (auto simp: has_prefix_iff)
    have "length p \<le> length r"
    proof (rule ccontr)
      assume "\<not> length p \<le> length r"
      then have "p ! length r = hd e" "length r < length p"
        using e q space_encodings_ends by (auto simp: list_all_iff hd_conv_nth nth_append
            dest: arg_cong [of _ _ "\<lambda>s. s ! length r"])
      moreover from this assms have "33 \<le> byte (p ! length r) \<and> byte (p ! length r) < 127"
        unfolding visible_ascii_def list_all_length by blast
      ultimately show False using e(1) space_encodings_ends by (auto simp: list_all_iff)
    qed
    then have "has_prefix (take (length s - trailing_space s) s) p"
      using e q 1(2) by (simp add: has_prefix_def)
    with 1(1) False show ?thesis by (subst trim_right_space.simps) simp
  qed
qed

lemma trim_keeps_prefix: "visible_ascii p \<Longrightarrow> has_prefix s p \<Longrightarrow> has_prefix (trim_space s) p"
proof -
  assume p: "visible_ascii p" "has_prefix s p"
  then have "hd s = hd p" "p \<noteq> []" by (auto simp: has_prefix_iff visible_ascii_def hd_append)
  with p have "leading_space s = 0"
    by (intro leading_space_visible) (auto simp: visible_ascii_def list_all_iff)
  with p show ?thesis by (simp add: trim_space_def trim_left_space_id trim_right_keeps_prefix)
qed

lemma marker_reserved:
  assumes "profile_marker t \<or> job_marker t"
  shows "reserved_component t \<and> reserved_component (trim_space t)"
proof -
  have "visible_ascii snapshot_profile_marker_prefix" "visible_ascii snapshot_ownership_marker_prefix"
    by (simp_all add: visible_ascii_def marker_prefixes)
  moreover have "trim_space ''replicaro-profile'' = ''replicaro-profile''"
    "trim_space ''replicaro-job'' = ''replicaro-job''"
    by (simp_all add: trim_space_plain)
  ultimately show ?thesis
    using assms trim_keeps_prefix
    by (auto simp: profile_marker_def job_marker_def reserved_component_def)
qed

lemma user_tags_not_markers:
  assumes "\<not> contains_reserved_ownership_tag value"
    and "set user \<subseteq> set (split_on CHR '','' value) \<union> trim_space ` set (split_on CHR '','' value)"
  shows "ownership_tags (user @ tags) = ownership_tags tags"
proof -
  have "\<not> (profile_marker t \<or> job_marker t)" if "t \<in> set user" for t
  proof
    assume m: "profile_marker t \<or> job_marker t"
    from assms(2) that obtain c where c: "c \<in> set (split_on CHR '','' value)" "t = c \<or> t = trim_space c"
      by blast
    with marker_reserved [OF m] have "reserved_component (trim_space c)" by auto
    with c(1) assms(1) show False by (auto simp: contains_reserved_ownership_tag_def list_ex_iff)
  qed
  then have "ownership_tags user = []" by (auto simp: filter_empty_conv)
  then show ?thesis by simp
qed

lemma present_managed:
  "sn_presentation (present_snapshot (snapshot_with_tags u sn tags) profile known) = Managed \<and>
   sn_managed_job_id (present_snapshot (snapshot_with_tags u sn tags) profile known) = j \<longleftrightarrow>
   om_status (classify_snapshot_ownership u tags) = OwnershipValid \<and>
   om_profile_id (classify_snapshot_ownership u tags) = profile \<and>
   om_job_id (classify_snapshot_ownership u tags) = j \<and> known j"
  by (auto simp: present_snapshot_def snapshot_with_tags_def classify_snapshot_presentation_def Let_def)

text \<open>C36. A snapshot is shown as managed by a job exactly when its ownership markers, in any
  order, are one marker of this profile and one of that known job, both canonical ids; tags that
  come from a user tag value the reserved-tag check accepts cannot change that.\<close>

theorem managed_by_its_markers:
  assumes "uuid_text_length u" and "\<not> contains_reserved_ownership_tag value"
    and "set user \<subseteq> set (split_on CHR '','' value) \<union> trim_space ` set (split_on CHR '','' value)"
  shows "sn_presentation (present_snapshot (snapshot_with_tags u sn (user @ tags)) profile known) = Managed \<and>
      sn_managed_job_id (present_snapshot (snapshot_with_tags u sn (user @ tags)) profile known) = j \<longleftrightarrow>
    mset (ownership_tags tags) =
      {#snapshot_profile_marker_prefix @ profile, snapshot_ownership_marker_prefix @ j#} \<and>
    canonical_uuid u profile \<and> canonical_uuid u j \<and> known j"
    (is "?managed \<longleftrightarrow> ?markers")
proof -
  let ?all = "user @ tags"
  let ?m = "\<lambda>ts. mset (ownership_tags ts) =
      {#snapshot_profile_marker_prefix @ profile, snapshot_ownership_marker_prefix @ j#} \<and>
    canonical_uuid u profile \<and> canonical_uuid u j"
  have "?managed \<longleftrightarrow> (om_status (classify_snapshot_ownership u ?all) = OwnershipValid \<and>
      om_profile_id (classify_snapshot_ownership u ?all) = profile \<and>
      om_job_id (classify_snapshot_ownership u ?all) = j) \<and> known j"
    unfolding present_managed by blast
  also have "\<dots> \<longleftrightarrow> ?m ?all \<and> known j"
    unfolding classified_valid owned_iff_markers [OF assms(1)] ..
  also have "\<dots> \<longleftrightarrow> ?markers"
    unfolding user_tags_not_markers [OF assms(2,3)] by blast
  finally show ?thesis .
qed

definition sample_uuids :: "string uuid_package" where
  "sample_uuids =
     \<lparr>uuid_parse = (\<lambda>s. if length s = 36 then Some s else None), uuid_nil = replicate 36 (CHR ''0''),
      uuid_text = (\<lambda>s. take 36 (s @ replicate 36 (CHR ''0'')))\<rparr>"

definition sample_snapshot :: "string list \<Rightarrow> tagged_snapshot" where
  "sample_snapshot tags =
     present_snapshot (snapshot_with_tags sample_uuids
       \<lparr>sn_tags = [], sn_ownership = classify_snapshot_ownership sample_uuids [],
        sn_presentation = NotPresented, sn_managed_job_id = []\<rparr> tags)
       (replicate 36 CHR ''a'') (\<lambda>_. True)"

lemma managed_by_its_markers_witness:
  "sn_managed_job_id (sample_snapshot [''photos'',
      snapshot_ownership_marker_prefix @ replicate 36 CHR ''b'',
      snapshot_profile_marker_prefix @ replicate 36 CHR ''a'']) = replicate 36 CHR ''b''"
proof -
  let ?tags = "[snapshot_ownership_marker_prefix @ replicate 36 CHR ''b'',
      snapshot_profile_marker_prefix @ replicate 36 CHR ''a'']"
  have u: "uuid_text_length sample_uuids" by (auto simp: uuid_text_length_def sample_uuids_def min_def)
  have v: "\<not> contains_reserved_ownership_tag ''photos''"
    by (simp add: contains_reserved_ownership_tag_def trim_space_plain reserved_component_def
        has_prefix_def marker_prefixes)
  have "set [''photos''] \<subseteq> set (split_on CHR '','' ''photos'') \<union> trim_space ` set (split_on CHR '','' ''photos'')"
    by simp
  note t = managed_by_its_markers [OF u v this, of _ ?tags "replicate 36 CHR ''a''" "\<lambda>_. True"
      "replicate 36 CHR ''b''"]
  have "mset (ownership_tags ?tags) = {#snapshot_profile_marker_prefix @ replicate 36 CHR ''a'',
      snapshot_ownership_marker_prefix @ replicate 36 CHR ''b''#}"
    by simp
  moreover have "canonical_uuid sample_uuids (replicate 36 CHR ''a'')"
    "canonical_uuid sample_uuids (replicate 36 CHR ''b'')"
    by (simp_all add: canonical_uuid_def sample_uuids_def)
  ultimately show ?thesis
    using t unfolding sample_snapshot_def by fastforce
qed

end
