(* ===== verification/ObjectLock.thy ===== *)
theory ObjectLock
  imports GoErrors
begin

text \<open>
  The vault settings of \<open>models/repository.go\<close> and \<open>models/concurrency.go\<close>: object lock
  (enrollment, duration, transitions, the maintenance schedules it permits), cold storage,
  engines, connectors and the concurrency mode.  An \<open>int64\<close> is an integer in its range; a
  product is written with its wrap-around.  The case mapping of non-ASCII text is the argument
  \<open>uni\<close>.
\<close>

section \<open>Durations\<close>

definition hour_nanoseconds :: int where "hour_nanoseconds = 3600000000000"

section \<open>Object lock\<close>

definition object_lock_mode_compliance :: string where "object_lock_mode_compliance = ''compliance''"
definition object_lock_mode_governance :: string where "object_lock_mode_governance = ''governance''"

record object_lock_settings =
  ol_enrolled :: bool
  ol_paused :: bool
  ol_mode :: string
  ol_duration_value :: int
  ol_duration_unit :: string

definition zero_object_lock :: object_lock_settings where
  "zero_object_lock = \<lparr>ol_enrolled = False, ol_paused = False, ol_mode = [],
     ol_duration_value = 0, ol_duration_unit = []\<rparr>"

definition object_lock_eligible :: "string \<Rightarrow> string \<Rightarrow> bool" where
  "object_lock_eligible engine connector =
     (if engine \<noteq> ''kopia'' then False
      else connector = ''s3'' \<or> connector = ''azblob'' \<or> connector = ''gcs'')"

definition object_lock_unit_hours :: "string \<Rightarrow> int option" where
  "object_lock_unit_hours unit =
     (if unit = ''days'' then Some 24
      else if unit = ''weeks'' then Some (7 * 24)
      else if unit = ''months'' then Some (30 * 24)
      else if unit = ''years'' then Some (365 * 24)
      else None)"

definition duration_hours :: "object_lock_settings \<Rightarrow> int result" where
  "duration_hours s =
     (case object_lock_unit_hours (ol_duration_unit s) of
        None \<Rightarrow> Inl (new_error ''object lock duration is invalid'')
      | Some unit_hours \<Rightarrow>
          if ol_duration_value s \<le> 0 \<or> ol_duration_value s > max64 div unit_hours
          then Inl (new_error ''object lock duration is invalid'')
          else let hours = wrap64 (ol_duration_value s * unit_hours) in
            if hours > max64 div hour_nanoseconds
            then Inl (new_error ''object lock duration exceeds Kopia's supported range'')
            else if hours < 48
            then Inl (new_error ''object lock duration must be at least 2 days'')
            else Inr hours)"

definition native_retention_period :: "object_lock_settings \<Rightarrow> string result" where
  "native_retention_period s =
     (case duration_hours s of Inl e \<Rightarrow> Inl e | Inr hours \<Rightarrow> Inr (decimal (nat hours) @ ''h''))"

definition normalize_object_lock ::
  "(string \<Rightarrow> string) \<Rightarrow> string \<Rightarrow> string \<Rightarrow> object_lock_settings \<Rightarrow> object_lock_settings result" where
  "normalize_object_lock uni engine connector s =
     (if \<not> ol_enrolled s then
        (if ol_paused s \<or> ol_mode s \<noteq> [] \<or> ol_duration_value s \<noteq> 0 \<or> ol_duration_unit s \<noteq> []
         then Inl (new_error ''object lock settings require enrollment'')
         else Inr zero_object_lock)
      else if \<not> object_lock_eligible engine connector
      then Inl (new_error ''object lock requires Kopia with S3, Azure Blob, or Google Cloud Storage'')
      else
        let s = s\<lparr>ol_mode := to_lower uni (trim_space (ol_mode s)),
                  ol_duration_unit := to_lower uni (trim_space (ol_duration_unit s))\<rparr>
        in if ol_mode s \<noteq> object_lock_mode_compliance \<and> ol_mode s \<noteq> object_lock_mode_governance
           then Inl (new_error ''object lock mode must be compliance or governance'')
           else if connector \<noteq> ''s3'' \<and> ol_mode s \<noteq> object_lock_mode_compliance
           then Inl (new_error ''Azure Blob and Google Cloud Storage object lock require compliance mode'')
           else case duration_hours s of Inl e \<Rightarrow> Inl e | Inr _ \<Rightarrow> Inr s)"

definition object_lock_maintenance_interval :: "string \<Rightarrow> int option" where
  "object_lock_maintenance_interval schedule =
     (if schedule = ''daily'' then Some (24 * hour_nanoseconds)
      else if schedule = ''weekly'' then Some (7 * 24 * hour_nanoseconds)
      else if schedule = ''monthly'' then Some (31 * 24 * hour_nanoseconds)
      else None)"

definition object_lock_maintenance_eligible :: "object_lock_settings \<Rightarrow> string \<Rightarrow> bool" where
  "object_lock_maintenance_eligible s schedule =
     (if \<not> ol_enrolled s then True
      else if ol_paused s \<and> schedule = ''manual'' then True
      else case object_lock_maintenance_interval schedule of
        None \<Rightarrow> False
      | Some interval \<Rightarrow>
          if ol_paused s then True
          else (case duration_hours s of
              Inl _ \<Rightarrow> False
            | Inr hours \<Rightarrow> wrap64 (wrap64 (hours * hour_nanoseconds) - interval) \<ge> 24 * hour_nanoseconds))"

fun first_eligible :: "object_lock_settings \<Rightarrow> string list \<Rightarrow> string option" where
  "first_eligible s [] = None"
| "first_eligible s (schedule # rest) =
     (if object_lock_maintenance_eligible s schedule then Some schedule else first_eligible s rest)"

definition longest_eligible_object_lock_maintenance :: "object_lock_settings \<Rightarrow> string result" where
  "longest_eligible_object_lock_maintenance s =
     (if \<not> ol_enrolled s \<or> ol_paused s then Inr ''monthly''
      else case first_eligible s [''monthly'', ''weekly'', ''daily''] of
        Some schedule \<Rightarrow> Inr schedule
      | None \<Rightarrow> Inl (new_error ''object lock duration does not permit a space reclamation schedule''))"

definition validate_object_lock_transition ::
  "object_lock_settings \<Rightarrow> object_lock_settings \<Rightarrow> go_error option" where
  "validate_object_lock_transition current nxt =
     (if ol_enrolled current \<noteq> ol_enrolled nxt
      then Some (new_error ''object lock cannot be enabled or disabled after creation'')
      else if \<not> ol_enrolled current then None
      else
        let changed = ol_mode current \<noteq> ol_mode nxt \<or> ol_duration_value current \<noteq> ol_duration_value nxt \<or>
              ol_duration_unit current \<noteq> ol_duration_unit nxt
        in if ol_paused nxt \<and> changed
           then Some (new_error ''resume object lock before changing its mode or duration'')
           else (case duration_hours current of
               Inl e \<Rightarrow> Some e
             | Inr current_hours \<Rightarrow>
                 (case duration_hours nxt of
                    Inl e \<Rightarrow> Some e
                  | Inr next_hours \<Rightarrow>
                      if next_hours < current_hours
                      then Some (new_error ''object lock duration cannot be reduced after enrollment'')
                      else if ol_mode current = object_lock_mode_compliance \<and>
                        ol_mode nxt = object_lock_mode_governance
                      then Some (new_error ''S3 Compliance object lock cannot be changed to Governance after enrollment'')
                      else None)))"

section \<open>Cold storage, engines, connectors and concurrency\<close>

definition archive_write_class_deep_archive :: string where
  "archive_write_class_deep_archive = ''DEEP_ARCHIVE''"
definition archive_write_class_glacier :: string where "archive_write_class_glacier = ''GLACIER''"

definition normalize_cold_storage :: "string \<Rightarrow> string \<Rightarrow> bool \<Rightarrow> string \<Rightarrow> string result" where
  "normalize_cold_storage engine connector cold archive_write_class =
     (let cls = trim_space archive_write_class in
      if \<not> cold then
        (if cls \<noteq> [] then Inl (new_error ''archive write class requires Cold Storage [Must Be S3 Compatible]'')
         else Inr [])
      else if engine \<noteq> ''restic'' \<or> connector \<noteq> ''s3''
      then Inl (new_error ''cold storage requires Restic with S3-compatible storage'')
      else let cls = (if cls = [] then archive_write_class_glacier else cls) in
        if cls \<noteq> archive_write_class_deep_archive \<and> cls \<noteq> archive_write_class_glacier
        then Inl (new_error ''cold storage archive write class must be DEEP_ARCHIVE or GLACIER'')
        else Inr cls)"

definition valid_engine :: "string \<Rightarrow> bool" where
  "valid_engine engine \<longleftrightarrow> engine = ''restic'' \<or> engine = ''kopia''"

definition sole_profile_connector :: "string \<Rightarrow> bool" where
  "sole_profile_connector connector \<longleftrightarrow>
     connector \<in> set [''dropbox'', ''google_drive'', ''onedrive'', ''rclone_remote'']"

definition concurrency_reduced :: string where "concurrency_reduced = ''reduced''"
definition concurrency_native :: string where "concurrency_native = ''native''"
definition concurrency_increased :: string where "concurrency_increased = ''increased''"
definition concurrency_maximum :: string where "concurrency_maximum = ''maximum''"

lemmas concurrency_modes = concurrency_reduced_def concurrency_native_def
  concurrency_increased_def concurrency_maximum_def

definition valid_concurrency_mode :: "string \<Rightarrow> bool" where
  "valid_concurrency_mode value \<longleftrightarrow>
     value \<in> set [concurrency_reduced, concurrency_native, concurrency_increased, concurrency_maximum]"

definition normalize_concurrency_mode :: "string \<Rightarrow> string result" where
  "normalize_concurrency_mode value =
     (let value = trim_space value in
      if value = [] then Inr concurrency_native
      else if \<not> valid_concurrency_mode value
      then Inl (new_error ''concurrency mode must be reduced, native, increased, or maximum'')
      else Inr value)"

definition normalize_concurrency_mode_for_connector :: "string \<Rightarrow> string \<Rightarrow> string result" where
  "normalize_concurrency_mode_for_connector connector value =
     (case normalize_concurrency_mode value of
        Inl e \<Rightarrow> Inl e
      | Inr mode \<Rightarrow>
          if connector \<in> set [''dropbox'', ''google_drive'', ''onedrive'', ''rclone_remote''] \<and>
             (mode = concurrency_increased \<or> mode = concurrency_maximum)
          then Inr concurrency_native
          else Inr mode)"

section \<open>The duration is exact\<close>

lemma le_div_int: "0 < n \<Longrightarrow> a \<le> m div n \<longleftrightarrow> a * n \<le> (m :: int)"
proof
  assume n: "0 < n" and "a \<le> m div n"
  then have "a * n \<le> m div n * n" by simp
  also have "\<dots> \<le> m" using n by (simp add: minus_mod_eq_div_mult [symmetric])
  finally show "a * n \<le> m" .
next
  assume "0 < n" "a * n \<le> m"
  then show "a \<le> m div n" using zdiv_mono1 [of "a * n" m n] by simp
qed

lemma unit_hours_pos: "object_lock_unit_hours unit = Some n \<Longrightarrow> 0 < n"
  by (auto simp: object_lock_unit_hours_def split: if_splits)

lemma duration_hours_exact:
  "duration_hours s = Inr h \<longleftrightarrow>
    (\<exists>n. object_lock_unit_hours (ol_duration_unit s) = Some n \<and> h = ol_duration_value s * n \<and>
       48 \<le> h \<and> h * hour_nanoseconds \<le> max64)"
proof (cases "object_lock_unit_hours (ol_duration_unit s)")
  case None
  then show ?thesis by (simp add: duration_hours_def)
next
  case (Some n)
  let ?v = "ol_duration_value s"
  have n: "0 < n" using Some by (rule unit_hours_pos)
  have fits: "?v \<le> max64 div n \<longleftrightarrow> ?v * n \<le> max64"
    using n by (rule le_div_int)
  have hours: "h \<le> max64 div hour_nanoseconds \<longleftrightarrow> h * hour_nanoseconds \<le> max64" for h
    by (rule le_div_int) (simp add: hour_nanoseconds_def)
  have wrap: "wrap64 (?v * n) = ?v * n" if "0 < ?v" "?v * n \<le> max64"
  proof -
    have "0 \<le> ?v * n" using that(1) n by simp
    with that(2) show ?thesis by (intro wrap64_id) (simp add: in_int64_def min64_def)
  qed
  have pos: "0 < ?v \<longleftrightarrow> 0 < ?v * n" using n by (simp add: zero_less_mult_iff)
  have small: "?v * n \<le> max64" if "?v * n * hour_nanoseconds \<le> max64" "0 < ?v"
    using that pos by (simp add: hour_nanoseconds_def max64_def)
  show ?thesis
  proof (cases "0 < ?v \<and> ?v * n \<le> max64")
    case True
    then have "duration_hours s = (let h = ?v * n in
        if h > max64 div hour_nanoseconds
        then Inl (new_error ''object lock duration exceeds Kopia's supported range'')
        else if h < 48 then Inl (new_error ''object lock duration must be at least 2 days'')
        else Inr h)"
      using Some fits wrap by (simp add: duration_hours_def)
    then show ?thesis using Some hours [of "?v * n"] by (auto simp: Let_def not_less)
  next
    case False
    then have "\<exists>e. duration_hours s = Inl e" using Some fits by (auto simp: duration_hours_def)
    then show ?thesis using False Some pos small by fastforce
  qed
qed

text \<open>The margin before the lock ends, computed in nanoseconds, does not wrap either.\<close>

lemma maintenance_margin:
  assumes "duration_hours s = Inr h" and "object_lock_maintenance_interval schedule = Some interval"
  shows "wrap64 (wrap64 (h * hour_nanoseconds) - interval) = h * hour_nanoseconds - interval"
proof -
  from assms(1) have h: "48 \<le> h" "h * hour_nanoseconds \<le> max64" by (auto simp: duration_hours_exact)
  from assms(2) have i: "0 \<le> interval" "interval \<le> 31 * 24 * hour_nanoseconds"
    by (auto simp: object_lock_maintenance_interval_def hour_nanoseconds_def split: if_splits)
  have "wrap64 (h * hour_nanoseconds) = h * hour_nanoseconds"
    using h by (intro wrap64_id) (simp add: in_int64_def min64_def hour_nanoseconds_def)
  moreover have "in_int64 (h * hour_nanoseconds - interval)"
    using h i by (simp add: in_int64_def min64_def max64_def hour_nanoseconds_def)
  ultimately show ?thesis by (simp add: wrap64_id)
qed

section \<open>Properties\<close>

definition result_option :: "'a result \<Rightarrow> 'a option" where
  "result_option r = (case r of Inl _ \<Rightarrow> None | Inr x \<Rightarrow> Some x)"

lemma result_option_Some [simp]: "result_option r = Some x \<longleftrightarrow> r = Inr x"
  by (cases r) (auto simp: result_option_def)

lemma visible_word_trim: "list_all (\<lambda>c. 97 \<le> byte c \<and> byte c \<le> 122) s \<Longrightarrow> s \<noteq> [] \<Longrightarrow>
    trim_space s = s \<and> to_lower uni s = s"
proof -
  assume s: "list_all (\<lambda>c. 97 \<le> byte c \<and> byte c \<le> 122) s" "s \<noteq> []"
  then have "97 \<le> byte (hd s) \<and> byte (hd s) \<le> 122" "97 \<le> byte (last s) \<and> byte (last s) \<le> 122"
    by (auto simp: list_all_iff)
  then have "trim_space s = s" by (intro trim_space_plain) auto
  moreover have "ascii_string s" using s(1) by (auto simp: ascii_string_def list_all_iff)
  moreover have "map lower_byte s = s"
    using s(1) by (intro map_idI) (auto simp: list_all_iff lower_byte_def)
  ultimately show ?thesis by (simp add: to_lower_ascii)
qed

lemma unit_words: "object_lock_unit_hours unit = Some n \<Longrightarrow>
    list_all (\<lambda>c. 97 \<le> byte c \<and> byte c \<le> 122) unit \<and> unit \<noteq> []"
  by (auto simp: object_lock_unit_hours_def split: if_splits)

lemma duration_hours_unit: "duration_hours s = Inr h \<Longrightarrow> \<exists>n. object_lock_unit_hours (ol_duration_unit s) = Some n"
  by (auto simp: duration_hours_exact)

lemma normalize_object_lock_stable:
  assumes "normalize_object_lock uni engine connector s = Inr t"
  shows "normalize_object_lock uni engine connector t = Inr t"
proof (cases "ol_enrolled s")
  case False
  with assms show ?thesis
    by (auto simp: normalize_object_lock_def zero_object_lock_def split: if_splits)
next
  case True
  let ?t = "s\<lparr>ol_mode := to_lower uni (trim_space (ol_mode s)),
                  ol_duration_unit := to_lower uni (trim_space (ol_duration_unit s))\<rparr>"
  from assms True have t: "t = ?t" and m: "ol_mode t = object_lock_mode_compliance \<or> ol_mode t = object_lock_mode_governance"
    and e: "object_lock_eligible engine connector" "connector \<noteq> ''s3'' \<longrightarrow> ol_mode t = object_lock_mode_compliance"
    and d: "\<exists>h. duration_hours t = Inr h"
    by (auto simp: normalize_object_lock_def Let_def split: if_splits sum.splits)
  from m have "trim_space (ol_mode t) = ol_mode t \<and> to_lower uni (ol_mode t) = ol_mode t"
    by (intro visible_word_trim) (auto simp: object_lock_mode_compliance_def object_lock_mode_governance_def)
  moreover from d obtain n where "object_lock_unit_hours (ol_duration_unit t) = Some n"
    using duration_hours_unit by blast
  then have "trim_space (ol_duration_unit t) = ol_duration_unit t \<and>
      to_lower uni (ol_duration_unit t) = ol_duration_unit t"
    using unit_words visible_word_trim by blast
  moreover have "ol_enrolled t" using t True by simp
  ultimately show ?thesis
    using m e d by (auto simp: normalize_object_lock_def Let_def)
qed

lemma normalize_cold_storage_stable:
  assumes "normalize_cold_storage engine connector cold c = Inr c'"
  shows "normalize_cold_storage engine connector cold c' = Inr c'"
proof -
  from assms consider "c' = []" "\<not> cold" | "c' = archive_write_class_deep_archive" | "c' = archive_write_class_glacier"
    by (auto simp: normalize_cold_storage_def Let_def split: if_splits)
  moreover have "trim_space archive_write_class_deep_archive = archive_write_class_deep_archive"
    "trim_space archive_write_class_glacier = archive_write_class_glacier"
    "archive_write_class_deep_archive \<noteq> []" "archive_write_class_glacier \<noteq> []"
    by (simp_all add: archive_write_class_deep_archive_def archive_write_class_glacier_def trim_space_plain)
  moreover have "trim_space [] = []"
    by (simp add: trim_space_def trim_left_space_id trim_right_space_id)
  ultimately show ?thesis
    using assms by cases (auto simp: normalize_cold_storage_def Let_def split: if_splits)
qed

lemma valid_mode_trim: "valid_concurrency_mode m \<Longrightarrow> trim_space m = m \<and> m \<noteq> []"
  by (auto simp: valid_concurrency_mode_def concurrency_modes trim_space_plain)

lemma native_valid: "valid_concurrency_mode concurrency_native"
  by (simp add: valid_concurrency_mode_def)

lemma normalize_concurrency_valid: "normalize_concurrency_mode v = Inr m \<Longrightarrow> valid_concurrency_mode m"
  by (auto simp: normalize_concurrency_mode_def native_valid Let_def split: if_splits)

lemma normalize_valid_mode: "valid_concurrency_mode m \<Longrightarrow> normalize_concurrency_mode m = Inr m"
  using valid_mode_trim by (simp add: normalize_concurrency_mode_def)

lemma normalize_connector_stable:
  assumes "normalize_concurrency_mode_for_connector connector v = Inr m"
  shows "normalize_concurrency_mode_for_connector connector m = Inr m"
proof -
  from assms have "valid_concurrency_mode m"
    by (auto simp: normalize_concurrency_mode_for_connector_def native_valid
        dest: normalize_concurrency_valid split: if_splits sum.splits)
  then have "normalize_concurrency_mode m = Inr m" by (rule normalize_valid_mode)
  with assms show ?thesis
    by (auto simp: normalize_concurrency_mode_for_connector_def concurrency_modes split: if_splits sum.splits)
qed

interpretation object_lock: normaliser "\<lambda>s. result_option (normalize_object_lock uni engine connector s)"
  for uni engine connector
  by unfold_locales (auto dest: normalize_object_lock_stable)

interpretation cold_storage: normaliser "\<lambda>c. result_option (normalize_cold_storage engine connector cold c)"
  for engine connector cold
  by unfold_locales (auto dest: normalize_cold_storage_stable)

interpretation concurrency: normaliser
  "\<lambda>v. result_option (normalize_concurrency_mode_for_connector connector v)" for connector
  by unfold_locales (auto dest: normalize_connector_stable)

text \<open>The vault's saved lock, changed by accepted transitions between normal settings.\<close>

inductive lock_change :: "(string \<Rightarrow> string) \<Rightarrow> string \<Rightarrow> string \<Rightarrow>
    object_lock_settings \<Rightarrow> object_lock_settings \<Rightarrow> bool"
  for uni engine connector where
  change: "normalize_object_lock uni engine connector request = Inr t \<Longrightarrow>
    validate_object_lock_transition s t = None \<Longrightarrow> lock_change uni engine connector s t"

inductive_cases lock_changeE: "lock_change uni engine connector s t"

definition lock_no_weaker :: "object_lock_settings \<Rightarrow> object_lock_settings \<Rightarrow> bool" where
  "lock_no_weaker s t \<longleftrightarrow>
     ol_enrolled t = ol_enrolled s \<and>
     (ol_enrolled s \<longrightarrow>
       (\<exists>h k. duration_hours s = Inr h \<and> duration_hours t = Inr k \<and> h \<le> k) \<and>
       (ol_mode s = object_lock_mode_compliance \<longrightarrow> ol_mode t = object_lock_mode_compliance))"

lemma normal_lock_ok:
  "normalize_object_lock uni engine connector s = Inr t \<Longrightarrow> ol_enrolled t \<Longrightarrow>
   (\<exists>h. duration_hours t = Inr h) \<and>
   (ol_mode t = object_lock_mode_compliance \<or> ol_mode t = object_lock_mode_governance)"
  by (auto simp: normalize_object_lock_def zero_object_lock_def Let_def split: if_splits sum.splits)

lemma lock_change_no_weaker: "lock_change uni engine connector s t \<Longrightarrow> lock_no_weaker s t"
proof (elim lock_changeE)
  fix request
  assume n: "normalize_object_lock uni engine connector request = Inr t"
    and v: "validate_object_lock_transition s t = None"
  from v have e: "ol_enrolled t = ol_enrolled s"
    by (auto simp: validate_object_lock_transition_def split: if_splits)
  show "lock_no_weaker s t"
  proof (cases "ol_enrolled s")
    case True
    with v have "(\<exists>h k. duration_hours s = Inr h \<and> duration_hours t = Inr k \<and> h \<le> k) \<and>
        (ol_mode s = object_lock_mode_compliance \<longrightarrow> ol_mode t \<noteq> object_lock_mode_governance)"
      by (auto simp: validate_object_lock_transition_def Let_def split: if_splits sum.splits)
    with normal_lock_ok [OF n] e True show ?thesis by (auto simp: lock_no_weaker_def)
  qed (simp add: lock_no_weaker_def e)
qed

text \<open>C37. However often the settings of a vault are changed through the validated transition, object lock is never turned on or
  off, the protected duration never shrinks (in exact hours, without wrap-around), and compliance
  mode is never left.  (Settings adopted from the owner's record after a takeover are not validated against the
  stored ones.)\<close>

theorem object_lock_never_weakens:
  assumes "normalize_object_lock uni engine connector request = Inr s"
    and "(lock_change uni engine connector)\<^sup>*\<^sup>* s t"
  shows "ol_enrolled t = ol_enrolled s \<and>
    (ol_enrolled s \<longrightarrow>
      (\<exists>h k m n. duration_hours s = Inr h \<and> duration_hours t = Inr k \<and> h \<le> k \<and>
         object_lock_unit_hours (ol_duration_unit s) = Some m \<and> h = ol_duration_value s * m \<and>
         object_lock_unit_hours (ol_duration_unit t) = Some n \<and> k = ol_duration_value t * n) \<and>
      (ol_mode s = object_lock_mode_compliance \<longrightarrow> ol_mode t = object_lock_mode_compliance))"
proof -
  have refl: "lock_no_weaker s s"
    using normal_lock_ok [OF assms(1)] by (auto simp: lock_no_weaker_def)
  have "lock_no_weaker s t" using assms(2)
  proof (induction rule: rtranclp_induct)
    case (step y z)
    from lock_change_no_weaker [OF step(2)] step(3) show ?case
      by (fastforce simp: lock_no_weaker_def)
  qed (rule refl)
  then show ?thesis unfolding lock_no_weaker_def by (auto simp: duration_hours_exact)
qed

definition sample_lock :: "int \<Rightarrow> string \<Rightarrow> object_lock_settings" where
  "sample_lock n unit = \<lparr>ol_enrolled = True, ol_paused = False, ol_mode = object_lock_mode_compliance,
     ol_duration_value = n, ol_duration_unit = unit\<rparr>"

lemma sample_lock_hours: "duration_hours (sample_lock 2 ''weeks'') = Inr 336"
  "duration_hours (sample_lock 1 ''months'') = Inr 720"
  by (simp_all add: duration_hours_exact sample_lock_def object_lock_unit_hours_def
      hour_nanoseconds_def max64_def)

lemma sample_lock_normal:
  assumes "duration_hours (sample_lock n unit) = Inr h"
  shows "normalize_object_lock id ''kopia'' ''s3'' (sample_lock n unit) = Inr (sample_lock n unit)"
proof -
  from assms have "trim_space unit = unit \<and> to_lower id unit = unit"
    using duration_hours_unit unit_words visible_word_trim by (fastforce simp: sample_lock_def)
  moreover have "trim_space object_lock_mode_compliance = object_lock_mode_compliance \<and>
      to_lower id object_lock_mode_compliance = object_lock_mode_compliance"
    by (intro visible_word_trim) (simp_all add: object_lock_mode_compliance_def)
  ultimately show ?thesis
    using assms by (simp add: normalize_object_lock_def sample_lock_def object_lock_eligible_def Let_def)
qed

lemma object_lock_never_weakens_witness:
  "ol_mode (sample_lock 1 ''months'') = object_lock_mode_compliance \<and>
   duration_hours (sample_lock 1 ''months'') = Inr 720"
proof -
  let ?s = "sample_lock 2 ''weeks''" and ?t = "sample_lock 1 ''months''"
  have "validate_object_lock_transition ?s ?t = None"
    using sample_lock_hours
    by (simp add: validate_object_lock_transition_def Let_def)
      (simp add: sample_lock_def object_lock_mode_compliance_def object_lock_mode_governance_def)
  then have "(lock_change id ''kopia'' ''s3'')\<^sup>*\<^sup>* ?s ?t"
    using sample_lock_normal [OF sample_lock_hours(2)] by (intro r_into_rtranclp lock_change.change)
  from object_lock_never_weakens [OF sample_lock_normal [OF sample_lock_hours(1)] this]
  show ?thesis using sample_lock_hours(2) by (simp add: sample_lock_def)
qed

text \<open>Which maintenance schedules a lock permits, in exact hours.\<close>

lemma maintenance_eligible_exact:
  assumes "ol_enrolled s" "\<not> ol_paused s"
  shows "object_lock_maintenance_eligible s schedule \<longleftrightarrow>
    (\<exists>h. duration_hours s = Inr h \<and>
      (schedule = ''daily'' \<or> schedule = ''weekly'' \<and> 8 * 24 \<le> h \<or> schedule = ''monthly'' \<and> 32 * 24 \<le> h))"
proof (cases "duration_hours s")
  case (Inr h)
  then have h: "48 \<le> h" by (auto simp: duration_hours_exact)
  show ?thesis
  proof (cases "object_lock_maintenance_interval schedule")
    case None
    with assms show ?thesis
      by (auto simp: object_lock_maintenance_eligible_def object_lock_maintenance_interval_def split: if_splits)
  next
    case (Some interval)
    from maintenance_margin [OF Inr Some] have
      "object_lock_maintenance_eligible s schedule \<longleftrightarrow> 24 * hour_nanoseconds \<le> h * hour_nanoseconds - interval"
      using assms Some Inr by (simp add: object_lock_maintenance_eligible_def)
    with Some Inr h show ?thesis
      by (auto simp: object_lock_maintenance_interval_def hour_nanoseconds_def split: if_splits)
  qed
qed (use assms in \<open>auto simp: object_lock_maintenance_eligible_def split: option.splits\<close>)

text \<open>C38. A vault without a lock permits every maintenance schedule, and a vault whose lock is paused every
  automatic one and manual.  Else a schedule is permitted exactly when its longest interval ends a day before the lock
  does, computed without wrap-around; a valid lock always permits one.  The default offered is
  monthly without a lock or while it is paused, and else the longest permitted.\<close>

theorem longest_maintenance:
  "(object_lock_maintenance_eligible s schedule \<longleftrightarrow>
      (if \<not> ol_enrolled s then True
       else if ol_paused s then schedule \<in> {''manual'', ''daily'', ''weekly'', ''monthly''}
       else \<exists>h. duration_hours s = Inr h \<and>
        (schedule = ''daily'' \<or> schedule = ''weekly'' \<and> 8 * 24 \<le> h \<or> schedule = ''monthly'' \<and> 32 * 24 \<le> h))) \<and>
    (\<exists>e. longest_eligible_object_lock_maintenance s =
      (if \<not> ol_enrolled s \<or> ol_paused s then Inr ''monthly''
       else case duration_hours s of Inl _ \<Rightarrow> Inl e
      | Inr h \<Rightarrow> Inr (if 32 * 24 \<le> h then ''monthly'' else if 8 * 24 \<le> h then ''weekly'' else ''daily'')))"
proof (cases "ol_enrolled s \<and> \<not> ol_paused s")
  case True
  then have l: "longest_eligible_object_lock_maintenance s =
      (case first_eligible s [''monthly'', ''weekly'', ''daily''] of
         Some schedule \<Rightarrow> Inr schedule
       | None \<Rightarrow> Inl (new_error ''object lock duration does not permit a space reclamation schedule''))"
    by (simp add: longest_eligible_object_lock_maintenance_def)
  have first: "first_eligible s [''monthly'', ''weekly'', ''daily''] =
      (if object_lock_maintenance_eligible s ''monthly'' then Some ''monthly''
       else if object_lock_maintenance_eligible s ''weekly'' then Some ''weekly''
       else if object_lock_maintenance_eligible s ''daily'' then Some ''daily'' else None)"
    by simp
  from True have e: "object_lock_maintenance_eligible s x \<longleftrightarrow> (\<exists>h. duration_hours s = Inr h \<and>
      (x = ''daily'' \<or> x = ''weekly'' \<and> 8 * 24 \<le> h \<or> x = ''monthly'' \<and> 32 * 24 \<le> h))" for x
    by (intro maintenance_eligible_exact) simp_all
  have "\<exists>y. longest_eligible_object_lock_maintenance s = (case duration_hours s of Inl _ \<Rightarrow> Inl y
      | Inr h \<Rightarrow> Inr (if 32 * 24 \<le> h then ''monthly'' else if 8 * 24 \<le> h then ''weekly'' else ''daily''))"
    unfolding l first e by (cases "duration_hours s") auto
  with True e show ?thesis by simp
next
  case False
  then have "\<not> ol_enrolled s \<or> ol_paused s" by blast
  then have "longest_eligible_object_lock_maintenance s = Inr ''monthly''"
    by (simp add: longest_eligible_object_lock_maintenance_def)
  with False show ?thesis
    by (auto simp: object_lock_maintenance_eligible_def object_lock_maintenance_interval_def split: option.splits)
qed

lemma longest_maintenance_witness:
  "longest_eligible_object_lock_maintenance (sample_lock 2 ''weeks'') = Inr ''weekly''"
  using longest_maintenance [of "sample_lock 2 ''weeks''" "''daily''", THEN conjunct2] sample_lock_hours(1)
  by (simp add: sample_lock_def)

text \<open>Normalising a stored preference again changes nothing, and a connector that keeps one
  profile is never given more than the native concurrency, while every other connector keeps each
  valid mode.\<close>

theorem concurrency_capped:
  "(normalize_concurrency_mode_for_connector connector v = Inr m \<longrightarrow>
      normalize_concurrency_mode_for_connector connector m = Inr m \<and> valid_concurrency_mode m \<and>
      (sole_profile_connector connector \<longrightarrow> m = concurrency_reduced \<or> m = concurrency_native)) \<and>
   (\<not> sole_profile_connector connector \<and> valid_concurrency_mode v \<longrightarrow>
      normalize_concurrency_mode_for_connector connector v = Inr v)"
proof -
  have "normalize_concurrency_mode_for_connector connector v = Inr m \<Longrightarrow> valid_concurrency_mode m \<and>
      (sole_profile_connector connector \<longrightarrow> m = concurrency_reduced \<or> m = concurrency_native)"
    by (auto simp: normalize_concurrency_mode_for_connector_def native_valid sole_profile_connector_def
        valid_concurrency_mode_def dest: normalize_concurrency_valid split: if_splits sum.splits)
  moreover have "\<not> sole_profile_connector connector \<Longrightarrow> valid_concurrency_mode v \<Longrightarrow>
      normalize_concurrency_mode_for_connector connector v = Inr v"
    by (auto simp: normalize_concurrency_mode_for_connector_def sole_profile_connector_def normalize_valid_mode)
  ultimately show ?thesis using normalize_connector_stable by blast
qed

lemma concurrency_capped_witness:
  "normalize_concurrency_mode_for_connector ''s3'' concurrency_maximum = Inr concurrency_maximum"
  using concurrency_capped [of "''s3''" concurrency_maximum concurrency_maximum]
  by (auto simp: sole_profile_connector_def valid_concurrency_mode_def)

end
