(* ===== verification/JobValues.thy ===== *)
theory JobValues
  imports GoErrors
begin

text \<open>
  The small value types of a backup job and of the settings: retention
  (\<open>models/retention.go\<close>), marker files (\<open>models/marker_files.go\<close>), the archive path of a
  Windows share (\<open>models/archive_path.go\<close>) and the preferences (\<open>models/settings.go\<close>).
  An \<open>*int\<close> is an option.
\<close>

section \<open>Retention\<close>

definition max_retention_count :: int where "max_retention_count = 2147483647"

record retention_policy =
  rp_retention :: int
  rp_hourly :: "int option"
  rp_daily :: "int option"
  rp_weekly :: "int option"
  rp_monthly :: "int option"
  rp_yearly :: "int option"

fun validate_tiers :: "(string \<times> int option) list \<Rightarrow> go_error option" where
  "validate_tiers [] = None"
| "validate_tiers ((name, value) # tiers) =
     (case value of
        None \<Rightarrow> validate_tiers tiers
      | Some v \<Rightarrow>
          if v < 1 \<or> v > max_retention_count
          then Some (new_error (name @ '' retention must be between 1 and 2147483647 when set''))
          else validate_tiers tiers)"

definition validate_retention_policy :: "retention_policy \<Rightarrow> go_error option" where
  "validate_retention_policy job =
     (if rp_retention job < 0 then Some (new_error ''retention cannot be negative'')
      else validate_tiers [(''hourly'', rp_hourly job), (''daily'', rp_daily job),
        (''weekly'', rp_weekly job), (''monthly'', rp_monthly job), (''yearly'', rp_yearly job)])"

definition optional_int_equal :: "int option \<Rightarrow> int option \<Rightarrow> bool" where
  "optional_int_equal left right =
     (case (left, right) of
        (Some l, Some r) \<Rightarrow> l = r
      | _ \<Rightarrow> left = None \<and> right = None)"

definition retention_policy_equal :: "retention_policy \<Rightarrow> retention_policy \<Rightarrow> bool" where
  "retention_policy_equal left right \<longleftrightarrow>
     rp_retention left = rp_retention right \<and>
     optional_int_equal (rp_hourly left) (rp_hourly right) \<and>
     optional_int_equal (rp_daily left) (rp_daily right) \<and>
     optional_int_equal (rp_weekly left) (rp_weekly right) \<and>
     optional_int_equal (rp_monthly left) (rp_monthly right) \<and>
     optional_int_equal (rp_yearly left) (rp_yearly right)"

lemma optional_int_equal_iff [simp]: "optional_int_equal a b \<longleftrightarrow> a = b"
  by (auto simp: optional_int_equal_def split: option.splits)

lemma retention_policy_equal_iff: "retention_policy_equal a b \<longleftrightarrow> a = b"
  by (auto simp: retention_policy_equal_def)

lemma validate_tiers_iff:
  "validate_tiers tiers = None \<longleftrightarrow>
    (\<forall>(name, value) \<in> set tiers. \<forall>v. value = Some v \<longrightarrow> 1 \<le> v \<and> v \<le> max_retention_count)"
  by (induction tiers rule: validate_tiers.induct) (auto split: option.splits)

section \<open>Marker files\<close>

definition no_backup_marker_file :: string where "no_backup_marker_file = ''.nobackup''"
definition cache_dir_marker_file :: string where "cache_dir_marker_file = ''CACHEDIR.TAG''"
definition kopia_ignore_file_name :: string where "kopia_ignore_file_name = ''.kopiaignore''"

definition err_skip_marker_file_name :: go_error where
  "err_skip_marker_file_name = new_error ''Enter a file name only, without a folder, a colon (:), wildcards, or spaces at the start or end.''"
definition err_skip_marker_file_taken :: go_error where
  "err_skip_marker_file_taken = new_error ''This name already has its own option above.''"

definition validate_skip_marker_file_name :: "string \<Rightarrow> go_error option" where
  "validate_skip_marker_file_name name =
     (if name = [] then None
      else if name = ''.'' \<or> name = ''..'' \<or> trim_space name \<noteq> name \<or>
        contains_any name (''/'' @ [char_of (92 :: nat)] @ '':*?[]{}'')
      then Some err_skip_marker_file_name
      else if has_control name then Some err_skip_marker_file_name
      else if name = no_backup_marker_file \<or> name = cache_dir_marker_file \<or> name = kopia_ignore_file_name
      then Some err_skip_marker_file_taken
      else None)"

record job_target =
  jt_repository_id :: string
  jt_engine :: string

record job_markers =
  jm_targets :: "job_target list"
  jm_portable_target_ids :: "string list"
  jm_engine_settings :: "string set"
  jm_skip_cache_dir_folders :: bool

definition has_unattached_targets :: "job_markers \<Rightarrow> bool" where
  "has_unattached_targets job =
     list_ex (\<lambda>i. \<not> list_ex (\<lambda>target. jt_repository_id target = i) (jm_targets job))
       (jm_portable_target_ids job)"

definition uses_kopia :: "job_markers \<Rightarrow> bool" where
  "uses_kopia job =
     (if list_ex (\<lambda>target. jt_engine target = ''kopia'') (jm_targets job) then True
      else if \<not> has_unattached_targets job then False
      else ''kopia'' \<in> jm_engine_settings job)"

definition skips_cache_dir_folders :: "job_markers \<Rightarrow> bool" where
  "skips_cache_dir_folders job \<longleftrightarrow> jm_skip_cache_dir_folders job \<or> uses_kopia job"

text \<open>When every listed vault is attached, only the attached vaults decide.\<close>

lemma uses_kopia_attached:
  "set (jm_portable_target_ids job) \<subseteq> jt_repository_id ` set (jm_targets job) \<Longrightarrow>
   uses_kopia job \<longleftrightarrow> (\<exists>target \<in> set (jm_targets job). jt_engine target = ''kopia'')"
  by (auto simp: uses_kopia_def has_unattached_targets_def list_ex_iff)

section \<open>The archive path of a Windows share\<close>

definition cut_slash :: "string \<Rightarrow> string \<times> string" where
  "cut_slash value =
     (takeWhile (\<lambda>c. c \<noteq> CHR ''/'') value, drop 1 (dropWhile (\<lambda>c. c \<noteq> CHR ''/'') value))"

abbreviation back_slash :: char where "back_slash \<equiv> CHR 0x5C"

definition unc_part_ok :: "string \<Rightarrow> bool" where
  "unc_part_ok part \<longleftrightarrow>
     \<not> (part = [] \<or> part = ''.'' \<or> part = ''..'' \<or> contains_any part ('':?'' @ [CHR 0x00]))"

definition restic_unc_archive_path :: "string \<Rightarrow> bool" where
  "restic_unc_archive_path value =
     (let (volume, remainder) = cut_slash value in
      if \<not> has_prefix volume [back_slash, back_slash] \<or> back_slash \<in> set remainder then False
      else let parts = split_on back_slash (drop 2 volume) in
        if length parts \<noteq> 2 then False
        else list_all unc_part_ok parts)"

lemma cut_slash_iff:
  "cut_slash value = (v, r) \<longleftrightarrow>
    CHR ''/'' \<notin> set v \<and> (value = v \<and> r = [] \<or> value = v @ CHR ''/'' # r)"
proof
  assume c: "cut_slash value = (v, r)"
  then have v: "v = takeWhile (\<lambda>c. c \<noteq> CHR ''/'') value" "r = drop 1 (dropWhile (\<lambda>c. c \<noteq> CHR ''/'') value)"
    by (auto simp: cut_slash_def)
  have "CHR ''/'' \<notin> set v" unfolding v(1) by (auto dest: set_takeWhileD)
  moreover have "value = v \<and> r = [] \<or> value = v @ CHR ''/'' # r"
  proof (cases "dropWhile (\<lambda>c. c \<noteq> CHR ''/'') value")
    case Nil
    then show ?thesis using v by (metis append_Nil2 drop_Nil takeWhile_dropWhile_id)
  next
    case (Cons x xs)
    then have "x = CHR ''/''" using hd_dropWhile [of "\<lambda>c. c \<noteq> CHR ''/''" "value"] by simp
    moreover have "value = v @ x # xs"
      using v(1) Cons takeWhile_dropWhile_id [of "\<lambda>c. c \<noteq> CHR ''/''" "value"] by simp
    moreover have "r = xs" using v(2) Cons by simp
    ultimately show ?thesis by simp
  qed
  ultimately show "CHR ''/'' \<notin> set v \<and> (value = v \<and> r = [] \<or> value = v @ CHR ''/'' # r)" by blast
next
  assume "CHR ''/'' \<notin> set v \<and> (value = v \<and> r = [] \<or> value = v @ CHR ''/'' # r)"
  then have v: "\<And>c. c \<in> set v \<Longrightarrow> c \<noteq> CHR ''/''" "value = v \<and> r = [] \<or> value = v @ CHR ''/'' # r"
    by auto
  have "takeWhile (\<lambda>c. c \<noteq> CHR ''/'') (v @ CHR ''/'' # r) = v"
    "dropWhile (\<lambda>c. c \<noteq> CHR ''/'') (v @ CHR ''/'' # r) = CHR ''/'' # r"
    "takeWhile (\<lambda>c. c \<noteq> CHR ''/'') v = v" "dropWhile (\<lambda>c. c \<noteq> CHR ''/'') v = []"
    using v(1) by (simp_all add: takeWhile_append2 dropWhile_append2)
  then have "cut_slash (v @ CHR ''/'' # r) = (v, r)" "cut_slash v = (v, [])"
    by (simp_all only: cut_slash_def) simp_all
  with v(2) show "cut_slash value = (v, r)" by blast
qed

text \<open>The accepted paths are exactly a server and a share, then a path with forward slashes.\<close>

lemma restic_unc_archive_path_iff:
  "restic_unc_archive_path value \<longleftrightarrow>
    (\<exists>server share rest. unc_part_ok server \<and> unc_part_ok share \<and>
       back_slash \<notin> set server \<and> back_slash \<notin> set share \<and> back_slash \<notin> set rest \<and>
       CHR ''/'' \<notin> set server \<and> CHR ''/'' \<notin> set share \<and>
       (let volume = [back_slash, back_slash] @ server @ [back_slash] @ share in
        value = volume \<and> rest = [] \<or> value = volume @ CHR ''/'' # rest))"
    (is "_ \<longleftrightarrow> ?r")
proof
  assume a: "restic_unc_archive_path value"
  obtain v r where c: "cut_slash value = (v, r)" by (cases "cut_slash value")
  from a c have p: "has_prefix v [back_slash, back_slash]" "back_slash \<notin> set r"
      "length (split_on back_slash (drop 2 v)) = 2" "list_all unc_part_ok (split_on back_slash (drop 2 v))"
    by (auto simp: restic_unc_archive_path_def Let_def split: if_splits)
  then obtain server share where parts: "split_on back_slash (drop 2 v) = [server, share]"
    by (auto simp: numeral_2_eq_2 length_Suc_conv)
  have "back_slash \<notin> set server" "back_slash \<notin> set share"
    using split_on_parts [of _ back_slash "drop 2 v"] parts by auto
  moreover have v: "v = [back_slash, back_slash] @ server @ [back_slash] @ share"
    using p(1) parts join_split [of back_slash "drop 2 v"] by (auto simp: has_prefix_iff)
  ultimately show ?r
    using c p parts unfolding cut_slash_iff
    by (intro exI [of _ server] exI [of _ share] exI [of _ r]) (auto simp: Let_def)
next
  assume ?r
  then obtain server share rest where r: "unc_part_ok server" "unc_part_ok share"
      "back_slash \<notin> set server" "back_slash \<notin> set share" "back_slash \<notin> set rest"
      "CHR ''/'' \<notin> set server" "CHR ''/'' \<notin> set share"
      "value = [back_slash, back_slash] @ server @ [back_slash] @ share \<and> rest = [] \<or>
       value = ([back_slash, back_slash] @ server @ [back_slash] @ share) @ CHR ''/'' # rest"
    by (auto simp: Let_def)
  let ?v = "[back_slash, back_slash] @ server @ [back_slash] @ share"
  have "cut_slash value = (?v, rest)" unfolding cut_slash_iff using r by auto
  moreover have "split_on back_slash (drop 2 ?v) = [server, share]"
    using r by (simp add: split_on_append_sep split_on_no_sep)
  ultimately show "restic_unc_archive_path value"
    using r by (simp add: restic_unc_archive_path_def has_prefix_def)
qed

section \<open>Preferences\<close>

definition valid_language :: "string \<Rightarrow> bool" where
  "valid_language value \<longleftrightarrow> value \<in> set
     [''system'', ''en'', ''de'', ''fr'', ''ar'', ''ur'', ''hi'', ''es'', ''it'', ''zh-Hans'', ''zh-Hant'',
      ''yue-Hant'', ''yue-Hans'', ''ja'', ''ga'', ''ko'', ''ms'', ''id'', ''tr'', ''he'', ''pt-PT'', ''pt-BR'',
      ''ru'', ''pl'', ''nl'', ''bn'', ''el'', ''fa'', ''vi'', ''pcm'']"

definition valid_theme :: "string \<Rightarrow> bool" where
  "valid_theme value \<longleftrightarrow> value = ''system'' \<or> value = ''light'' \<or> value = ''neutral'' \<or> value = ''dark''"

record notification_switches =
  ns_windows_success :: bool
  ns_windows_failure :: bool
  ns_native_success :: bool
  ns_native_failure :: bool
  ns_webhook_success :: bool
  ns_webhook_failure :: bool

definition notification_channels :: "notification_switches \<Rightarrow> string \<Rightarrow> bool \<times> bool" where
  "notification_channels s status =
     (let native_success = ns_windows_success s \<or> ns_native_success s;
          native_failure = ns_windows_failure s \<or> ns_native_failure s
      in if status = ''success'' then (native_success, ns_webhook_success s)
         else if status = ''completed_with_issues''
         then (native_success \<or> native_failure, ns_webhook_success s \<or> ns_webhook_failure s)
         else (native_failure, ns_webhook_failure s))"

text \<open>A result with issues is announced wherever a success or a failure would be.\<close>

lemma issues_cover_both:
  "notification_channels s ''completed_with_issues'' =
     (fst (notification_channels s ''success'') \<or> fst (notification_channels s ''failed''),
      snd (notification_channels s ''success'') \<or> snd (notification_channels s ''failed''))"
  by (simp add: notification_channels_def Let_def)

end
