(* ===== verification/VaultReconnect.thy ===== *)
theory VaultReconnect
  imports PasswordChange JobValues
begin

text \<open>
  When a vault is saved as needing a reconnect: the table of
  \<open>database/vault_reconnect.go\<close> and the rules of \<open>vaultreconnect/vaultreconnect.go\<close>.  An
  instant is a number of nanoseconds; an empty time column is None (the stored texts have a
  fixed width, so that comparing them is comparing instants).  A statement of the database is
  one function on the table.  What the engines and the profile store say of an error beyond
  \<open>errors.Is\<close> is an argument, \<^term>\<open>failure_view\<close> below.
\<close>

section \<open>The table\<close>

definition reconnect_worker_profile_sync :: string where "reconnect_worker_profile_sync = ''profile_sync''"
definition reconnect_worker_kopia_policy :: string where "reconnect_worker_kopia_policy = ''kopia_policy''"

record worker_clock =
  wc_since :: "int option"
  wc_last :: "int option"

record reconnect_row =
  rr_required :: bool
  rr_source :: string
  rr_set_at :: "int option"
  rr_profile_sync :: worker_clock
  rr_kopia_policy :: worker_clock

type_synonym reconnect_table = "string \<rightharpoonup> reconnect_row"

datatype reconnect_columns = ProfileSyncColumns | KopiaPolicyColumns

definition reconnect_worker_columns :: "string \<Rightarrow> reconnect_columns result" where
  "reconnect_worker_columns worker =
     (if worker = reconnect_worker_profile_sync then Inr ProfileSyncColumns
      else if worker = reconnect_worker_kopia_policy then Inr KopiaPolicyColumns
      else Inl (new_error ''unknown reconnect worker''))"

fun clock_at :: "reconnect_columns \<Rightarrow> reconnect_row \<Rightarrow> worker_clock" where
  "clock_at ProfileSyncColumns r = rr_profile_sync r"
| "clock_at KopiaPolicyColumns r = rr_kopia_policy r"

fun set_clock :: "reconnect_columns \<Rightarrow> worker_clock \<Rightarrow> reconnect_row \<Rightarrow> reconnect_row" where
  "set_clock ProfileSyncColumns c r = r\<lparr>rr_profile_sync := c\<rparr>"
| "set_clock KopiaPolicyColumns c r = r\<lparr>rr_kopia_policy := c\<rparr>"

definition stopped_clock :: worker_clock where
  "stopped_clock = \<lparr>wc_since = None, wc_last = None\<rparr>"

text \<open>The columns a new row starts with.\<close>

definition clear_row :: reconnect_row where
  "clear_row = \<lparr>rr_required = False, rr_source = [], rr_set_at = None,
     rr_profile_sync = stopped_clock, rr_kopia_policy = stopped_clock\<rparr>"

definition mark_vault_reconnect_required ::
  "(string \<Rightarrow> bool) \<Rightarrow> string \<Rightarrow> string \<Rightarrow> int \<Rightarrow> reconnect_table \<Rightarrow> (reconnect_table \<times> bool) result" where
  "mark_vault_reconnect_required vault_exists repo source at t =
     (if repo = [] \<or> source = [] then Inl (new_error ''reconnect state needs a vault and a source'')
      else case t repo of
        None \<Rightarrow>
          if \<not> vault_exists repo then Inl err_foreign_key
          else Inr (t(repo \<mapsto> clear_row\<lparr>rr_required := True, rr_source := source, rr_set_at := Some at\<rparr>), True)
      | Some r \<Rightarrow>
          if rr_required r then Inr (t, False)
          else Inr (t(repo \<mapsto> r\<lparr>rr_required := True, rr_source := source, rr_set_at := Some at\<rparr>), True))"

definition clear_vault_reconnect_required ::
  "string \<Rightarrow> string \<Rightarrow> reconnect_table \<Rightarrow> reconnect_table \<times> bool" where
  "clear_vault_reconnect_required repo source t =
     (case t repo of
        None \<Rightarrow> (t, False)
      | Some r \<Rightarrow>
          if rr_required r \<and> rr_source r = source
          then (t(repo \<mapsto> r\<lparr>rr_required := False, rr_source := [], rr_set_at := None\<rparr>), True)
          else (t, False))"

definition vault_reconnect_required :: "string \<Rightarrow> reconnect_table \<Rightarrow> bool \<times> string" where
  "vault_reconnect_required repo t =
     (case t repo of None \<Rightarrow> (False, []) | Some r \<Rightarrow> (rr_required r, rr_source r))"

text \<open>The \<open>CASE\<close> of the upsert: which failing-since time a failure belongs to.\<close>

definition failing_since :: "worker_clock \<Rightarrow> int \<Rightarrow> int \<Rightarrow> int" where
  "failing_since c at cutoff =
     (case (wc_since c, wc_last c) of
        (Some since, Some last_failure) \<Rightarrow> if last_failure < cutoff then at else since
      | _ \<Rightarrow> at)"

definition record_vault_worker_failure ::
  "(string \<Rightarrow> bool) \<Rightarrow> string \<Rightarrow> string \<Rightarrow> int \<Rightarrow> int \<Rightarrow> reconnect_table \<Rightarrow> (reconnect_table \<times> int) result" where
  "record_vault_worker_failure vault_exists repo worker at cutoff t =
     (case reconnect_worker_columns worker of
        Inl e \<Rightarrow> Inl e
      | Inr cols \<Rightarrow>
          (case t repo of
             None \<Rightarrow>
               if \<not> vault_exists repo then Inl err_foreign_key
               else Inr (t(repo \<mapsto> set_clock cols \<lparr>wc_since = Some at, wc_last = Some at\<rparr> clear_row), at)
           | Some r \<Rightarrow>
               let since = failing_since (clock_at cols r) at cutoff in
               Inr (t(repo \<mapsto> set_clock cols \<lparr>wc_since = Some since, wc_last = Some at\<rparr> r), since)))"

definition reset_vault_worker_failure_clock ::
  "string \<Rightarrow> string \<Rightarrow> reconnect_table \<Rightarrow> reconnect_table result" where
  "reset_vault_worker_failure_clock repo worker t =
     (case reconnect_worker_columns worker of
        Inl e \<Rightarrow> Inl e
      | Inr cols \<Rightarrow>
          Inr (case t repo of None \<Rightarrow> t | Some r \<Rightarrow> t(repo \<mapsto> set_clock cols stopped_clock r)))"

text \<open>Go's zero time stands for a clock that is not running.\<close>

definition zero_time :: int where "zero_time = - 62135596800 * 1000000000"

definition saved_time :: "int option \<Rightarrow> int" where
  "saved_time v = (case v of None \<Rightarrow> zero_time | Some x \<Rightarrow> x)"

definition vault_worker_failing_since :: "string \<Rightarrow> string \<Rightarrow> reconnect_table \<Rightarrow> int result" where
  "vault_worker_failing_since repo worker t =
     (case reconnect_worker_columns worker of
        Inl e \<Rightarrow> Inl e
      | Inr cols \<Rightarrow> Inr (case t repo of None \<Rightarrow> zero_time | Some r \<Rightarrow> saved_time (wc_since (clock_at cols r))))"

definition vault_worker_last_failure :: "string \<Rightarrow> string \<Rightarrow> reconnect_table \<Rightarrow> int result" where
  "vault_worker_last_failure repo worker t =
     (case reconnect_worker_columns worker of
        Inl e \<Rightarrow> Inl e
      | Inr cols \<Rightarrow> Inr (case t repo of None \<Rightarrow> zero_time | Some r \<Rightarrow> saved_time (wc_last (clock_at cols r))))"

definition clear_vault_reconnect_state :: "string \<Rightarrow> reconnect_table \<Rightarrow> reconnect_table" where
  "clear_vault_reconnect_state repo t = t(repo := None)"

section \<open>The rules\<close>

definition hour :: int where "hour = 3600 * 1000000000"

definition worker_bounds :: "string \<Rightarrow> int option" where
  "worker_bounds worker =
     (if worker = reconnect_worker_profile_sync then Some (24 * hour)
      else if worker = reconnect_worker_kopia_policy then Some (6 * hour)
      else None)"

definition max_failure_gap :: int where "max_failure_gap = hour"

definition rclone_remote_check_source :: string where
  "rclone_remote_check_source = ''rclone_remote_check''"

definition operation_kinds :: "string list" where
  "operation_kinds = [''backup'', ''restore'', ''check'', ''maintenance'', ''delete'']"

definition err_profile_reconnect_required :: go_error where
  "err_profile_reconnect_required = new_error ''vaultprofile: vault reconnect required''"
definition err_engine_reconnect_required :: go_error where
  "err_engine_reconnect_required = new_error ''engines: vault reconnect required''"
definition err_owner_transfer_unfinished :: go_error where
  "err_owner_transfer_unfinished = new_error ''protected vault ownership transfer is unfinished''"
definition err_kopia_policy_fence_held :: go_error where
  "err_kopia_policy_fence_held = new_error ''prior Kopia policy process is not proven inactive''"

text \<open>
  What other packages read out of an error: the status of the requested native operation where
  one is known, whether it is the typed storage error, and the three out-of-space texts.
\<close>

record failure_view =
  fv_outcome :: "go_error \<Rightarrow> string option"
  fv_unavailable :: "go_error \<Rightarrow> bool"
  fv_profile_full :: "go_error \<Rightarrow> bool"
  fv_kopia_full :: "string \<Rightarrow> go_error \<Rightarrow> bool"

record vault_facts =
  vf_engine :: string
  vf_connector :: string
  vf_name :: string

datatype report =
    ReconnectIssue string
  | ReconnectNotification string bool bool
  | SpaceIssue string
  | SpaceNotification string bool bool

record reconnect_world =
  rw_rows :: reconnect_table
  rw_vaults :: "string \<rightharpoonup> vault_facts"
  rw_passwords :: password_db
  rw_settings :: "notification_switches option"
  rw_reports :: "report list"

definition conclusive :: "failure_view \<Rightarrow> go_error option \<Rightarrow> bool" where
  "conclusive fv err =
     (case err of
        None \<Rightarrow> False
      | Some e \<Rightarrow>
          if errors_is e context_canceled \<or> errors_is e deadline_exceeded then False
          else if \<not> errors_is e err_profile_reconnect_required \<and> \<not> errors_is e err_engine_reconnect_required
          then False
          else (case fv_outcome fv e of Some status \<Rightarrow> status = ''not_started'' | None \<Rightarrow> True))"

abbreviation vault_known :: "reconnect_world \<Rightarrow> string \<Rightarrow> bool" where
  "vault_known w repo \<equiv> rw_vaults w repo \<noteq> None"

text \<open>The channels of a failed result; nothing is sent when the settings cannot be read.\<close>

definition announce :: "(bool \<Rightarrow> bool \<Rightarrow> report) \<Rightarrow> string \<Rightarrow> reconnect_world \<Rightarrow> report list" where
  "announce event status w =
     (case rw_settings w of
        None \<Rightarrow> []
      | Some s \<Rightarrow>
          let (native, webhook) = notification_channels s status in
          if \<not> native \<and> \<not> webhook then [] else [event native webhook])"

definition mark_required :: "string \<Rightarrow> string \<Rightarrow> bool \<Rightarrow> int \<Rightarrow> reconnect_world \<Rightarrow> reconnect_world" where
  "mark_required repo source notify at w =
     (case mark_vault_reconnect_required (vault_known w) repo source at (rw_rows w) of
        Inl _ \<Rightarrow> w
      | Inr (t, changed) \<Rightarrow>
          if \<not> changed then w
          else w\<lparr>rw_rows := t,
                 rw_reports := rw_reports w @ [ReconnectIssue repo] @
                   (if notify then announce (ReconnectNotification repo) ''reconnect_required'' w else [])\<rparr>)"

definition clear_required :: "string \<Rightarrow> string \<Rightarrow> reconnect_world \<Rightarrow> reconnect_world" where
  "clear_required repo source w =
     w\<lparr>rw_rows := fst (clear_vault_reconnect_required repo source (rw_rows w))\<rparr>"

definition clear_rclone_remote_check :: "string \<Rightarrow> reconnect_world \<Rightarrow> reconnect_world" where
  "clear_rclone_remote_check repo w = clear_required repo rclone_remote_check_source w"

definition reset_clock :: "string \<Rightarrow> string \<Rightarrow> reconnect_world \<Rightarrow> reconnect_world" where
  "reset_clock repo worker w =
     (case reset_vault_worker_failure_clock repo worker (rw_rows w) of
        Inl _ \<Rightarrow> w
      | Inr t \<Rightarrow> w\<lparr>rw_rows := t\<rparr>)"

definition report_out_of_space :: "string \<Rightarrow> reconnect_world \<Rightarrow> reconnect_world" where
  "report_out_of_space repo w =
     w\<lparr>rw_reports := rw_reports w @ [SpaceIssue repo] @ announce (SpaceNotification repo) ''failed'' w\<rparr>"

definition record_operation_result ::
  "failure_view \<Rightarrow> string \<Rightarrow> string \<Rightarrow> string \<Rightarrow> go_error option \<Rightarrow> int \<Rightarrow> reconnect_world \<Rightarrow> reconnect_world" where
  "record_operation_result fv repo kind status cause at w =
     (if repo = [] \<or> kind \<notin> set operation_kinds then w
      else if status = ''success'' \<or> status = ''completed_with_issues''
      then clear_rclone_remote_check repo (clear_required repo kind w)
      else if status = ''failed'' \<or> status = ''reconnect_required'' then
        (if status = ''reconnect_required'' \<or> conclusive fv cause
         then mark_required repo kind (kind \<noteq> ''backup'') at w else w)
      else w)"

definition record_worker_success :: "string \<Rightarrow> string \<Rightarrow> reconnect_world \<Rightarrow> reconnect_world" where
  "record_worker_success repo worker w =
     (if repo = [] then w
      else clear_rclone_remote_check repo (clear_required repo worker (reset_clock repo worker w)))"

definition filesystem_vault :: "string \<Rightarrow> reconnect_world \<Rightarrow> bool" where
  "filesystem_vault repo w = (case rw_vaults w repo of None \<Rightarrow> False | Some v \<Rightarrow> vf_connector v = ''fs'')"

definition excluded_from_clock :: "string \<Rightarrow> go_error \<Rightarrow> reconnect_world \<Rightarrow> bool" where
  "excluded_from_clock repo cause w \<longleftrightarrow>
     errors_is cause err_recovery_required \<or> errors_is cause err_owner_transfer_unfinished \<or>
     errors_is cause err_kopia_policy_fence_held \<or>
     require_no_precommit_change repo (rw_passwords w) = Some err_recovery_required \<or>
     pending_transfer (rw_passwords w) repo"

definition kopia_policy_storage_full :: "failure_view \<Rightarrow> string \<Rightarrow> go_error \<Rightarrow> reconnect_world \<Rightarrow> bool" where
  "kopia_policy_storage_full fv repo cause w \<longleftrightarrow> vault_known w repo \<and> fv_kopia_full fv repo cause"

text \<open>A failure that counts: the clock and, past the bound, what it leads to.\<close>

definition past_bound ::
  "string \<Rightarrow> string \<Rightarrow> bool \<Rightarrow> int \<Rightarrow> int \<Rightarrow> int \<Rightarrow> int \<Rightarrow> reconnect_world \<Rightarrow> reconnect_world" where
  "past_bound repo worker storage_full previous_last since bound at w =
     (if time_sub at since < bound then w
      else if storage_full
      then (if previous_last < since \<or> time_sub previous_last since < bound
            then report_out_of_space repo w else w)
      else mark_required repo worker True at w)"

definition count_worker_failure ::
  "failure_view \<Rightarrow> string \<Rightarrow> string \<Rightarrow> int option \<Rightarrow> go_error \<Rightarrow> int \<Rightarrow> int \<Rightarrow> reconnect_world \<Rightarrow> reconnect_world" where
  "count_worker_failure fv repo worker started_at cause at bound w =
     (let storage_full = (worker = reconnect_worker_kopia_policy \<and> kopia_policy_storage_full fv repo cause w);
          started = (case started_at of None \<Rightarrow> at | Some s \<Rightarrow> if s > at then at else s)
      in (case (if storage_full then vault_worker_last_failure repo worker (rw_rows w) else Inr zero_time) of
            Inl _ \<Rightarrow> w
          | Inr previous_last \<Rightarrow>
              (case record_vault_worker_failure (vault_known w) repo worker at
                  (started - max_failure_gap) (rw_rows w) of
                 Inl _ \<Rightarrow> w
               | Inr (t, since) \<Rightarrow>
                   past_bound repo worker storage_full previous_last since bound at (w\<lparr>rw_rows := t\<rparr>))))"

definition record_worker_failure ::
  "failure_view \<Rightarrow> string \<Rightarrow> string \<Rightarrow> int option \<Rightarrow> go_error option \<Rightarrow> int \<Rightarrow> reconnect_world \<Rightarrow> reconnect_world" where
  "record_worker_failure fv repo worker started_at cause at w =
     (case (worker_bounds worker, cause) of
        (Some bound, Some e) \<Rightarrow>
          if repo = [] \<or> errors_is e context_canceled then w
          else if fv_unavailable fv e \<and> filesystem_vault repo w then reset_clock repo worker w
          else if conclusive fv cause then mark_required repo worker True at w
          else if excluded_from_clock repo e w \<or>
            worker = reconnect_worker_profile_sync \<and> fv_profile_full fv e
          then reset_clock repo worker w
          else count_worker_failure fv repo worker started_at e at bound w
      | _ \<Rightarrow> w)"

text \<open>What the settings check of an Any Rclone Remote vault finds.\<close>

datatype rclone_check = CheckPassed | CheckRefused string string | CheckUnprepared

definition rclone_remote_connector :: string where "rclone_remote_connector = ''rclone_remote''"

definition config_not_responding_code :: string where
  "config_not_responding_code = ''rclone_remote_config_not_responding''"

definition check_rclone_remote_after_failure ::
  "(string \<Rightarrow> string) \<Rightarrow> string \<Rightarrow> string \<Rightarrow> rclone_check \<Rightarrow> int \<Rightarrow> reconnect_world \<Rightarrow> reconnect_world \<times> string" where
  "check_rclone_remote_after_failure hint repo kind found at w =
     (if repo = [] \<or> kind \<notin> set operation_kinds \<and> kind \<noteq> reconnect_worker_profile_sync then (w, [])
      else case rw_vaults w repo of
        None \<Rightarrow> (w, [])
      | Some v \<Rightarrow>
          if vf_engine v \<noteq> ''restic'' \<or> vf_connector v \<noteq> rclone_remote_connector then (w, [])
          else (case found of
              CheckPassed \<Rightarrow> (clear_rclone_remote_check repo w, hint repo)
            | CheckUnprepared \<Rightarrow> (w, [])
            | CheckRefused code message \<Rightarrow>
                (if code \<noteq> config_not_responding_code
                 then mark_required repo rclone_remote_check_source True at w else w, message)))"

section \<open>Runs\<close>

datatype reconnect_event =
    OperationEnded string string string "go_error option"
  | WorkerSucceeded string string
  | WorkerFailed string string "int option" "go_error option"
  | RcloneChecked string string rclone_check
  | Reconnected string
  | VaultRemoved string
  | PasswordsChanged password_db
  | SettingsChanged "notification_switches option"

fun reconnect_step ::
  "failure_view \<Rightarrow> (string \<Rightarrow> string) \<Rightarrow> int \<Rightarrow> reconnect_event \<Rightarrow> reconnect_world \<Rightarrow> reconnect_world" where
  "reconnect_step fv hint at (OperationEnded repo kind status cause) w =
     record_operation_result fv repo kind status cause at w"
| "reconnect_step fv hint at (WorkerSucceeded repo worker) w = record_worker_success repo worker w"
| "reconnect_step fv hint at (WorkerFailed repo worker started cause) w =
     record_worker_failure fv repo worker started cause at w"
| "reconnect_step fv hint at (RcloneChecked repo kind found) w =
     fst (check_rclone_remote_after_failure hint repo kind found at w)"
| "reconnect_step fv hint at (Reconnected repo) w =
     w\<lparr>rw_rows := clear_vault_reconnect_state repo (rw_rows w)\<rparr>"
| "reconnect_step fv hint at (VaultRemoved repo) w =
     w\<lparr>rw_rows := clear_vault_reconnect_state repo (rw_rows w), rw_vaults := (rw_vaults w)(repo := None)\<rparr>"
| "reconnect_step fv hint at (PasswordsChanged p) w = w\<lparr>rw_passwords := p\<rparr>"
| "reconnect_step fv hint at (SettingsChanged s) w = w\<lparr>rw_settings := s\<rparr>"

abbreviation reconnect_state :: "reconnect_world \<Rightarrow> string \<Rightarrow> bool \<times> string" where
  "reconnect_state w repo \<equiv> vault_reconnect_required repo (rw_rows w)"

abbreviation reconnect_issues :: "reconnect_world \<Rightarrow> string \<Rightarrow> nat" where
  "reconnect_issues w repo \<equiv> count_list (rw_reports w) (ReconnectIssue repo)"

text \<open>The events that clear a state its source set.\<close>

fun clears_state :: "string \<Rightarrow> reconnect_event \<Rightarrow> string \<Rightarrow> bool" where
  "clears_state repo (OperationEnded r kind status cause) source \<longleftrightarrow>
     r = repo \<and> kind \<in> set operation_kinds \<and> (status = ''success'' \<or> status = ''completed_with_issues'') \<and>
     (source = kind \<or> source = rclone_remote_check_source)"
| "clears_state repo (WorkerSucceeded r worker) source \<longleftrightarrow>
     r = repo \<and> (source = worker \<or> source = rclone_remote_check_source)"
| "clears_state repo (RcloneChecked r kind found) source \<longleftrightarrow>
     r = repo \<and> found = CheckPassed \<and> source = rclone_remote_check_source"
| "clears_state repo (Reconnected r) source \<longleftrightarrow> r = repo"
| "clears_state repo (VaultRemoved r) source \<longleftrightarrow> r = repo"
| "clears_state repo _ source \<longleftrightarrow> False"

definition quiet_change :: "(string \<Rightarrow> bool) \<Rightarrow> string \<Rightarrow> reconnect_world \<Rightarrow> reconnect_world \<Rightarrow> bool" where
  "quiet_change allowed repo w w' \<longleftrightarrow>
     reconnect_issues w' repo = reconnect_issues w repo \<and>
     (reconnect_state w' repo = reconnect_state w repo \<or>
      \<not> fst (reconnect_state w' repo) \<and>
      (fst (reconnect_state w repo) \<longrightarrow> allowed (snd (reconnect_state w repo))))"

definition mark_change :: "string \<Rightarrow> reconnect_world \<Rightarrow> reconnect_world \<Rightarrow> bool" where
  "mark_change repo w w' \<longleftrightarrow>
     reconnect_issues w' repo = reconnect_issues w repo \<and> reconnect_state w' repo = reconnect_state w repo \<or>
     reconnect_issues w' repo = Suc (reconnect_issues w repo) \<and>
     \<not> fst (reconnect_state w repo) \<and> fst (reconnect_state w' repo)"

lemma quiet_change_refl [simp, intro]: "quiet_change allowed repo w w"
  by (simp add: quiet_change_def)

lemma quiet_change_trans:
  "quiet_change allowed repo w w1 \<Longrightarrow> quiet_change allowed repo w1 w2 \<Longrightarrow> quiet_change allowed repo w w2"
  by (auto simp: quiet_change_def)

lemma mark_change_refl [simp, intro]: "mark_change repo w w"
  by (simp add: mark_change_def)

lemma announce_no_issue [simp]:
  "count_list (announce (ReconnectNotification r) status w) (ReconnectIssue repo) = 0"
  "count_list (announce (SpaceNotification r) status w) (ReconnectIssue repo) = 0"
  by (simp_all add: announce_def Let_def split: option.splits prod.splits)

lemma mark_changed:
  assumes "mark_vault_reconnect_required known repo source at t = Inr (t', True)"
  obtains row where "t' = t(repo \<mapsto> row)" "rr_required row" "rr_source row = source"
    "\<not> fst (vault_reconnect_required repo t)"
proof (cases "t repo")
  case None
  let ?row = "clear_row\<lparr>rr_required := True, rr_source := source, rr_set_at := Some at\<rparr>"
  have "rr_required ?row" "rr_source ?row = source" by simp_all
  moreover from None assms have "t' = t(repo \<mapsto> ?row)"
    by (auto simp: mark_vault_reconnect_required_def split: if_splits)
  moreover from None have "\<not> fst (vault_reconnect_required repo t)"
    by (simp add: vault_reconnect_required_def)
  ultimately show ?thesis using that by blast
next
  case (Some r)
  let ?row = "r\<lparr>rr_required := True, rr_source := source, rr_set_at := Some at\<rparr>"
  have "rr_required ?row" "rr_source ?row = source" by simp_all
  moreover from Some assms have "t' = t(repo \<mapsto> ?row)" "\<not> rr_required r"
    by (auto simp: mark_vault_reconnect_required_def split: if_splits)
  moreover from this Some have "\<not> fst (vault_reconnect_required repo t)"
    by (simp add: vault_reconnect_required_def)
  ultimately show ?thesis using that by blast
qed

lemma mark_required_change: "mark_change repo w (mark_required r source notify at w)"
proof (cases "mark_vault_reconnect_required (vault_known w) r source at (rw_rows w)")
  case (Inl e)
  then show ?thesis by (simp add: mark_required_def)
next
  case (Inr p)
  obtain t changed where p: "p = (t, changed)" by (cases p)
  show ?thesis
  proof (cases changed)
    case True
    with Inr p have "mark_vault_reconnect_required (vault_known w) r source at (rw_rows w) = Inr (t, True)"
      by simp
    then obtain row where "t = (rw_rows w)(r \<mapsto> row)" "rr_required row"
        "\<not> fst (vault_reconnect_required r (rw_rows w))"
      by (rule mark_changed)
    then show ?thesis
      using Inr p True
      by (cases "r = repo") (auto simp: mark_required_def mark_change_def vault_reconnect_required_def)
  next
    case False
    with Inr p show ?thesis by (simp add: mark_required_def)
  qed
qed

lemma clear_required_change:
  "(r = repo \<Longrightarrow> allowed source) \<Longrightarrow> quiet_change allowed repo w (clear_required r source w)"
  by (auto simp: quiet_change_def clear_required_def clear_vault_reconnect_required_def
      vault_reconnect_required_def split: option.splits)

lemma clock_keeps_state:
  "rr_required (set_clock cols c r) = rr_required r" "rr_source (set_clock cols c r) = rr_source r"
  by (cases cols; simp)+

lemma reset_clock_same:
  "reconnect_state (reset_clock r worker w) repo = reconnect_state w repo \<and>
   rw_reports (reset_clock r worker w) = rw_reports w"
  by (auto simp: reset_clock_def reset_vault_worker_failure_clock_def vault_reconnect_required_def
      clock_keeps_state split: sum.splits option.splits)

lemma record_failure_same:
  "record_vault_worker_failure known r worker at cutoff t = Inr (t', since) \<Longrightarrow>
   vault_reconnect_required repo t' = vault_reconnect_required repo t"
  by (auto simp: record_vault_worker_failure_def vault_reconnect_required_def clock_keeps_state
      clear_row_def Let_def split: sum.splits option.splits if_splits)

lemma past_bound_change: "mark_change repo w (past_bound r worker full previous since bound at w)"
proof -
  have "mark_change repo w (report_out_of_space r w)"
    by (simp add: mark_change_def report_out_of_space_def)
  then show ?thesis by (simp add: past_bound_def mark_required_change)
qed

lemma count_failure_change: "mark_change repo w (count_worker_failure fv r worker started e at bound w)"
proof -
  let ?full = "worker = reconnect_worker_kopia_policy \<and> kopia_policy_storage_full fv r e w"
  let ?cut = "(case started of None \<Rightarrow> at | Some s \<Rightarrow> if s > at then at else s) - max_failure_gap"
  consider (same) "count_worker_failure fv r worker started e at bound w = w"
    | (run) t since previous where
      "record_vault_worker_failure (vault_known w) r worker at ?cut (rw_rows w) = Inr (t, since)"
      "count_worker_failure fv r worker started e at bound w =
         past_bound r worker ?full previous since bound at (w\<lparr>rw_rows := t\<rparr>)"
    unfolding count_worker_failure_def Let_def
    by (cases "if ?full then vault_worker_last_failure r worker (rw_rows w) else Inr zero_time";
        cases "record_vault_worker_failure (vault_known w) r worker at ?cut (rw_rows w)") auto
  then show ?thesis
  proof cases
    case run
    from record_failure_same [OF run(1), of repo] past_bound_change [of repo "w\<lparr>rw_rows := t\<rparr>"]
    show ?thesis unfolding run(2) by (simp add: mark_change_def)
  qed simp
qed

lemma worker_failure_change: "mark_change repo w (record_worker_failure fv r worker started cause at w)"
proof -
  have "mark_change repo w (reset_clock r worker w)"
    using reset_clock_same by (simp add: mark_change_def)
  then show ?thesis
    unfolding record_worker_failure_def
    by (simp add: mark_required_change count_failure_change split: option.split)
qed

lemma step_change:
  "quiet_change (clears_state repo ev) repo w (reconnect_step fv hint at ev w) \<or>
   mark_change repo w (reconnect_step fv hint at ev w)"
proof (cases ev)
  case (OperationEnded r kind status cause)
  show ?thesis
  proof (cases "r \<noteq> [] \<and> kind \<in> set operation_kinds \<and> (status = ''success'' \<or> status = ''completed_with_issues'')")
    case True
    then have "reconnect_step fv hint at ev w = clear_rclone_remote_check r (clear_required r kind w)"
      by (auto simp: OperationEnded record_operation_result_def)
    moreover have "quiet_change (clears_state repo ev) repo w
        (clear_rclone_remote_check r (clear_required r kind w))"
      unfolding clear_rclone_remote_check_def
      by (rule quiet_change_trans; rule clear_required_change) (use True OperationEnded in auto)
    ultimately show ?thesis by simp
  next
    case False
    then show ?thesis
      by (auto simp: OperationEnded record_operation_result_def mark_required_change)
  qed
next
  case (WorkerSucceeded r worker)
  have "quiet_change (clears_state repo ev) repo w (reset_clock r worker w)"
    using reset_clock_same by (simp add: quiet_change_def)
  moreover have "quiet_change (clears_state repo ev) repo v
      (clear_rclone_remote_check r (clear_required r worker v))" for v
    unfolding clear_rclone_remote_check_def
    by (rule quiet_change_trans; rule clear_required_change) (use WorkerSucceeded in auto)
  ultimately have "quiet_change (clears_state repo ev) repo w
      (clear_rclone_remote_check r (clear_required r worker (reset_clock r worker w)))"
    by (rule quiet_change_trans)
  then show ?thesis by (simp add: WorkerSucceeded record_worker_success_def)
next
  case (RcloneChecked r kind found)
  have "quiet_change (clears_state repo ev) repo w (clear_rclone_remote_check r w)" if "found = CheckPassed"
    unfolding clear_rclone_remote_check_def
    by (rule clear_required_change) (simp add: RcloneChecked that)
  then show ?thesis
    by (auto simp: RcloneChecked check_rclone_remote_after_failure_def mark_required_change
        split: option.splits rclone_check.splits)
qed (auto simp: quiet_change_def vault_reconnect_required_def clear_vault_reconnect_state_def
    worker_failure_change split: option.splits)

text \<open>C39. Every event leaves a vault's reconnect state as it is, sets it with exactly one
  dashboard issue, or clears it; a set state keeps its source.  Only a success of its own source,
  a reconnect or the removal of the vault clears it, and a state set by the check of the rclone settings is also
  cleared by any success of a job or a worker and by such a check that passes.  The write of the issue is taken to
  succeed; where it fails, the code only logs that.\<close>

theorem reconnect_state_changes:
  "let w' = reconnect_step fv hint at ev w in
    reconnect_issues w' repo = reconnect_issues w repo +
      (if \<not> fst (reconnect_state w repo) \<and> fst (reconnect_state w' repo) then 1 else 0) \<and>
    (fst (reconnect_state w repo) \<and> fst (reconnect_state w' repo) \<longrightarrow>
       snd (reconnect_state w' repo) = snd (reconnect_state w repo)) \<and>
    (fst (reconnect_state w repo) \<and> \<not> fst (reconnect_state w' repo) \<longrightarrow>
       clears_state repo ev (snd (reconnect_state w repo)))"
  using step_change [of repo ev w fv hint at]
  unfolding quiet_change_def mark_change_def Let_def by auto

section \<open>The failure clock\<close>

text \<open>The failures the clock counts: no cancel, no paused vault, no conclusive error, none of the
  exclusions and no full vault.\<close>

definition counted_failure :: "failure_view \<Rightarrow> string \<Rightarrow> string \<Rightarrow> go_error \<Rightarrow> reconnect_world \<Rightarrow> bool" where
  "counted_failure fv repo worker e w \<longleftrightarrow>
     \<not> errors_is e context_canceled \<and> \<not> (fv_unavailable fv e \<and> filesystem_vault repo w) \<and>
     \<not> conclusive fv (Some e) \<and> \<not> excluded_from_clock repo e w \<and>
     \<not> (worker = reconnect_worker_profile_sync \<and> fv_profile_full fv e) \<and>
     \<not> (worker = reconnect_worker_kopia_policy \<and> kopia_policy_storage_full fv repo e w)"

definition worker_clock_of :: "reconnect_columns \<Rightarrow> string \<Rightarrow> reconnect_world \<Rightarrow> worker_clock" where
  "worker_clock_of cols repo w =
     (case rw_rows w repo of None \<Rightarrow> stopped_clock | Some r \<Rightarrow> clock_at cols r)"

lemma clock_set [simp]: "clock_at cols (set_clock cols c r) = c"
  by (cases cols) simp_all

lemma clock_at_clear_row [simp]: "clock_at cols clear_row = stopped_clock"
  by (cases cols) (simp_all add: clear_row_def)

lemma clock_at_required [simp]:
  "clock_at cols (r\<lparr>rr_required := q, rr_source := s, rr_set_at := a\<rparr>) = clock_at cols r"
  by (cases cols) simp_all

lemma failing_since_stopped [simp]: "failing_since stopped_clock at cutoff = at"
  by (simp add: failing_since_def stopped_clock_def)

lemma record_failure_known:
  fixes at cutoff :: int
  assumes "reconnect_worker_columns worker = Inr cols" and "vault_known w repo"
  defines "since \<equiv> failing_since (worker_clock_of cols repo w) at cutoff"
  obtains t where "record_vault_worker_failure (vault_known w) repo worker at cutoff (rw_rows w) = Inr (t, since)"
    "worker_clock_of cols repo (w\<lparr>rw_rows := t\<rparr>) = \<lparr>wc_since = Some since, wc_last = Some at\<rparr>"
    "t repo \<noteq> None"
proof (cases "rw_rows w repo")
  case None
  with assms have "record_vault_worker_failure (vault_known w) repo worker at cutoff (rw_rows w) =
      Inr ((rw_rows w)(repo \<mapsto> set_clock cols \<lparr>wc_since = Some at, wc_last = Some at\<rparr> clear_row), since)"
    by (simp add: record_vault_worker_failure_def worker_clock_of_def)
  moreover have "since = at" using None assms by (simp add: worker_clock_of_def)
  ultimately show ?thesis by (intro that) (auto simp: worker_clock_of_def)
next
  case (Some r)
  with assms have "record_vault_worker_failure (vault_known w) repo worker at cutoff (rw_rows w) =
      Inr ((rw_rows w)(repo \<mapsto> set_clock cols \<lparr>wc_since = Some since, wc_last = Some at\<rparr> r), since)"
    by (simp add: record_vault_worker_failure_def worker_clock_of_def Let_def)
  then show ?thesis by (rule that) (auto simp: worker_clock_of_def)
qed

lemma mark_required_known:
  fixes notify :: bool and at :: int
  assumes "repo \<noteq> []" "source \<noteq> []" "rw_rows w repo \<noteq> None"
  defines "w' \<equiv> mark_required repo source notify at w"
  shows "fst (reconnect_state w' repo)" and "worker_clock_of cols repo w' = worker_clock_of cols repo w"
    and "rw_vaults w' = rw_vaults w" and "rw_passwords w' = rw_passwords w"
proof -
  obtain r where r: "rw_rows w repo = Some r" using assms(3) by blast
  have "fst (reconnect_state w' repo) \<and> worker_clock_of cols repo w' = worker_clock_of cols repo w \<and>
      rw_vaults w' = rw_vaults w \<and> rw_passwords w' = rw_passwords w"
    using assms(1,2) r
    by (cases "rr_required r")
      (auto simp: w'_def mark_required_def mark_vault_reconnect_required_def
        vault_reconnect_required_def worker_clock_of_def)
  then show "fst (reconnect_state w' repo)" "worker_clock_of cols repo w' = worker_clock_of cols repo w"
    "rw_vaults w' = rw_vaults w" "rw_passwords w' = rw_passwords w" by simp_all
qed

lemma worker_bounds_columns:
  assumes "worker_bounds worker = Some bound"
  obtains cols where "reconnect_worker_columns worker = Inr cols" "worker \<noteq> []" "0 < bound" "bound \<le> 24 * hour"
  using assms
  by (auto simp: worker_bounds_def reconnect_worker_columns_def reconnect_worker_profile_sync_def
      reconnect_worker_kopia_policy_def hour_def split: if_splits)

text \<open>One counted failure moves the clock and marks the vault when the bound is reached.\<close>

lemma counted_step:
  assumes b: "worker_bounds worker = Some bound" and cols: "reconnect_worker_columns worker = Inr cols"
    and repo: "repo \<noteq> []" and known: "vault_known w repo" and counted: "counted_failure fv repo worker e w"
    and order: "s \<le> f"
  defines "w' \<equiv> record_worker_failure fv repo worker (Some s) (Some e) f w"
    and "since \<equiv> failing_since (worker_clock_of cols repo w) f (s - max_failure_gap)"
  shows "worker_clock_of cols repo w' = \<lparr>wc_since = Some since, wc_last = Some f\<rparr>"
    and "fst (reconnect_state w' repo) \<longleftrightarrow> fst (reconnect_state w repo) \<or> bound \<le> f - since"
    and "rw_vaults w' = rw_vaults w" and "rw_passwords w' = rw_passwords w"
proof -
  obtain t where t: "record_vault_worker_failure (vault_known w) repo worker f (s - max_failure_gap) (rw_rows w)
        = Inr (t, since)"
      "worker_clock_of cols repo (w\<lparr>rw_rows := t\<rparr>) = \<lparr>wc_since = Some since, wc_last = Some f\<rparr>"
      "t repo \<noteq> None"
    using record_failure_known [OF cols known] since_def by metis
  from b obtain bb: "worker \<noteq> []" "0 < bound" "bound \<le> 24 * hour" by (rule worker_bounds_columns)
  have "w' = count_worker_failure fv repo worker (Some s) e f bound w"
    using b repo counted by (auto simp: w'_def record_worker_failure_def counted_failure_def)
  also have "\<dots> = past_bound repo worker False zero_time since bound f (w\<lparr>rw_rows := t\<rparr>)"
  proof -
    have full: "(worker = reconnect_worker_kopia_policy \<and> kopia_policy_storage_full fv repo e w) = False"
      using counted unfolding counted_failure_def by blast
    have start: "(case Some s of None \<Rightarrow> f | Some s \<Rightarrow> if s > f then f else s) = s"
      using order by simp
    show ?thesis
      by (simp only: count_worker_failure_def Let_def full start if_False sum.case t(1) prod.case)
  qed
  finally have step: "w' = (if time_sub f since < bound then w\<lparr>rw_rows := t\<rparr>
      else mark_required repo worker True f (w\<lparr>rw_rows := t\<rparr>))"
    by (simp add: past_bound_def)
  have bound: "bound \<le> time_sub f since \<longleftrightarrow> bound \<le> f - since"
    using bb by (intro time_sub_ge) (simp_all add: hour_def)
  have same: "reconnect_state (w\<lparr>rw_rows := t\<rparr>) repo = reconnect_state w repo"
    using record_failure_same [OF t(1)] by simp
  note marked = mark_required_known [where w = "w\<lparr>rw_rows := t\<rparr>" and notify = True and at = f, OF repo bb(1)]
  show "worker_clock_of cols repo w' = \<lparr>wc_since = Some since, wc_last = Some f\<rparr>"
    using t marked(2) by (simp add: step)
  show "fst (reconnect_state w' repo) \<longleftrightarrow> fst (reconnect_state w repo) \<or> bound \<le> f - since"
    using same t(3) marked(1) bound by (auto simp: step)
  show "rw_vaults w' = rw_vaults w" "rw_passwords w' = rw_passwords w"
    using t(3) marked(3,4) by (simp_all add: step)
qed

type_synonym attempt = "int \<times> int \<times> go_error"

definition fail_attempts ::
  "failure_view \<Rightarrow> string \<Rightarrow> string \<Rightarrow> attempt list \<Rightarrow> reconnect_world \<Rightarrow> reconnect_world" where
  "fail_attempts fv repo worker as w =
     foldl (\<lambda>w (s, f, e). record_worker_failure fv repo worker (Some s) (Some e) f w) w as"

abbreviation started_at :: "attempt list \<Rightarrow> nat \<Rightarrow> int" where "started_at as i \<equiv> fst (as ! i)"
abbreviation failed_at :: "attempt list \<Rightarrow> nat \<Rightarrow> int" where "failed_at as i \<equiv> fst (snd (as ! i))"

text \<open>Between two attempts nobody waited for more than an hour.\<close>

definition continuous_run :: "attempt list \<Rightarrow> nat \<Rightarrow> nat \<Rightarrow> bool" where
  "continuous_run as i j \<longleftrightarrow>
     (\<forall>k. i \<le> k \<and> k < j \<longrightarrow> started_at as (Suc k) - failed_at as k \<le> max_failure_gap)"

definition attempts_ok :: "failure_view \<Rightarrow> string \<Rightarrow> string \<Rightarrow> attempt list \<Rightarrow> reconnect_world \<Rightarrow> bool" where
  "attempts_ok fv repo worker as w \<longleftrightarrow>
     sorted (map (\<lambda>a. fst (snd a)) as) \<and>
     (\<forall>(s, f, e) \<in> set as. s \<le> f \<and> counted_failure fv repo worker e w)"

lemma continuous_run_Suc:
  "continuous_run as i (Suc n) \<longleftrightarrow>
     (i \<le> n \<longrightarrow> continuous_run as i n \<and> started_at as (Suc n) - failed_at as n \<le> max_failure_gap)"
  by (auto simp: continuous_run_def less_Suc_eq)

text \<open>The stored clock is the start of the longest continuous run that is still going on.\<close>

definition clock_inv :: "attempt list \<Rightarrow> reconnect_columns \<Rightarrow> string \<Rightarrow> nat \<Rightarrow> reconnect_world \<Rightarrow> bool" where
  "clock_inv as cols repo n w \<longleftrightarrow>
     (if n = 0 then worker_clock_of cols repo w = stopped_clock
      else \<exists>i < n. worker_clock_of cols repo w =
             \<lparr>wc_since = Some (failed_at as i), wc_last = Some (failed_at as (n - 1))\<rparr> \<and>
           continuous_run as i (n - 1) \<and>
           (0 < i \<longrightarrow> \<not> continuous_run as (i - 1) (n - 1)))"

lemma clock_inv_step:
  assumes inv: "clock_inv as cols repo n w"
  obtains i where "i \<le> n"
    "failing_since (worker_clock_of cols repo w) (failed_at as n) (started_at as n - max_failure_gap) = failed_at as i"
    "continuous_run as i n" "0 < i \<longrightarrow> \<not> continuous_run as (i - 1) n"
proof (cases n)
  case 0
  with inv show ?thesis by (intro that [of 0]) (simp_all add: clock_inv_def continuous_run_def)
next
  case (Suc m)
  from inv Suc obtain i where "i < n" "worker_clock_of cols repo w =
        \<lparr>wc_since = Some (failed_at as i), wc_last = Some (failed_at as (n - 1))\<rparr>"
      "continuous_run as i (n - 1)" "0 < i \<longrightarrow> \<not> continuous_run as (i - 1) (n - 1)"
    unfolding clock_inv_def by auto
  with Suc have i: "i \<le> m" "worker_clock_of cols repo w =
        \<lparr>wc_since = Some (failed_at as i), wc_last = Some (failed_at as m)\<rparr>"
      "continuous_run as i m" "0 < i \<longrightarrow> \<not> continuous_run as (i - 1) m"
    by simp_all
  show ?thesis
  proof (cases "failed_at as m < started_at as n - max_failure_gap")
    case True
    with Suc i(2) show ?thesis
      by (intro that [of n]) (auto simp: failing_since_def continuous_run_Suc continuous_run_def)
  next
    case False
    with Suc i show ?thesis
      by (intro that [of i]) (auto simp: failing_since_def continuous_run_Suc)
  qed
qed

lemma continuous_run_start:
  assumes "continuous_run as i n" "0 < i \<longrightarrow> \<not> continuous_run as (i - 1) n" "continuous_run as j n" "j \<le> n"
  shows "i \<le> j"
proof (rule ccontr)
  assume "\<not> i \<le> j"
  then have "continuous_run as (i - 1) n" "0 < i"
    using assms(3) by (auto simp: continuous_run_def)
  with assms(2) show False by blast
qed

lemma fail_attempts_clock:
  assumes b: "worker_bounds worker = Some bound" and cols: "reconnect_worker_columns worker = Inr cols"
    and repo: "repo \<noteq> []" and known: "vault_known w repo" and ok: "attempts_ok fv repo worker as w"
    and stopped: "worker_clock_of cols repo w = stopped_clock" and fresh: "\<not> fst (reconnect_state w repo)"
    and n: "n \<le> length as"
  defines "v \<equiv> \<lambda>n. fail_attempts fv repo worker (take n as) w"
  shows "clock_inv as cols repo n (v n) \<and> rw_vaults (v n) = rw_vaults w \<and> rw_passwords (v n) = rw_passwords w \<and>
    (fst (reconnect_state (v n) repo) \<longleftrightarrow>
      (\<exists>i j. i \<le> j \<and> j < n \<and> continuous_run as i j \<and> bound \<le> failed_at as j - failed_at as i))"
  using n
proof (induction n)
  case 0
  then show ?case using stopped fresh by (simp add: v_def fail_attempts_def clock_inv_def)
next
  case (Suc n)
  then have IH: "clock_inv as cols repo n (v n)" "rw_vaults (v n) = rw_vaults w" "rw_passwords (v n) = rw_passwords w"
    "fst (reconnect_state (v n) repo) \<longleftrightarrow>
      (\<exists>i j. i \<le> j \<and> j < n \<and> continuous_run as i j \<and> bound \<le> failed_at as j - failed_at as i)" by auto
  obtain s f e where a: "as ! n = (s, f, e)" by (cases "as ! n") auto
  have "as ! n \<in> set as" using Suc.prems by simp
  with ok a have sf: "s \<le> f" and "counted_failure fv repo worker e w" by (auto simp: attempts_ok_def)
  then have counted: "counted_failure fv repo worker e (v n)"
    using IH(2,3) by (simp add: counted_failure_def filesystem_vault_def excluded_from_clock_def
        kopia_policy_storage_full_def)
  have next_v: "v (Suc n) = record_worker_failure fv repo worker (Some s) (Some e) f (v n)"
    using Suc.prems a by (simp add: v_def fail_attempts_def take_Suc_conv_app_nth)
  obtain i where i: "i \<le> n"
      "failing_since (worker_clock_of cols repo (v n)) f (s - max_failure_gap) = failed_at as i"
      "continuous_run as i n" "0 < i \<longrightarrow> \<not> continuous_run as (i - 1) n"
    using clock_inv_step [OF IH(1)] a by (metis fst_conv snd_conv)
  note step = counted_step [OF b cols repo _ counted sf, folded next_v]
  have kn: "vault_known (v n) repo" using known IH(2) by simp
  have clock: "clock_inv as cols repo (Suc n) (v (Suc n))"
    using step(1) [OF kn] i a by (auto simp: clock_inv_def intro!: exI [of _ i])
  have mono: "failed_at as i \<le> failed_at as j" if "i \<le> j" "j \<le> n" for j
    using ok that Suc.prems by (auto simp: attempts_ok_def sorted_iff_nth_mono)
  have "bound \<le> f - failed_at as i \<longleftrightarrow>
      (\<exists>j \<le> n. continuous_run as j n \<and> bound \<le> failed_at as n - failed_at as j)"
  proof
    assume "bound \<le> f - failed_at as i"
    with i a show "\<exists>j \<le> n. continuous_run as j n \<and> bound \<le> failed_at as n - failed_at as j" by auto
  next
    assume "\<exists>j \<le> n. continuous_run as j n \<and> bound \<le> failed_at as n - failed_at as j"
    then obtain j where j: "j \<le> n" "continuous_run as j n" "bound \<le> f - failed_at as j" using a by auto
    with mono [OF continuous_run_start [OF i(3,4) j(2,1)] j(1)] show "bound \<le> f - failed_at as i" by simp
  qed
  then have "fst (reconnect_state (v (Suc n)) repo) \<longleftrightarrow>
      (\<exists>i j. i \<le> j \<and> j < Suc n \<and> continuous_run as i j \<and> bound \<le> failed_at as j - failed_at as i)"
    using step(2) [OF kn] i(2) IH(4) by (auto simp: less_Suc_eq)
  with clock step(3,4) [OF kn] IH(2,3) show ?case by simp
qed

text \<open>C40. While a worker's attempts fail one after another on a clock that does not go back, each with a failure the
  clock counts (\<open>counted_failure\<close>: no cancel, no paused or full vault, none of the exclusions, and no conclusive error, which
  marks the vault at once),
  the vault is marked as needing a reconnect exactly when some run of failures, with never more
  than an hour between a failure and the start of the next attempt, lasts at least the worker's
  bound; the stored clock is then the start of the longest such run still going on.\<close>

theorem worker_marks_after_bound:
  assumes "worker_bounds worker = Some bound" and "reconnect_worker_columns worker = Inr cols"
    and "repo \<noteq> []" and "vault_known w repo" and "attempts_ok fv repo worker as w"
    and "worker_clock_of cols repo w = stopped_clock" and "\<not> fst (reconnect_state w repo)"
  shows "(fst (reconnect_state (fail_attempts fv repo worker as w) repo) \<longleftrightarrow>
      (\<exists>i j. i \<le> j \<and> j < length as \<and> continuous_run as i j \<and> bound \<le> failed_at as j - failed_at as i)) \<and>
    (as \<noteq> [] \<longrightarrow> (\<exists>i < length as. wc_since (worker_clock_of cols repo (fail_attempts fv repo worker as w)) =
        Some (failed_at as i) \<and> continuous_run as i (length as - 1) \<and>
        (0 < i \<longrightarrow> \<not> continuous_run as (i - 1) (length as - 1))))"
proof -
  let ?v = "fail_attempts fv repo worker as w"
  have c: "clock_inv as cols repo (length as) ?v"
    and r: "fst (reconnect_state ?v repo) \<longleftrightarrow>
      (\<exists>i j. i \<le> j \<and> j < length as \<and> continuous_run as i j \<and> bound \<le> failed_at as j - failed_at as i)"
    using fail_attempts_clock [OF assms order_refl] by simp_all
  have "\<exists>i < length as. wc_since (worker_clock_of cols repo ?v) = Some (failed_at as i) \<and>
      continuous_run as i (length as - 1) \<and> (0 < i \<longrightarrow> \<not> continuous_run as (i - 1) (length as - 1))"
    if "as \<noteq> []"
    using c that unfolding clock_inv_def by (auto simp del: One_nat_def)
  with r show ?thesis by blast
qed

text \<open>Seven failures an hour apart reach the bound of the Kopia policy worker.\<close>

definition outage :: go_error where "outage = new_error ''connection refused''"

definition plain_view :: failure_view where
  "plain_view = \<lparr>fv_outcome = (\<lambda>_. None), fv_unavailable = (\<lambda>_. False), fv_profile_full = (\<lambda>_. False),
     fv_kopia_full = (\<lambda>_ _. False)\<rparr>"

definition one_vault :: reconnect_world where
  "one_vault = \<lparr>rw_rows = (\<lambda>_. None),
     rw_vaults = [''v'' \<mapsto> \<lparr>vf_engine = ''kopia'', vf_connector = ''s3'', vf_name = ''Photos''\<rparr>],
     rw_passwords = \<lparr>pd_vaults = (\<lambda>_. None), pd_changes = (\<lambda>_. None), pd_transfers = (\<lambda>_. None), pd_reserved = {}\<rparr>,
     rw_settings = None, rw_reports = []\<rparr>"

definition hourly_failures :: "attempt list" where
  "hourly_failures = map (\<lambda>i. (int i * hour, int i * hour, outage)) [0..<7]"

lemma worker_marks_after_bound_witness:
  "fst (reconnect_state (fail_attempts plain_view ''v'' reconnect_worker_kopia_policy hourly_failures one_vault) ''v'')"
proof -
  have len: "length hourly_failures = 7" by (simp add: hourly_failures_def)
  have at: "failed_at hourly_failures i = int i * hour \<and> started_at hourly_failures i = int i * hour"
    if "i < 7" for i
    using that by (simp add: hourly_failures_def)
  have counted: "counted_failure plain_view ''v'' reconnect_worker_kopia_policy outage one_vault"
    by (simp add: counted_failure_def plain_view_def one_vault_def outage_def new_error_def
        context_canceled_def conclusive_def deadline_exceeded_def err_profile_reconnect_required_def
        err_engine_reconnect_required_def excluded_from_clock_def err_recovery_required_def
        err_owner_transfer_unfinished_def err_kopia_policy_fence_held_def require_no_precommit_change_def
        pending_transfer_def reconnect_worker_kopia_policy_def reconnect_worker_profile_sync_def
        kopia_policy_storage_full_def)
  have "sorted (map (\<lambda>a. fst (snd a)) hourly_failures)"
    using at len by (auto simp: sorted_iff_nth_mono hour_def)
  moreover have "\<forall>(s, f, e) \<in> set hourly_failures. s \<le> f \<and> e = outage"
    by (auto simp: hourly_failures_def)
  ultimately have ok: "attempts_ok plain_view ''v'' reconnect_worker_kopia_policy hourly_failures one_vault"
    using counted by (auto simp: attempts_ok_def)
  have cols: "worker_bounds reconnect_worker_kopia_policy = Some (6 * hour)"
    "reconnect_worker_columns reconnect_worker_kopia_policy = Inr KopiaPolicyColumns"
    by (simp_all add: worker_bounds_def reconnect_worker_columns_def reconnect_worker_kopia_policy_def
        reconnect_worker_profile_sync_def)
  have start: "vault_known one_vault ''v''" "worker_clock_of KopiaPolicyColumns ''v'' one_vault = stopped_clock"
    "\<not> fst (reconnect_state one_vault ''v'')"
    by (simp_all add: one_vault_def worker_clock_of_def vault_reconnect_required_def)
  have "continuous_run hourly_failures 0 6"
    using at by (auto simp: continuous_run_def max_failure_gap_def hour_def)
  moreover have "6 * hour \<le> failed_at hourly_failures 6 - failed_at hourly_failures 0"
    using at [of 0] at [of 6] by simp
  ultimately have "\<exists>i j. i \<le> j \<and> j < length hourly_failures \<and> continuous_run hourly_failures i j \<and>
      6 * hour \<le> failed_at hourly_failures j - failed_at hourly_failures i"
    using len by (intro exI [of _ 0] exI [of _ 6]) simp
  with worker_marks_after_bound [OF cols _ start(1) ok start(2,3)] show ?thesis by simp
qed

text \<open>A failed integrity check that asks for a reconnect is reported once.\<close>

lemma reconnect_state_changes_witness:
  "let w' = reconnect_step plain_view (\<lambda>_. []) 0 (OperationEnded ''v'' ''check'' ''reconnect_required'' None) one_vault in
    reconnect_state w' ''v'' = (True, ''check'') \<and> reconnect_issues w' ''v'' = 1"
proof -
  let ?ev = "OperationEnded ''v'' ''check'' ''reconnect_required'' None"
  have "reconnect_state (reconnect_step plain_view (\<lambda>_. []) 0 ?ev one_vault) ''v'' = (True, ''check'')"
    by (simp add: one_vault_def record_operation_result_def operation_kinds_def mark_required_def
        mark_vault_reconnect_required_def vault_reconnect_required_def announce_def)
  moreover have "\<not> fst (reconnect_state one_vault ''v'')" "reconnect_issues one_vault ''v'' = 0"
    by (simp_all add: one_vault_def vault_reconnect_required_def)
  ultimately show ?thesis
    using reconnect_state_changes [of plain_view "\<lambda>_. []" 0 ?ev one_vault "''v''"] by (simp add: Let_def)
qed

end
