(* ===== verification/OperationSteps.thy ===== *)
theory OperationSteps
  imports Operations "HOL-Library.Multiset"
begin

text \<open>
  The durable steps of an operation (\<open>database/operation_steps.go\<close>): one row for each kind of
  step of an operation, the repository's metadata generation a mutating step reserves, and the
  closing of the steps a stopped process left running (\<open>database/migrations.go\<close>).  A time column
  holds its text.  The diagnostic log receives a section when a step finishes; that writing the
  file never changes the result of the step is how \<open>FinalizeSection\<close> is written.
\<close>

section \<open>Rows\<close>

record operation_step =
  os_id :: string
  os_operation :: string
  os_domain :: string
  os_kind :: string
  os_status :: string
  os_started :: string
  os_finished :: string

record log_section =
  ls_operation :: string
  ls_engine :: string
  ls_domain :: string
  ls_kind :: string
  ls_status :: string
  ls_body :: string

record step_db =
  sd_operations :: operations_db
  sd_steps :: "operation_step list"
  sd_generation :: "string \<rightharpoonup> int"
  sd_log :: "log_section list"

definition err_operation_step_finalization :: go_error where
  "err_operation_step_finalization = new_error ''operation step finalization failed''"

definition step_row :: "string \<Rightarrow> string \<Rightarrow> operation_step \<Rightarrow> bool" where
  "step_row operation kind s \<longleftrightarrow> os_operation s = operation \<and> os_kind s = kind"

definition running_row :: "string \<Rightarrow> string \<Rightarrow> operation_step \<Rightarrow> bool" where
  "running_row operation kind s \<longleftrightarrow> step_row operation kind s \<and> os_status s = ''running''"

text \<open>\<open>INSERT ... ON CONFLICT(operation_id,kind) DO NOTHING\<close>, with whether a row was inserted.\<close>

definition insert_step ::
  "string \<Rightarrow> string \<Rightarrow> string \<Rightarrow> string \<Rightarrow> string \<Rightarrow> step_db \<Rightarrow> (step_db \<times> bool) result" where
  "insert_step i operation domain kind started d =
     (if list_ex (step_row operation kind) (sd_steps d) then Inr (d, False)
      else if list_ex (\<lambda>s. os_id s = i) (sd_steps d) then Inl (new_error ''UNIQUE constraint failed'')
      else if find_op operation (sd_operations d) = None then Inl err_foreign_key
      else Inr (d\<lparr>sd_steps := sd_steps d @ [\<lparr>os_id = i, os_operation = operation, os_domain = domain,
             os_kind = kind, os_status = ''running'', os_started = started, os_finished = []\<rparr>]\<rparr>, True))"

definition start_operation_step ::
  "string \<Rightarrow> string \<Rightarrow> string \<Rightarrow> string \<Rightarrow> string \<Rightarrow> step_db \<Rightarrow> step_db result" where
  "start_operation_step i operation domain kind started d =
     (if operation = [] \<or> kind = [] \<or>
        domain \<noteq> ''native'' \<and> domain \<noteq> ''orchestration'' \<and> domain \<noteq> ''application''
      then Inl (new_error ''operation step is incomplete'')
      else map_sum id fst (insert_step i operation domain kind started d))"

text \<open>The generation is an \<open>int64\<close>; SQLite turns the one after the last into a real number,
  which the driver refuses to read back.\<close>

definition start_metadata_mutation_step ::
  "string \<Rightarrow> string \<Rightarrow> string \<Rightarrow> string \<Rightarrow> string \<Rightarrow> step_db \<Rightarrow> (step_db \<times> int) result" where
  "start_metadata_mutation_step i operation repository kind started d =
     (if operation = [] \<or> repository = [] \<or> kind = []
      then Inl (new_error ''metadata mutation step is incomplete'')
      else case insert_step i operation ''native'' kind started d of
        Inl e \<Rightarrow> Inl e
      | Inr (d', inserted) \<Rightarrow>
          if \<not> inserted then Inl (new_error ''metadata mutation step was already started'')
          else (case sd_generation d' repository of
                  None \<Rightarrow> Inl sql_no_rows
                | Some g \<Rightarrow>
                    if g = 2 ^ 63 - 1 then Inl (new_error ''required generation is not an integer'')
                    else Inr (d'\<lparr>sd_generation := (sd_generation d')(repository \<mapsto> g + 1)\<rparr>, g + 1)))"

definition final_step_statuses :: "string list" where
  "final_step_statuses = [''succeeded'', ''failed'', ''skipped'', ''warning'', ''interrupted'']"

text \<open>The transaction handed to \<open>FinalizeSection\<close> and the section it appends.\<close>

definition finalize_step ::
  "string \<Rightarrow> string \<Rightarrow> string \<Rightarrow> string \<Rightarrow> log_section \<Rightarrow> step_db \<Rightarrow> step_db" where
  "finalize_step operation kind status finished written d =
     d\<lparr>sd_steps := map (\<lambda>s. if running_row operation kind s
         then s\<lparr>os_status := status, os_finished := finished\<rparr> else s) (sd_steps d),
       sd_log := sd_log d @ [written]\<rparr>"

definition finish_operation_step ::
  "string \<Rightarrow> string \<Rightarrow> string \<Rightarrow> string \<Rightarrow> string \<Rightarrow> step_db \<Rightarrow> step_db result" where
  "finish_operation_step operation kind status body finished d =
     (if status \<notin> set final_step_statuses then Inl (new_error ''operation step status is invalid'')
      else case (find (running_row operation kind) (sd_steps d), find_op operation (sd_operations d)) of
        (Some s, Some o') \<Rightarrow>
          if status = ''interrupted'' \<and> os_domain s \<noteq> ''native''
          then Inl (new_error ''interrupted operation step status is valid only for the native domain'')
          else Inr (finalize_step operation kind status finished
            \<lparr>ls_operation = operation, ls_engine = op_engine o', ls_domain = os_domain s,
             ls_kind = kind, ls_status = status, ls_body = body\<rparr> d)
      | _ \<Rightarrow> Inl sql_no_rows)"

text \<open>A skipped step is started and finished; when only the second fails it stays running.\<close>

definition skip_operation_step ::
  "string \<Rightarrow> string \<Rightarrow> string \<Rightarrow> string \<Rightarrow> string \<Rightarrow> string \<Rightarrow> step_db \<Rightarrow> step_db \<times> go_error option" where
  "skip_operation_step i operation domain kind reason at d =
     (case start_operation_step i operation domain kind at d of
        Inl e \<Rightarrow> (d, Some e)
      | Inr d1 \<Rightarrow>
          (case finish_operation_step operation kind ''skipped'' reason at d1 of
             Inl _ \<Rightarrow> (d1, Some (wrap_error ''skip'' err_operation_step_finalization))
           | Inr d2 \<Rightarrow> (d2, None)))"

text \<open>\<open>parse\<close> reads a stored time; text order and time order differ, so the rows are sorted by
  the instants.\<close>

definition list_operation_steps ::
  "(string \<Rightarrow> int option) \<Rightarrow> string \<Rightarrow> step_db \<Rightarrow> operation_step list result" where
  "list_operation_steps parse operation d =
     (let steps = filter (\<lambda>s. os_operation s = operation) (sd_steps d) in
      if list_ex (\<lambda>s. parse (os_started s) = None) steps
      then Inl (new_error ''operation step has invalid start time'')
      else Inr (sort_key (\<lambda>s. (the (parse (os_started s)), os_id s)) steps))"

text \<open>At the next start no step is left running.\<close>

definition close_running_steps :: "string \<Rightarrow> step_db \<Rightarrow> step_db" where
  "close_running_steps interrupted_at d =
     d\<lparr>sd_steps := map (\<lambda>s. if os_status s = ''running''
         then s\<lparr>os_status := (if os_domain s = ''native'' then ''interrupted'' else ''failed''),
                os_finished := interrupted_at\<rparr> else s) (sd_steps d)\<rparr>"

section \<open>Runs\<close>

datatype step_call =
    StartCall string string string string string
  | MutationCall string string string string string
  | FinishCall string string string string string
  | SkipCall string string string string string string
  | CloseCall string

definition keep :: "step_db \<Rightarrow> step_db result \<Rightarrow> step_db" where
  "keep d r = (case r of Inl _ \<Rightarrow> d | Inr d' \<Rightarrow> d')"

fun call_step :: "step_call \<Rightarrow> step_db \<Rightarrow> step_db" where
  "call_step (StartCall i operation domain kind started) d =
     keep d (start_operation_step i operation domain kind started d)"
| "call_step (MutationCall i operation repository kind started) d =
     keep d (map_sum id fst (start_metadata_mutation_step i operation repository kind started d))"
| "call_step (FinishCall operation kind status body finished) d =
     keep d (finish_operation_step operation kind status body finished d)"
| "call_step (SkipCall i operation domain kind reason at) d =
     fst (skip_operation_step i operation domain kind reason at d)"
| "call_step (CloseCall at) d = close_running_steps at d"

definition step_legal :: "operation_step \<Rightarrow> bool" where
  "step_legal s \<longleftrightarrow> os_domain s \<in> {''native'', ''orchestration'', ''application''} \<and>
     os_status s \<in> insert ''running'' (set final_step_statuses) \<and>
     (os_status s = ''interrupted'' \<longrightarrow> os_domain s = ''native'')"

abbreviation step_key :: "operation_step \<Rightarrow> string \<times> string" where
  "step_key s \<equiv> (os_operation s, os_kind s)"

definition steps_ok :: "step_db \<Rightarrow> bool" where
  "steps_ok d \<longleftrightarrow> distinct (map step_key (sd_steps d)) \<and> distinct (map os_id (sd_steps d)) \<and>
     (\<forall>s \<in> set (sd_steps d). step_legal s)"

text \<open>How one call may change the table: rows are added at the end, and a row that is still
  running may get a status and a finish time.\<close>

definition row_change :: "(operation_step \<Rightarrow> operation_step) \<Rightarrow> bool" where
  "row_change f \<longleftrightarrow> (\<forall>s. (os_status s \<noteq> ''running'' \<longrightarrow> f s = s) \<and> step_key (f s) = step_key s \<and>
     os_id (f s) = os_id s \<and> os_domain (f s) = os_domain s \<and> os_started (f s) = os_started s)"

definition evolves :: "step_db \<Rightarrow> step_db \<Rightarrow> bool" where
  "evolves d d' \<longleftrightarrow> (\<exists>f new. row_change f \<and> sd_steps d' = map f (sd_steps d) @ new) \<and>
     sd_operations d' = sd_operations d \<and>
     (\<forall>r g. sd_generation d r = Some g \<longrightarrow> (\<exists>g' \<ge> g. sd_generation d' r = Some g'))"

lemma row_change_id [simp]: "row_change (\<lambda>s. s)"
  by (simp add: row_change_def)

lemma row_change_comp: "row_change f \<Longrightarrow> row_change g \<Longrightarrow> row_change (\<lambda>s. g (f s))"
  unfolding row_change_def by metis

lemma evolves_refl [simp, intro]: "evolves d d"
  unfolding evolves_def by (auto intro!: exI [of _ "\<lambda>s. s"])

lemma evolves_trans:
  assumes "evolves a b" and "evolves b c"
  shows "evolves a c"
proof -
  from assms obtain f x g y where "row_change f" "sd_steps b = map f (sd_steps a) @ x"
    "row_change g" "sd_steps c = map g (sd_steps b) @ y" unfolding evolves_def by blast
  then have "row_change (\<lambda>s. g (f s))" "sd_steps c = map (\<lambda>s. g (f s)) (sd_steps a) @ (map g x @ y)"
    by (simp_all add: row_change_comp)
  moreover have "\<exists>h \<ge> e. sd_generation c r = Some h" if "sd_generation a r = Some e" for r e
    using assms that unfolding evolves_def by (meson order_trans)
  ultimately show ?thesis using assms unfolding evolves_def by (metis (no_types))
qed

lemma evolves_finished:
  "evolves d d' \<Longrightarrow> s \<in> set (sd_steps d) \<Longrightarrow> os_status s \<noteq> ''running'' \<Longrightarrow> s \<in> set (sd_steps d')"
  unfolding evolves_def row_change_def by (metis (no_types) Un_iff image_eqI set_append set_map)

subsection \<open>Each operation on the table\<close>

lemma insert_step_cases:
  assumes "insert_step i operation domain kind started d = Inr (d', inserted)"
  obtains (present) "inserted = False" "d' = d" "list_ex (step_row operation kind) (sd_steps d)"
  | (added) "inserted = True" "\<not> list_ex (step_row operation kind) (sd_steps d)"
      "\<not> list_ex (\<lambda>s. os_id s = i) (sd_steps d)" "find_op operation (sd_operations d) \<noteq> None"
      "d' = d\<lparr>sd_steps := sd_steps d @ [\<lparr>os_id = i, os_operation = operation, os_domain = domain,
             os_kind = kind, os_status = ''running'', os_started = started, os_finished = []\<rparr>]\<rparr>"
  using assms by (auto simp: insert_step_def split: if_splits)

lemma insert_step_evolves:
  "insert_step i operation domain kind started d = Inr (d', inserted) \<Longrightarrow> evolves d d'"
  by (erule insert_step_cases) (auto simp: evolves_def intro!: exI [of _ "\<lambda>s. s"])

lemma insert_step_ok:
  assumes "insert_step i operation domain kind started d = Inr (d', inserted)" "steps_ok d"
    and "domain \<in> {''native'', ''orchestration'', ''application''}"
  shows "steps_ok d'"
  using assms(1)
proof (cases rule: insert_step_cases)
  case added
  then have "(operation, kind) \<notin> step_key ` set (sd_steps d)" "i \<notin> os_id ` set (sd_steps d)"
    by (auto simp: list_ex_iff step_row_def)
  with added assms(2,3) show ?thesis by (auto simp: steps_ok_def step_legal_def)
qed (use assms in simp)

lemma start_step_insert:
  assumes "start_operation_step i operation domain kind started d = Inr d'"
  obtains inserted where "insert_step i operation domain kind started d = Inr (d', inserted)"
    "domain \<in> {''native'', ''orchestration'', ''application''}"
  using assms by (cases "insert_step i operation domain kind started d")
    (auto simp: start_operation_step_def split: if_splits)

lemma start_mutation_insert:
  assumes "start_metadata_mutation_step i operation repository kind started d = Inr (d', n)"
  obtains d1 g where "insert_step i operation ''native'' kind started d = Inr (d1, True)"
    "sd_generation d1 repository = Some g" "n = g + 1"
    "d' = d1\<lparr>sd_generation := (sd_generation d1)(repository \<mapsto> n)\<rparr>"
  using assms
  by (auto simp: start_metadata_mutation_step_def split: if_splits sum.splits prod.splits option.splits)

lemma finish_step_cases:
  assumes "finish_operation_step operation kind status body finished d = Inr d'"
  obtains s and o' :: op_row where "find (running_row operation kind) (sd_steps d) = Some s"
    "status \<in> set final_step_statuses" "status = ''interrupted'' \<longrightarrow> os_domain s = ''native''"
    "d' = finalize_step operation kind status finished
      \<lparr>ls_operation = operation, ls_engine = op_engine o', ls_domain = os_domain s,
       ls_kind = kind, ls_status = status, ls_body = body\<rparr> d"
proof (cases "find (running_row operation kind) (sd_steps d)")
  case None
  with assms show ?thesis by (simp add: finish_operation_step_def split: if_splits)
next
  case (Some s)
  show ?thesis
  proof (cases "find_op operation (sd_operations d)")
    case None
    with Some assms show ?thesis by (simp add: finish_operation_step_def split: if_splits)
  next
    case found: (Some o')
    have "status \<in> set final_step_statuses \<and> \<not> (status = ''interrupted'' \<and> os_domain s \<noteq> ''native'')"
      using Some found assms by (auto simp: finish_operation_step_def split: if_splits)
    with Some found assms show ?thesis by (intro that [of s o']) (simp_all add: finish_operation_step_def)
  qed
qed

lemma finalize_evolves: "evolves d (finalize_step operation kind status finished written d)"
  unfolding evolves_def
  by (auto simp: finalize_step_def row_change_def running_row_def
      intro!: exI [of _ "\<lambda>s. if running_row operation kind s then s\<lparr>os_status := status, os_finished := finished\<rparr> else s"])

lemma steps_ok_map:
  assumes "steps_ok d" and "\<And>s. step_key (f s) = step_key s \<and> os_id (f s) = os_id s"
    and "\<And>s. s \<in> set (sd_steps d) \<Longrightarrow> step_legal (f s)" and "sd_steps d' = map f (sd_steps d)"
  shows "steps_ok d'"
proof -
  have "step_key \<circ> f = step_key" "os_id \<circ> f = os_id" using assms(2) by auto
  with assms show ?thesis by (simp add: steps_ok_def)
qed

lemma finalize_ok:
  assumes "steps_ok d" and "find (running_row operation kind) (sd_steps d) = Some s"
    and "status \<in> set final_step_statuses" "status = ''interrupted'' \<longrightarrow> os_domain s = ''native''"
  shows "steps_ok (finalize_step operation kind status finished written d)"
proof (rule steps_ok_map [OF assms(1)])
  let ?f = "\<lambda>s. if running_row operation kind s then s\<lparr>os_status := status, os_finished := finished\<rparr> else s"
  show "sd_steps (finalize_step operation kind status finished written d) = map ?f (sd_steps d)"
    by (simp add: finalize_step_def)
  show "step_key (?f t) = step_key t \<and> os_id (?f t) = os_id t" for t by simp
  have s: "s \<in> set (sd_steps d)" "running_row operation kind s"
    using assms(2) by (auto simp: find_Some_iff)
  show "step_legal (?f t)" if "t \<in> set (sd_steps d)" for t
  proof (cases "running_row operation kind t")
    case True
    with assms(1) s that have "t = s"
      by (auto simp: steps_ok_def running_row_def step_row_def distinct_map inj_on_def)
    with assms s show ?thesis by (auto simp: steps_ok_def step_legal_def)
  next
    case False
    with assms(1) that show ?thesis by (auto simp: steps_ok_def)
  qed
qed

lemma close_evolves: "evolves d (close_running_steps at d)"
  unfolding evolves_def
  by (auto simp: close_running_steps_def row_change_def
      intro!: exI [of _ "\<lambda>s. if os_status s = ''running''
         then s\<lparr>os_status := (if os_domain s = ''native'' then ''interrupted'' else ''failed''),
                os_finished := at\<rparr> else s"])

lemma close_ok:
  assumes "steps_ok d"
  shows "steps_ok (close_running_steps at d)"
proof (rule steps_ok_map [OF assms])
  let ?f = "\<lambda>s. if os_status s = ''running''
         then s\<lparr>os_status := (if os_domain s = ''native'' then ''interrupted'' else ''failed''),
                os_finished := at\<rparr> else s"
  show "sd_steps (close_running_steps at d) = map ?f (sd_steps d)" by (simp add: close_running_steps_def)
  show "step_key (?f s) = step_key s \<and> os_id (?f s) = os_id s" for s by simp
  show "step_legal (?f s)" if "s \<in> set (sd_steps d)" for s
    using assms that by (auto simp: steps_ok_def step_legal_def final_step_statuses_def)
qed

lemma call_step_evolves: "evolves d (call_step c d)"
proof (cases c)
  case (StartCall i operation domain kind started)
  then show ?thesis
    by (auto simp: keep_def split: sum.splits elim!: start_step_insert intro: insert_step_evolves)
next
  case (MutationCall i operation repository kind started)
  show ?thesis
  proof (cases "start_metadata_mutation_step i operation repository kind started d")
    case (Inl e)
    then show ?thesis using MutationCall by (simp add: keep_def)
  next
    case (Inr p)
    obtain d' n where p: "p = (d', n)" by (cases p)
    obtain d1 g where g: "insert_step i operation ''native'' kind started d = Inr (d1, True)"
        "sd_generation d1 repository = Some g" "n = g + 1"
        "d' = d1\<lparr>sd_generation := (sd_generation d1)(repository \<mapsto> n)\<rparr>"
      using Inr p by (auto elim: start_mutation_insert)
    then have "evolves d1 d'" by (auto simp: evolves_def intro!: exI [of _ "\<lambda>s. s"])
    with insert_step_evolves [OF g(1)] have "evolves d d'" by (rule evolves_trans)
    with Inr p MutationCall show ?thesis by (simp add: keep_def)
  qed
next
  case (FinishCall operation kind status body finished)
  then show ?thesis
    by (auto simp: keep_def finalize_evolves split: sum.splits elim!: finish_step_cases)
next
  case (SkipCall i operation domain kind reason at)
  then show ?thesis
    by (auto simp: skip_operation_step_def split: sum.splits elim!: start_step_insert finish_step_cases
        intro: insert_step_evolves evolves_trans [OF insert_step_evolves finalize_evolves])
next
  case (CloseCall at)
  then show ?thesis by (simp add: close_evolves)
qed

lemma call_step_ok: "steps_ok d \<Longrightarrow> steps_ok (call_step c d)"
proof (cases c)
  case (StartCall i operation domain kind started)
  assume "steps_ok d"
  with StartCall show ?thesis
    by (auto simp: keep_def split: sum.splits elim!: start_step_insert dest: insert_step_ok)
next
  case (MutationCall i operation repository kind started)
  assume ok: "steps_ok d"
  show ?thesis
  proof (cases "start_metadata_mutation_step i operation repository kind started d")
    case (Inl e)
    with ok show ?thesis using MutationCall by (simp add: keep_def)
  next
    case (Inr p)
    obtain d' n where p: "p = (d', n)" by (cases p)
    obtain d1 g where g: "insert_step i operation ''native'' kind started d = Inr (d1, True)"
        "d' = d1\<lparr>sd_generation := (sd_generation d1)(repository \<mapsto> n)\<rparr>"
      using Inr p by (auto elim: start_mutation_insert)
    from insert_step_ok [OF g(1) ok] g(2) have "steps_ok d'" by (simp add: steps_ok_def)
    with Inr p MutationCall show ?thesis by (simp add: keep_def)
  qed
next
  case (FinishCall operation kind status body finished)
  assume "steps_ok d"
  with FinishCall show ?thesis
    by (auto simp: keep_def split: sum.splits elim!: finish_step_cases intro: finalize_ok)
next
  case (SkipCall i operation domain kind reason at)
  assume ok: "steps_ok d"
  with SkipCall show ?thesis
    by (auto simp: skip_operation_step_def split: sum.splits elim!: start_step_insert finish_step_cases
        intro: finalize_ok dest: insert_step_ok [OF _ ok])
next
  case (CloseCall at)
  assume "steps_ok d"
  with CloseCall show ?thesis by (simp add: close_ok)
qed

definition steps_init :: "step_db \<Rightarrow> bool" where
  "steps_init d \<longleftrightarrow> sd_steps d = []"

definition steps_move :: "step_db \<Rightarrow> step_db \<Rightarrow> bool" where
  "steps_move d d' \<longleftrightarrow> (\<exists>c. d' = call_step c d)"

interpretation steps: step_system steps_init steps_move steps_ok
  by unfold_locales (auto simp: steps_init_def steps_move_def intro: call_step_ok, simp add: steps_ok_def)

lemma run_evolves: "steps_move\<^sup>*\<^sup>* d d' \<Longrightarrow> evolves d d'"
  by (induction rule: rtranclp_induct) (auto simp: steps_move_def intro: evolves_trans call_step_evolves)

text \<open>C24. Whatever calls are made, an operation has at most one step of each kind, only a native
  step is ever interrupted, a step that has finished is never changed again, and the metadata
  generation a vault requires never goes back.\<close>

theorem finished_steps_final:
  assumes "steps_init d0" and "steps_move\<^sup>*\<^sup>* d0 d" and "steps_move\<^sup>*\<^sup>* d d'"
  shows "distinct (map step_key (sd_steps d')) \<and> (\<forall>s \<in> set (sd_steps d'). step_legal s) \<and>
    (\<forall>s \<in> set (sd_steps d). os_status s \<noteq> ''running'' \<longrightarrow> s \<in> set (sd_steps d')) \<and>
    (\<forall>r g. sd_generation d r = Some g \<longrightarrow> (\<exists>g' \<ge> g. sd_generation d' r = Some g'))"
proof (intro conjI)
  have ok: "steps_ok d'" using steps.inv_reachable [OF assms(1)] assms(2,3) by (meson rtranclp_trans)
  show "distinct (map step_key (sd_steps d'))" "\<forall>s \<in> set (sd_steps d'). step_legal s"
    using ok unfolding steps_ok_def by blast+
  have e: "evolves d d'" by (rule run_evolves [OF assms(3)])
  show "\<forall>s \<in> set (sd_steps d). os_status s \<noteq> ''running'' \<longrightarrow> s \<in> set (sd_steps d')"
    using evolves_finished [OF e] by blast
  show "\<forall>r g. sd_generation d r = Some g \<longrightarrow> (\<exists>g' \<ge> g. sd_generation d' r = Some g')"
    using e unfolding evolves_def by blast
qed

text \<open>A native step is started, interrupted by the next start of the program, and stays so.\<close>

definition one_operation :: step_db where
  "one_operation = \<lparr>sd_operations = \<lparr>od_ops = [\<lparr>op_id = ''o'', op_kind = ''check'', op_status = ''running'',
       op_title = [], op_job = [], op_repository = ''v'', op_engine = ''restic'', op_started_at = ''1'',
       op_finished_at = [], op_issue_kind = []\<rparr>],
     od_repositories = (\<lambda>_. None), od_targets = (\<lambda>_. None), od_restorations = [], od_groups = []\<rparr>,
   sd_steps = [], sd_generation = (\<lambda>_. None), sd_log = []\<rparr>"

definition closed_example :: step_db where
  "closed_example = call_step (CloseCall ''3'') (call_step (StartCall ''s'' ''o'' ''native'' ''check'' ''2'') one_operation)"

lemma finished_steps_final_witness:
  "map os_status (sd_steps closed_example) = [''interrupted''] \<and>
   set (sd_steps closed_example) \<subseteq> set (sd_steps (call_step (FinishCall ''o'' ''check'' ''succeeded'' [] ''4'') closed_example))"
proof -
  let ?d' = "call_step (FinishCall ''o'' ''check'' ''succeeded'' [] ''4'') closed_example"
  have i: "steps_init one_operation" by (simp add: steps_init_def one_operation_def)
  have m: "steps_move x (call_step c x)" for c x unfolding steps_move_def by blast
  have run: "steps_move\<^sup>*\<^sup>* one_operation closed_example"
    unfolding closed_example_def using m by (meson rtranclp.intros)
  have run': "steps_move\<^sup>*\<^sup>* closed_example ?d'" using m by blast
  have status: "map os_status (sd_steps closed_example) = [''interrupted'']"
    by (simp add: closed_example_def one_operation_def start_operation_step_def insert_step_def keep_def find_op_def
        close_running_steps_def)
  then have "\<forall>s \<in> set (sd_steps closed_example). os_status s \<noteq> ''running''" by auto
  with finished_steps_final [OF i run run'] status show ?thesis by blast
qed

section \<open>Metadata generations\<close>

text \<open>Starting a mutating step and reserving its generation is one transaction: the generation
  grows by one exactly when the step row is new, and a refused start changes nothing.\<close>

lemma mutation_reserves:
  "start_metadata_mutation_step i operation repository kind started d = Inr (d', n) \<Longrightarrow>
   sd_generation d repository = Some (n - 1) \<and> sd_generation d' = (sd_generation d)(repository \<mapsto> n) \<and>
   \<not> list_ex (step_row operation kind) (sd_steps d) \<and>
   (\<exists>s. sd_steps d' = sd_steps d @ [s] \<and> running_row operation kind s)"
  by (auto elim!: start_mutation_insert insert_step_cases simp: running_row_def step_row_def)

section \<open>Listing\<close>

lemma list_steps_sorted:
  assumes "list_operation_steps parse operation d = Inr steps"
  shows "mset steps = mset (filter (\<lambda>s. os_operation s = operation) (sd_steps d)) \<and>
    sorted (map (\<lambda>s. (the (parse (os_started s)), os_id s)) steps)"
  using assms by (auto simp: list_operation_steps_def Let_def split: if_splits)

end
