(* ===== verification/RepositoryTask.thy ===== *)
theory RepositoryTask
  imports Effects OperationRuntime OperationSteps VaultReconnect ObjectLock
begin

text \<open>
  The body of an integrity check or a maintenance run of a vault
  (\<open>scheduler/repository_tasks.go\<close>) with its durable steps, over the tables of theory
  \<open>OperationSteps\<close>.  Every answer from outside the modelled packages (whether the next database
  statement fails, the context, the vault owner record, the engine) is a function of the number
  of answers given before it, so that any course of events is one environment.
\<close>

section \<open>The world and its answers\<close>

record task_vault =
  tv_id :: string
  tv_name :: string
  tv_engine :: string
  tv_connector :: string
  tv_cold_storage :: bool
  tv_check_schedule :: string
  tv_maintenance_schedule :: string
  tv_next_check :: string
  tv_next_maintenance :: string
  tv_object_lock :: object_lock_settings

text \<open>What \<open>RequestedOperationOutcome\<close> reads out of an error it knows.\<close>

record requested_outcome =
  ro_status :: string
  ro_started :: bool
  ro_preparation :: "go_error option"
  ro_native :: "go_error option"
  ro_followup :: "go_error option"

record native_reply =
  nr_output :: string
  nr_err :: "go_error option"
  nr_started :: bool

text \<open>An engine call that consults the admission callback of its context any number of times.\<close>

datatype plan = Reply native_reply | Admit "go_error option \<Rightarrow> plan"

record prepare_reply =
  pr_output :: string
  pr_err :: "go_error option"
  pr_cleanup :: bool

record task_env =
  te_write :: "nat \<Rightarrow> go_error option"
  te_now :: "nat \<Rightarrow> string"
  te_instant :: "nat \<Rightarrow> int"
  te_id :: "nat \<Rightarrow> string"
  te_ctx :: "nat \<Rightarrow> ctx"
  te_lock :: "nat \<Rightarrow> bool result"
  te_register :: "nat \<Rightarrow> go_error option"
  te_admit :: "nat \<Rightarrow> task_vault \<Rightarrow> task_vault result"
  te_owner :: "nat \<Rightarrow> task_vault \<Rightarrow> go_error option"
  te_resolve :: "nat \<Rightarrow> task_vault \<Rightarrow> go_error option"
  te_kopia_owner :: "nat \<Rightarrow> task_vault \<Rightarrow> go_error option"
  te_care :: "nat \<Rightarrow> task_vault \<Rightarrow> task_vault result"
  te_reassure :: "nat \<Rightarrow> string \<times> go_error option"
  te_ensure :: "nat \<Rightarrow> plan"
  te_prepare :: "nat \<Rightarrow> prepare_reply"
  te_cleanup :: "nat \<Rightarrow> go_error option"
  te_native :: "nat \<Rightarrow> plan"
  te_outcome :: "go_error \<Rightarrow> requested_outcome option"
  te_unavailable :: "go_error \<Rightarrow> bool"
  te_output_failure :: "go_error \<Rightarrow> bool"
  te_text :: "go_error \<Rightarrow> string"
  te_settings :: "nat \<Rightarrow> notification_switches result"
  te_rclone :: "nat \<Rightarrow> rclone_check"
  te_rclone_hint :: "string \<Rightarrow> string"
  te_view :: failure_view
  te_next_run :: "nat \<Rightarrow> string \<Rightarrow> string"
  te_retry_at :: "nat \<Rightarrow> string"
  te_decode_lock :: "string \<Rightarrow> object_lock_settings option"

text \<open>A record of what happened: the call of the requested native command with the tables at that
  moment, its return, a preparation that left resources to remove, and their removal.\<close>

datatype task_event =
    NativeCalled string step_db
  | NativeReturned
  | ResourcesPrepared
  | CleanupRan
  | SizeDirty string
  | NotificationSent string string

record task_world =
  tw_db :: step_db
  tw_reconnect :: reconnect_world
  tw_tick :: nat
  tw_gate_closed :: bool
  tw_trace :: "task_event list"

type_synonym 'a task = "(task_world, 'a) state"

definition answer :: "(nat \<Rightarrow> 'a) \<Rightarrow> 'a task" where
  "answer f = State (\<lambda>w. (f (tw_tick w), w\<lparr>tw_tick := Suc (tw_tick w)\<rparr>))"

definition emit :: "task_event \<Rightarrow> unit task" where
  "emit ev = State (\<lambda>w. ((), w\<lparr>tw_trace := tw_trace w @ [ev]\<rparr>))"

definition close_gate :: "unit task" where
  "close_gate = State (\<lambda>w. ((), w\<lparr>tw_gate_closed := True\<rparr>))"

definition apply_statement :: "(step_db \<Rightarrow> step_db result) \<Rightarrow> go_error option task" where
  "apply_statement f = State (\<lambda>w. case f (tw_db w) of
       Inl x \<Rightarrow> (Some x, w)
     | Inr d \<Rightarrow> (None, w\<lparr>tw_db := d\<rparr>))"

text \<open>One transaction: it may fail before it changes anything.\<close>

definition statement :: "task_env \<Rightarrow> (step_db \<Rightarrow> step_db result) \<Rightarrow> go_error option task" where
  "statement e f = do {
     failed \<leftarrow> answer (te_write e);
     (case failed of Some x \<Rightarrow> State_Monad.return (Some x) | None \<Rightarrow> apply_statement f)
   }"

definition on_operations :: "(operations_db \<Rightarrow> operations_db result) \<Rightarrow> step_db \<Rightarrow> step_db result" where
  "on_operations f d = map_sum id (\<lambda>o'. d\<lparr>sd_operations := o'\<rparr>) (f (sd_operations d))"

section \<open>Durable steps\<close>

definition err_repository_task_running :: go_error where
  "err_repository_task_running = new_error ''repository task is already running''"

definition err_task_persistence :: go_error where
  "err_task_persistence = new_error ''repository task persistence failed''"

definition err_step_finalization :: go_error where
  "err_step_finalization = new_error ''repository task step finalization failed''"

definition err_pre_process_admission :: go_error where
  "err_pre_process_admission = new_error ''native process admission failed before process start''"

definition err_not_vault_owner :: go_error where
  "err_not_vault_owner = new_error ''only the current vault owner may administer vault-wide recovery metadata''"

definition err_attachment_lost :: go_error where
  "err_attachment_lost = new_error ''another Replicaro installation took over this vault profile''"

definition start_step :: "task_env \<Rightarrow> string \<Rightarrow> string \<Rightarrow> string \<Rightarrow> go_error option task" where
  "start_step e op domain kind = do {
     now \<leftarrow> answer (te_now e);
     i \<leftarrow> answer (te_id e);
     statement e (start_operation_step i op domain kind now)
   }"

definition finish_step :: "task_env \<Rightarrow> string \<Rightarrow> string \<Rightarrow> string \<Rightarrow> string \<Rightarrow> go_error option task" where
  "finish_step e op kind status body = do {
     now \<leftarrow> answer (te_now e);
     statement e (finish_operation_step op kind status body now)
   }"

definition finish_started_step :: "task_env \<Rightarrow> string \<Rightarrow> string \<Rightarrow> string \<Rightarrow> string \<Rightarrow> go_error option task" where
  "finish_started_step e op kind status body = do {
     r \<leftarrow> finish_step e op kind status body;
     State_Monad.return (case r of
         None \<Rightarrow> None
       | Some x \<Rightarrow> errors_join [Some err_task_persistence,
           Some (wrap_error (''persist '' @ kind @ '' result'') err_step_finalization)])
   }"

definition skip_task_step :: "task_env \<Rightarrow> string \<Rightarrow> string \<Rightarrow> string \<Rightarrow> string \<Rightarrow> go_error option task" where
  "skip_task_step e op domain kind reason = do {
     started \<leftarrow> start_step e op domain kind;
     (case started of
        Some x \<Rightarrow> State_Monad.return (Some (wrap_error (''persist skipped '' @ kind @ '' step'') err_task_persistence))
      | None \<Rightarrow> do {
          finished \<leftarrow> finish_step e op kind ''skipped'' reason;
          State_Monad.return (case finished of
              None \<Rightarrow> None
            | Some x \<Rightarrow> errors_join [Some err_task_persistence,
                Some (wrap_error (''persist skipped '' @ kind @ '' result'') err_step_finalization)])
        })
   }"

definition combined_task_output :: "task_env \<Rightarrow> string \<Rightarrow> go_error option \<Rightarrow> string" where
  "combined_task_output e text err =
     (case err of
        None \<Rightarrow> text
      | Some x \<Rightarrow> if trim_space text = [] then te_text e x else text @ [CHR 0x0A] @ te_text e x)"

section \<open>Ownership\<close>

definition disable_repository_integrity :: "string \<Rightarrow> string \<Rightarrow> operations_db \<Rightarrow> operations_db result" where
  "disable_repository_integrity repo reason d =
     update_repository repo (set_care ''check'' (\<lambda>c. c\<lparr>care_schedule := ''manual'', care_next := [],
       care_status := ''blocked: '' @ trim_space reason\<rparr>)) d"

definition disable_repository_maintenance ::
  "task_env \<Rightarrow> nat \<Rightarrow> string \<Rightarrow> string \<Rightarrow> operations_db \<Rightarrow> operations_db result" where
  "disable_repository_maintenance e n repo reason d =
     (case od_repositories d repo of
        None \<Rightarrow> Inl sql_no_rows
      | Some r \<Rightarrow>
          let schedule = care_schedule (rr_maintenance r); status = ''blocked: '' @ trim_space reason in
          (case te_decode_lock e (rr_object_lock r) of
             None \<Rightarrow> Inl (new_error ''decode stored object lock settings'')
           | Some lock \<Rightarrow>
               if ol_enrolled lock then
                 if \<not> object_lock_maintenance_eligible lock schedule
                 then Inl (new_error ''space reclamation schedule is incompatible with object lock state'')
                 else update_repository repo (set_care ''maintenance'' (\<lambda>c. c\<lparr>
                   care_next := (if ol_paused lock then te_next_run e n schedule else te_retry_at e n),
                   care_status := status\<rparr>)) d
               else update_repository repo (set_care ''maintenance'' (\<lambda>c. c\<lparr>care_schedule := ''manual'',
                   care_next := [], care_status := status\<rparr>)) d))"

definition disable_integrity :: "task_env \<Rightarrow> task_vault \<Rightarrow> string \<Rightarrow> go_error option task" where
  "disable_integrity e v reason = statement e (on_operations (disable_repository_integrity (tv_id v) reason))"

definition disable_maintenance :: "task_env \<Rightarrow> task_vault \<Rightarrow> string \<Rightarrow> go_error option task" where
  "disable_maintenance e v reason = do {
     n \<leftarrow> answer (\<lambda>n. n);
     statement e (on_operations (disable_repository_maintenance e n (tv_id v) reason))
   }"

definition ownership_lost :: "go_error \<Rightarrow> bool" where
  "ownership_lost x \<longleftrightarrow> errors_is x err_not_vault_owner \<or> errors_is x err_attachment_lost"

definition assert_repository_owner :: "task_env \<Rightarrow> task_vault \<Rightarrow> go_error option task" where
  "assert_repository_owner e v = answer (\<lambda>n. te_owner e n v)"

definition assert_repository_writer :: "task_env \<Rightarrow> task_vault \<Rightarrow> go_error option task" where
  "assert_repository_writer e v = do {
     owner \<leftarrow> assert_repository_owner e v;
     (case owner of
        Some x \<Rightarrow> State_Monad.return (Some x)
      | None \<Rightarrow>
          if tv_engine v = ''kopia'' then do {
            unresolved \<leftarrow> answer (\<lambda>n. te_resolve e n v);
            (case unresolved of
               Some x \<Rightarrow> State_Monad.return (Some x)
             | None \<Rightarrow> answer (\<lambda>n. te_kopia_owner e n v))
          } else State_Monad.return None)
   }"

text \<open>Both admissions have the same shape: a step around the assertion, and a schedule that is
  switched off when ownership is definitely lost.\<close>

definition admission_step ::
  "task_env \<Rightarrow> string \<Rightarrow> string \<Rightarrow> string \<Rightarrow> string \<Rightarrow> go_error option task \<Rightarrow> string \<Rightarrow>
   (string \<Rightarrow> go_error option task) \<Rightarrow> go_error option task" where
  "admission_step e op kind what granted assertion schedule disable = do {
     started \<leftarrow> start_step e op ''orchestration'' kind;
     (case started of
        Some x \<Rightarrow> State_Monad.return (Some (wrap_error (''persist '' @ what @ '' start'') err_task_persistence))
      | None \<Rightarrow> do {
          refused \<leftarrow> assertion;
          disabled \<leftarrow> (case refused of
              Some x \<Rightarrow> if ownership_lost x then disable (te_text e x) else State_Monad.return None
            | None \<Rightarrow> State_Monad.return None);
          let admission = (case disabled of
              None \<Rightarrow> refused
            | Some y \<Rightarrow> errors_join [refused,
                Some (wrap_error (''disable superseded '' @ schedule @ '' schedule'') err_task_persistence)]);
          finished \<leftarrow> finish_step e op kind (if refused = None then ''succeeded'' else ''failed'')
            (case refused of None \<Rightarrow> granted | Some x \<Rightarrow> te_text e x);
          State_Monad.return (case finished of
              None \<Rightarrow> admission
            | Some y \<Rightarrow> errors_join [admission, Some err_task_persistence,
                Some (wrap_error (''persist '' @ what @ '' result'') err_step_finalization)])
        })
   }"

definition persist_owner_admission :: "task_env \<Rightarrow> string \<Rightarrow> task_vault \<Rightarrow> string \<Rightarrow> go_error option task" where
  "persist_owner_admission e op v kind = admission_step e op kind ''repository writer and storage validation''
     ''repository storage and vault ownership are valid'' (assert_repository_writer e v)
     ''maintenance'' (disable_maintenance e v)"

definition persist_writer_admission :: "task_env \<Rightarrow> string \<Rightarrow> task_vault \<Rightarrow> go_error option task" where
  "persist_writer_admission e op v = persist_owner_admission e op v ''repository_writer_storage_validation''"

definition persist_owner_revalidation :: "task_env \<Rightarrow> string \<Rightarrow> task_vault \<Rightarrow> go_error option task" where
  "persist_owner_revalidation e op v = persist_owner_admission e op v ''maintenance_owner_revalidation''"

definition persist_integrity_owner_admission ::
  "task_env \<Rightarrow> string \<Rightarrow> task_vault \<Rightarrow> string \<Rightarrow> go_error option task" where
  "persist_integrity_owner_admission e op v kind = admission_step e op kind ''integrity owner validation''
     ''vault ownership is current'' (assert_repository_owner e v) ''integrity'' (disable_integrity e v)"

definition persist_storage_admission :: "task_env \<Rightarrow> string \<Rightarrow> go_error option task" where
  "persist_storage_admission e op = do {
     started \<leftarrow> start_step e op ''orchestration'' ''repository_storage_admission'';
     (case started of
        Some x \<Rightarrow> State_Monad.return (Some (wrap_error ''persist repository storage admission start'' err_task_persistence))
      | None \<Rightarrow> do {
          finished \<leftarrow> finish_step e op ''repository_storage_admission'' ''succeeded''
            ''exact repository storage is available'';
          State_Monad.return (case finished of
              None \<Rightarrow> None
            | Some y \<Rightarrow> errors_join [Some err_task_persistence,
                Some (wrap_error ''persist repository storage admission result'' err_step_finalization)])
        })
   }"

section \<open>The requested native operation\<close>

definition requested_not_started :: string where "requested_not_started = ''not_started''"
definition requested_succeeded :: string where "requested_succeeded = ''succeeded''"
definition requested_failed :: string where "requested_failed = ''failed''"
definition requested_interrupted :: string where "requested_interrupted = ''interrupted''"

definition requested_operation_outcome :: "task_env \<Rightarrow> go_error option \<Rightarrow> requested_outcome option" where
  "requested_operation_outcome e err =
     (case err of
        None \<Rightarrow> Some \<lparr>ro_status = requested_succeeded, ro_started = True, ro_preparation = None,
                   ro_native = None, ro_followup = None\<rparr>
      | Some x \<Rightarrow> te_outcome e x)"

definition requested_native_succeeded :: "task_env \<Rightarrow> go_error option \<Rightarrow> bool" where
  "requested_native_succeeded e err =
     (case requested_operation_outcome e err of
        None \<Rightarrow> False
      | Some r \<Rightarrow> ro_started r \<and> ro_status r = requested_succeeded)"

definition requested_mutation_started :: "task_env \<Rightarrow> native_reply \<Rightarrow> bool" where
  "requested_mutation_started e r =
     (case requested_operation_outcome e (nr_err r) of
        Some o' \<Rightarrow> ro_started o'
      | None \<Rightarrow> nr_started r \<or> nr_err r = None)"

primrec run_plan :: "go_error option task \<Rightarrow> plan \<Rightarrow> native_reply task" where
  "run_plan callback (Reply r) = State_Monad.return r"
| "run_plan callback (Admit f) = State_Monad.bind callback (\<lambda>a. run_plan callback (f a))"

text \<open>The status a native step is finished with, the text of its section, and whether the process
  was refused before it started.  An interruption that is not the task's own is a failure.\<close>

definition tracked_outcome :: "task_env \<Rightarrow> ctx \<Rightarrow> go_error option \<Rightarrow> requested_outcome option" where
  "tracked_outcome e c err =
     (case requested_operation_outcome e err of
        None \<Rightarrow> None
      | Some r \<Rightarrow>
          if ro_status r = requested_interrupted \<and> terminal_status (Some c) err \<noteq> ''interrupted''
          then Some (r\<lparr>ro_status := if ro_started r then requested_failed else requested_not_started\<rparr>)
          else Some r)"

definition refused_text :: string where
  "refused_text = ''native process skipped because admission failed before process start''"

definition tracked_native :: "task_env \<Rightarrow> ctx \<Rightarrow> native_reply \<Rightarrow> string \<times> string \<times> bool" where
  "tracked_native e c reply =
     (let body = nr_output reply; err = nr_err reply in
      case tracked_outcome e c err of
        Some r \<Rightarrow>
          (let refused = \<not> ro_started r \<and>
             (case ro_preparation r of None \<Rightarrow> False | Some x \<Rightarrow> errors_is x err_pre_process_admission);
               (status, result) =
                 (if ro_status r = requested_not_started
                  then (''skipped'', ''native engine preparation failed; requested native operation was not started'')
                  else if ro_status r = requested_interrupted \<and> \<not> ro_started r
                  then (''skipped'', ''native engine operation was interrupted before native process start'')
                  else if ro_status r = requested_interrupted
                  then (''interrupted'', combined_task_output e body (ro_native r))
                  else if ro_status r \<noteq> requested_succeeded
                  then (''failed'', combined_task_output e body (ro_native r))
                  else (''succeeded'', body))
           in (status, if refused then refused_text else result, refused))
      | None \<Rightarrow>
          (case err of
             None \<Rightarrow> (''succeeded'', body, False)
           | Some x \<Rightarrow>
               if errors_is x err_pre_process_admission \<and> \<not> nr_started reply
               then (''skipped'', refused_text, True)
               else (''failed'', combined_task_output e body err, False)))"

text \<open>A step that only records what went wrong before or after the native process.\<close>

definition failure_step :: "task_env \<Rightarrow> string \<Rightarrow> string \<Rightarrow> string \<Rightarrow> string \<Rightarrow> go_error option task" where
  "failure_step e op kind what body = do {
     started \<leftarrow> start_step e op ''orchestration'' kind;
     (case started of
        Some x \<Rightarrow> State_Monad.return (Some (wrap_error (''persist '' @ what @ '' start'') x))
      | None \<Rightarrow> do {
          finished \<leftarrow> finish_started_step e op kind ''failed'' body;
          State_Monad.return (map_option (wrap_error (''persist '' @ what @ '' failure'')) finished)
        })
   }"

definition finish_tracked_native ::
  "task_env \<Rightarrow> string \<Rightarrow> string \<Rightarrow> native_reply \<Rightarrow> go_error option task" where
  "finish_tracked_native e op kind reply = do {
     c \<leftarrow> answer (te_ctx e);
     let (status, result, refused) = tracked_native e c reply;
     p1 \<leftarrow> (if refused then failure_step e op ''native_process_admission'' ''native-process admission''
              ''native process admission failed before process start''
            else State_Monad.return None);
     p2 \<leftarrow> finish_started_step e op kind status result;
     let followup = (case requested_operation_outcome e (nr_err reply) of None \<Rightarrow> None | Some r \<Rightarrow> ro_followup r);
     p3 \<leftarrow> (case errors_join [followup, nr_err reply] of
         Some x \<Rightarrow> if te_output_failure e x
           then failure_step e op ''output_processing'' ''output-processing''
             ''native output could not be processed completely''
           else State_Monad.return None
       | None \<Rightarrow> State_Monad.return None);
     State_Monad.return (errors_join [nr_err reply, errors_join [p1, p2, p3]])
   }"

text \<open>Calling the engine for the requested operation.\<close>

definition call_native :: "task_env \<Rightarrow> string \<Rightarrow> go_error option task \<Rightarrow> native_reply task" where
  "call_native e kind callback = do {
     w \<leftarrow> State_Monad.get;
     emit (NativeCalled kind (tw_db w));
     p \<leftarrow> answer (te_native e);
     r \<leftarrow> run_plan callback p;
     emit NativeReturned;
     State_Monad.return r
   }"

section \<open>The integrity check\<close>

definition prepare_kind :: string where "prepare_kind = ''integrity_cache_prepare''"
definition check_kind :: string where "check_kind = ''repository_integrity_check''"
definition cleanup_kind :: string where "cleanup_kind = ''integrity_cache_cleanup''"

definition run_cleanup :: "task_env \<Rightarrow> string \<Rightarrow> go_error option task" where
  "run_cleanup e op = do {
     close_gate;
     started \<leftarrow> start_step e op ''orchestration'' cleanup_kind;
     emit CleanupRan;
     failed \<leftarrow> answer (te_cleanup e);
     (case started of
        Some x \<Rightarrow> State_Monad.return (errors_join [failed, Some (wrap_error ''persist integrity cleanup step'' x)])
      | None \<Rightarrow> do {
          finished \<leftarrow> finish_started_step e op cleanup_kind
            (if failed = None then ''succeeded'' else ''failed'')
            (case failed of None \<Rightarrow> ''operation-owned integrity resources removed'' | Some x \<Rightarrow> te_text e x);
          State_Monad.return (errors_join [failed, finished])
        })
   }"

text \<open>From the start of the native step to the end of the check.\<close>

definition native_check ::
  "task_env \<Rightarrow> string \<Rightarrow> task_vault \<Rightarrow> go_error option task \<Rightarrow> (string \<times> bool \<times> go_error option) task" where
  "native_check e op v cleanup = do {
     started \<leftarrow> start_step e op ''native'' check_kind;
     (case started of
        Some x \<Rightarrow> do {
          cleaned \<leftarrow> cleanup;
          State_Monad.return ([], False, errors_join [Some (wrap_error ''persist native integrity-check step'' x), cleaned])
        }
      | None \<Rightarrow> do {
          reply \<leftarrow> call_native e check_kind
            (persist_integrity_owner_admission e op v ''integrity_owner_final_admission'');
          close_gate;
          persisted \<leftarrow> finish_tracked_native e op check_kind reply;
          cleaned \<leftarrow> cleanup;
          State_Monad.return (nr_output reply, requested_native_succeeded e (nr_err reply),
            errors_join [persisted, cleaned])
        })
   }"

text \<open>After the preparation succeeded and was recorded.\<close>

definition admitted_check ::
  "task_env \<Rightarrow> string \<Rightarrow> task_vault \<Rightarrow> go_error option task \<Rightarrow> (string \<times> bool \<times> go_error option) task" where
  "admitted_check e op v cleanup = do {
     storage \<leftarrow> (if tv_engine v \<noteq> ''kopia'' then persist_storage_admission e op else State_Monad.return None);
     (case storage of
        Some x \<Rightarrow> do {
          skipped \<leftarrow> skip_task_step e op ''native'' check_kind ''repository storage admission failed'';
          cleaned \<leftarrow> cleanup;
          State_Monad.return ([], False, errors_join [storage, skipped, cleaned])
        }
      | None \<Rightarrow> do {
          owner \<leftarrow> persist_integrity_owner_admission e op v ''integrity_owner_revalidation'';
          (case owner of
             Some x \<Rightarrow> do {
               skipped \<leftarrow> skip_task_step e op ''native'' check_kind ''vault owner changed before native integrity check'';
               cleaned \<leftarrow> cleanup;
               State_Monad.return ([], False, errors_join [owner, skipped, cleaned])
             }
           | None \<Rightarrow> native_check e op v cleanup)
        })
   }"

definition prepared_check ::
  "task_env \<Rightarrow> string \<Rightarrow> task_vault \<Rightarrow> (string \<times> bool \<times> go_error option) task" where
  "prepared_check e op v = do {
     prepared \<leftarrow> answer (te_prepare e);
     (if pr_err prepared = None \<or> pr_cleanup prepared then emit ResourcesPrepared else State_Monad.return ());
     (case pr_err prepared of
        Some x \<Rightarrow> do {
          persisted \<leftarrow> finish_started_step e op prepare_kind ''failed''
            (combined_task_output e (pr_output prepared) (Some x));
          skipped \<leftarrow> skip_task_step e op ''native'' check_kind ''integrity preparation failed'';
          cleaned \<leftarrow> (if pr_cleanup prepared then run_cleanup e op
            else do { close_gate; skip_task_step e op ''orchestration'' cleanup_kind ''integrity resources were not created'' });
          State_Monad.return (pr_output prepared, False, errors_join [Some x, persisted, skipped, cleaned])
        }
      | None \<Rightarrow> do {
          persisted \<leftarrow> finish_started_step e op prepare_kind ''succeeded''
            (if trim_space (pr_output prepared) = [] then ''operation-scoped native cache policy prepared''
             else trim_space (pr_output prepared));
          (case persisted of
             Some x \<Rightarrow> do {
               skipped \<leftarrow> skip_task_step e op ''native'' check_kind ''cache preparation outcome was not persisted'';
               cleaned \<leftarrow> run_cleanup e op;
               State_Monad.return ([], False, errors_join
                 [Some (wrap_error ''persist integrity cache preparation outcome'' x), skipped, cleaned])
             }
           | None \<Rightarrow> admitted_check e op v (run_cleanup e op))
        })
   }"

definition run_integrity_check ::
  "task_env \<Rightarrow> string \<Rightarrow> task_vault \<Rightarrow> (string \<times> bool \<times> go_error option) task" where
  "run_integrity_check e op v = do {
     storage \<leftarrow> (if tv_engine v = ''kopia'' then persist_storage_admission e op else State_Monad.return None);
     (case storage of
        Some x \<Rightarrow> do {
          s1 \<leftarrow> skip_task_step e op ''orchestration'' prepare_kind
            ''repository storage admission failed before integrity preparation'';
          s2 \<leftarrow> skip_task_step e op ''native'' check_kind ''repository storage admission failed'';
          s3 \<leftarrow> skip_task_step e op ''orchestration'' cleanup_kind ''integrity resources were not prepared'';
          State_Monad.return ([], False, errors_join [storage, s1, s2, s3])
        }
      | None \<Rightarrow> do {
          c \<leftarrow> answer (te_ctx e);
          (case ctx_err c of
             Some x \<Rightarrow> do {
               close_gate;
               s1 \<leftarrow> skip_task_step e op ''orchestration'' prepare_kind
                 ''operation was canceled before integrity preparation'';
               s2 \<leftarrow> skip_task_step e op ''native'' check_kind
                 ''operation was canceled before repository integrity check'';
               s3 \<leftarrow> skip_task_step e op ''orchestration'' cleanup_kind ''integrity resources were not prepared'';
               State_Monad.return ([], False, errors_join [Some x, s1, s2, s3])
             }
           | None \<Rightarrow> do {
               started \<leftarrow> start_step e op ''orchestration'' prepare_kind;
               (case started of
                  Some x \<Rightarrow> do {
                    s1 \<leftarrow> skip_task_step e op ''native'' check_kind ''integrity preparation was not recorded'';
                    s2 \<leftarrow> skip_task_step e op ''orchestration'' cleanup_kind ''integrity resources were not prepared'';
                    State_Monad.return ([], False, errors_join
                      [Some (wrap_error ''persist integrity cache preparation step'' x), s1, s2])
                  }
                | None \<Rightarrow> prepared_check e op v)
             })
        })
   }"

section \<open>Maintenance\<close>

definition maintenance_kind :: string where "maintenance_kind = ''maintenance''"
definition reconcile_kind :: string where "reconcile_kind = ''kopia_policy_reconciliation''"

text \<open>The check made again right before Kopia's repository-wide settings are changed.\<close>

definition mutation_admission :: "task_env \<Rightarrow> task_vault \<Rightarrow> go_error option task" where
  "mutation_admission e v = do {
     r \<leftarrow> answer (\<lambda>n. te_care e n v);
     State_Monad.return (case r of
         Inl x \<Rightarrow> Some x
       | Inr fresh \<Rightarrow>
           if tv_check_schedule fresh \<noteq> tv_check_schedule v \<or>
              tv_maintenance_schedule fresh \<noteq> tv_maintenance_schedule v \<or> tv_object_lock fresh \<noteq> tv_object_lock v
           then Some (new_error ''protected vault care changed before Kopia maintenance mutation'') else None)
   }"

definition ensure_maintenance_owner ::
  "task_env \<Rightarrow> task_vault \<Rightarrow> string \<Rightarrow> (string \<times> go_error option) task" where
  "ensure_maintenance_owner e v body = do {
     p \<leftarrow> answer (te_ensure e);
     reply \<leftarrow> run_plan (mutation_admission e v) p;
     State_Monad.return
       (if trim_space (nr_output reply) = [] then body
        else if trim_space body = [] then body @ nr_output reply
        else body @ [CHR 0x0A] @ nr_output reply, nr_err reply)
   }"

text \<open>Policy reassurance, a fresh reading of the vault care, and the maintenance settings.\<close>

definition reassure_policies ::
  "task_env \<Rightarrow> task_vault \<Rightarrow> (task_vault \<times> string \<times> go_error option) task" where
  "reassure_policies e v = do {
     reassured \<leftarrow> answer (te_reassure e);
     (case snd reassured of
        Some x \<Rightarrow> State_Monad.return (v, fst reassured, Some x)
      | None \<Rightarrow> do {
          refreshed \<leftarrow> answer (\<lambda>n. te_care e n v);
          (case refreshed of
             Inl x \<Rightarrow> State_Monad.return (v, fst reassured, Some x)
           | Inr fresh \<Rightarrow> do {
               ensured \<leftarrow> ensure_maintenance_owner e fresh (fst reassured);
               State_Monad.return (fresh, ensured)
             })
        })
   }"

definition reconcile_step :: "task_env \<Rightarrow> string \<Rightarrow> task_vault \<Rightarrow> (task_vault \<times> go_error option) task" where
  "reconcile_step e op v = do {
     reassured \<leftarrow> reassure_policies e v;
     let (fresh, body, err) = reassured;
     (if err \<noteq> None then close_gate else State_Monad.return ());
     finished \<leftarrow> finish_started_step e op reconcile_kind (if err \<noteq> None then ''failed'' else ''succeeded'')
       (combined_task_output e body err);
     (case errors_join [err, finished] of
        None \<Rightarrow> State_Monad.return (fresh, None)
      | Some x \<Rightarrow> do {
          skipped \<leftarrow> skip_task_step e op ''native'' maintenance_kind ''Kopia policy reconciliation failed'';
          State_Monad.return (fresh, errors_join [Some x, skipped])
        })
   }"

definition reconcile_policies :: "task_env \<Rightarrow> string \<Rightarrow> task_vault \<Rightarrow> (task_vault \<times> go_error option) task" where
  "reconcile_policies e op v = do {
     c \<leftarrow> answer (te_ctx e);
     (case ctx_err c of
        Some x \<Rightarrow> do {
          close_gate;
          s1 \<leftarrow> skip_task_step e op ''orchestration'' reconcile_kind
            ''operation was canceled before Kopia policy reconciliation'';
          s2 \<leftarrow> skip_task_step e op ''native'' maintenance_kind ''operation was canceled before native maintenance'';
          State_Monad.return (v, errors_join [Some x, s1, s2])
        }
      | None \<Rightarrow> do {
          started \<leftarrow> start_step e op ''orchestration'' reconcile_kind;
          (case started of
             Some x \<Rightarrow> State_Monad.return (v, Some (wrap_error ''persist Kopia policy reconciliation step'' x))
           | None \<Rightarrow> reconcile_step e op v)
        })
   }"

text \<open>The native maintenance command, the same for both engines but for the callback.\<close>

definition native_maintenance ::
  "task_env \<Rightarrow> string \<Rightarrow> task_vault \<Rightarrow> go_error option task \<Rightarrow> (string \<times> bool \<times> go_error option) task" where
  "native_maintenance e op v callback = do {
     started \<leftarrow> start_step e op ''native'' maintenance_kind;
     (case started of
        Some x \<Rightarrow> do {
          close_gate;
          State_Monad.return ([], False, Some (wrap_error ''persist native maintenance step'' x))
        }
      | None \<Rightarrow> do {
          reply \<leftarrow> call_native e maintenance_kind callback;
          close_gate;
          (if requested_mutation_started e reply then emit (SizeDirty (tv_id v)) else State_Monad.return ());
          err \<leftarrow> finish_tracked_native e op maintenance_kind reply;
          State_Monad.return (nr_output reply, requested_native_succeeded e (nr_err reply), err)
        })
   }"

definition kopia_maintenance ::
  "task_env \<Rightarrow> string \<Rightarrow> task_vault \<Rightarrow> (task_vault \<times> string \<times> bool \<times> go_error option) task" where
  "kopia_maintenance e op v = do {
     reconciled \<leftarrow> reconcile_policies e op v;
     let (fresh, err) = reconciled;
     disabled \<leftarrow> (case err of
         Some x \<Rightarrow> if ownership_lost x then disable_maintenance e fresh (te_text e x) else State_Monad.return None
       | None \<Rightarrow> State_Monad.return None);
     (case errors_join [err, map_option (\<lambda>_. wrap_error ''disable superseded maintenance schedule'' err_task_persistence) disabled] of
        Some x \<Rightarrow> State_Monad.return (fresh, [], False, Some x)
      | None \<Rightarrow> do {
          owner \<leftarrow> persist_owner_revalidation e op fresh;
          (case owner of
             Some x \<Rightarrow> do {
               close_gate;
               skipped \<leftarrow> skip_task_step e op ''native'' maintenance_kind ''vault owner changed before native maintenance'';
               State_Monad.return (fresh, [], False, errors_join [owner, skipped])
             }
           | None \<Rightarrow> do {
               r \<leftarrow> native_maintenance e op fresh (State_Monad.return None);
               State_Monad.return (fresh, r)
             })
        })
   }"

definition restic_maintenance ::
  "task_env \<Rightarrow> string \<Rightarrow> task_vault \<Rightarrow> (task_vault \<times> string \<times> bool \<times> go_error option) task" where
  "restic_maintenance e op v = do {
     r \<leftarrow> native_maintenance e op v (persist_owner_revalidation e op v);
     State_Monad.return (v, r)
   }"

section \<open>The task\<close>

text \<open>What precedes the engine: the whole admission of the vault and the owner record.\<close>

definition task_admission ::
  "task_env \<Rightarrow> string \<Rightarrow> string \<Rightarrow> task_vault result \<Rightarrow> go_error option task" where
  "task_admission e op operation admitted =
     (case admitted of
        Inl x \<Rightarrow>
          (let err = Some (wrap_error (''admit persisted vault for '' @ operation) x) in
           if operation = ''maintenance'' then do {
             skipped \<leftarrow> skip_task_step e op ''native'' maintenance_kind ''complete repository admission failed'';
             State_Monad.return (errors_join [err, skipped])
           } else State_Monad.return err)
      | Inr v \<Rightarrow>
          if operation = ''maintenance'' then do {
            err \<leftarrow> persist_writer_admission e op v;
            (case err of
               None \<Rightarrow> State_Monad.return None
             | Some x \<Rightarrow> do {
                 skipped \<leftarrow> skip_task_step e op ''native'' maintenance_kind
                   ''repository writer and storage validation failed'';
                 State_Monad.return (errors_join [err, skipped])
               })
          } else if operation = ''check'' then do {
            err \<leftarrow> persist_integrity_owner_admission e op v ''integrity_owner_admission'';
            (case err of
               None \<Rightarrow> State_Monad.return None
             | Some x \<Rightarrow> do {
                 skipped \<leftarrow> skip_task_step e op ''native'' check_kind ''vault owner validation failed'';
                 State_Monad.return (errors_join [err, skipped])
               })
          } else State_Monad.return None)"

definition resolve_engine :: "task_env \<Rightarrow> string \<Rightarrow> string \<Rightarrow> task_vault \<Rightarrow> go_error option task" where
  "resolve_engine e op operation v = do {
     err \<leftarrow> answer (\<lambda>n. te_resolve e n v);
     (if err \<noteq> None \<and> operation = ''maintenance'' then do {
        skipped \<leftarrow> skip_task_step e op ''native'' maintenance_kind ''engine resolution failed'';
        State_Monad.return (errors_join [err, skipped])
      } else State_Monad.return err)
   }"

definition task_work ::
  "task_env \<Rightarrow> string \<Rightarrow> string \<Rightarrow> task_vault \<Rightarrow> (task_vault \<times> string \<times> bool \<times> go_error option) task" where
  "task_work e op operation v =
     (if operation = ''maintenance''
      then (if tv_engine v = ''kopia'' then kopia_maintenance e op v else restic_maintenance e op v)
      else do {
        r \<leftarrow> run_integrity_check e op v;
        State_Monad.return (v, r)
      })"

definition admitted_work ::
  "task_env \<Rightarrow> string \<Rightarrow> string \<Rightarrow> task_vault \<Rightarrow> task_vault result \<Rightarrow>
   (task_vault \<times> string \<times> bool \<times> go_error option) task" where
  "admitted_work e op operation requested admitted = do {
     let v = (case admitted of Inl _ \<Rightarrow> requested | Inr v \<Rightarrow> v);
     refused \<leftarrow> task_admission e op operation admitted;
     (case refused of
        Some x \<Rightarrow> State_Monad.return (v, [], False, Some x)
      | None \<Rightarrow> do {
          unresolved \<leftarrow> resolve_engine e op operation v;
          (case unresolved of
             Some x \<Rightarrow> State_Monad.return (v, [], False, Some x)
           | None \<Rightarrow> task_work e op operation v)
        })
   }"

definition repository_task_status :: "ctx \<Rightarrow> go_error option \<Rightarrow> bool \<Rightarrow> string" where
  "repository_task_status c err native_succeeded =
     (let status = terminal_status (Some c) err in
      if status = ''failed'' \<and> native_succeeded then ''completed_with_issues'' else status)"

definition should_notify :: "string \<Rightarrow> string \<Rightarrow> bool" where
  "should_notify event status \<longleftrightarrow>
     status \<noteq> ''success'' \<or> event \<in> {''backup'', ''restore'', ''check'', ''maintenance''}"

text \<open>Whether a notification is to be sent once the result is saved; its step is already running.\<close>

definition prepare_operation_notification :: "task_env \<Rightarrow> string \<Rightarrow> string \<Rightarrow> string \<Rightarrow> bool task" where
  "prepare_operation_notification e op operation status = do {
     settings \<leftarrow> answer (te_settings e);
     (case settings of
        Inl x \<Rightarrow> do {
          started \<leftarrow> start_step e op ''application'' ''notification'';
          (case started of
             Some y \<Rightarrow> State_Monad.return False
           | None \<Rightarrow> do {
               finished \<leftarrow> finish_step e op ''notification'' ''skipped''
                 (''notification settings unavailable: '' @ te_text e x);
               State_Monad.return False
             })
        }
      | Inr s \<Rightarrow>
          if notification_channels s status = (False, False) \<or> \<not> should_notify operation status
          then State_Monad.return False
          else do {
            started \<leftarrow> start_step e op ''application'' ''notification'';
            State_Monad.return (started = None)
          })
   }"

text \<open>\<open>RetryWrite\<close> with a context that never ends.\<close>

primrec retry_statement ::
  "nat \<Rightarrow> (go_error \<Rightarrow> bool) \<Rightarrow> go_error option task \<Rightarrow> go_error option task" where
  "retry_statement 0 final write = write"
| "retry_statement (Suc n) final write = do {
     r \<leftarrow> write;
     (case r of
        None \<Rightarrow> State_Monad.return None
      | Some x \<Rightarrow> if final x then State_Monad.return (Some x) else retry_statement n final write)
   }"

definition finish_task_row :: "task_env \<Rightarrow> string \<Rightarrow> string \<Rightarrow> string \<Rightarrow> string \<Rightarrow> go_error option task" where
  "finish_task_row e op repo operation status = do {
     n \<leftarrow> answer (\<lambda>n. n);
     statement e (on_operations (finish_repository_operation (te_next_run e n) (te_retry_at e n)
       (\<lambda>t. map_option (\<lambda>l. (ol_enrolled l, ol_paused l)) (te_decode_lock e t)) op repo operation status (te_now e n)))
   }"

definition in_reconnect :: "(reconnect_world \<Rightarrow> reconnect_world \<times> 'a) \<Rightarrow> 'a task" where
  "in_reconnect f = State (\<lambda>w. case f (tw_reconnect w) of (r, x) \<Rightarrow> (x, w\<lparr>tw_reconnect := r\<rparr>))"

definition rclone_note :: "task_env \<Rightarrow> string \<Rightarrow> string \<Rightarrow> string task" where
  "rclone_note e repo operation = do {
     found \<leftarrow> answer (te_rclone e);
     at \<leftarrow> answer (te_instant e);
     in_reconnect (check_rclone_remote_after_failure (te_rclone_hint e) repo operation found at)
   }"

definition finish_task ::
  "task_env \<Rightarrow> string \<Rightarrow> string \<Rightarrow> task_vault \<Rightarrow> bool \<Rightarrow> string \<Rightarrow> string \<Rightarrow> go_error option \<Rightarrow>
   (string \<times> bool \<times> go_error option) task" where
  "finish_task e op operation v paused status body err = do {
     note \<leftarrow> (if status = ''failed'' then rclone_note e (tv_id v) operation else State_Monad.return []);
     let body = (if note \<noteq> [] then trim_space (body @ [CHR 0x0A] @ note) else body);
     announced \<leftarrow> (if status \<noteq> ''interrupted'' \<and> \<not> (paused \<and> status = ''failed'')
       then prepare_operation_notification e op operation status else State_Monad.return False);
     persisted \<leftarrow> retry_statement 3 (\<lambda>x. errors_is x sql_no_rows) (finish_task_row e op (tv_id v) operation status);
     (case persisted of
        Some x \<Rightarrow> State_Monad.return (body, False, errors_join
          [err, Some (wrap_error (''repository '' @ operation @
             '' completed but final state requires startup reconciliation'') err_task_persistence)])
      | None \<Rightarrow> do {
          at \<leftarrow> answer (te_instant e);
          in_reconnect (\<lambda>w. (record_operation_result (te_view e) (tv_id v) operation status err at w, ()));
          (if announced then emit (NotificationSent op status) else State_Monad.return ());
          State_Monad.return (body, True, err)
        })
   }"

definition run_repository_task ::
  "task_env \<Rightarrow> string \<Rightarrow> string \<Rightarrow> bool \<Rightarrow> task_vault \<Rightarrow> (string \<times> bool \<times> go_error option) task" where
  "run_repository_task e op operation scheduled requested = do {
     admitted \<leftarrow> answer (\<lambda>n. te_admit e n requested);
     let paused = (scheduled \<and> tv_connector requested = ''fs'' \<and>
       (case admitted of Inl x \<Rightarrow> te_unavailable e x | Inr _ \<Rightarrow> False));
     worked \<leftarrow> admitted_work e op operation requested admitted;
     let (v, body, native_succeeded, err) = worked;
     close_gate;
     c \<leftarrow> answer (te_ctx e);
     let body = combined_task_output e body err;
     (if (case err of None \<Rightarrow> False | Some x \<Rightarrow> errors_is x err_step_finalization)
      then State_Monad.return (body, False, err)
      else finish_task e op operation v paused (repository_task_status c err native_succeeded) body err)
   }"

end
