(* ===== verification/TaskSteps.thy ===== *)
theory TaskSteps
  imports RepositoryTask
begin

text \<open>
  No step is left running under a finished operation.  A part of the task either leaves no more
  steps running than it found, or its result carries the finalization error, which keeps the
  operation itself running for the next start of the program.
\<close>

section \<open>What a part of the task leaves running\<close>

definition running_kinds :: "string \<Rightarrow> task_world \<Rightarrow> string set" where
  "running_kinds op w =
     os_kind ` set (filter (\<lambda>s. os_operation s = op \<and> os_status s = ''running'') (sd_steps (tw_db w)))"

definition frame_op :: "string \<Rightarrow> task_world \<Rightarrow> task_world \<Rightarrow> bool" where
  "frame_op op w w' \<longleftrightarrow> od_ops (sd_operations (tw_db w')) = od_ops (sd_operations (tw_db w)) \<and>
     filter (\<lambda>s. os_operation s \<noteq> op) (sd_steps (tw_db w')) = filter (\<lambda>s. os_operation s \<noteq> op) (sd_steps (tw_db w))"

definition ends :: "string \<Rightarrow> string set \<Rightarrow> ('a \<Rightarrow> bool) \<Rightarrow> 'a task \<Rightarrow> bool" where
  "ends op K fin m \<longleftrightarrow> (\<forall>w. wp m (\<lambda>r w'. frame_op op w w' \<and>
     (running_kinds op w' \<subseteq> running_kinds op w - K \<or> fin r)) w)"

abbreviation leaves :: "string \<Rightarrow> ('a \<Rightarrow> bool) \<Rightarrow> 'a task \<Rightarrow> bool" where
  "leaves op fin m \<equiv> ends op {} fin m"

abbreviation closes :: "string \<Rightarrow> string \<Rightarrow> ('a \<Rightarrow> bool) \<Rightarrow> 'a task \<Rightarrow> bool" where
  "closes op kind fin m \<equiv> ends op {kind} fin m"

definition always :: "('a \<Rightarrow> bool) \<Rightarrow> 'a task \<Rightarrow> bool" where
  "always P m \<longleftrightarrow> (\<forall>w. wp m (\<lambda>r _. P r) w)"

definition fin_err :: "go_error option \<Rightarrow> bool" where
  "fin_err r = (case r of None \<Rightarrow> False | Some x \<Rightarrow> errors_is x err_step_finalization)"

lemma fin_err_None [simp]: "\<not> fin_err None"
  by (simp add: fin_err_def)

lemma frame_op_refl [simp, intro]: "frame_op op w w"
  by (simp add: frame_op_def)

lemma frame_op_trans: "frame_op op a b \<Longrightarrow> frame_op op b c \<Longrightarrow> frame_op op a c"
  by (simp add: frame_op_def)

lemma running_kinds_same [simp]:
  "running_kinds op (w\<lparr>tw_tick := n\<rparr>) = running_kinds op w"
  "running_kinds op (w\<lparr>tw_gate_closed := g\<rparr>) = running_kinds op w"
  "running_kinds op (w\<lparr>tw_trace := t\<rparr>) = running_kinds op w"
  "running_kinds op (w\<lparr>tw_reconnect := r\<rparr>) = running_kinds op w"
  by (simp_all add: running_kinds_def)

lemma frame_op_same [simp]:
  "frame_op op w (w\<lparr>tw_tick := n\<rparr>)" "frame_op op w (w\<lparr>tw_gate_closed := g\<rparr>)"
  "frame_op op w (w\<lparr>tw_trace := t\<rparr>)" "frame_op op w (w\<lparr>tw_reconnect := r\<rparr>)"
  by (simp_all add: frame_op_def)

subsection \<open>Composition\<close>

lemma endsD:
  "ends op K F m \<Longrightarrow> run_state m w = (r, w') \<Longrightarrow> frame_op op w w' \<and>
     (running_kinds op w' \<subseteq> running_kinds op w - K \<or> F r)"
  unfolding ends_def by (drule spec [of _ w], drule (1) wp_run)

lemma alwaysD: "always P m \<Longrightarrow> run_state m w = (r, w') \<Longrightarrow> P r"
  unfolding always_def by (drule spec [of _ w], drule (1) wp_run)

lemma endsI:
  "(\<And>w r w'. run_state m w = (r, w') \<Longrightarrow> frame_op op w w' \<and>
     (running_kinds op w' \<subseteq> running_kinds op w - K \<or> F r)) \<Longrightarrow> ends op K F m"
  unfolding ends_def by (intro allI wpI) blast

lemma alwaysI: "(\<And>w r w'. run_state m w = (r, w') \<Longrightarrow> P r) \<Longrightarrow> always P m"
  unfolding always_def by (intro allI wpI) blast

lemma run_bindE:
  assumes "run_state (State_Monad.bind m f) w = (r, w')"
  obtains x w1 where "run_state m w = (x, w1)" "run_state (f x) w1 = (r, w')"
  using assms by (auto split: prod.splits)

lemma ends_bind:
  assumes m: "ends op K1 F m" and f: "\<And>r. ends op K2 G (f r)" and F: "\<And>r. F r \<Longrightarrow> always G (f r)"
    and K: "K \<subseteq> K1 \<union> K2"
  shows "ends op K G (State_Monad.bind m f)"
proof (rule endsI, erule run_bindE)
  fix w r w' x w1
  assume run: "run_state m w = (x, w1)" "run_state (f x) w1 = (r, w')"
  note 1 = endsD [OF m run(1)] and 2 = endsD [OF f run(2)]
  have "frame_op op w w'" using 1 2 frame_op_trans by blast
  moreover have "G r" if "F x" using alwaysD [OF F [OF that] run(2)] .
  ultimately show "frame_op op w w' \<and> (running_kinds op w' \<subseteq> running_kinds op w - K \<or> G r)"
    using 1 2 K by blast
qed

lemmas leaves_bind = ends_bind [where K = "{}" and ?K1.0 = "{}" and ?K2.0 = "{}", simplified]
lemmas closes_later = ends_bind [where K = "{kind}" and ?K1.0 = "{}" and ?K2.0 = "{kind}" for kind, simplified]
lemmas closes_first = ends_bind [where K = "{kind}" and ?K1.0 = "{kind}" and ?K2.0 = "{}" for kind, simplified]

lemma leaves_return [intro]: "leaves op F (State_Monad.return x)"
  by (simp add: ends_def wp_step)

lemma always_return: "P x \<Longrightarrow> always P (State_Monad.return x)"
  by (simp add: always_def wp_step)

lemma always_bind: "(\<And>r. always P (f r)) \<Longrightarrow> always P (State_Monad.bind m f)"
  by (rule alwaysI, erule run_bindE) (blast dest: alwaysD)

lemma always_bind_fact:
  "always Q m \<Longrightarrow> (\<And>r. Q r \<Longrightarrow> always P (f r)) \<Longrightarrow> always P (State_Monad.bind m f)"
  by (rule alwaysI, erule run_bindE) (blast dest: alwaysD)

lemma leaves_weaken: "leaves op F m \<Longrightarrow> (\<And>r. F r \<Longrightarrow> G r) \<Longrightarrow> leaves op G m"
  by (rule endsI) (blast dest: endsD)

lemma leaves_answer [intro]: "leaves op F (answer f)"
  by (simp add: ends_def answer_def wp_def)

lemma leaves_emit [intro]: "leaves op F (emit ev)"
  by (simp add: ends_def emit_def wp_def)

lemma leaves_close_gate [intro]: "leaves op F close_gate"
  by (simp add: ends_def close_gate_def wp_def)

lemma leaves_get [intro]: "leaves op F State_Monad.get"
  by (simp add: ends_def wp_def)

lemma leaves_in_reconnect [intro]: "leaves op F (in_reconnect f)"
  by (auto simp: ends_def in_reconnect_def wp_def split: prod.splits)

lemma fin_join: "list_ex fin_err es \<Longrightarrow> fin_err (errors_join es)"
proof -
  assume "list_ex fin_err es"
  then obtain x where x: "Some x \<in> set es" "errors_is x err_step_finalization"
    by (auto simp: list_ex_iff fin_err_def split: option.splits)
  then obtain j where j: "errors_join es = Some j" by (metis errors_join_None not_Some_eq option.distinct(1))
  with errors_join_is [OF j x] show ?thesis by (simp add: fin_err_def)
qed

lemma fin_wrap [simp]: "errors_is (wrap_error t x) err_step_finalization \<longleftrightarrow>
    wrap_error t x = err_step_finalization \<or> errors_is x err_step_finalization"
  by (cases x) (simp add: wrap_error_def)

lemma fin_map_wrap: "fin_err r \<Longrightarrow> fin_err (map_option (wrap_error t) r)"
  by (auto simp: fin_err_def split: option.splits)

lemma fin_some_wrap: "fin_err (Some x) \<Longrightarrow> fin_err (Some (wrap_error t x))"
  by (simp add: fin_err_def)

lemma fin_finalization [simp]: "fin_err (Some (wrap_error t err_step_finalization))"
  by (simp add: fin_err_def)

subsection \<open>Statements\<close>

lemma statement_cases:
  assumes "run_state (statement e f) w = (r, w')"
  obtains (failed) x where "r = Some x" "tw_db w' = tw_db w"
  | (written) d where "r = None" "f (tw_db w) = Inr d" "tw_db w' = d"
proof (cases "te_write e (tw_tick w)")
  case (Some x)
  with assms have "r = Some x" "w' = w\<lparr>tw_tick := Suc (tw_tick w)\<rparr>"
    by (simp_all add: statement_def answer_def)
  then show ?thesis by (intro failed) simp_all
next
  case None
  note run = assms [unfolded statement_def answer_def apply_statement_def]
  show ?thesis
  proof (cases "f (tw_db w)")
    case (Inl x)
    with None run have "r = Some x" "w' = w\<lparr>tw_tick := Suc (tw_tick w)\<rparr>" by simp_all
    then show ?thesis by (intro failed) simp_all
  next
    case (Inr d)
    with None run have "r = None" "w' = w\<lparr>tw_tick := Suc (tw_tick w), tw_db := d\<rparr>" by simp_all
    with Inr show ?thesis by (intro written) simp_all
  qed
qed

lemma start_step_cases:
  assumes "run_state (start_step e op domain kind) w = (r, w')"
  obtains (failed) x where "r = Some x" "tw_db w' = tw_db w"
  | (written) i now d where "r = None" "start_operation_step i op domain kind now (tw_db w) = Inr d" "tw_db w' = d"
proof -
  let ?w = "w\<lparr>tw_tick := Suc (Suc (tw_tick w))\<rparr>"
  have "run_state (statement e (start_operation_step (te_id e (Suc (tw_tick w))) op domain kind
      (te_now e (tw_tick w)))) ?w = (r, w')"
    using assms by (simp add: start_step_def answer_def)
  then show ?thesis
  proof (cases rule: statement_cases)
    case (failed x)
    then show ?thesis using that(1) [of x] by simp
  next
    case (written d)
    then show ?thesis using that(2) by simp
  qed
qed

lemma finish_step_run:
  assumes "run_state (finish_step e op kind status body) w = (r, w')"
  obtains (failed) x where "r = Some x" "tw_db w' = tw_db w"
  | (written) now d where "r = None" "finish_operation_step op kind status body now (tw_db w) = Inr d" "tw_db w' = d"
proof -
  let ?w = "w\<lparr>tw_tick := Suc (tw_tick w)\<rparr>"
  have "run_state (statement e (finish_operation_step op kind status body (te_now e (tw_tick w)))) ?w = (r, w')"
    using assms by (simp add: finish_step_def answer_def)
  then show ?thesis
  proof (cases rule: statement_cases)
    case (failed x)
    then show ?thesis using that(1) [of x] by simp
  next
    case (written d)
    then show ?thesis using that(2) by simp
  qed
qed

lemma same_db:
  "tw_db w' = tw_db w \<Longrightarrow> frame_op op w w'" "tw_db w' = tw_db w \<Longrightarrow> running_kinds op w' = running_kinds op w"
  by (simp_all add: frame_op_def running_kinds_def)

lemma start_step_running:
  assumes "run_state (start_step e op domain kind) w = (r, w')"
  shows "frame_op op w w' \<and>
    running_kinds op w' \<subseteq> (if r = None then insert kind (running_kinds op w) else running_kinds op w)"
  using assms
proof (cases rule: start_step_cases)
  case (failed x)
  show ?thesis using same_db [OF failed(2)] failed(1) by simp
next
  case (written i now d)
  from written(2) obtain b where "insert_step i op domain kind now (tw_db w) = Inr (d, b)"
    by (rule start_step_insert)
  then show ?thesis
  proof (cases rule: insert_step_cases)
    case present
    with written(3) have "tw_db w' = tw_db w" by simp
    from same_db [OF this] written(1) show ?thesis by auto
  next
    case added
    then have eq: "sd_operations (tw_db w') = sd_operations (tw_db w)"
      "sd_steps (tw_db w') = sd_steps (tw_db w) @ [\<lparr>os_id = i, os_operation = op, os_domain = domain,
             os_kind = kind, os_status = ''running'', os_started = now, os_finished = []\<rparr>]"
      using written(3) by simp_all
    show ?thesis unfolding frame_op_def running_kinds_def eq using written(1) by auto
  qed
qed

lemma finish_step_running:
  assumes "run_state (finish_step e op kind status body) w = (r, w')"
  shows "frame_op op w w' \<and> (running_kinds op w' \<subseteq> running_kinds op w - {kind} \<or> r \<noteq> None)"
  using assms
proof (cases rule: finish_step_run)
  case (failed x)
  show ?thesis using same_db [OF failed(2)] failed(1) by simp
next
  case (written now d)
  let ?f = "\<lambda>s. if running_row op kind s then s\<lparr>os_status := status, os_finished := now\<rparr> else s"
  from written(2) obtain s :: operation_step and o' :: op_row where st: "status \<in> set final_step_statuses" and d: "d = finalize_step op kind status now
      \<lparr>ls_operation = op, ls_engine = op_engine o', ls_domain = os_domain s,
       ls_kind = kind, ls_status = status, ls_body = body\<rparr> (tw_db w)"
    by (rule finish_step_cases) blast
  have nr: "status \<noteq> ''running''" using st by (auto simp: final_step_statuses_def)
  define f where "f = ?f"
  have op_f: "os_operation (f t) = os_operation t" for t by (simp add: f_def)
  have other: "os_kind t \<noteq> kind \<and> f t = t" if "os_status (f t) = ''running''" "os_operation t = op" for t
    using that nr by (auto simp: f_def running_row_def step_row_def split: if_splits)
  have rest: "filter (\<lambda>s. os_operation s \<noteq> op) (map f xs) = filter (\<lambda>s. os_operation s \<noteq> op) xs" for xs
    by (induction xs) (auto simp: f_def running_row_def step_row_def)
  have w': "sd_operations (tw_db w') = sd_operations (tw_db w)"
    "sd_steps (tw_db w') = map f (sd_steps (tw_db w))"
    using written(3) d by (simp_all add: finalize_step_def f_def)
  have "frame_op op w w'" unfolding frame_op_def using w' rest by simp
  moreover have "running_kinds op w' \<subseteq> running_kinds op w - {kind}"
  proof
    fix k assume "k \<in> running_kinds op w'"
    then obtain t where t: "t \<in> set (sd_steps (tw_db w))" "os_operation t = op" "os_status (f t) = ''running''"
        "k = os_kind (f t)" by (auto simp: running_kinds_def w' op_f)
    with other [OF t(3,2)] show "k \<in> running_kinds op w - {kind}" by (auto simp: running_kinds_def)
  qed
  ultimately show ?thesis by blast
qed

lemma leaves_start:
  assumes "\<And>x. leaves op G (f (Some x))" and "closes op kind G (f None)"
  shows "leaves op G (State_Monad.bind (start_step e op domain kind) f)"
proof (rule endsI, erule run_bindE)
  fix w r w' x w1
  assume run: "run_state (start_step e op domain kind) w = (x, w1)" "run_state (f x) w1 = (r, w')"
  note 1 = start_step_running [OF run(1)]
  show "frame_op op w w' \<and> (running_kinds op w' \<subseteq> running_kinds op w - {} \<or> G r)"
  proof (cases x)
    case None
    from endsD [OF assms(2) run(2) [unfolded None]] 1 None frame_op_trans show ?thesis by force
  next
    case (Some y)
    from endsD [OF assms(1) run(2) [unfolded Some]] 1 Some frame_op_trans show ?thesis by force
  qed
qed

lemma closes_finish_step: "closes op kind (\<lambda>r. r \<noteq> None) (finish_step e op kind status body)"
  by (rule endsI) (rule finish_step_running)

lemma leaves_operations_statement:
  assumes "\<And>d d'. f d = Inr d' \<Longrightarrow> od_ops d' = od_ops d"
  shows "leaves op F (statement e (on_operations f))"
proof (rule endsI)
  fix w r w'
  assume "run_state (statement e (on_operations f)) w = (r, w')"
  then show "frame_op op w w' \<and> (running_kinds op w' \<subseteq> running_kinds op w - {} \<or> F r)"
  proof (cases rule: statement_cases)
    case (failed x)
    show ?thesis using same_db [OF failed(2)] failed(1) by simp
  next
    case (written d)
    then obtain o' where "f (sd_operations (tw_db w)) = Inr o'" "d = (tw_db w)\<lparr>sd_operations := o'\<rparr>"
      by (cases "f (sd_operations (tw_db w))") (auto simp: on_operations_def)
    then have "od_ops (sd_operations (tw_db w')) = od_ops (sd_operations (tw_db w))"
      "sd_steps (tw_db w') = sd_steps (tw_db w)"
      using assms written(3) by simp_all
    then show ?thesis by (simp add: frame_op_def running_kinds_def)
  qed
qed

subsection \<open>Branches\<close>

lemma ends_option:
  "(x = None \<Longrightarrow> ends op K G m) \<Longrightarrow> (\<And>y. x = Some y \<Longrightarrow> ends op K G (f y)) \<Longrightarrow>
   ends op K G (case x of None \<Rightarrow> m | Some y \<Rightarrow> f y)"
  by (cases x) simp_all

lemma ends_sum:
  "(\<And>y. x = Inl y \<Longrightarrow> ends op K G (f y)) \<Longrightarrow> (\<And>y. x = Inr y \<Longrightarrow> ends op K G (g y)) \<Longrightarrow>
   ends op K G (case x of Inl y \<Rightarrow> f y | Inr y \<Rightarrow> g y)"
  by (cases x) simp_all

lemma ends_if: "(b \<Longrightarrow> ends op K G m) \<Longrightarrow> (\<not> b \<Longrightarrow> ends op K G m') \<Longrightarrow> ends op K G (if b then m else m')"
  by simp

lemma ends_prod: "(\<And>x y. p = (x, y) \<Longrightarrow> ends op K G (f x y)) \<Longrightarrow> ends op K G (case p of (x, y) \<Rightarrow> f x y)"
  by (cases p) simp

lemma always_option:
  "(x = None \<Longrightarrow> always G m) \<Longrightarrow> (\<And>y. x = Some y \<Longrightarrow> always G (f y)) \<Longrightarrow>
   always G (case x of None \<Rightarrow> m | Some y \<Rightarrow> f y)"
  by (cases x) simp_all

lemma always_if: "(b \<Longrightarrow> always G m) \<Longrightarrow> (\<not> b \<Longrightarrow> always G m') \<Longrightarrow> always G (if b then m else m')"
  by simp

lemma always_prod: "(\<And>x y. p = (x, y) \<Longrightarrow> always G (f x y)) \<Longrightarrow> always G (case p of (x, y) \<Rightarrow> f x y)"
  by (cases p) simp

lemmas branches = ends_option ends_sum ends_if ends_prod
lemmas always_rules = always_return always_bind always_option always_if always_prod

text \<open>A part whose result says nothing about the steps.\<close>

lemma leaves_quiet:
  "leaves op (\<lambda>_. False) m \<Longrightarrow> (\<And>r. ends op K G (f r)) \<Longrightarrow> ends op K G (State_Monad.bind m f)"
  by (rule ends_bind [where F = "\<lambda>_. False" and ?K1.0 = "{}" and ?K2.0 = K]) auto

lemma fin_join_iff [simp]: "fin_err (errors_join es) \<longleftrightarrow> list_ex fin_err es"
proof
  assume "fin_err (errors_join es)"
  then obtain j where j: "errors_join es = Some j" "errors_is j err_step_finalization"
    by (auto simp: fin_err_def split: option.splits)
  then have j': "j = GoErr ''join'' (List.map_filter id es)"
    by (auto simp: errors_join_def split: list.splits)
  have "err_step_finalization \<noteq> j"
    using j' by (simp add: err_step_finalization_def new_error_def)
  with j(2) j' obtain x where "Some x \<in> set es" "errors_is x err_step_finalization"
    by (auto simp: list_ex_iff map_filter_id_set)
  then show "list_ex fin_err es"
    by (auto simp: list_ex_iff fin_err_def intro!: bexI [of _ "Some x"])
qed (rule fin_join)

section \<open>The parts of the task\<close>

lemma finish_started_step_closes: "closes op kind fin_err (finish_started_step e op kind status body)"
  unfolding finish_started_step_def
  by (rule closes_first [OF closes_finish_step]) (auto intro!: always_return)

lemma skip_task_step_leaves: "leaves op fin_err (skip_task_step e op domain kind reason)"
  unfolding skip_task_step_def
  by (rule leaves_start) (auto intro!: closes_first [OF closes_finish_step] always_return)

lemma admission_step_leaves:
  assumes a: "leaves op (\<lambda>_. False) assertion" and d: "\<And>t. leaves op (\<lambda>_. False) (disable t)"
  shows "leaves op fin_err (admission_step e op kind what granted assertion schedule disable)"
  unfolding admission_step_def Let_def
proof (rule leaves_start, goal_cases)
  case (1 x)
  show ?case by (simp add: leaves_return)
next
  case 2
  have quiet: "leaves op (\<lambda>_. False) (case refused of
      Some x \<Rightarrow> if ownership_lost x then disable (te_text e x) else State_Monad.return None
    | None \<Rightarrow> State_Monad.return None)" for refused
    using d by (auto split: option.splits)
  show ?case
    apply (simp only: option.case)
    apply (rule leaves_quiet [OF a])
    apply (rule leaves_quiet)
     apply (rule quiet)
    apply (rule closes_first [OF closes_finish_step])
     apply (rule leaves_return)
    apply (rule always_return)
    apply clarsimp
    done
qed

lemma update_repository_ops:
  assumes "update_repository repo f d = Inr d'"
  shows "od_ops d' = od_ops d"
proof (cases "od_repositories d repo")
  case None
  with assms show ?thesis by (simp add: update_repository_def)
next
  case (Some r)
  with assms have "d' = d\<lparr>od_repositories := (od_repositories d)(repo \<mapsto> f r)\<rparr>"
    by (simp add: update_repository_def)
  then show ?thesis by simp
qed

lemma disable_integrity_leaves: "leaves op F (disable_integrity e v t)"
  unfolding disable_integrity_def
  by (rule leaves_operations_statement) (auto simp: disable_repository_integrity_def dest: update_repository_ops)

lemma disable_maintenance_ops:
  "disable_repository_maintenance e n repo t d = Inr d' \<Longrightarrow> od_ops d' = od_ops d"
  unfolding disable_repository_maintenance_def Let_def
  by (auto split: option.splits if_splits simp del: not_None_eq dest: update_repository_ops)

lemma disable_maintenance_leaves: "leaves op F (disable_maintenance e v t)"
  unfolding disable_maintenance_def
  by (rule leaves_quiet [OF leaves_answer], rule leaves_operations_statement, rule disable_maintenance_ops)

lemma assert_owner_leaves: "leaves op F (assert_repository_owner e v)"
  unfolding assert_repository_owner_def by (rule leaves_answer)

lemma assert_writer_leaves: "leaves op (\<lambda>_. False) (assert_repository_writer e v)"
  unfolding assert_repository_writer_def
  by (rule leaves_quiet [OF assert_owner_leaves]) (auto intro!: branches leaves_quiet [OF leaves_answer])

lemma integrity_owner_leaves: "leaves op fin_err (persist_integrity_owner_admission e op v kind)"
  unfolding persist_integrity_owner_admission_def
  by (rule admission_step_leaves) (rule assert_owner_leaves disable_integrity_leaves)+

lemma owner_revalidation_leaves: "leaves op fin_err (persist_owner_revalidation e op v)"
  unfolding persist_owner_revalidation_def persist_owner_admission_def
  by (rule admission_step_leaves) (rule assert_writer_leaves disable_maintenance_leaves)+

lemma writer_admission_leaves: "leaves op fin_err (persist_writer_admission e op v)"
  unfolding persist_writer_admission_def persist_owner_admission_def
  by (rule admission_step_leaves) (rule assert_writer_leaves disable_maintenance_leaves)+

lemma storage_admission_leaves: "leaves op fin_err (persist_storage_admission e op)"
  unfolding persist_storage_admission_def
  by (rule leaves_start) (auto intro!: closes_first [OF closes_finish_step] always_return)

lemma failure_step_leaves: "leaves op fin_err (failure_step e op kind what body)"
  unfolding failure_step_def
  by (rule leaves_start)
    (auto intro!: closes_first [OF finish_started_step_closes] always_return fin_map_wrap)

subsection \<open>The engine\<close>

text \<open>What the task relies on of an engine: the error of an admission it consulted is part of the
  error it returns.\<close>

definition fin_reply :: "native_reply \<Rightarrow> bool" where
  "fin_reply r = fin_err (nr_err r)"

primrec carries :: "plan \<Rightarrow> bool" where
  "carries (Reply r) = fin_reply r"
| "carries (Admit f) = (\<forall>a. carries (f a))"

primrec honest :: "plan \<Rightarrow> bool" where
  "honest (Reply r) = True"
| "honest (Admit f) = ((\<forall>a. honest (f a)) \<and> (\<forall>a. fin_err a \<longrightarrow> carries (f a)))"

text \<open>
  How the engines report an admission that refused: a preparation failure around its error
  (\<open>engines/requested_operation.go\<close>, \<open>engines/restic_rclone.go\<close>), for restic joined with the error of closing the
  storage where it was opened.  \<open>safe\<close> is the connector message that \<open>errors.As\<close> finds in an error; the restic engine puts
  that message in the place of the whole error.
\<close>

definition preparation_status :: "go_error \<Rightarrow> string" where
  "preparation_status x =
     (if errors_is x context_canceled \<or> errors_is x deadline_exceeded then ''interrupted'' else ''not_started'')"

definition requested_preparation_failure :: "go_error \<Rightarrow> go_error" where
  "requested_preparation_failure x = GoErr (''requested operation failure: '' @ preparation_status x) [x]"

definition restic_preparation_failure :: "(go_error \<Rightarrow> go_error option) \<Rightarrow> go_error \<Rightarrow> go_error" where
  "restic_preparation_failure safe x = GoErr (''restic operation failure: '' @ preparation_status x)
     [case safe x of Some u \<Rightarrow> u | None \<Rightarrow> x]"

definition with_closing :: "go_error \<Rightarrow> go_error option option \<Rightarrow> go_error" where
  "with_closing x closing = (case closing of None \<Rightarrow> x | Some c \<Rightarrow> the (errors_join [Some x, c]))"

definition refusal :: "(go_error \<Rightarrow> go_error option) \<Rightarrow> go_error \<Rightarrow> native_reply \<Rightarrow> bool" where
  "refusal safe x r \<longleftrightarrow> nr_err r = Some (requested_preparation_failure x) \<or>
     (\<exists>closing. nr_err r = Some (restic_preparation_failure safe (with_closing x closing)))"

primrec adapted :: "(go_error \<Rightarrow> go_error option) \<Rightarrow> plan \<Rightarrow> bool" where
  "adapted safe (Reply r) = True"
| "adapted safe (Admit f) = ((\<forall>a. adapted safe (f a)) \<and> (\<forall>x. \<exists>r. f (Some x) = Reply r \<and> refusal safe x r))"

lemma with_closing_is: "errors_is x t \<Longrightarrow> errors_is (with_closing x closing) t"
  by (auto simp: with_closing_def errors_join_def List.map_filter_simps list_ex_iff split: option.splits)

lemma refusal_carries:
  assumes "refusal safe x r" and "errors_is x err_step_finalization"
    and "\<And>y. errors_is y err_step_finalization \<Longrightarrow> safe y = None"
  shows "fin_reply r"
  using assms with_closing_is [OF assms(2)]
  by (auto simp: refusal_def fin_reply_def fin_err_def requested_preparation_failure_def restic_preparation_failure_def)

lemma adapted_honest:
  assumes "\<And>y. errors_is y err_step_finalization \<Longrightarrow> safe y = None"
  shows "adapted safe p \<Longrightarrow> honest p"
proof (induction p)
  case (Admit f)
  have "carries (f a)" if "fin_err a" for a
  proof -
    from that obtain x where x: "a = Some x" "errors_is x err_step_finalization"
      by (auto simp: fin_err_def split: option.splits)
    from Admit(2) x(1) obtain r where "f a = Reply r" "refusal safe x r" by auto
    with refusal_carries [OF this(2) x(2) assms] show ?thesis by simp
  qed
  with Admit show ?case by auto
qed simp

lemma carries_always: "carries p \<Longrightarrow> always fin_reply (run_plan callback p)"
  by (induction p) (auto intro: always_return always_bind)

lemma run_plan_leaves:
  "honest p \<Longrightarrow> leaves op fin_err callback \<Longrightarrow> leaves op fin_reply (run_plan callback p)"
  by (induction p) (auto intro!: leaves_bind [where F = fin_err] carries_always)

lemma run_plan_quiet:
  "leaves op (\<lambda>_. False) callback \<Longrightarrow> leaves op (\<lambda>_. False) (run_plan callback p)"
  by (induction p) (auto intro!: leaves_bind [where F = "\<lambda>_. False"])

lemma leaves_then_emit:
  assumes "leaves op F m"
  shows "leaves op F (State_Monad.bind m (\<lambda>r. State_Monad.bind (emit ev) (\<lambda>_. State_Monad.return r)))"
proof (rule endsI, erule run_bindE)
  fix w r w' x w1
  assume run: "run_state m w = (x, w1)" "run_state (State_Monad.bind (emit ev) (\<lambda>_. State_Monad.return x)) w1 = (r, w')"
  then have "r = x" "tw_db w' = tw_db w1" by (auto simp: emit_def)
  with endsD [OF assms run(1)] same_db [of w' w1] frame_op_trans [of op w w1 w']
  show "frame_op op w w' \<and> (running_kinds op w' \<subseteq> running_kinds op w - {} \<or> F r)" by auto
qed

lemma call_native_leaves:
  assumes "\<And>n. honest (te_native e n)" and "leaves op fin_err callback"
  shows "leaves op fin_reply (call_native e kind callback)"
proof -
  have plans: "always honest (answer (te_native e))"
    using assms(1) by (simp add: always_def answer_def wp_def)
  have "leaves op fin_reply (State_Monad.bind (answer (te_native e)) (run_plan callback))"
  proof (rule endsI, erule run_bindE)
    fix w r w' p w1
    assume run: "run_state (answer (te_native e)) w = (p, w1)" "run_state (run_plan callback p) w1 = (r, w')"
    have "honest p" using alwaysD [OF plans run(1)] .
    from endsD [OF run_plan_leaves [OF this assms(2)] run(2)]
      endsD [OF leaves_answer [of op "\<lambda>_. False"] run(1)]
    show "frame_op op w w' \<and> (running_kinds op w' \<subseteq> running_kinds op w - {} \<or> fin_reply r)"
      using frame_op_trans by blast
  qed
  then have "leaves op fin_reply (State_Monad.bind (answer (te_native e)) (\<lambda>p. State_Monad.bind (run_plan callback p)
      (\<lambda>r. State_Monad.bind (emit NativeReturned) (\<lambda>_. State_Monad.return r))))"
    using leaves_then_emit [of op fin_reply "State_Monad.bind (answer (te_native e)) (run_plan callback)" NativeReturned] by simp
  then show ?thesis unfolding call_native_def
    by (intro leaves_quiet [OF leaves_get] leaves_quiet [OF leaves_emit])
qed

lemma finish_tracked_closes: "closes op kind fin_err (finish_tracked_native e op kind reply)"
proof -
  have first: "leaves op fin_err (if refused then failure_step e op k what t else State_Monad.return None)" for refused k t what
    by (simp add: failure_step_leaves leaves_return)
  have last: "leaves op fin_err (case x of Some x \<Rightarrow> if te_output_failure e x then failure_step e op k what t
      else State_Monad.return None | None \<Rightarrow> State_Monad.return None)" for x k t what
    by (simp add: failure_step_leaves leaves_return split: option.splits)
  show ?thesis unfolding finish_tracked_native_def Let_def
    by (rule leaves_quiet [OF leaves_answer], rule ends_prod, rule ends_prod,
        rule closes_later [OF first], rule closes_first [OF finish_started_step_closes],
        rule leaves_bind [OF last], rule leaves_return)
      (rule always_bind always_return | simp)+
qed

lemma finish_tracked_carries: "fin_reply reply \<Longrightarrow> always fin_err (finish_tracked_native e op kind reply)"
  unfolding finish_tracked_native_def Let_def
  by (rule always_bind, rule always_prod, rule always_prod, rule always_bind, rule always_bind,
      rule always_bind, rule always_return) (simp add: fin_reply_def)

lemma run_cleanup_leaves: "leaves op fin_err (run_cleanup e op)"
  unfolding run_cleanup_def
proof (rule leaves_quiet [OF leaves_close_gate], rule leaves_start, goal_cases)
  case (1 x)
  show ?case by (rule leaves_quiet [OF leaves_emit], rule leaves_quiet [OF leaves_answer]) (simp add: leaves_return)
next
  case 2
  show ?case
    by (rule leaves_quiet [OF leaves_emit], rule leaves_quiet [OF leaves_answer], simp only: option.case,
        rule closes_first [OF finish_started_step_closes], rule leaves_return, rule always_return) simp
qed

subsection \<open>The integrity check\<close>

definition fin_result :: "string \<times> bool \<times> go_error option \<Rightarrow> bool" where
  "fin_result r = fin_err (snd (snd r))"

lemma fin_result_simp [simp]: "fin_result (body, ok, r) = fin_err r"
  by (simp add: fin_result_def)

lemma native_check_leaves:
  assumes plans: "\<And>n. honest (te_native e n)" and cleanup: "leaves op fin_err cleanup"
  shows "leaves op fin_result (native_check e op v cleanup)"
  unfolding native_check_def
proof (rule leaves_start, goal_cases)
  case (1 x)
  show ?case by (simp only: option.case, rule leaves_bind [OF cleanup], rule leaves_return, rule always_return) simp
next
  case 2
  show ?case
    by (simp only: option.case, rule closes_later [OF call_native_leaves [OF plans integrity_owner_leaves]],
        rule leaves_quiet [OF leaves_close_gate], rule closes_first [OF finish_tracked_closes],
        rule leaves_bind [OF cleanup], rule leaves_return, rule always_return, simp,
        rule always_bind, rule always_return, simp,
        rule always_bind, rule always_bind_fact [OF finish_tracked_carries], assumption,
        rule always_bind, rule always_return) simp
qed

lemma skip_and_clean:
  assumes cleanup: "leaves op fin_err cleanup"
  shows "leaves op fin_result (State_Monad.bind (skip_task_step e op domain kind reason) (\<lambda>skipped.
     State_Monad.bind cleanup (\<lambda>cleaned. State_Monad.return (body, ok, errors_join [x, skipped, cleaned]))))"
  by (rule leaves_bind [OF skip_task_step_leaves], rule leaves_bind [OF cleanup], rule leaves_return,
      rule always_return, simp, rule always_bind, rule always_return) simp

lemma skip_and_clean_always:
  "fin_err x \<Longrightarrow> always fin_result (State_Monad.bind (skip_task_step e op domain kind reason) (\<lambda>skipped.
     State_Monad.bind cleanup (\<lambda>cleaned. State_Monad.return (body, ok, errors_join [x, skipped, cleaned]))))"
  by (rule always_bind, rule always_bind, rule always_return) simp

lemma admitted_check_leaves:
  assumes plans: "\<And>n. honest (te_native e n)" and cleanup: "leaves op fin_err cleanup"
  shows "leaves op fin_result (admitted_check e op v cleanup)"
proof -
  have first: "leaves op fin_err (if b then persist_storage_admission e op else State_Monad.return None)" for b
    by (simp add: storage_admission_leaves leaves_return)
  show ?thesis unfolding admitted_check_def
  proof (rule leaves_bind [OF first], goal_cases)
    case (1 storage)
    show ?case
    proof (rule ends_option, goal_cases)
      case 1
      show ?case
      proof (rule leaves_bind [OF integrity_owner_leaves], goal_cases)
        case (1 owner)
        show ?case by (rule ends_option, rule native_check_leaves [OF plans cleanup], rule skip_and_clean [OF cleanup])
      next
        case (2 owner)
        then obtain x where "owner = Some x" by (cases owner) auto
        with 2 show ?case by (simp add: skip_and_clean_always)
      qed
    next
      case (2 x)
      show ?case by (rule skip_and_clean [OF cleanup])
    qed
  next
    case (2 storage)
    then obtain x where "storage = Some x" by (cases storage) auto
    with 2 show ?case by (simp add: skip_and_clean_always)
  qed
qed

lemma prepared_check_closes:
  assumes plans: "\<And>n. honest (te_native e n)"
  shows "closes op prepare_kind fin_result (prepared_check e op v)"
  unfolding prepared_check_def
proof (rule leaves_quiet [OF leaves_answer], rule leaves_quiet [OF ends_if [OF leaves_emit leaves_return]],
    rule ends_option, goal_cases)
  case (1 prepared)
  show ?case
  proof (rule closes_first [OF finish_started_step_closes], goal_cases)
    case (1 persisted)
    show ?case
      by (rule ends_option, rule admitted_check_leaves [OF plans run_cleanup_leaves],
          rule skip_and_clean [OF run_cleanup_leaves])
  next
    case (2 persisted)
    then obtain x where "persisted = Some x" by (cases persisted) auto
    with 2 show ?case
      by (simp only: option.case, intro always_bind always_return) (simp add: fin_some_wrap)
  qed
next
  case (2 prepared x)
  have last: "leaves op fin_err (if b then run_cleanup e op else do {
      close_gate; skip_task_step e op ''orchestration'' cleanup_kind t })" for b t
    by (rule ends_if, rule run_cleanup_leaves, rule leaves_quiet [OF leaves_close_gate], rule skip_task_step_leaves)
  show ?case
    by (rule closes_first [OF finish_started_step_closes], rule leaves_bind [OF skip_task_step_leaves],
        rule leaves_bind [OF last], rule leaves_return, rule always_return, simp,
        rule always_bind, rule always_return, simp,
        rule always_bind, rule always_bind, rule always_return) simp
qed

lemma two_skips:
  "leaves op fin_result (State_Monad.bind (skip_task_step e op d1 k1 t1) (\<lambda>s1.
     State_Monad.bind (skip_task_step e op d2 k2 t2) (\<lambda>s2. State_Monad.return (body, ok, errors_join [x, s1, s2]))))"
  by (rule leaves_bind [OF skip_task_step_leaves], rule leaves_bind [OF skip_task_step_leaves], rule leaves_return,
      rule always_return, simp, rule always_bind, rule always_return) simp

lemma three_skips:
  "leaves op fin_result (State_Monad.bind (skip_task_step e op d1 k1 t1) (\<lambda>s1.
     State_Monad.bind (skip_task_step e op d2 k2 t2) (\<lambda>s2.
     State_Monad.bind (skip_task_step e op d3 k3 t3) (\<lambda>s3. State_Monad.return (body, ok, errors_join [x, s1, s2, s3])))))"
  by (rule leaves_bind [OF skip_task_step_leaves], rule leaves_bind [OF skip_task_step_leaves],
      rule leaves_bind [OF skip_task_step_leaves], rule leaves_return, rule always_return, simp,
      rule always_bind, rule always_return, simp, rule always_bind, rule always_bind, rule always_return) simp

lemma run_integrity_check_leaves:
  assumes plans: "\<And>n. honest (te_native e n)"
  shows "leaves op fin_result (run_integrity_check e op v)"
proof -
  have first: "leaves op fin_err (if b then persist_storage_admission e op else State_Monad.return None)" for b
    by (simp add: storage_admission_leaves leaves_return)
  show ?thesis unfolding run_integrity_check_def
  proof (rule leaves_bind [OF first], goal_cases)
    case (1 storage)
    show ?case
    proof (rule ends_option, goal_cases)
      case 1
      show ?case
      proof (rule leaves_quiet [OF leaves_answer], rule ends_option, goal_cases)
        case (1 c)
        show ?case
          by (rule leaves_start) (simp_all add: two_skips prepared_check_closes [OF plans])
      next
        case (2 c x)
        show ?case by (rule leaves_quiet [OF leaves_close_gate], rule three_skips)
      qed
    next
      case (2 x)
      show ?case by (rule three_skips)
    qed
  next
    case (2 storage)
    then obtain x where "storage = Some x" by (cases storage) auto
    with 2 show ?case by (simp only: option.case, intro always_bind always_return) simp
  qed
qed

subsection \<open>Maintenance\<close>

definition fin_work :: "task_vault \<times> string \<times> bool \<times> go_error option \<Rightarrow> bool" where
  "fin_work r = fin_result (snd r)"

lemma fin_work_simp [simp]: "fin_work (v, r) = fin_result r"
  by (simp add: fin_work_def)

lemma native_maintenance_leaves:
  assumes plans: "\<And>n. honest (te_native e n)" and "leaves op fin_err callback"
  shows "leaves op fin_result (native_maintenance e op v callback)"
  unfolding native_maintenance_def
proof (rule leaves_start, goal_cases)
  case (1 x)
  show ?case by (simp only: option.case, rule leaves_quiet [OF leaves_close_gate], rule leaves_return)
next
  case 2
  have dirty: "leaves op (\<lambda>_. False) (if b then emit ev else State_Monad.return ())" for b ev
    by (simp add: leaves_emit leaves_return)
  show ?case
    by (simp only: option.case, rule closes_later [OF call_native_leaves [OF assms]],
        rule leaves_quiet [OF leaves_close_gate], rule leaves_quiet [OF dirty],
        rule closes_first [OF finish_tracked_closes], rule leaves_return, rule always_return, simp,
        rule always_bind, rule always_bind, rule always_bind_fact [OF finish_tracked_carries], assumption,
        rule always_return) simp
qed

lemma mutation_admission_leaves: "leaves op F (mutation_admission e v)"
  unfolding mutation_admission_def by (rule leaves_quiet [OF leaves_answer]) (rule leaves_return)

lemma ensure_leaves: "leaves op (\<lambda>_. False) (ensure_maintenance_owner e v body)"
  unfolding ensure_maintenance_owner_def
  by (rule leaves_quiet [OF leaves_answer], rule leaves_quiet [OF run_plan_quiet [OF mutation_admission_leaves]],
      rule leaves_return)

lemma reassure_leaves: "leaves op (\<lambda>_. False) (reassure_policies e v)"
  unfolding reassure_policies_def
  by (rule leaves_quiet [OF leaves_answer], rule ends_option, rule leaves_quiet [OF leaves_answer], rule ends_sum,
      rule leaves_return, rule leaves_quiet [OF ensure_leaves], rule leaves_return, rule leaves_return)

definition fin_reconcile :: "task_vault \<times> go_error option \<Rightarrow> bool" where
  "fin_reconcile r = fin_err (snd r)"

lemma fin_reconcile_simp [simp]: "fin_reconcile (v, r) = fin_err r"
  by (simp add: fin_reconcile_def)

lemma reconcile_step_closes: "closes op reconcile_kind fin_reconcile (reconcile_step e op v)"
proof -
  have gate: "leaves op (\<lambda>_. False) (if b then close_gate else State_Monad.return ())" for b
    by (simp add: leaves_close_gate leaves_return)
  show ?thesis unfolding reconcile_step_def Let_def
  proof (rule leaves_quiet [OF reassure_leaves], rule ends_prod, rule ends_prod, rule leaves_quiet [OF gate],
      rule closes_first [OF finish_started_step_closes], goal_cases)
    case (1 r x y body err u finished)
    show ?case
      by (rule ends_option, rule leaves_return, rule leaves_bind [OF skip_task_step_leaves], rule leaves_return,
          rule always_return) simp
  next
    case (2 r x y body err u finished)
    then have "fin_err (errors_join [err, finished])" by simp
    then obtain z where z: "errors_join [err, finished] = Some z" "fin_err (Some z)"
      by (cases "errors_join [err, finished]") auto
    then show ?case by (simp only: option.case, intro always_bind always_return) simp
  qed
qed

lemma reconcile_policies_leaves: "leaves op fin_reconcile (reconcile_policies e op v)"
  unfolding reconcile_policies_def
proof (rule leaves_quiet [OF leaves_answer], rule ends_option, goal_cases)
  case (1 c)
  show ?case by (rule leaves_start) (simp_all add: leaves_return reconcile_step_closes)
next
  case (2 c x)
  show ?case
    by (rule leaves_quiet [OF leaves_close_gate], rule leaves_bind [OF skip_task_step_leaves],
        rule leaves_bind [OF skip_task_step_leaves], rule leaves_return, rule always_return, simp,
        rule always_bind, rule always_return) simp
qed

lemma kopia_maintenance_leaves:
  assumes plans: "\<And>n. honest (te_native e n)"
  shows "leaves op fin_work (kopia_maintenance e op v)"
proof -
  have quiet: "leaves op (\<lambda>_. False) (case err of
      Some x \<Rightarrow> if ownership_lost x then disable_maintenance e fresh (te_text e x) else State_Monad.return None
    | None \<Rightarrow> State_Monad.return None)" for err fresh
    by (simp add: disable_maintenance_leaves leaves_return split: option.splits)
  show ?thesis unfolding kopia_maintenance_def Let_def
  proof (rule leaves_bind [OF reconcile_policies_leaves], goal_cases)
    case (1 r)
    show ?case
    proof (rule ends_prod, rule leaves_quiet [OF quiet], rule ends_option, goal_cases)
      case (1 fresh err disabled)
      show ?case
      proof (rule leaves_bind [OF owner_revalidation_leaves], goal_cases)
        case (1 owner)
        show ?case
          by (rule ends_option,
              rule leaves_bind [OF native_maintenance_leaves [OF plans leaves_return]], rule leaves_return,
              rule always_return, simp, rule leaves_quiet [OF leaves_close_gate],
              rule leaves_bind [OF skip_task_step_leaves], rule leaves_return, rule always_return) simp
      next
        case (2 owner)
        then obtain x where "owner = Some x" by (cases owner) auto
        with 2 show ?case by (simp only: option.case, intro always_bind always_return) simp
      qed
    next
      case (2 fresh err disabled x)
      show ?case by (rule leaves_return)
    qed
  next
    case (2 r)
    obtain fresh err where r: "r = (fresh, err)" by (cases r)
    with 2 have err: "fin_err err" by simp
    show ?case unfolding r prod.case
    proof (rule always_bind, goal_cases)
      case (1 disabled)
      from err have "fin_err (errors_join [err, map_option
          (\<lambda>_. wrap_error ''disable superseded maintenance schedule'' err_task_persistence) disabled])" by simp
      then obtain z where z: "errors_join [err, map_option
          (\<lambda>_. wrap_error ''disable superseded maintenance schedule'' err_task_persistence) disabled] = Some z"
          "fin_err (Some z)"
        by (metis fin_err_None not_None_eq)
      show ?case unfolding z(1) option.case by (rule always_return) (use z(2) in simp)
    qed
  qed
qed

lemma restic_maintenance_leaves:
  assumes plans: "\<And>n. honest (te_native e n)"
  shows "leaves op fin_work (restic_maintenance e op v)"
  unfolding restic_maintenance_def
  by (rule leaves_bind [OF native_maintenance_leaves [OF plans owner_revalidation_leaves]], rule leaves_return,
      rule always_return) simp

subsection \<open>The whole body before the result is saved\<close>

lemma skip_after:
  "leaves op fin_err (State_Monad.bind (skip_task_step e op domain kind reason)
     (\<lambda>skipped. State_Monad.return (errors_join [err, skipped])))"
  by (rule leaves_bind [OF skip_task_step_leaves], rule leaves_return, rule always_return) simp

lemma skip_after_always:
  "fin_err err \<Longrightarrow> always fin_err (State_Monad.bind (skip_task_step e op domain kind reason)
     (\<lambda>skipped. State_Monad.return (errors_join [err, skipped])))"
  by (rule always_bind, rule always_return) simp

lemma admission_then_skip:
  assumes "leaves op fin_err m"
  shows "leaves op fin_err (State_Monad.bind m (\<lambda>err. case err of
      None \<Rightarrow> State_Monad.return None
    | Some x \<Rightarrow> State_Monad.bind (skip_task_step e op domain kind reason)
        (\<lambda>skipped. State_Monad.return (errors_join [err, skipped]))))"
proof (rule leaves_bind [OF assms], goal_cases)
  case (1 err)
  show ?case by (rule ends_option, rule leaves_return, rule skip_after)
next
  case (2 err)
  then obtain x where "err = Some x" by (cases err) auto
  with 2 show ?case by (simp add: skip_after_always)
qed

lemma task_admission_leaves: "leaves op fin_err (task_admission e op operation admitted)"
  unfolding task_admission_def Let_def
  by (rule ends_sum; rule ends_if)
    (rule skip_after leaves_return ends_if admission_then_skip [OF writer_admission_leaves]
      admission_then_skip [OF integrity_owner_leaves])+

lemma resolve_engine_leaves: "leaves op fin_err (resolve_engine e op operation v)"
  unfolding resolve_engine_def
  by (rule leaves_quiet [OF leaves_answer], rule ends_if, rule skip_after, rule leaves_return)

lemma task_work_leaves:
  assumes plans: "\<And>n. honest (te_native e n)"
  shows "leaves op fin_work (task_work e op operation v)"
proof -
  have check: "leaves op fin_work (State_Monad.bind (run_integrity_check e op v) (\<lambda>r. State_Monad.return (v, r)))"
    by (rule leaves_bind [OF run_integrity_check_leaves [OF plans]], rule leaves_return, rule always_return) simp
  then show ?thesis unfolding task_work_def
    by (simp add: kopia_maintenance_leaves [OF plans] restic_maintenance_leaves [OF plans])
qed

lemma admitted_work_leaves:
  assumes plans: "\<And>n. honest (te_native e n)"
  shows "leaves op fin_work (admitted_work e op operation requested admitted)"
  unfolding admitted_work_def Let_def
proof (rule leaves_bind [OF task_admission_leaves], goal_cases)
  case (1 refused)
  show ?case
  proof (rule ends_option, goal_cases)
    case 1
    show ?case
    proof (rule leaves_bind [OF resolve_engine_leaves], goal_cases)
      case (1 unresolved)
      show ?case by (rule ends_option, rule task_work_leaves [OF plans], rule leaves_return)
    next
      case (2 unresolved)
      then obtain x where "unresolved = Some x" by (cases unresolved) auto
      with 2 show ?case by (simp add: always_return)
    qed
  next
    case (2 x)
    show ?case by (rule leaves_return)
  qed
next
  case (2 refused)
  then obtain x where "refused = Some x" by (cases refused) auto
  with 2 show ?case by (simp add: always_return)
qed

section \<open>Saving the result\<close>

text \<open>Everything the task still does once its work is over, before the row is finished, can leave at
  most the notification step running.\<close>

definition only_notification :: "string \<Rightarrow> 'a task \<Rightarrow> bool" where
  "only_notification op m \<longleftrightarrow> (\<forall>w. wp m (\<lambda>_ w'. frame_op op w w' \<and>
     running_kinds op w' \<subseteq> insert ''notification'' (running_kinds op w)) w)"

lemma only_notificationD:
  "only_notification op m \<Longrightarrow> run_state m w = (r, w') \<Longrightarrow> frame_op op w w' \<and>
     running_kinds op w' \<subseteq> insert ''notification'' (running_kinds op w)"
  unfolding only_notification_def by (drule spec [of _ w], drule (1) wp_run)

lemma only_notification_bind:
  assumes "only_notification op m" and "\<And>r. only_notification op (f r)"
  shows "only_notification op (State_Monad.bind m f)"
  unfolding only_notification_def
proof (intro allI wpI, erule run_bindE)
  fix w r w' x w1
  assume run: "run_state m w = (x, w1)" "run_state (f x) w1 = (r, w')"
  from only_notificationD [OF assms(1) run(1)] only_notificationD [OF assms(2) run(2)]
  show "frame_op op w w' \<and> running_kinds op w' \<subseteq> insert ''notification'' (running_kinds op w)"
    using frame_op_trans by blast
qed

lemma leaves_only: "leaves op (\<lambda>_. False) m \<Longrightarrow> only_notification op m"
  unfolding only_notification_def by (intro allI wpI) (blast dest: endsD)

lemma only_notification_start: "only_notification op (start_step e op domain ''notification'')"
  unfolding only_notification_def
proof (intro allI wpI)
  fix w r w'
  assume "run_state (start_step e op domain ''notification'') w = (r, w')"
  from start_step_running [OF this]
  show "frame_op op w w' \<and> running_kinds op w' \<subseteq> insert ''notification'' (running_kinds op w)"
    by (cases "r = None") auto
qed

lemma finish_step_only: "only_notification op (finish_step e op kind status body)"
  unfolding only_notification_def
proof (intro allI wpI)
  fix w r w'
  assume run: "run_state (finish_step e op kind status body) w = (r, w')"
  show "frame_op op w w' \<and> running_kinds op w' \<subseteq> insert ''notification'' (running_kinds op w)"
  proof (cases "r = None")
    case True
    with finish_step_running [OF run] show ?thesis by blast
  next
    case False
    with run obtain x where "tw_db w' = tw_db w" by (cases rule: finish_step_run) auto
    from same_db [OF this] show ?thesis by blast
  qed
qed

lemma only_option:
  "only_notification op m \<Longrightarrow> (\<And>y. only_notification op (f y)) \<Longrightarrow>
   only_notification op (case x of None \<Rightarrow> m | Some y \<Rightarrow> f y)"
  by (cases x) simp_all

lemma prepare_notification_only:
  "only_notification op (prepare_operation_notification e op operation status)"
proof -
  have settled: "only_notification op (State_Monad.return x)" for x :: bool
    by (rule leaves_only) (rule leaves_return)
  have failing: "only_notification op (State_Monad.bind (finish_step e op ''notification'' ''skipped'' t)
      (\<lambda>_. State_Monad.return False))" for t
    by (rule only_notification_bind [OF finish_step_only settled])
  have quiet: "only_notification op (State_Monad.bind (start_step e op ''application'' ''notification'')
      (\<lambda>started. case started of Some y \<Rightarrow> State_Monad.return False
        | None \<Rightarrow> State_Monad.bind (finish_step e op ''notification'' ''skipped'' t) (\<lambda>_. State_Monad.return False)))" for t
    by (rule only_notification_bind [OF only_notification_start], rule only_option [OF failing settled])
  have sent: "only_notification op (State_Monad.bind (start_step e op ''application'' ''notification'')
      (\<lambda>started. State_Monad.return (started = None)))"
    by (rule only_notification_bind [OF only_notification_start settled])
  show ?thesis unfolding prepare_operation_notification_def
  proof (rule only_notification_bind [OF leaves_only [OF leaves_answer]])
    fix settings :: "notification_switches result"
    show "only_notification op (case settings of
        Inl x \<Rightarrow> State_Monad.bind (start_step e op ''application'' ''notification'')
          (\<lambda>started. case started of Some y \<Rightarrow> State_Monad.return False
            | None \<Rightarrow> State_Monad.bind (finish_step e op ''notification'' ''skipped''
                (''notification settings unavailable: '' @ te_text e x)) (\<lambda>_. State_Monad.return False))
      | Inr s \<Rightarrow> if notification_channels s status = (False, False) \<or> \<not> should_notify operation status
          then State_Monad.return False
          else State_Monad.bind (start_step e op ''application'' ''notification'')
            (\<lambda>started. State_Monad.return (started = None)))"
      using quiet sent settled by (cases settings) simp_all
  qed
qed

lemma rclone_note_leaves: "leaves op F (rclone_note e repo operation)"
  unfolding rclone_note_def
  by (rule leaves_quiet [OF leaves_answer], rule leaves_quiet [OF leaves_answer], rule leaves_in_reconnect)

text \<open>The row of the operation is finished, or nothing has changed.\<close>

lemma finish_operation_rows:
  assumes "finish_repository_operation next_run retry_at decode_lock i repo kind status now d = Inr d'"
  shows "\<exists>P. od_ops d' = map (\<lambda>r. if P r then r\<lparr>op_status := status, op_finished_at := now\<rparr> else r) (od_ops d) \<and>
    (\<forall>r. P r \<longrightarrow> op_id r = i) \<and> list_ex P (od_ops d)"
proof -
  let ?P = "\<lambda>r. op_id r = i \<and> op_repository r = repo \<and> op_kind r = kind \<and> op_status r = ''running''"
  have "list_ex ?P (od_ops d) \<and>
    od_ops d' = od_ops (update_ops ?P (\<lambda>r. r\<lparr>op_status := status, op_finished_at := now\<rparr>) d)"
    using assms by (auto simp: finish_repository_operation_def Let_def dest!: update_repository_ops
        split: if_splits option.splits)
  then show ?thesis by (intro exI [of _ ?P]) (simp add: update_ops_def)
qed

definition finished_rows :: "string \<Rightarrow> string \<Rightarrow> task_world \<Rightarrow> task_world \<Rightarrow> bool" where
  "finished_rows op status w w' \<longleftrightarrow> sd_steps (tw_db w') = sd_steps (tw_db w) \<and>
     (\<forall>r \<in> set (od_ops (sd_operations (tw_db w))). op_id r \<noteq> op \<longrightarrow> r \<in> set (od_ops (sd_operations (tw_db w')))) \<and>
     (\<exists>r \<in> set (od_ops (sd_operations (tw_db w'))). op_id r = op \<and> op_status r = status)"

lemma finish_task_row_run:
  assumes "run_state (finish_task_row e op repo operation status) w = (r, w')"
  shows "if r = None then finished_rows op status w w' else tw_db w' = tw_db w"
proof -
  let ?n = "tw_tick w" and ?w = "w\<lparr>tw_tick := Suc (tw_tick w)\<rparr>"
  have "run_state (statement e (on_operations (finish_repository_operation (te_next_run e ?n) (te_retry_at e ?n)
       (\<lambda>t. map_option (\<lambda>l. (ol_enrolled l, ol_paused l)) (te_decode_lock e t)) op repo operation status (te_now e ?n))))
       ?w = (r, w')"
    using assms by (simp add: finish_task_row_def answer_def)
  then show ?thesis
  proof (cases rule: statement_cases)
    case (failed x)
    then show ?thesis by simp
  next
    case (written d)
    then obtain o' where o': "finish_repository_operation (te_next_run e ?n) (te_retry_at e ?n)
       (\<lambda>t. map_option (\<lambda>l. (ol_enrolled l, ol_paused l)) (te_decode_lock e t)) op repo operation status (te_now e ?n)
       (sd_operations (tw_db w)) = Inr o'" "tw_db w' = (tw_db w)\<lparr>sd_operations := o'\<rparr>"
      by (auto simp: on_operations_def map_sum_def split: sum.splits)
    from finish_operation_rows [OF o'(1)] obtain P where P: "od_ops o' = map (\<lambda>r. if P r then
        r\<lparr>op_status := status, op_finished_at := te_now e ?n\<rparr> else r) (od_ops (sd_operations (tw_db w)))"
      "\<forall>r. P r \<longrightarrow> op_id r = op" "list_ex P (od_ops (sd_operations (tw_db w)))" by blast
    from P(3) obtain q where q: "q \<in> set (od_ops (sd_operations (tw_db w)))" "P q" by (auto simp: list_ex_iff)
    have "finished_rows op status w w'"
      unfolding finished_rows_def o'(2) using P(1,2) q
      by (auto intro!: bexI [of _ "q\<lparr>op_status := status, op_finished_at := te_now e ?n\<rparr>"] image_eqI [of _ _ q])
    with written(1) show ?thesis by simp
  qed
qed

lemma retry_statement_run:
  assumes step: "\<And>w r w'. run_state write w = (r, w') \<Longrightarrow> if r = None then written w w' else tw_db w' = tw_db w"
    and moves: "\<And>a b c. tw_db b = tw_db a \<Longrightarrow> written b c \<Longrightarrow> written a c"
    and run: "run_state (retry_statement n final write) w = (r, w')"
  shows "if r = None then written w w' else tw_db w' = tw_db w"
  using run
proof (induction n arbitrary: w)
  case 0
  then show ?case using step by simp
next
  case (Suc n)
  then obtain x w1 where 1: "run_state write w = (x, w1)"
      "run_state (case x of None \<Rightarrow> State_Monad.return None | Some y \<Rightarrow>
         if final y then State_Monad.return (Some y) else retry_statement n final write) w1 = (r, w')"
    by (auto split: prod.splits)
  show ?case
  proof (cases x)
    case None
    with 1 step [OF 1(1)] show ?thesis by simp
  next
    case (Some y)
    with step [OF 1(1)] have same: "tw_db w1 = tw_db w" by simp
    show ?thesis
    proof (cases "final y")
      case True
      with 1(2) Some same show ?thesis by auto
    next
      case False
      with Suc.IH [of w1] 1(2) Some same moves [OF same] show ?thesis by (auto split: if_splits)
    qed
  qed
qed

section \<open>No stranded step\<close>

definition stranded_free :: "step_db \<Rightarrow> bool" where
  "stranded_free d \<longleftrightarrow> (\<forall>s \<in> set (sd_steps d). os_status s = ''running'' \<and> os_kind s \<noteq> ''notification'' \<longrightarrow>
     (\<exists>r \<in> set (od_ops (sd_operations d)). op_id r = os_operation s \<and> op_status r = ''running''))"

definition vault_password_change_kind :: string where
  "vault_password_change_kind = ''vault_password''"

definition operation_runs :: "string \<Rightarrow> task_world \<Rightarrow> bool" where
  "operation_runs op w \<longleftrightarrow> (\<exists>r \<in> set (od_ops (sd_operations (tw_db w))).
     op_id r = op \<and> op_status r = ''running'' \<and> op_kind r \<noteq> vault_password_change_kind)"

text \<open>
  What the next start of the program does with what still runs (\<open>database/migrations.go\<close>): only a change of a
  vault's password keeps running.
\<close>

definition start_again :: "string \<Rightarrow> step_db \<Rightarrow> step_db" where
  "start_again at d = close_running_steps at (d\<lparr>sd_operations := (sd_operations d)\<lparr>od_ops :=
     map (\<lambda>r. if op_status r = ''running'' \<and> op_kind r \<noteq> vault_password_change_kind
       then r\<lparr>op_status := ''interrupted'', op_finished_at := at\<rparr> else r) (od_ops (sd_operations d))\<rparr>\<rparr>)"

lemma start_again_closes:
  "(\<forall>s \<in> set (sd_steps (start_again at d)). os_status s \<noteq> ''running'') \<and>
   (\<forall>r \<in> set (od_ops (sd_operations (start_again at d))). op_status r = ''running'' \<longrightarrow> op_kind r = vault_password_change_kind)"
  by (auto simp: start_again_def close_running_steps_def split: if_splits)

lemma start_again_operation:
  assumes "operation_runs op w"
  shows "\<exists>r \<in> set (od_ops (sd_operations (start_again at (tw_db w)))). op_id r = op \<and> op_status r = ''interrupted''"
proof -
  from assms obtain r where r: "r \<in> set (od_ops (sd_operations (tw_db w)))" "op_id r = op" "op_status r = ''running''"
    "op_kind r \<noteq> vault_password_change_kind" by (auto simp: operation_runs_def)
  let ?f = "\<lambda>r. if op_status r = ''running'' \<and> op_kind r \<noteq> vault_password_change_kind
       then r\<lparr>op_status := ''interrupted'', op_finished_at := at\<rparr> else r"
  have rows: "set (od_ops (sd_operations (start_again at (tw_db w)))) = ?f ` set (od_ops (sd_operations (tw_db w)))"
    by (simp add: start_again_def close_running_steps_def)
  show ?thesis unfolding rows
  proof (rule bexI)
    show "?f r \<in> ?f ` set (od_ops (sd_operations (tw_db w)))" using r(1) by (rule imageI)
    show "op_id (?f r) = op \<and> op_status (?f r) = ''interrupted''" using r by simp
  qed
qed

lemma frame_stranded:
  assumes "stranded_free (tw_db w)" and "frame_op op w w'" and "operation_runs op w"
  shows "stranded_free (tw_db w') \<and> operation_runs op w'"
proof -
  have ops: "od_ops (sd_operations (tw_db w')) = od_ops (sd_operations (tw_db w))"
    using assms(2) by (simp add: frame_op_def)
  have other: "s \<in> set (sd_steps (tw_db w))" if "s \<in> set (sd_steps (tw_db w'))" "os_operation s \<noteq> op" for s
  proof -
    from that have "s \<in> set (filter (\<lambda>s. os_operation s \<noteq> op) (sd_steps (tw_db w')))" by simp
    with assms(2) have "s \<in> set (filter (\<lambda>s. os_operation s \<noteq> op) (sd_steps (tw_db w)))"
      by (simp only: frame_op_def)
    then show ?thesis by simp
  qed
  show ?thesis
    unfolding stranded_free_def operation_runs_def ops
    using assms(1,3) other unfolding stranded_free_def operation_runs_def by metis
qed

lemma finish_task_steps:
  assumes run: "run_state (finish_task e op operation v paused status body err) w = ((out, saved, res), w')"
    and free: "stranded_free (tw_db w)" and runs: "operation_runs op w" and none: "running_kinds op w = {}"
  shows "stranded_free (tw_db w') \<and> running_kinds op w' \<subseteq> {''notification''} \<and>
    (if saved then \<exists>r \<in> set (od_ops (sd_operations (tw_db w'))). op_id r = op \<and> op_status r = status
     else operation_runs op w')"
proof -
  let ?save = "finish_task_row e op (tv_id v) operation status"
  have noted: "only_notification op (if status = ''failed'' then rclone_note e (tv_id v) operation
      else State_Monad.return [])"
    by (rule leaves_only) (simp add: rclone_note_leaves leaves_return)
  have announce: "only_notification op (if status \<noteq> ''interrupted'' \<and> \<not> (paused \<and> status = ''failed'')
      then prepare_operation_notification e op operation status else State_Monad.return False)"
    by (simp add: prepare_notification_only leaves_only leaves_return)
  obtain n w1 where 1: "run_state (if status = ''failed'' then rclone_note e (tv_id v) operation
      else State_Monad.return []) w = (n, w1)" by fastforce
  obtain a w2 where 2: "run_state (if status \<noteq> ''interrupted'' \<and> \<not> (paused \<and> status = ''failed'')
      then prepare_operation_notification e op operation status else State_Monad.return False) w1 = (a, w2)" by fastforce
  obtain p w3 where 3: "run_state (retry_statement 3 (\<lambda>x. errors_is x sql_no_rows) ?save) w2 = (p, w3)" by fastforce
  have end_db: "tw_db w' = tw_db w3 \<and> saved = (p = None)"
    using run 1 2 3 by (cases p) (auto simp: finish_task_def Let_def answer_def in_reconnect_def emit_def
        split: if_splits prod.splits)
  have f: "frame_op op w w2" "running_kinds op w2 \<subseteq> {''notification''}"
    using only_notificationD [OF noted 1] only_notificationD [OF announce 2] none frame_op_trans by blast+
  from frame_stranded [OF free f(1) runs] have s2: "stranded_free (tw_db w2)" "operation_runs op w2" by simp_all
  have fin: "if p = None then finished_rows op status w2 w3 else tw_db w3 = tw_db w2"
    by (rule retry_statement_run [OF finish_task_row_run _ 3]) (auto simp: finished_rows_def)
  show ?thesis
  proof (cases p)
    case None
    with fin have r: "finished_rows op status w2 w3" by simp
    then have steps: "sd_steps (tw_db w3) = sd_steps (tw_db w2)" by (simp add: finished_rows_def)
    have k: "running_kinds op w3 \<subseteq> {''notification''}" using f(2) steps by (simp add: running_kinds_def)
    have "\<exists>r \<in> set (od_ops (sd_operations (tw_db w3))). op_id r = os_operation s \<and> op_status r = ''running''"
      if s: "s \<in> set (sd_steps (tw_db w3))" "os_status s = ''running''" "os_kind s \<noteq> ''notification''" for s
    proof -
      have "os_operation s \<noteq> op" using s k by (auto simp: running_kinds_def)
      moreover from s s2(1) steps obtain r where "r \<in> set (od_ops (sd_operations (tw_db w2)))"
          "op_id r = os_operation s" "op_status r = ''running''" by (auto simp: stranded_free_def)
      ultimately show ?thesis using r unfolding finished_rows_def by metis
    qed
    then have "stranded_free (tw_db w3)" by (auto simp: stranded_free_def)
    with r k end_db None same_db [of w' w3] show ?thesis by (auto simp: finished_rows_def stranded_free_def)
  next
    case (Some x)
    with fin end_db have same: "tw_db w' = tw_db w2" "\<not> saved" by simp_all
    with s2 f(2) same_db [OF same(1)] show ?thesis by (simp add: operation_runs_def)
  qed
qed

text \<open>
  C21. A check or maintenance run never strands a step, whichever of its writes, admissions and calls fail: when its
  result is saved, no step of the operation but its notification is still running; when it is not saved, the operation itself
  still runs.  The next start of the program closes every step that is left, and then the operation.  An engine
  wraps a refused admission as its code does; no error that says a step could not be saved may also hold a
  connector message, which the restic engine would report in its place.
\<close>

theorem no_stranded_steps:
  assumes plans: "\<And>n. adapted safe (te_native e n)"
    and clear: "\<And>y. errors_is y err_step_finalization \<Longrightarrow> safe y = None"
    and "stranded_free (tw_db w)" and "operation_runs op w" and "running_kinds op w = {}"
    and run: "run_state (run_repository_task e op operation scheduled v) w = ((out, saved, err), w')"
  shows "stranded_free (tw_db w') \<and>
    (if saved then running_kinds op w' \<subseteq> {''notification''} else operation_runs op w') \<and>
    (\<forall>s \<in> set (sd_steps (start_again at (tw_db w'))). os_status s \<noteq> ''running'') \<and>
    (\<not> saved \<longrightarrow> (\<exists>r \<in> set (od_ops (sd_operations (start_again at (tw_db w')))). op_id r = op \<and> op_status r = ''interrupted''))"
proof -
  obtain admitted w0 where 0: "run_state (answer (\<lambda>n. te_admit e n v)) w = (admitted, w0)" by fastforce
  obtain x w1 where "run_state (admitted_work e op operation v admitted) w0 = (x, w1)" by fastforce
  moreover obtain v1 body ok r where "x = (v1, body, ok, r)" by (cases x) auto
  ultimately have 1: "run_state (admitted_work e op operation v admitted) w0 = ((v1, body, ok, r), w1)" by simp
  obtain w2 where 2: "run_state close_gate w1 = ((), w2)" by (simp add: close_gate_def)
  obtain c w3 where 3: "run_state (answer (te_ctx e)) w2 = (c, w3)" by fastforce
  have a: "frame_op op w w0" "running_kinds op w0 \<subseteq> running_kinds op w"
    using endsD [OF leaves_answer [of op "\<lambda>_. False"] 0] by simp_all
  have b: "frame_op op w0 w1" "running_kinds op w1 \<subseteq> running_kinds op w0 \<or> fin_err r"
    using endsD [OF admitted_work_leaves [OF adapted_honest [OF clear plans]] 1] by simp_all
  have same: "tw_db w3 = tw_db w1" using 2 3 by (auto simp: close_gate_def answer_def)
  have f: "frame_op op w w3"
    using frame_op_trans [OF frame_op_trans [OF a(1) b(1)] same_db(1) [OF same]] .
  have k: "running_kinds op w3 = {} \<or> fin_err r"
    using a(2) b(2) assms(5) same_db(2) [OF same, of op] by auto
  from frame_stranded [OF assms(3) f assms(4)] have s3: "stranded_free (tw_db w3)" "operation_runs op w3" by simp_all
  have main: "stranded_free (tw_db w') \<and> (if saved then running_kinds op w' \<subseteq> {''notification''} else operation_runs op w')"
  proof (cases "fin_err r")
    case True
    with run 0 1 2 3 have "w' = w3 \<and> \<not> saved"
      by (auto simp: run_repository_task_def Let_def fin_err_def)
    with s3 show ?thesis by simp
  next
    case False
    obtain paused where "run_state (finish_task e op operation v1 paused (repository_task_status c r ok)
        (combined_task_output e body r) r) w3 = ((out, saved, err), w')"
      using run 0 1 2 3 False by (auto simp: run_repository_task_def Let_def fin_err_def)
    from finish_task_steps [OF this s3] k False show ?thesis by auto
  qed
  with start_again_operation [of op w' at] start_again_closes [of at "tw_db w'"] show ?thesis by simp
qed

text \<open>A check whose storage admission succeeds and whose engine reports an error of its own.\<close>

definition sample_plan :: plan where
  "sample_plan = Admit (\<lambda>a. Reply \<lparr>nr_output = [], nr_err = map_option requested_preparation_failure a, nr_started = (a = None)\<rparr>)"

definition sample_vault :: task_vault where
  "sample_vault = \<lparr>tv_id = ''v'', tv_name = ''Photos'', tv_engine = ''restic'', tv_connector = ''s3'',
     tv_cold_storage = False, tv_check_schedule = ''daily'', tv_maintenance_schedule = ''manual'',
     tv_next_check = [], tv_next_maintenance = [], tv_object_lock = zero_object_lock\<rparr>"

definition sample_env :: task_env where
  "sample_env = \<lparr>te_write = (\<lambda>n. if n = 7 then Some (new_error ''disk I/O error'') else None), te_now = (\<lambda>_. ''now''),
     te_instant = int, te_id = (\<lambda>n. replicate n (CHR ''i'')), te_ctx = (\<lambda>_. \<lparr>ctx_err = None, ctx_cause = None\<rparr>),
     te_lock = (\<lambda>_. Inr True), te_register = (\<lambda>_. None), te_admit = (\<lambda>_ v. Inr v), te_owner = (\<lambda>_ _. None),
     te_resolve = (\<lambda>_ _. None), te_kopia_owner = (\<lambda>_ _. None), te_care = (\<lambda>_ v. Inr v),
     te_reassure = (\<lambda>_. ([], None)), te_ensure = (\<lambda>_. sample_plan),
     te_prepare = (\<lambda>_. \<lparr>pr_output = [], pr_err = None, pr_cleanup = True\<rparr>), te_cleanup = (\<lambda>_. None),
     te_native = (\<lambda>_. sample_plan), te_outcome = (\<lambda>_. None), te_unavailable = (\<lambda>_. False),
     te_output_failure = (\<lambda>_. False), te_text = err_id, te_settings = (\<lambda>_. Inl (new_error ''no settings'')),
     te_rclone = (\<lambda>_. CheckUnprepared), te_rclone_hint = (\<lambda>_. []), te_view = plain_view,
     te_next_run = (\<lambda>_ s. s), te_retry_at = (\<lambda>_. ''soon''), te_decode_lock = (\<lambda>_. None)\<rparr>"

definition sample_world :: task_world where
  "sample_world = \<lparr>tw_db = one_operation, tw_reconnect = one_vault, tw_tick = 0, tw_gate_closed = False, tw_trace = []\<rparr>"

lemma no_stranded_steps_witness:
  "stranded_free (tw_db (snd (run_state (run_repository_task sample_env ''o'' ''check'' True sample_vault) sample_world)))"
proof -
  obtain x w' where x: "run_state (run_repository_task sample_env ''o'' ''check'' True sample_vault) sample_world = (x, w')"
    by fastforce
  obtain out saved err where "x = (out, saved, err)" by (cases x) auto
  with x have run: "run_state (run_repository_task sample_env ''o'' ''check'' True sample_vault) sample_world =
      ((out, saved, err), w')" by simp
  have plans: "adapted (\<lambda>_. None) (te_native sample_env n)" for n
    by (simp add: sample_env_def sample_plan_def refusal_def)
  have start: "stranded_free (tw_db sample_world)" "operation_runs ''o'' sample_world" "running_kinds ''o'' sample_world = {}"
    by (simp_all add: sample_world_def one_operation_def stranded_free_def operation_runs_def running_kinds_def vault_password_change_kind_def)
  from no_stranded_steps [OF plans _ start run, of "''now''"] x show ?thesis by simp
qed

end
