(* ===== verification/TaskSafety.thy ===== *)
theory TaskSafety
  imports TaskSteps
begin

text \<open>
  The requested native command of a check or a maintenance run is called only after every step
  that has to precede it was recorded as succeeded, and whatever a check prepared is removed
  exactly once.
\<close>

section \<open>What is recorded when a part of the task ends\<close>

text \<open>A fact names a kind of step and whether it succeeded (rather than was only started).\<close>

type_synonym step_fact = "string \<times> bool"

definition recorded :: "string \<Rightarrow> step_db \<Rightarrow> step_fact \<Rightarrow> bool" where
  "recorded op d f \<longleftrightarrow> (\<exists>s \<in> set (sd_steps d). os_operation s = op \<and> os_kind s = fst f \<and>
     (snd f \<longrightarrow> os_status s = ''succeeded''))"

definition before_check :: "step_fact set" where
  "before_check = {(''repository_storage_admission'', True), (''integrity_owner_admission'', True),
     (prepare_kind, True), (''integrity_owner_revalidation'', True), (check_kind, False)}"

definition before_maintenance :: "bool \<Rightarrow> step_fact set" where
  "before_maintenance kopia = {(''repository_writer_storage_validation'', True), (maintenance_kind, False)} \<union>
     (if kopia then {(reconcile_kind, True), (''maintenance_owner_revalidation'', True)} else {})"

definition rightly_called :: "bool \<Rightarrow> string \<Rightarrow> task_event \<Rightarrow> bool" where
  "rightly_called kopia op ev \<longleftrightarrow> (case ev of
      NativeCalled kind d \<Rightarrow>
        (kind = check_kind \<and> (\<forall>f \<in> before_check. recorded op d f)) \<or>
        (kind = maintenance_kind \<and> (\<forall>f \<in> before_maintenance kopia. recorded op d f))
    | _ \<Rightarrow> True)"

definition grows :: "task_world \<Rightarrow> task_world \<Rightarrow> bool" where
  "grows w w' \<longleftrightarrow> (\<exists>f new. row_change f \<and> sd_steps (tw_db w') = map f (sd_steps (tw_db w)) @ new)"

definition adds_trace :: "bool \<Rightarrow> string \<Rightarrow> task_world \<Rightarrow> task_world \<Rightarrow> bool" where
  "adds_trace kopia op w w' \<longleftrightarrow> (\<exists>evs. tw_trace w' = tw_trace w @ evs \<and> (\<forall>ev \<in> set evs. rightly_called kopia op ev))"

text \<open>Started with the facts \<open>S\<close>, a part calls the engine rightly and ends with the facts \<open>T r\<close>.\<close>

definition launches :: "bool \<Rightarrow> string \<Rightarrow> step_fact set \<Rightarrow> ('a \<Rightarrow> step_fact set) \<Rightarrow> 'a task \<Rightarrow> bool" where
  "launches kopia op S T m \<longleftrightarrow> (\<forall>w. (\<forall>f \<in> S. recorded op (tw_db w) f) \<longrightarrow>
     wp m (\<lambda>r w'. grows w w' \<and> adds_trace kopia op w w' \<and> (\<forall>f \<in> T r. recorded op (tw_db w') f)) w)"

lemma grows_refl [simp]: "grows w w"
  unfolding grows_def by (rule exI [of _ "\<lambda>s. s"]) simp

lemma grows_trans:
  assumes "grows a b" and "grows b c"
  shows "grows a c"
proof -
  from assms obtain f x g y where "row_change f" "sd_steps (tw_db b) = map f (sd_steps (tw_db a)) @ x"
    "row_change g" "sd_steps (tw_db c) = map g (sd_steps (tw_db b)) @ y" unfolding grows_def by blast
  then have "row_change (\<lambda>s. g (f s))" "sd_steps (tw_db c) = map (\<lambda>s. g (f s)) (sd_steps (tw_db a)) @ (map g x @ y)"
    by (simp_all add: row_change_comp)
  then show ?thesis unfolding grows_def by blast
qed

lemma grows_same: "sd_steps (tw_db w') = sd_steps (tw_db w) \<Longrightarrow> grows w w'"
  unfolding grows_def by (rule exI [of _ "\<lambda>s. s"]) simp

lemma recorded_grows:
  assumes "grows w w'" and "recorded op (tw_db w) f"
  shows "recorded op (tw_db w') f"
proof -
  from assms(1) obtain g new where g: "row_change g" "sd_steps (tw_db w') = map g (sd_steps (tw_db w)) @ new"
    unfolding grows_def by blast
  from assms(2) obtain s where s: "s \<in> set (sd_steps (tw_db w))" "os_operation s = op" "os_kind s = fst f"
    "snd f \<longrightarrow> os_status s = ''succeeded''" unfolding recorded_def by blast
  have "g s \<in> set (sd_steps (tw_db w'))" using s(1) g(2) by simp
  moreover have "os_operation (g s) = op" "os_kind (g s) = fst f"
    using g(1) s(2,3) unfolding row_change_def by (metis prod.inject)+
  moreover have "os_status (g s) = ''succeeded''" if "snd f"
  proof -
    have "os_status s = ''succeeded''" using s(4) that by blast
    then have "g s = s" using g(1) unfolding row_change_def by simp
    with \<open>os_status s = ''succeeded''\<close> show ?thesis by simp
  qed
  ultimately show ?thesis unfolding recorded_def by blast
qed

lemma adds_refl [simp]: "adds_trace kopia op w w"
  by (simp add: adds_trace_def)

lemma adds_trans: "adds_trace kopia op a b \<Longrightarrow> adds_trace kopia op b c \<Longrightarrow> adds_trace kopia op a c"
  unfolding adds_trace_def by (metis (no_types, lifting) Un_iff append_assoc set_append)

lemma launchesD:
  "launches kopia op S T m \<Longrightarrow> run_state m w = (r, w') \<Longrightarrow> (\<And>f. f \<in> S \<Longrightarrow> recorded op (tw_db w) f) \<Longrightarrow>
   grows w w' \<and> adds_trace kopia op w w' \<and> (\<forall>f \<in> T r. recorded op (tw_db w') f)"
  unfolding launches_def by (drule spec [of _ w], drule mp, blast, drule (1) wp_run)

lemma launchesI:
  "(\<And>w r w'. (\<And>f. f \<in> S \<Longrightarrow> recorded op (tw_db w) f) \<Longrightarrow> run_state m w = (r, w') \<Longrightarrow>
     grows w w' \<and> adds_trace kopia op w w' \<and> (\<forall>f \<in> T r. recorded op (tw_db w') f)) \<Longrightarrow>
   launches kopia op S T m"
  unfolding launches_def by (intro allI impI wpI) blast

lemma launches_bind:
  assumes m: "launches kopia op S T m" and f: "\<And>r. launches kopia op (S \<union> T r) U (f r)"
  shows "launches kopia op S U (State_Monad.bind m f)"
proof (rule launchesI, erule run_bindE)
  fix w r w' x w1
  assume S: "\<And>f. f \<in> S \<Longrightarrow> recorded op (tw_db w) f"
    and run: "run_state m w = (x, w1)" "run_state (f x) w1 = (r, w')"
  from launchesD [OF m run(1) S] have 1: "grows w w1" "adds_trace kopia op w w1" "\<forall>f \<in> T x. recorded op (tw_db w1) f"
    by simp_all
  then have "\<And>g. g \<in> S \<union> T x \<Longrightarrow> recorded op (tw_db w1) g" using S recorded_grows by blast
  from launchesD [OF f run(2) this] 1
  show "grows w w' \<and> adds_trace kopia op w w' \<and> (\<forall>f \<in> U r. recorded op (tw_db w') f)"
    using grows_trans adds_trans by blast
qed

lemma launches_weaken:
  "launches kopia op S T m \<Longrightarrow> S \<subseteq> S' \<Longrightarrow> (\<And>r. T' r \<subseteq> S' \<union> T r) \<Longrightarrow> launches kopia op S' T' m"
proof (rule launchesI)
  fix w r w'
  assume m: "launches kopia op S T m" and S: "S \<subseteq> S'" and T: "\<And>r. T' r \<subseteq> S' \<union> T r"
    and S': "\<And>f. f \<in> S' \<Longrightarrow> recorded op (tw_db w) f" and run: "run_state m w = (r, w')"
  have "\<And>f. f \<in> S \<Longrightarrow> recorded op (tw_db w) f" using S S' by blast
  note l = launchesD [OF m run this]
  have "recorded op (tw_db w') f" if "f \<in> T' r" for f
  proof (cases "f \<in> T r")
    case True
    with l show ?thesis by blast
  next
    case False
    with T that have "f \<in> S'" by blast
    with S' l show ?thesis using recorded_grows by blast
  qed
  with l show "grows w w' \<and> adds_trace kopia op w w' \<and> (\<forall>f \<in> T' r. recorded op (tw_db w') f)" by blast
qed

abbreviation silent :: "bool \<Rightarrow> string \<Rightarrow> 'a task \<Rightarrow> bool" where
  "silent kopia op m \<equiv> launches kopia op {} (\<lambda>_. {}) m"

lemma silent_bind:
  "silent kopia op m \<Longrightarrow> (\<And>r. silent kopia op (f r)) \<Longrightarrow> silent kopia op (State_Monad.bind m f)"
  by (rule launches_bind [where T = "\<lambda>_. {}"]) simp_all

lemma after_silent:
  "silent kopia op m \<Longrightarrow> (\<And>r. launches kopia op S U (f r)) \<Longrightarrow> launches kopia op S U (State_Monad.bind m f)"
  by (rule launches_bind [where T = "\<lambda>_. {}"]) (auto intro: launches_weaken)

lemma then_silent:
  assumes "launches kopia op S T m" and "\<And>r. silent kopia op (f r)"
  shows "launches kopia op S (\<lambda>_. {}) (State_Monad.bind m f)"
  by (rule launches_bind [OF assms(1)], rule launches_weaken [OF assms(2)]) simp_all

lemma launches_return: "(T x \<subseteq> S) \<Longrightarrow> launches kopia op S T (State_Monad.return x)"
  by (rule launchesI) auto

lemma silent_return: "silent kopia op (State_Monad.return x)"
  by (rule launches_return) simp

lemma launches_option:
  "(x = None \<Longrightarrow> launches kopia op S T m) \<Longrightarrow> (\<And>y. x = Some y \<Longrightarrow> launches kopia op S T (f y)) \<Longrightarrow>
   launches kopia op S T (case x of None \<Rightarrow> m | Some y \<Rightarrow> f y)"
  by (cases x) simp_all

lemma launches_sum:
  "(\<And>y. x = Inl y \<Longrightarrow> launches kopia op S T (f y)) \<Longrightarrow> (\<And>y. x = Inr y \<Longrightarrow> launches kopia op S T (g y)) \<Longrightarrow>
   launches kopia op S T (case x of Inl y \<Rightarrow> f y | Inr y \<Rightarrow> g y)"
  by (cases x) simp_all

lemma launches_if:
  "(b \<Longrightarrow> launches kopia op S T m) \<Longrightarrow> (\<not> b \<Longrightarrow> launches kopia op S T m') \<Longrightarrow>
   launches kopia op S T (if b then m else m')"
  by simp

lemma launches_prod:
  "(\<And>x y. p = (x, y) \<Longrightarrow> launches kopia op S T (f x y)) \<Longrightarrow> launches kopia op S T (case p of (x, y) \<Rightarrow> f x y)"
  by (cases p) simp

lemmas launch_branches = launches_option launches_sum launches_if launches_prod

section \<open>Parts that do not call the engine\<close>

lemma silent_answer: "silent kopia op (answer f)"
  by (rule launchesI) (auto simp: answer_def grows_same adds_trace_def)

lemma silent_close_gate: "silent kopia op close_gate"
  by (rule launchesI) (auto simp: close_gate_def grows_same adds_trace_def)

lemma silent_emit: "rightly_called kopia op ev \<Longrightarrow> silent kopia op (emit ev)"
  by (rule launchesI) (auto simp: emit_def grows_same adds_trace_def)

lemma quiet_events [simp]:
  "rightly_called kopia op ResourcesPrepared" "rightly_called kopia op CleanupRan"
  "rightly_called kopia op (SizeDirty repo)" "rightly_called kopia op (NotificationSent i status)"
  by (simp_all add: rightly_called_def)

lemma silent_in_reconnect: "silent kopia op (in_reconnect f)"
  by (rule launchesI) (auto simp: in_reconnect_def grows_same adds_trace_def split: prod.splits)

lemma statement_trace:
  "run_state (statement e f) w = (r, w') \<Longrightarrow> tw_trace w' = tw_trace w"
  by (auto simp: statement_def answer_def apply_statement_def split: option.splits sum.splits)

lemma same_trace: "tw_trace w' = tw_trace w \<Longrightarrow> adds_trace kopia op w w'"
  by (simp add: adds_trace_def)

lemma evolves_grows: "evolves (tw_db w) (tw_db w') \<Longrightarrow> grows w w'"
  by (auto simp: evolves_def grows_def)

lemma start_step_trace: "run_state (start_step e op domain kind) w = (r, w') \<Longrightarrow> tw_trace w' = tw_trace w"
  by (auto simp: start_step_def answer_def dest!: statement_trace)

lemma finish_step_trace: "run_state (finish_step e op kind status body) w = (r, w') \<Longrightarrow> tw_trace w' = tw_trace w"
  by (auto simp: finish_step_def answer_def dest!: statement_trace)

lemma start_step_launches:
  "launches kopia op {} (\<lambda>r. if r = None then {(kind, False)} else {}) (start_step e op domain kind)"
proof (rule launchesI)
  fix w r w'
  assume run: "run_state (start_step e op domain kind) w = (r, w')"
  then have t: "adds_trace kopia op w w'" by (intro same_trace start_step_trace)
  from run show "grows w w' \<and> adds_trace kopia op w w' \<and>
      (\<forall>f \<in> if r = None then {(kind, False)} else {}. recorded op (tw_db w') f)"
  proof (cases rule: start_step_cases)
    case (failed x)
    then have "grows w w'" by (intro grows_same) simp
    with failed(1) t show ?thesis by simp
  next
    case (written i now d)
    from written(2) obtain b where b: "insert_step i op domain kind now (tw_db w) = Inr (d, b)"
      by (rule start_step_insert)
    then have "grows w w'" using insert_step_evolves [OF b] written(3) by (intro evolves_grows) simp
    moreover from b have "recorded op d (kind, False)"
      by (cases rule: insert_step_cases) (auto simp: recorded_def list_ex_iff step_row_def)
    ultimately show ?thesis using t written by simp
  qed
qed

lemma finish_step_launches:
  "launches kopia op {} (\<lambda>r. if r = None \<and> status = ''succeeded'' then {(kind, True)} else {})
     (finish_step e op kind status body)"
proof (rule launchesI)
  fix w r w'
  assume run: "run_state (finish_step e op kind status body) w = (r, w')"
  then have t: "adds_trace kopia op w w'" by (intro same_trace finish_step_trace)
  from run show "grows w w' \<and> adds_trace kopia op w w' \<and>
      (\<forall>f \<in> if r = None \<and> status = ''succeeded'' then {(kind, True)} else {}. recorded op (tw_db w') f)"
  proof (cases rule: finish_step_run)
    case (failed x)
    then have "grows w w'" by (intro grows_same) simp
    with failed(1) t show ?thesis by simp
  next
    case (written now d)
    from written(2) obtain s :: operation_step and o' :: op_row
      where s: "find (running_row op kind) (sd_steps (tw_db w)) = Some s" and d: "d = finalize_step op kind status now
      \<lparr>ls_operation = op, ls_engine = op_engine o', ls_domain = os_domain s,
       ls_kind = kind, ls_status = status, ls_body = body\<rparr> (tw_db w)"
      by (rule finish_step_cases) blast
    have "grows w w'" by (rule evolves_grows) (simp add: written(3) d finalize_evolves)
    moreover have "recorded op d (kind, True)" if "status = ''succeeded''"
    proof -
      have in_table: "s \<in> set (sd_steps (tw_db w))" "running_row op kind s"
        using s by (auto simp: find_Some_iff)
      then have "s\<lparr>os_status := status, os_finished := now\<rparr> \<in> set (sd_steps d)"
        unfolding d finalize_step_def by (auto intro!: image_eqI [of _ _ s])
      with in_table that show ?thesis unfolding recorded_def
        by (intro bexI [of _ "s\<lparr>os_status := status, os_finished := now\<rparr>"]) (simp_all add: running_row_def step_row_def)
    qed
    ultimately show ?thesis using t written by simp
  qed
qed

lemma silent_start: "silent kopia op (start_step e op domain kind)"
  by (rule launches_weaken [OF start_step_launches]) auto

lemma silent_finish: "silent kopia op (finish_step e op kind status body)"
  by (rule launches_weaken [OF finish_step_launches]) auto

lemma silent_operations_statement: "silent kopia op (statement e (on_operations f))"
proof (rule launchesI)
  fix w r w'
  assume run: "run_state (statement e (on_operations f)) w = (r, w')"
  then have t: "adds_trace kopia op w w'" by (intro same_trace statement_trace)
  from run have "sd_steps (tw_db w') = sd_steps (tw_db w)"
  proof (cases rule: statement_cases)
    case (failed x)
    then show ?thesis by simp
  next
    case (written d)
    then obtain o' where "d = (tw_db w)\<lparr>sd_operations := o'\<rparr>"
      by (cases "f (sd_operations (tw_db w))") (auto simp: on_operations_def)
    with written(3) show ?thesis by simp
  qed
  with t show "grows w w' \<and> adds_trace kopia op w w' \<and> (\<forall>f \<in> {}. recorded op (tw_db w') f)"
    by (simp add: grows_same)
qed

lemmas silent_rules = silent_answer silent_close_gate silent_in_reconnect silent_start silent_finish
  silent_operations_statement silent_return silent_bind launch_branches

lemma silent_finish_started: "silent kopia op (finish_started_step e op kind status body)"
  unfolding finish_started_step_def by (intro silent_rules)

lemma silent_skip: "silent kopia op (skip_task_step e op domain kind reason)"
  unfolding skip_task_step_def by (intro silent_rules)

lemma silent_disable: "silent kopia op (disable_integrity e v t)" "silent kopia op (disable_maintenance e v t)"
  unfolding disable_integrity_def disable_maintenance_def by (intro silent_rules)+

lemma silent_assertions: "silent kopia op (assert_repository_owner e v)" "silent kopia op (assert_repository_writer e v)"
  unfolding assert_repository_writer_def assert_repository_owner_def by (intro silent_rules)+

lemma silent_failure_step: "silent kopia op (failure_step e op kind what body)"
  unfolding failure_step_def by (intro silent_rules silent_finish_started)

lemma silent_finish_tracked: "silent kopia op (finish_tracked_native e op kind reply)"
  unfolding finish_tracked_native_def Let_def by (intro silent_rules silent_failure_step silent_finish_started)

lemma silent_cleanup: "silent kopia op (run_cleanup e op)"
  unfolding run_cleanup_def by (intro silent_rules silent_finish_started silent_emit) simp_all

section \<open>Admissions\<close>

lemma admission_step_launches:
  assumes a: "silent kopia op assertion" and d: "\<And>t. silent kopia op (disable t)"
  shows "launches kopia op {} (\<lambda>r. if r = None then {(kind, True)} else {})
    (admission_step e op kind what granted assertion schedule disable)"
  unfolding admission_step_def Let_def
proof (rule after_silent [OF silent_start], rule launches_option, goal_cases)
  case (1 started)
  have quiet: "silent kopia op (case refused of
      Some x \<Rightarrow> if ownership_lost x then disable (te_text e x) else State_Monad.return None
    | None \<Rightarrow> State_Monad.return None)" for refused
    by (intro launch_branches d silent_return)
  show ?case
  proof (rule after_silent [OF a], rule after_silent [OF quiet], rule launches_bind [OF finish_step_launches], goal_cases)
    case (1 refused disabled r)
    show ?case by (rule launches_return) (cases refused; cases disabled; cases r; simp del: not_None_eq)
  qed
next
  case (2 started y)
  show ?case by (rule launches_return) simp
qed

lemma storage_admission_launches:
  "launches kopia op {} (\<lambda>r. if r = None then {(''repository_storage_admission'', True)} else {})
    (persist_storage_admission e op)"
  unfolding persist_storage_admission_def
proof (rule after_silent [OF silent_start], rule launches_option, goal_cases)
  case (1 started)
  show ?case
    by (rule launches_bind [OF finish_step_launches], rule launches_return) (auto split: option.splits)
next
  case (2 started y)
  show ?case by (rule launches_return) simp
qed

lemma finish_started_launches:
  "launches kopia op {} (\<lambda>r. if r = None \<and> status = ''succeeded'' then {(kind, True)} else {})
    (finish_started_step e op kind status body)"
  unfolding finish_started_step_def
  by (rule launches_bind [OF finish_step_launches], rule launches_return) (auto split: option.splits)

lemma integrity_owner_launches:
  "launches kopia op {} (\<lambda>r. if r = None then {(kind, True)} else {}) (persist_integrity_owner_admission e op v kind)"
  unfolding persist_integrity_owner_admission_def by (rule admission_step_launches) (rule silent_assertions silent_disable)+

lemma owner_revalidation_launches:
  "launches kopia op {} (\<lambda>r. if r = None then {(''maintenance_owner_revalidation'', True)} else {})
    (persist_owner_revalidation e op v)"
  unfolding persist_owner_revalidation_def persist_owner_admission_def
  by (rule admission_step_launches) (rule silent_assertions silent_disable)+

lemma writer_admission_launches:
  "launches kopia op {} (\<lambda>r. if r = None then {(''repository_writer_storage_validation'', True)} else {})
    (persist_writer_admission e op v)"
  unfolding persist_writer_admission_def persist_owner_admission_def
  by (rule admission_step_launches) (rule silent_assertions silent_disable)+

lemma silent_of: "launches kopia op {} T m \<Longrightarrow> silent kopia op m"
  by (rule launches_weaken) auto

lemma silent_run_plan: "silent kopia op callback \<Longrightarrow> silent kopia op (run_plan callback p)"
  by (induction p) (auto intro: silent_return silent_bind)

text \<open>The call itself is right when the facts it needs are there.\<close>

lemma call_native_launches:
  assumes "silent kopia op callback"
    and "kind = check_kind \<and> before_check \<subseteq> S \<or> kind = maintenance_kind \<and> before_maintenance kopia \<subseteq> S"
  shows "launches kopia op S (\<lambda>_. {}) (call_native e kind callback)"
proof -
  have first: "launches kopia op S (\<lambda>_. {}) (State_Monad.bind State_Monad.get (\<lambda>w. emit (NativeCalled kind (tw_db w))))"
  proof (rule launchesI)
    fix w r w'
    assume S: "\<And>f. f \<in> S \<Longrightarrow> recorded op (tw_db w) f"
      and run: "run_state (State_Monad.bind State_Monad.get (\<lambda>w. emit (NativeCalled kind (tw_db w)))) w = (r, w')"
    have w': "w' = w\<lparr>tw_trace := tw_trace w @ [NativeCalled kind (tw_db w)]\<rparr>"
      using run by (simp add: emit_def)
    have "rightly_called kopia op (NativeCalled kind (tw_db w))"
      using assms(2) S by (auto simp: rightly_called_def)
    then show "grows w w' \<and> adds_trace kopia op w w' \<and> (\<forall>f \<in> {}. recorded op (tw_db w') f)"
      by (simp add: w' grows_same adds_trace_def)
  qed
  have "launches kopia op S (\<lambda>_. {}) (State_Monad.bind
      (State_Monad.bind State_Monad.get (\<lambda>w. emit (NativeCalled kind (tw_db w))))
      (\<lambda>_. State_Monad.bind (answer (te_native e)) (\<lambda>p. State_Monad.bind (run_plan callback p)
        (\<lambda>r. State_Monad.bind (emit NativeReturned) (\<lambda>_. State_Monad.return r)))))"
    by (rule then_silent [OF first], rule silent_bind [OF silent_answer],
        rule silent_bind [OF silent_run_plan [OF assms(1)]], rule silent_bind [OF silent_emit])
      (simp_all add: silent_return rightly_called_def)
  then show ?thesis by (simp add: call_native_def)
qed

section \<open>The check and maintenance\<close>

text \<open>An admission whose refusal only writes steps.\<close>

lemma guarded:
  assumes "launches kopia op {} (\<lambda>r. if r = None then {F} else {}) m"
    and "launches kopia op (insert F S) (\<lambda>_. {}) (f None)" and "\<And>x. silent kopia op (f (Some x))"
  shows "launches kopia op S (\<lambda>_. {}) (State_Monad.bind m f)"
proof (rule launches_bind)
  show "launches kopia op S (\<lambda>r. if r = None then {F} else {}) m" by (rule launches_weaken [OF assms(1)]) auto
  fix r
  show "launches kopia op (S \<union> (if r = None then {F} else {})) (\<lambda>_. {}) (f r)"
    using assms(2) by (cases r) (simp_all add: launches_weaken [OF assms(3)])
qed

lemma launches_more: "launches kopia op S (\<lambda>_. {}) m \<Longrightarrow> S \<subseteq> S' \<Longrightarrow> launches kopia op S' (\<lambda>_. {}) m"
  by (rule launches_weaken) simp_all

lemma silent_more: "silent kopia op m \<Longrightarrow> launches kopia op S (\<lambda>_. {}) m"
  by (rule launches_more [of _ _ "{}"]) simp_all

lemma native_check_launches:
  assumes clean: "silent kopia op cleanup" and ready: "before_check \<subseteq> insert (check_kind, False) S"
  shows "launches kopia op S (\<lambda>_. {}) (native_check e op v cleanup)"
  unfolding native_check_def
proof (rule guarded [OF start_step_launches], goal_cases)
  case 1
  show ?case unfolding option.case
    by (rule then_silent [OF call_native_launches [OF silent_of [OF integrity_owner_launches]]])
      (use ready in \<open>simp_all add: silent_bind silent_close_gate silent_finish_tracked clean silent_return\<close>)
next
  case (2 x)
  show ?case unfolding option.case by (rule silent_bind [OF clean silent_return])
qed

lemma admitted_check_launches:
  assumes clean: "silent kopia op cleanup"
    and ready: "before_check \<subseteq> insert (check_kind, False) (insert (''integrity_owner_revalidation'', True)
      (if tv_engine v \<noteq> ''kopia'' then insert (''repository_storage_admission'', True) S else S))"
  shows "launches kopia op S (\<lambda>_. {}) (admitted_check e op v cleanup)"
proof -
  define rest where "rest = State_Monad.bind (persist_integrity_owner_admission e op v ''integrity_owner_revalidation'')
      (\<lambda>owner. case owner of None \<Rightarrow> native_check e op v cleanup
        | Some x \<Rightarrow> State_Monad.bind (skip_task_step e op ''native'' check_kind ''vault owner changed before native integrity check'')
            (\<lambda>skipped. State_Monad.bind cleanup (\<lambda>cleaned. State_Monad.return ([], False, errors_join [owner, skipped, cleaned]))))"
  have rest: "launches kopia op S' (\<lambda>_. {}) rest"
    if "before_check \<subseteq> insert (check_kind, False) (insert (''integrity_owner_revalidation'', True) S')" for S'
    unfolding rest_def using that
    by (intro guarded [OF integrity_owner_launches])
      (simp_all add: native_check_launches clean silent_bind silent_skip silent_return)
  show ?thesis
  proof (cases "tv_engine v = ''kopia''")
    case True
    with rest [of S] ready show ?thesis unfolding admitted_check_def rest_def [symmetric] by simp
  next
    case False
    have "launches kopia op (insert (''repository_storage_admission'', True) S) (\<lambda>_. {}) rest"
      using False ready by (intro rest) simp
    with False show ?thesis unfolding admitted_check_def rest_def [symmetric]
      by (simp, intro guarded [OF storage_admission_launches])
        (simp_all add: clean silent_bind silent_skip silent_return)
  qed
qed

lemma prepared_check_launches:
  assumes "(''integrity_owner_admission'', True) \<in> S"
    and "tv_engine v = ''kopia'' \<Longrightarrow> (''repository_storage_admission'', True) \<in> S"
  shows "launches kopia op S (\<lambda>_. {}) (prepared_check e op v)"
  unfolding prepared_check_def
proof (rule after_silent [OF silent_answer], rule after_silent, goal_cases)
  case (1 prepared)
  show ?case by (simp add: silent_emit silent_return)
next
  case (2 prepared u)
  have "before_check \<subseteq> insert (check_kind, False) (insert (''integrity_owner_revalidation'', True)
      (if tv_engine v \<noteq> ''kopia'' then insert (''repository_storage_admission'', True) (insert (prepare_kind, True) S)
       else insert (prepare_kind, True) S))"
    using assms by (auto simp: before_check_def)
  note inner = admitted_check_launches [OF silent_cleanup this]
  have closed: "launches kopia op {} (\<lambda>r. if r = None then {(prepare_kind, True)} else {})
      (finish_started_step e op prepare_kind ''succeeded'' t)" for t
    using finish_started_launches [where status = "''succeeded''"] by simp
  show ?case
  proof (cases "pr_err prepared")
    case None
    then show ?thesis unfolding None option.case
      by (intro guarded [OF closed]) (simp_all add: inner silent_bind silent_skip silent_cleanup silent_return)
  next
    case (Some x)
    then show ?thesis unfolding Some option.case
      by (intro silent_more [OF silent_bind [OF silent_finish_started silent_bind [OF silent_skip]]])
        (simp_all add: silent_bind silent_close_gate silent_skip silent_cleanup silent_return)
  qed
qed

lemma silent_two: "silent kopia op (State_Monad.bind (skip_task_step e op d1 k1 t1) (\<lambda>a.
    State_Monad.bind (skip_task_step e op d2 k2 t2) (\<lambda>b. State_Monad.return (f a b))))"
  by (intro silent_bind silent_skip silent_return)

lemma silent_three: "silent kopia op (State_Monad.bind (skip_task_step e op d1 k1 t1) (\<lambda>a.
    State_Monad.bind (skip_task_step e op d2 k2 t2) (\<lambda>b.
    State_Monad.bind (skip_task_step e op d3 k3 t3) (\<lambda>c. State_Monad.return (f a b c)))))"
  by (intro silent_bind silent_skip silent_return)

lemma run_integrity_check_launches:
  assumes "(''integrity_owner_admission'', True) \<in> S"
  shows "launches kopia op S (\<lambda>_. {}) (run_integrity_check e op v)"
proof -
  define rest where "rest = State_Monad.bind (answer (te_ctx e)) (\<lambda>c. case ctx_err c of
      Some x \<Rightarrow> State_Monad.bind close_gate (\<lambda>_.
        State_Monad.bind (skip_task_step e op ''orchestration'' prepare_kind ''operation was canceled before integrity preparation'') (\<lambda>s1.
        State_Monad.bind (skip_task_step e op ''native'' check_kind ''operation was canceled before repository integrity check'') (\<lambda>s2.
        State_Monad.bind (skip_task_step e op ''orchestration'' cleanup_kind ''integrity resources were not prepared'') (\<lambda>s3.
        State_Monad.return ([] :: string, False, errors_join [Some x, s1, s2, s3])))))
    | None \<Rightarrow> State_Monad.bind (start_step e op ''orchestration'' prepare_kind) (\<lambda>started. case started of
        Some x \<Rightarrow> State_Monad.bind (skip_task_step e op ''native'' check_kind ''integrity preparation was not recorded'') (\<lambda>s1.
          State_Monad.bind (skip_task_step e op ''orchestration'' cleanup_kind ''integrity resources were not prepared'') (\<lambda>s2.
          State_Monad.return ([], False, errors_join [Some (wrap_error ''persist integrity cache preparation step'' x), s1, s2])))
      | None \<Rightarrow> prepared_check e op v))"
  have rest: "launches kopia op S' (\<lambda>_. {}) rest"
    if "(''integrity_owner_admission'', True) \<in> S'"
      "tv_engine v = ''kopia'' \<Longrightarrow> (''repository_storage_admission'', True) \<in> S'" for S'
    unfolding rest_def
    by (rule after_silent [OF silent_answer], rule launches_option, rule after_silent [OF silent_start], rule launches_option)
      (use that in \<open>simp_all add: prepared_check_launches silent_more [OF silent_two]
        silent_more [OF silent_bind [OF silent_close_gate silent_three]]\<close>)
  show ?thesis
  proof (cases "tv_engine v = ''kopia''")
    case True
    have "launches kopia op (insert (''repository_storage_admission'', True) S) (\<lambda>_. {}) rest"
      using assms by (intro rest) simp_all
    with True show ?thesis unfolding run_integrity_check_def rest_def [symmetric]
      by (simp, intro guarded [OF storage_admission_launches]) (simp_all add: silent_three)
  next
    case False
    with rest [of S] assms show ?thesis unfolding run_integrity_check_def rest_def [symmetric] by simp
  qed
qed

section \<open>Maintenance calls\<close>

lemma native_maintenance_launches:
  assumes "silent kopia op callback" and "before_maintenance kopia \<subseteq> insert (maintenance_kind, False) S"
  shows "launches kopia op S (\<lambda>_. {}) (native_maintenance e op v callback)"
  unfolding native_maintenance_def
proof (rule guarded [OF start_step_launches], goal_cases)
  case 1
  show ?case unfolding option.case
    by (rule then_silent [OF call_native_launches [OF assms(1)]])
      (use assms(2) in \<open>simp_all add: silent_bind silent_close_gate silent_finish_tracked silent_emit silent_return\<close>)
next
  case (2 x)
  show ?case by (simp add: silent_bind silent_close_gate silent_return)
qed

lemma silent_mutation_admission: "silent kopia op (mutation_admission e v)"
  unfolding mutation_admission_def by (intro silent_rules)

lemma silent_ensure: "silent kopia op (ensure_maintenance_owner e v body)"
  unfolding ensure_maintenance_owner_def
  by (rule silent_bind [OF silent_answer], rule silent_bind [OF silent_run_plan [OF silent_mutation_admission]], rule silent_return)

lemma silent_reassure: "silent kopia op (reassure_policies e v)"
  unfolding reassure_policies_def by (intro silent_rules silent_ensure)

lemma silent_return_unit: "silent kopia op (if b then close_gate else State_Monad.return ())"
  by (simp add: silent_close_gate silent_return)

definition reconciled_facts :: "task_vault \<times> go_error option \<Rightarrow> step_fact set" where
  "reconciled_facts r = (if snd r = None then {(reconcile_kind, True)} else {})"

lemma reconcile_step_launches: "launches kopia op {} reconciled_facts (reconcile_step e op v)"
  unfolding reconcile_step_def Let_def
proof (rule after_silent [OF silent_reassure], rule launches_prod, rule launches_prod,
    rule after_silent [OF silent_return_unit], rule launches_bind [OF finish_started_launches], goal_cases)
  case (1 reassured fresh y body err u finished)
  have skipped: "launches kopia op S reconciled_facts (State_Monad.bind (skip_task_step e op d k t)
      (\<lambda>skipped. State_Monad.return (fresh, errors_join [Some x, skipped])))" for S d k t x
    by (rule after_silent [OF silent_skip], rule launches_return) (simp add: reconciled_facts_def)
  show ?case
  proof (rule launches_option, goal_cases)
    case 1
    then show ?case by (intro launches_return) (simp add: reconciled_facts_def)
  next
    case (2 x)
    show ?case by (rule skipped)
  qed
qed

lemma reconcile_policies_launches: "launches kopia op {} reconciled_facts (reconcile_policies e op v)"
  unfolding reconcile_policies_def
proof (rule after_silent [OF silent_answer], rule launches_option, goal_cases)
  case (1 c)
  show ?case
  proof (rule after_silent [OF silent_start], rule launches_option, goal_cases)
    case (1 started)
    show ?case by (rule reconcile_step_launches)
  next
    case (2 started x)
    show ?case by (rule launches_return) (simp add: reconciled_facts_def)
  qed
next
  case (2 c x)
  show ?case
    by (rule after_silent [OF silent_close_gate], rule after_silent [OF silent_skip], rule after_silent [OF silent_skip],
        rule launches_return) (simp add: reconciled_facts_def)
qed

lemma kopia_maintenance_launches:
  assumes "(''repository_writer_storage_validation'', True) \<in> S"
  shows "launches True op S (\<lambda>_. {}) (kopia_maintenance e op v)"
  unfolding kopia_maintenance_def Let_def
proof (rule launches_bind [where T = reconciled_facts, OF launches_weaken [OF reconcile_policies_launches]],
    simp, simp, rule launches_prod, goal_cases)
  case (1 reconciled fresh err)
  have quiet: "silent True op (case err of
      Some x \<Rightarrow> if ownership_lost x then disable_maintenance e fresh (te_text e x) else State_Monad.return None
    | None \<Rightarrow> State_Monad.return None)"
    by (intro launch_branches silent_disable silent_return)
  show ?case
  proof (rule after_silent [OF quiet], rule launches_option, goal_cases)
    case (1 disabled)
    then have none: "err = None" by simp
    have ready: "before_maintenance True \<subseteq> insert (maintenance_kind, False)
        (insert (''maintenance_owner_revalidation'', True) (insert (reconcile_kind, True) S))"
      using assms by (auto simp: before_maintenance_def)
    have "launches True op (insert (reconcile_kind, True) S) (\<lambda>_. {})
        (State_Monad.bind (persist_owner_revalidation e op fresh) (\<lambda>owner. case owner of
          Some x \<Rightarrow> State_Monad.bind close_gate (\<lambda>_.
            State_Monad.bind (skip_task_step e op ''native'' maintenance_kind ''vault owner changed before native maintenance'')
              (\<lambda>skipped. State_Monad.return (fresh, [], False, errors_join [owner, skipped])))
        | None \<Rightarrow> State_Monad.bind (native_maintenance e op fresh (State_Monad.return None)) (\<lambda>r. State_Monad.return (fresh, r))))"
      by (rule guarded [OF owner_revalidation_launches])
        (simp_all add: then_silent [OF native_maintenance_launches [OF silent_return ready]] silent_return
          silent_bind silent_close_gate silent_skip)
    with 1 none \<open>reconciled = (fresh, err)\<close> show ?case by (simp add: reconciled_facts_def)
  next
    case (2 disabled x)
    show ?case by (rule launches_return) simp
  qed
qed

lemma restic_maintenance_launches:
  assumes "(''repository_writer_storage_validation'', True) \<in> S"
  shows "launches False op S (\<lambda>_. {}) (restic_maintenance e op v)"
proof -
  have "before_maintenance False \<subseteq> insert (maintenance_kind, False) S"
    using assms by (simp add: before_maintenance_def)
  then show ?thesis unfolding restic_maintenance_def
    by (intro then_silent [OF native_maintenance_launches [OF silent_of [OF owner_revalidation_launches]]] silent_return)
qed

section \<open>The whole task\<close>

definition admitted_facts :: "string \<Rightarrow> go_error option \<Rightarrow> step_fact set" where
  "admitted_facts operation r = (if r \<noteq> None then {} else
     {(if operation = ''maintenance'' then ''repository_writer_storage_validation'' else ''integrity_owner_admission'', True)})"

lemma refused_skip_launches:
  assumes "launches kopia op {} (\<lambda>r. if r = None then {F} else {}) m"
  shows "launches kopia op {} (\<lambda>r. if r = None then {F} else {})
    (State_Monad.bind m (\<lambda>err. case err of None \<Rightarrow> State_Monad.return None
       | Some x \<Rightarrow> State_Monad.bind (skip_task_step e op d k t) (\<lambda>s. State_Monad.return (errors_join [err, s]))))"
proof (rule launches_bind [OF assms], goal_cases)
  case (1 err)
  have skipped: "launches kopia op S (\<lambda>r. if r = None then {F} else {})
      (State_Monad.bind (skip_task_step e op d k t) (\<lambda>s. State_Monad.return (errors_join [Some x, s])))" for S x
    by (rule after_silent [OF silent_skip], rule launches_return) simp
  show ?case by (cases err) (simp_all add: launches_return skipped)
qed

lemma task_admission_launches:
  assumes "operation \<in> {''check'', ''maintenance''}"
  shows "launches kopia op {} (admitted_facts operation) (task_admission e op operation admitted)"
proof (cases admitted)
  case (Inl x)
  have "launches kopia op {} (admitted_facts o') (State_Monad.bind (skip_task_step e op d k t)
      (\<lambda>s. State_Monad.return (errors_join [Some y, s])))" for d k t y o'
    by (rule after_silent [OF silent_skip], rule launches_return) (simp add: admitted_facts_def)
  moreover have "launches kopia op {} (admitted_facts o') (State_Monad.return (Some y))" for y o'
    by (rule launches_return) (simp add: admitted_facts_def)
  ultimately show ?thesis by (simp add: Inl task_admission_def Let_def)
next
  case (Inr v)
  have facts: "admitted_facts ''maintenance'' = (\<lambda>r. if r = None then {(''repository_writer_storage_validation'', True)} else {})"
    "admitted_facts ''check'' = (\<lambda>r. if r = None then {(''integrity_owner_admission'', True)} else {})"
    by (simp_all add: admitted_facts_def fun_eq_iff)
  from assms consider "operation = ''maintenance''" | "operation = ''check''" by blast
  then show ?thesis
  proof cases
    case 1
    then show ?thesis using refused_skip_launches [OF writer_admission_launches] by (simp add: Inr task_admission_def facts)
  next
    case 2
    then show ?thesis using refused_skip_launches [OF integrity_owner_launches] by (simp add: Inr task_admission_def facts)
  qed
qed

lemma silent_resolve: "silent kopia op (resolve_engine e op operation v)"
  unfolding resolve_engine_def by (intro silent_rules silent_skip)

lemma task_work_launches:
  assumes "admitted_facts operation None \<subseteq> S" and "operation \<in> {''check'', ''maintenance''}"
  shows "launches (tv_engine v = ''kopia'') op S (\<lambda>_. {}) (task_work e op operation v)"
proof -
  consider "operation = ''maintenance''" "tv_engine v = ''kopia''" | "operation = ''maintenance''" "tv_engine v \<noteq> ''kopia''"
    | "operation = ''check''" using assms(2) by blast
  then show ?thesis
  proof cases
    case 1
    with assms(1) kopia_maintenance_launches [of S op e v] show ?thesis by (simp add: task_work_def admitted_facts_def)
  next
    case 2
    with assms(1) restic_maintenance_launches [of S op e v] show ?thesis by (simp add: task_work_def admitted_facts_def)
  next
    case 3
    with assms(1) have "(''integrity_owner_admission'', True) \<in> S" by (simp add: admitted_facts_def)
    then have "launches k op S (\<lambda>_. {}) (State_Monad.bind (run_integrity_check e op v) (\<lambda>r. State_Monad.return (v, r)))" for k
      by (intro then_silent [OF run_integrity_check_launches silent_return])
    with 3 show ?thesis by (simp add: task_work_def)
  qed
qed

definition admitted_engine :: "task_vault \<Rightarrow> task_vault result \<Rightarrow> bool" where
  "admitted_engine requested admitted = (tv_engine (case admitted of Inl _ \<Rightarrow> requested | Inr v \<Rightarrow> v) = ''kopia'')"

lemma admitted_work_launches:
  assumes "operation \<in> {''check'', ''maintenance''}"
  shows "silent (admitted_engine requested admitted) op (admitted_work e op operation requested admitted)"
  unfolding admitted_work_def Let_def admitted_engine_def
proof (rule launches_bind [OF task_admission_launches [OF assms]], rule launches_option, goal_cases)
  case (1 refused)
  show ?case
    by (rule after_silent [OF silent_resolve], rule launches_option, rule task_work_launches)
      (use 1 assms in \<open>simp_all add: launches_return\<close>)
next
  case (2 refused x)
  show ?case by (rule launches_return) simp
qed

lemma silent_prepare_notification: "silent kopia op (prepare_operation_notification e op operation status)"
  unfolding prepare_operation_notification_def by (intro silent_rules)

lemma silent_rclone_note: "silent kopia op (rclone_note e repo operation)"
  unfolding rclone_note_def by (intro silent_rules)

lemma silent_finish_row: "silent kopia op (finish_task_row e op repo operation status)"
  unfolding finish_task_row_def by (intro silent_rules)

lemma silent_retry: "silent kopia op m \<Longrightarrow> silent kopia op (retry_statement n final m)"
  by (induction n) (auto intro!: silent_bind silent_return split: option.split)

lemma silent_finish_task: "silent kopia op (finish_task e op operation v paused status body err)"
  unfolding finish_task_def Let_def
  by (intro silent_rules silent_rclone_note silent_prepare_notification silent_retry silent_finish_row silent_emit quiet_events)

text \<open>C22. The requested native command of a check is called only while its storage admission, both owner
  admissions and the preparation are recorded as succeeded and its own step is recorded; the native
  maintenance command only after the writer admission and, for Kopia, after the policies were
  reconciled and the owner was confirmed again.  This holds whatever the database, the context,
  the owner record and the engine answer.\<close>

theorem native_commands_admitted:
  assumes "operation \<in> {''check'', ''maintenance''}"
    and run: "run_state (run_repository_task e op operation scheduled v) w = (r, w')"
  shows "\<exists>evs. tw_trace w' = tw_trace w @ evs \<and>
    (\<forall>ev \<in> set evs. rightly_called (admitted_engine v (te_admit e (tw_tick w) v)) op ev)"
proof -
  let ?k = "admitted_engine v (te_admit e (tw_tick w) v)"
  have "silent ?k op (State_Monad.bind (admitted_work e op operation v (te_admit e (tw_tick w) v))
      (\<lambda>worked. case worked of (v', body, ok, err) \<Rightarrow>
        State_Monad.bind close_gate (\<lambda>_. State_Monad.bind (answer (te_ctx e)) (\<lambda>c.
          if (case err of None \<Rightarrow> False | Some x \<Rightarrow> errors_is x err_step_finalization)
          then State_Monad.return (combined_task_output e body err, False, err)
          else finish_task e op operation v' paused (repository_task_status c err ok) (combined_task_output e body err) err))))"
    for paused
    by (rule silent_bind [OF admitted_work_launches [OF assms(1)]])
      (intro launch_branches silent_bind silent_close_gate silent_answer silent_return silent_finish_task)
  moreover from run obtain paused where "run_state (State_Monad.bind (admitted_work e op operation v (te_admit e (tw_tick w) v))
      (\<lambda>worked. case worked of (v', body, ok, err) \<Rightarrow>
        State_Monad.bind close_gate (\<lambda>_. State_Monad.bind (answer (te_ctx e)) (\<lambda>c.
          if (case err of None \<Rightarrow> False | Some x \<Rightarrow> errors_is x err_step_finalization)
          then State_Monad.return (combined_task_output e body err, False, err)
          else finish_task e op operation v' paused (repository_task_status c err ok) (combined_task_output e body err) err))))
      (w\<lparr>tw_tick := Suc (tw_tick w)\<rparr>) = (r, w')"
    by (auto simp: run_repository_task_def answer_def Let_def)
  ultimately have "adds_trace ?k op (w\<lparr>tw_tick := Suc (tw_tick w)\<rparr>) w'" by (blast dest: launchesD)
  then show ?thesis by (simp add: adds_trace_def)
qed

lemma native_commands_admitted_witness:
  "\<exists>evs. tw_trace (snd (run_state (run_repository_task sample_env ''o'' ''check'' True sample_vault) sample_world)) = evs \<and>
    (\<forall>ev \<in> set evs. rightly_called False ''o'' ev)"
proof -
  obtain r w' where run: "run_state (run_repository_task sample_env ''o'' ''check'' True sample_vault) sample_world = (r, w')"
    by fastforce
  have "admitted_engine sample_vault (te_admit sample_env (tw_tick sample_world) sample_vault) = False"
    by (simp add: admitted_engine_def sample_env_def sample_vault_def)
  with native_commands_admitted [OF _ run] run show ?thesis by (simp add: sample_world_def)
qed

end
