(* ===== verification/TaskCleanup.thy ===== *)
theory TaskCleanup
  imports TaskSafety
begin

text \<open>
  The resources an integrity check prepares (its own cache and configuration) are removed exactly
  once, after everything else of the check, on every path.
\<close>

section \<open>The resources a part of the task prepares and removes\<close>

text \<open>What a record says of the native command and of the resources: the command is called and returns, resources
  are prepared and removed.\<close>

datatype resource_use = Prepared | Called | Returned | Removed

definition resource_use :: "task_event \<Rightarrow> resource_use option" where
  "resource_use ev = (case ev of ResourcesPrepared \<Rightarrow> Some Prepared | NativeCalled _ _ \<Rightarrow> Some Called
     | NativeReturned \<Rightarrow> Some Returned | CleanupRan \<Rightarrow> Some Removed | _ \<Rightarrow> None)"

lemma resource_use_simps [simp]:
  "resource_use ResourcesPrepared = Some Prepared" "resource_use CleanupRan = Some Removed"
  "resource_use (NativeCalled k d) = Some Called" "resource_use NativeReturned = Some Returned"
  "resource_use (SizeDirty r) = None" "resource_use (NotificationSent i s) = None"
  by (simp_all add: resource_use_def)

definition resource_uses :: "task_event list \<Rightarrow> resource_use list" where
  "resource_uses evs = List.map_filter resource_use evs"

lemma resource_uses_simps [simp]:
  "resource_uses [] = []" "resource_uses (a @ b) = resource_uses a @ resource_uses b"
  "resource_uses (ev # evs) = (case resource_use ev of None \<Rightarrow> resource_uses evs | Some u \<Rightarrow> u # resource_uses evs)"
  by (simp_all add: resource_uses_def List.map_filter_def split: option.splits)

text \<open>Every run of a part adds one of the orders \<open>L\<close> to the record.\<close>

definition uses :: "resource_use list set \<Rightarrow> 'a task \<Rightarrow> bool" where
  "uses L m \<longleftrightarrow> (\<forall>w. wp m (\<lambda>_ w'. \<exists>evs. tw_trace w' = tw_trace w @ evs \<and> resource_uses evs \<in> L) w)"

abbreviation idle :: "'a task \<Rightarrow> bool" where
  "idle m \<equiv> uses {[]} m"

lemma usesD: "uses L m \<Longrightarrow> run_state m w = (r, w') \<Longrightarrow> \<exists>evs. tw_trace w' = tw_trace w @ evs \<and> resource_uses evs \<in> L"
  unfolding uses_def by (drule spec [of _ w], drule (1) wp_run)

lemma usesI:
  "(\<And>w r w'. run_state m w = (r, w') \<Longrightarrow> \<exists>evs. tw_trace w' = tw_trace w @ evs \<and> resource_uses evs \<in> L) \<Longrightarrow> uses L m"
  unfolding uses_def by (intro allI wpI) blast

lemma uses_bind:
  assumes "uses L m" and "\<And>r. uses L' (f r)"
  shows "uses {a @ b | a b. a \<in> L \<and> b \<in> L'} (State_Monad.bind m f)"
proof (rule usesI, erule run_bindE)
  fix w r w' x w1
  assume run: "run_state m w = (x, w1)" "run_state (f x) w1 = (r, w')"
  from usesD [OF assms(1) run(1)] obtain c where c: "tw_trace w1 = tw_trace w @ c" "resource_uses c \<in> L" by blast
  from usesD [OF assms(2) run(2)] obtain d where d: "tw_trace w' = tw_trace w1 @ d" "resource_uses d \<in> L'" by blast
  show "\<exists>evs. tw_trace w' = tw_trace w @ evs \<and> resource_uses evs \<in> {a @ b | a b. a \<in> L \<and> b \<in> L'}"
    using c d by (intro exI [of _ "c @ d"]) auto
qed

lemma uses_more: "uses L m \<Longrightarrow> L \<subseteq> L' \<Longrightarrow> uses L' m"
  by (rule usesI) (blast dest: usesD)

lemma uses_later: "idle m \<Longrightarrow> (\<And>r. uses l (f r)) \<Longrightarrow> uses l (State_Monad.bind m f)"
  by (rule uses_more [OF uses_bind]) auto

lemma uses_first: "uses l m \<Longrightarrow> (\<And>r. idle (f r)) \<Longrightarrow> uses l (State_Monad.bind m f)"
  by (rule uses_more [OF uses_bind]) auto

lemma uses_same: "(\<And>w r w'. run_state m w = (r, w') \<Longrightarrow> tw_trace w' = tw_trace w) \<Longrightarrow> idle m"
  by (rule usesI) simp

lemma uses_return [simp, intro]: "idle (State_Monad.return x)"
  by (rule uses_same) simp

lemma uses_option [intro]:
  "uses l m \<Longrightarrow> (\<And>y. uses l (f y)) \<Longrightarrow> uses l (case x of None \<Rightarrow> m | Some y \<Rightarrow> f y)"
  by (cases x) simp_all

lemma uses_sum [intro]:
  "(\<And>y. uses l (f y)) \<Longrightarrow> (\<And>y. uses l (g y)) \<Longrightarrow> uses l (case x of Inl y \<Rightarrow> f y | Inr y \<Rightarrow> g y)"
  by (cases x) simp_all

lemma uses_if [intro]: "uses l m \<Longrightarrow> uses l m' \<Longrightarrow> uses l (if b then m else m')"
  by simp

lemma uses_prod [intro]: "(\<And>x y. uses l (f x y)) \<Longrightarrow> uses l (case p of (x, y) \<Rightarrow> f x y)"
  by (cases p) simp

lemmas none_rules = uses_later uses_return uses_option uses_sum uses_if uses_prod

section \<open>Parts that touch no resource\<close>

lemma uses_answer: "idle (answer f)"
  by (rule uses_same) (auto simp: answer_def)

lemma uses_close_gate: "idle close_gate"
  by (rule uses_same) (auto simp: close_gate_def)

lemma uses_in_reconnect: "idle (in_reconnect f)"
  by (rule uses_same) (auto simp: in_reconnect_def split: prod.splits)

lemma uses_emit: "resource_use ev = Some u \<Longrightarrow> uses {[u]} (emit ev)"
  by (rule usesI) (auto simp: emit_def)

lemma uses_emit_plain: "resource_use ev = None \<Longrightarrow> idle (emit ev)"
  by (rule usesI) (auto simp: emit_def)

lemma uses_start: "idle (start_step e op domain kind)"
  by (rule uses_same) (rule start_step_trace)

lemma uses_finish: "idle (finish_step e op kind status body)"
  by (rule uses_same) (rule finish_step_trace)

lemma uses_statement: "idle (statement e f)"
  by (rule uses_same) (rule statement_trace)

lemmas plain_rules = uses_answer uses_close_gate uses_in_reconnect uses_start uses_finish uses_statement none_rules

lemma uses_finish_started: "idle (finish_started_step e op kind status body)"
  unfolding finish_started_step_def by (intro plain_rules)

lemma uses_skip: "idle (skip_task_step e op domain kind reason)"
  unfolding skip_task_step_def by (intro plain_rules)

lemma uses_disable: "idle (disable_integrity e v t)" "idle (disable_maintenance e v t)"
  unfolding disable_integrity_def disable_maintenance_def by (intro plain_rules)+

lemma uses_assertions: "idle (assert_repository_owner e v)" "idle (assert_repository_writer e v)"
  unfolding assert_repository_writer_def assert_repository_owner_def by (intro plain_rules)+

lemma uses_admission_step:
  "idle assertion \<Longrightarrow> (\<And>t. idle (disable t)) \<Longrightarrow> idle (admission_step e op kind what granted assertion schedule disable)"
  unfolding admission_step_def Let_def by (intro plain_rules)

lemma uses_admissions:
  "idle (persist_integrity_owner_admission e op v kind)" "idle (persist_owner_admission e op v kind)"
  "idle (persist_writer_admission e op v)" "idle (persist_owner_revalidation e op v)"
  "idle (persist_storage_admission e op)"
  unfolding persist_integrity_owner_admission_def persist_owner_admission_def persist_writer_admission_def
    persist_owner_revalidation_def persist_storage_admission_def
  by (intro uses_admission_step uses_assertions uses_disable plain_rules)+

lemma uses_failure_step: "idle (failure_step e op kind what body)"
  unfolding failure_step_def by (intro plain_rules uses_finish_started)

lemma uses_finish_tracked: "idle (finish_tracked_native e op kind reply)"
  unfolding finish_tracked_native_def Let_def by (intro plain_rules uses_failure_step uses_finish_started)

lemma uses_run_plan: "idle callback \<Longrightarrow> idle (run_plan callback p)"
  by (induction p) (auto intro: uses_later)

lemma uses_get: "idle State_Monad.get"
  by (rule uses_same) simp

lemma uses_call_native:
  assumes "idle callback"
  shows "uses {[Called, Returned]} (call_native e kind callback)"
proof -
  have rest: "uses {[Returned]} (State_Monad.bind (answer (te_native e)) (\<lambda>p. State_Monad.bind (run_plan callback p)
      (\<lambda>r. State_Monad.bind (emit NativeReturned) (\<lambda>_. State_Monad.return r))))"
    by (intro uses_later [OF uses_answer] uses_later [OF uses_run_plan [OF assms]] uses_first [OF uses_emit] uses_return) simp
  have "uses {[Called, Returned]} (State_Monad.bind (emit (NativeCalled kind d)) (\<lambda>_. State_Monad.bind (answer (te_native e))
      (\<lambda>p. State_Monad.bind (run_plan callback p) (\<lambda>r. State_Monad.bind (emit NativeReturned) (\<lambda>_. State_Monad.return r)))))" for d
    using uses_bind [OF uses_emit rest, of "NativeCalled kind d" Called] by simp
  then show ?thesis unfolding call_native_def by (intro uses_later [OF uses_get])
qed

section \<open>The check\<close>

lemma uses_cleanup: "uses {[Removed]} (run_cleanup e op)"
proof -
  have rest: "idle (State_Monad.bind (answer (te_cleanup e)) (\<lambda>failed. case started of
      Some x \<Rightarrow> State_Monad.return (errors_join [failed, Some (wrap_error ''persist integrity cleanup step'' x)])
    | None \<Rightarrow> State_Monad.bind (finish_started_step e op cleanup_kind
        (if failed = None then ''succeeded'' else ''failed'')
        (case failed of None \<Rightarrow> ''operation-owned integrity resources removed'' | Some x \<Rightarrow> te_text e x))
        (\<lambda>finished. State_Monad.return (errors_join [failed, finished]))))" for started
    by (intro plain_rules uses_finish_started)
  have "uses {[Removed]} (emit CleanupRan)" by (rule uses_emit) simp
  then show ?thesis unfolding run_cleanup_def
    by (intro uses_later [OF uses_close_gate] uses_later [OF uses_start] uses_first [OF _ rest])
qed

text \<open>The orders a check may follow once its resources are there.\<close>

abbreviation checked :: "resource_use list set" where
  "checked \<equiv> {[Removed], [Called, Returned, Removed]}"

lemma checked_removed: "uses {[Removed]} m \<Longrightarrow> uses checked m"
  by (erule uses_more) simp

lemma uses_native_check:
  assumes "uses {[Removed]} cleanup"
  shows "uses checked (native_check e op v cleanup)"
proof -
  have after: "uses {[Removed]} (State_Monad.bind close_gate (\<lambda>_. State_Monad.bind (finish_tracked_native e op check_kind reply)
      (\<lambda>persisted. State_Monad.bind cleanup (\<lambda>cleaned. State_Monad.return (nr_output reply,
        requested_native_succeeded e (nr_err reply), errors_join [persisted, cleaned])))))" for reply
    by (intro uses_later [OF uses_close_gate] uses_later [OF uses_finish_tracked] uses_first [OF assms] uses_return)
  show ?thesis unfolding native_check_def
  proof (intro uses_later [OF uses_start] uses_option)
    show "uses checked (State_Monad.bind (call_native e check_kind
        (persist_integrity_owner_admission e op v ''integrity_owner_final_admission'')) (\<lambda>reply. State_Monad.bind close_gate
        (\<lambda>_. State_Monad.bind (finish_tracked_native e op check_kind reply) (\<lambda>persisted. State_Monad.bind cleanup
        (\<lambda>cleaned. State_Monad.return (nr_output reply, requested_native_succeeded e (nr_err reply), errors_join [persisted, cleaned]))))))"
      by (rule uses_more [OF uses_bind [OF uses_call_native [OF uses_admissions(1)] after]]) simp
  qed (intro checked_removed uses_first [OF assms] uses_return)
qed

lemma uses_admitted_check:
  assumes "uses {[Removed]} cleanup"
  shows "uses checked (admitted_check e op v cleanup)"
proof -
  have storage: "idle (if b then persist_storage_admission e op else State_Monad.return None)" for b
    by (intro uses_if uses_admissions uses_return)
  have skipped: "uses checked (State_Monad.bind (skip_task_step e op d k t) (\<lambda>s. State_Monad.bind cleanup
      (\<lambda>c. State_Monad.return (g s c))))" for d k t and g :: "go_error option \<Rightarrow> go_error option \<Rightarrow> string \<times> bool \<times> go_error option"
    by (intro checked_removed uses_later [OF uses_skip] uses_first [OF assms] uses_return)
  show ?thesis unfolding admitted_check_def
    by (intro uses_later [OF storage] uses_option uses_later [OF uses_admissions(1)] uses_native_check assms skipped)
qed

text \<open>The orders of a whole check and of a maintenance run.\<close>

abbreviation check_orders :: "resource_use list set" where
  "check_orders \<equiv> {[], [Prepared, Removed], [Prepared, Called, Returned, Removed]}"

abbreviation maintenance_orders :: "resource_use list set" where
  "maintenance_orders \<equiv> {[], [Called, Returned]}"

lemma idle_more: "idle m \<Longrightarrow> uses check_orders m" "idle n \<Longrightarrow> uses maintenance_orders n"
  by (rule uses_more, assumption, simp)+

lemma orders_prepared_check: "uses check_orders (prepared_check e op v)"
  unfolding prepared_check_def
proof (rule uses_later [OF uses_answer])
  fix prepared :: prepare_reply
  have prep: "uses {[Prepared]} (emit ResourcesPrepared)" by (rule uses_emit) simp
  have clean: "uses {[Removed]} (State_Monad.bind (run_cleanup e op) (\<lambda>c. State_Monad.return (g c)))" for g :: "go_error option \<Rightarrow> string \<times> bool \<times> go_error option"
    by (rule uses_first [OF uses_cleanup]) simp
  have none: "idle (State_Monad.bind close_gate (\<lambda>_. State_Monad.bind (skip_task_step e op d k t) (\<lambda>c. State_Monad.return (g c))))"
    for d k t and g :: "go_error option \<Rightarrow> string \<times> bool \<times> go_error option"
    by (intro uses_later uses_close_gate uses_skip uses_return)
  show "uses check_orders (State_Monad.bind (if pr_err prepared = None \<or> pr_cleanup prepared then emit ResourcesPrepared else State_Monad.return ())
      (\<lambda>_. case pr_err prepared of
        Some x \<Rightarrow> State_Monad.bind (finish_started_step e op prepare_kind ''failed'' (combined_task_output e (pr_output prepared) (Some x)))
          (\<lambda>persisted. State_Monad.bind (skip_task_step e op ''native'' check_kind ''integrity preparation failed'')
          (\<lambda>skipped. State_Monad.bind (if pr_cleanup prepared then run_cleanup e op
              else State_Monad.bind close_gate (\<lambda>_. skip_task_step e op ''orchestration'' cleanup_kind ''integrity resources were not created''))
          (\<lambda>cleaned. State_Monad.return (pr_output prepared, False, errors_join [Some x, persisted, skipped, cleaned]))))
      | None \<Rightarrow> State_Monad.bind (finish_started_step e op prepare_kind ''succeeded''
            (if trim_space (pr_output prepared) = [] then ''operation-scoped native cache policy prepared''
             else trim_space (pr_output prepared)))
          (\<lambda>persisted. case persisted of
             Some x \<Rightarrow> State_Monad.bind (skip_task_step e op ''native'' check_kind ''cache preparation outcome was not persisted'')
               (\<lambda>skipped. State_Monad.bind (run_cleanup e op) (\<lambda>cleaned. State_Monad.return ([], False, errors_join
                 [Some (wrap_error ''persist integrity cache preparation outcome'' x), skipped, cleaned])))
           | None \<Rightarrow> admitted_check e op v (run_cleanup e op))))"
    (is "uses _ (State_Monad.bind ?p (\<lambda>_. ?m))")
  proof (cases "pr_err prepared = None \<or> pr_cleanup prepared")
    case True
    have "uses checked ?m"
    proof (cases "pr_err prepared")
      case None
      show ?thesis unfolding None option.case
        by (intro uses_later [OF uses_finish_started] uses_option uses_admitted_check uses_cleanup)
          (intro checked_removed uses_later [OF uses_skip] clean)
    next
      case (Some x)
      with True have "pr_cleanup prepared" by simp
      then show ?thesis unfolding Some option.case
        by (simp, intro checked_removed uses_later [OF uses_finish_started] uses_later [OF uses_skip] clean)
    qed
    with prep True have "uses {a @ b | a b. a \<in> {[Prepared]} \<and> b \<in> checked} (State_Monad.bind ?p (\<lambda>_. ?m))"
      by (intro uses_bind) simp_all
    then show ?thesis by (rule uses_more) auto
  next
    case False
    then obtain x where x: "pr_err prepared = Some x" by auto
    then have "idle ?m" using False
      by (simp, intro uses_later [OF uses_finish_started] uses_later [OF uses_skip] none)
    with False x show ?thesis by (intro idle_more uses_later) simp_all
  qed
qed

lemma orders_integrity_check: "uses check_orders (run_integrity_check e op v)"
proof -
  have storage: "idle (if b then persist_storage_admission e op else State_Monad.return None)" for b
    by (intro uses_if uses_admissions uses_return)
  have two: "uses check_orders (State_Monad.bind (skip_task_step e op d1 k1 t1) (\<lambda>a. State_Monad.bind (skip_task_step e op d2 k2 t2)
      (\<lambda>b. State_Monad.return (f a b))))" for d1 k1 t1 d2 k2 t2 and f :: "go_error option \<Rightarrow> go_error option \<Rightarrow> string \<times> bool \<times> go_error option"
    by (rule idle_more(1)) (intro uses_later uses_skip uses_return)
  show ?thesis unfolding run_integrity_check_def
    by (intro uses_later [OF storage] uses_option uses_later [OF uses_answer] uses_later [OF uses_start]
        uses_later [OF uses_close_gate] orders_prepared_check two uses_later [OF uses_skip])
qed

section \<open>The rest of the task\<close>

lemma uses_native_maintenance:
  assumes "idle callback"
  shows "uses maintenance_orders (native_maintenance e op v callback)"
proof -
  have after: "idle (State_Monad.bind close_gate (\<lambda>_. State_Monad.bind
      (if requested_mutation_started e reply then emit (SizeDirty (tv_id v)) else State_Monad.return ())
      (\<lambda>_. State_Monad.bind (finish_tracked_native e op maintenance_kind reply)
      (\<lambda>err. State_Monad.return (nr_output reply, requested_native_succeeded e (nr_err reply), err)))))" for reply
    by (intro plain_rules uses_finish_tracked uses_emit_plain) simp
  show ?thesis unfolding native_maintenance_def
  proof (intro uses_later [OF uses_start] uses_option)
    show "uses maintenance_orders (State_Monad.bind (call_native e maintenance_kind callback) (\<lambda>reply. State_Monad.bind close_gate
        (\<lambda>_. State_Monad.bind (if requested_mutation_started e reply then emit (SizeDirty (tv_id v)) else State_Monad.return ())
        (\<lambda>_. State_Monad.bind (finish_tracked_native e op maintenance_kind reply)
        (\<lambda>err. State_Monad.return (nr_output reply, requested_native_succeeded e (nr_err reply), err))))))"
      by (rule uses_more [OF uses_first [OF uses_call_native [OF assms] after]]) simp
  qed (intro idle_more plain_rules)
qed

lemma uses_reassure: "idle (reassure_policies e v)"
  unfolding reassure_policies_def ensure_maintenance_owner_def mutation_admission_def
  by (intro plain_rules uses_run_plan)

lemma uses_reconcile: "idle (reconcile_policies e op v)"
  unfolding reconcile_policies_def reconcile_step_def Let_def
  by (intro plain_rules uses_reassure uses_finish_started uses_skip)

lemma orders_maintenance:
  "uses maintenance_orders (kopia_maintenance e op v)" "uses maintenance_orders (restic_maintenance e op v)"
proof -
  have run: "uses maintenance_orders (State_Monad.bind (native_maintenance e op v' callback) (\<lambda>r. State_Monad.return (v', r)))"
    if "idle callback" for callback v'
    by (rule uses_first [OF uses_native_maintenance [OF that]]) simp
  show "uses maintenance_orders (restic_maintenance e op v)"
    unfolding restic_maintenance_def by (rule run) (rule uses_admissions)
  have disabled: "idle (case err of Some x \<Rightarrow> if ownership_lost x then disable_maintenance e fresh (te_text e x)
      else State_Monad.return None | None \<Rightarrow> State_Monad.return None)" for err fresh
    by (intro plain_rules uses_disable)
  show "uses maintenance_orders (kopia_maintenance e op v)"
    unfolding kopia_maintenance_def Let_def
    by (rule uses_later [OF uses_reconcile])
      (auto intro!: uses_later [OF disabled] uses_option uses_later [OF uses_admissions(4)] run
        idle_more(2) [OF uses_later [OF uses_close_gate]] uses_later [OF uses_skip] idle_more(2) [OF uses_return] split: prod.split)
qed

lemma uses_task_admission: "idle (task_admission e op operation admitted)"
  unfolding task_admission_def Let_def by (intro plain_rules uses_skip uses_admissions)

lemma uses_resolve: "idle (resolve_engine e op operation v)"
  unfolding resolve_engine_def by (intro plain_rules uses_skip)

text \<open>The orders of a task.\<close>

definition task_orders :: "string \<Rightarrow> resource_use list set" where
  "task_orders operation = (if operation = ''maintenance'' then maintenance_orders else check_orders)"

lemma idle_task: "idle m \<Longrightarrow> uses (task_orders operation) m"
  by (rule uses_more, assumption) (simp add: task_orders_def)

lemma orders_task_work: "uses (task_orders operation) (task_work e op operation v)"
proof (cases "operation = ''maintenance''")
  case True
  then show ?thesis by (simp add: task_orders_def task_work_def orders_maintenance)
next
  case False
  have "uses check_orders (State_Monad.bind (run_integrity_check e op v) (\<lambda>r. State_Monad.return (v, r)))"
    by (rule uses_first [OF orders_integrity_check]) simp
  with False show ?thesis by (simp add: task_orders_def task_work_def)
qed

lemma orders_work: "uses (task_orders operation) (admitted_work e op operation requested admitted)"
  unfolding admitted_work_def Let_def
  by (intro uses_later [OF uses_task_admission] uses_option uses_later [OF uses_resolve] orders_task_work idle_task [OF uses_return])

lemma uses_finish_task: "idle (finish_task e op operation v paused status body err)"
proof -
  have remark: "idle (rclone_note e repo operation)" for repo
    unfolding rclone_note_def by (intro plain_rules)
  have announce: "idle (prepare_operation_notification e op operation status)"
    unfolding prepare_operation_notification_def by (intro plain_rules)
  have row: "idle (finish_task_row e op repo operation status)" for repo
    unfolding finish_task_row_def by (intro plain_rules)
  have retried: "idle (retry_statement n final (finish_task_row e op repo operation status))" for n final repo
    by (induction n) (auto intro!: uses_later row split: option.split)
  show ?thesis unfolding finish_task_def Let_def
    by (intro plain_rules remark announce retried uses_emit_plain) simp_all
qed

text \<open>C23. A check removes what it prepared exactly once, and only after its native command has returned; where it
  prepared nothing it calls no command.  Maintenance calls its command at most once and prepares nothing.  Whatever fails in between,
  over the whole run the preparation, the call of the command, its return and the removal
  happen in one of these orders and never twice.\<close>

theorem prepared_resources_removed:
  "\<exists>evs. tw_trace (snd (run_state (run_repository_task e op operation scheduled v) w)) = tw_trace w @ evs \<and>
    List.map_filter resource_use evs \<in> (if operation = ''maintenance'' then {[], [Called, Returned]}
      else {[], [Prepared, Removed], [Prepared, Called, Returned, Removed]})"
proof -
  have "uses (task_orders operation) (run_repository_task e op operation scheduled v)"
    unfolding run_repository_task_def Let_def
    by (intro uses_later [OF uses_answer] uses_first [OF orders_work] plain_rules uses_finish_task)
  then show ?thesis
    by (cases "run_state (run_repository_task e op operation scheduled v) w")
      (auto dest!: usesD simp: task_orders_def resource_uses_def)
qed

end
