(* ===== verification/StorageBinding.thy ===== *)
theory StorageBinding
  imports StorageDecision
begin

text \<open>
  The storage binding columns of a backup job (\<open>database/storage_binding.go\<close>): which versions
  are the retired ones, when a job's binding is valid, and the one-time conversion of a retired
  binding, which is a compare-and-swap on every column it was observed against.
\<close>

section \<open>Columns\<close>

record job_binding =
  jb_source :: string
  jb_state :: string
  jb_alias :: string
  jb_version :: string
  jb_key :: string
  jb_json :: string

definition validate_storage_binding ::
  "platform \<Rightarrow> binding_json \<Rightarrow> string \<Rightarrow> string \<Rightarrow> string \<Rightarrow> string \<Rightarrow> go_error option" where
  "validate_storage_binding p j version key json configured =
     (case decode_binding p j version key json configured of Inl e \<Rightarrow> Some e | Inr _ \<Rightarrow> None)"

definition legacy_storage_binding :: "string \<Rightarrow> bool" where
  "legacy_storage_binding version \<longleftrightarrow> version = legacy_binding_version"

definition normalized_binding_state :: "string \<Rightarrow> string" where
  "normalized_binding_state state = (if state = [] then ''bound'' else state)"

definition source_binding_records_no_facts :: "platform \<Rightarrow> binding_json \<Rightarrow> job_binding \<Rightarrow> bool" where
  "source_binding_records_no_facts p j b \<longleftrightarrow>
     normalized_binding_state (jb_state b) = ''bound'' \<and> jb_version b = binding_version \<and>
     (case decode_binding p j (jb_version b) (jb_key b) (jb_json b) (jb_source b) of
        Inl _ \<Rightarrow> False
      | Inr (observed, legacy) \<Rightarrow> \<not> legacy \<and> facts_empty observed)"

definition validate_job_source_binding :: "platform \<Rightarrow> binding_json \<Rightarrow> bool \<Rightarrow> job_binding \<Rightarrow> go_error option" where
  "validate_job_source_binding p j enabled b =
     (let state = normalized_binding_state (jb_state b) in
      if state = ''unbound_imported'' then
        (if enabled \<or> jb_version b \<noteq> [] \<or> jb_key b \<noteq> [] \<or> jb_json b \<noteq> []
         then Some (new_error ''an imported unbound source must remain disabled and contain no local storage binding'')
         else None)
      else if state \<noteq> ''bound'' then Some (new_error ''source binding state is invalid'')
      else validate_storage_binding p j (jb_version b) (jb_key b) (jb_json b) (jb_source b))"

definition equivalent_source_binding :: "job_binding \<Rightarrow> job_binding \<Rightarrow> bool" where
  "equivalent_source_binding l r \<longleftrightarrow>
     (jb_version l = jb_version r \<and> jb_key l = jb_key r \<and> jb_json l = jb_json r) \<or>
     legacy_storage_binding (jb_version l) \<noteq> legacy_storage_binding (jb_version r)"

text \<open>The row after the conversion; a row that changed since the probe keeps its binding.\<close>

definition convert_legacy_source_binding ::
  "platform \<Rightarrow> binding_json \<Rightarrow> conversion \<Rightarrow> job_binding \<Rightarrow> job_binding result" where
  "convert_legacy_source_binding p j c b =
     (if \<not> legacy_storage_binding (cv_from_version c) \<or> cv_to_version c \<noteq> binding_version
      then Inl (new_error ''source binding conversion is invalid'')
      else case validate_storage_binding p j (cv_to_version c) (cv_to_key c) (cv_to_json c) (jb_source b) of
        Some e \<Rightarrow> Inl (wrap_error ''converted source binding is invalid'' e)
      | None \<Rightarrow>
          (let alias = (if cv_location c = jb_source b then [] else cv_location c) in
           if jb_state b = ''bound'' \<and> jb_version b = cv_from_version c \<and> jb_key b = cv_from_key c \<and>
              jb_json b = cv_from_json c \<and> jb_alias b = alias
           then Inr (b\<lparr>jb_version := cv_to_version c, jb_key := cv_to_key c, jb_json := cv_to_json c\<rparr>)
           else Inr b))"

section \<open>Conversion\<close>

text \<open>A conversion writes nothing but the three binding columns of a bound row in the retired format,
  leaves a valid binding in the current format and never touches the source or the alias; done again
  it changes nothing.\<close>

lemma conversion_exact:
  assumes "convert_legacy_source_binding p j c b = Inr b'"
  shows "b' = b \<or> (legacy_storage_binding (jb_version b) \<and> jb_state b = ''bound'' \<and>
      b' = b\<lparr>jb_version := binding_version, jb_key := cv_to_key c, jb_json := cv_to_json c\<rparr> \<and>
      validate_job_source_binding p j enabled b' = None)"
  using assms by (auto simp: convert_legacy_source_binding_def Let_def validate_job_source_binding_def
      normalized_binding_state_def split: if_splits option.splits)

lemma conversion_once:
  assumes "convert_legacy_source_binding p j c b = Inr b'"
  shows "convert_legacy_source_binding p j c b' = Inr b'"
proof (cases "b' = b")
  case True
  with assms show ?thesis by simp
next
  case False
  with conversion_exact [OF assms] have same: "jb_version b' = binding_version" "jb_source b' = jb_source b" by auto
  have guards: "legacy_storage_binding (cv_from_version c)" "cv_to_version c = binding_version"
    "validate_storage_binding p j (cv_to_version c) (cv_to_key c) (cv_to_json c) (jb_source b) = None"
    using assms by (simp_all add: convert_legacy_source_binding_def split: if_splits option.splits)
  moreover have "jb_version b' \<noteq> cv_from_version c"
    using guards(1) same(1) by (auto simp: legacy_storage_binding_def binding_version_def legacy_binding_version_def)
  ultimately show ?thesis using same(2) by (simp add: convert_legacy_source_binding_def)
qed

text \<open>The comparison accepts a row before and after its conversion.\<close>

lemma conversion_equivalent:
  assumes "convert_legacy_source_binding p j c b = Inr b'"
  shows "equivalent_source_binding b b' \<and> equivalent_source_binding b' b"
proof -
  have new: "\<not> legacy_storage_binding binding_version"
    by (simp add: legacy_storage_binding_def binding_version_def legacy_binding_version_def)
  from conversion_exact [OF assms, of False] show ?thesis
  proof
    assume "b' = b"
    then show ?thesis by (simp add: equivalent_source_binding_def)
  next
    assume c: "legacy_storage_binding (jb_version b) \<and> jb_state b = ''bound'' \<and>
      b' = b\<lparr>jb_version := binding_version, jb_key := cv_to_key c, jb_json := cv_to_json c\<rparr> \<and>
      validate_job_source_binding p j False b' = None"
    then have "jb_version b' = binding_version" by simp
    with c new show ?thesis by (simp add: equivalent_source_binding_def)
  qed
qed

end
