(* ===== verification/KopiaPolicy.thy ===== *)
theory KopiaPolicy
  imports GoErrors "HOL-Library.List_Lexorder" "HOL-Library.Char_ord"
begin

text \<open>
  The durable policy state of a Kopia vault (\<open>database/kopia_policy.go\<close>): which policy its jobs ask
  for, which one was last proved on the vault, and the fence of the process that may still be applying one.
  A digest stands for the policy derived from the jobs; the fences are files of the operating system.
\<close>

section \<open>The table\<close>

record policy_row =
  kp_state :: string
  kp_desired :: string
  kp_applied :: string
  kp_error :: string
  kp_reconciled :: string
  kp_fence :: string
  kp_proof :: string

type_synonym policy_table = "string \<rightharpoonup> policy_row"

definition err_kopia_policy_not_ready :: go_error where
  "err_kopia_policy_not_ready = new_error ''Kopia policy reconciliation is not ready''"

definition err_policy_retry_unavailable :: go_error where
  "err_policy_retry_unavailable = new_error ''Kopia policy reconciliation is not in an error state''"

definition fence_held_text :: string where
  "fence_held_text = ''prior Kopia policy process is not proven inactive''"

definition err_fence_held :: go_error where
  "err_fence_held = new_error fence_held_text"

text \<open>An \<open>UPDATE\<close> of the row of one vault; a row the condition does not match is an error.\<close>

definition change_policy ::
  "string \<Rightarrow> (policy_row \<Rightarrow> bool) \<Rightarrow> (policy_row \<Rightarrow> policy_row) \<Rightarrow> go_error \<Rightarrow> policy_table \<Rightarrow> policy_table result" where
  "change_policy repo ok f x t =
     (case t repo of None \<Rightarrow> Inl x | Some r \<Rightarrow> if ok r then Inr (t(repo \<mapsto> f r)) else Inl x)"

section \<open>What the jobs ask for\<close>

definition new_policy :: "string \<Rightarrow> policy_row" where
  "new_policy digest = \<lparr>kp_state = ''dirty'', kp_desired = digest, kp_applied = [], kp_error = [], kp_reconciled = [],
     kp_fence = [], kp_proof = []\<rparr>"

text \<open>A new digest reopens the policy; a process that may still run keeps its fence.\<close>

definition reopen_policy :: "string \<Rightarrow> policy_row \<Rightarrow> policy_row" where
  "reopen_policy digest r =
     (if kp_fence r \<noteq> [] then r\<lparr>kp_desired := digest, kp_state := ''applying''\<rparr>
      else r\<lparr>kp_desired := digest, kp_state := ''dirty'', kp_error := [], kp_fence := [], kp_proof := []\<rparr>)"

fun unique_values :: "string list \<Rightarrow> string list" where
  "unique_values [] = []"
| "unique_values (x # xs) = (let ys = unique_values xs in if x = [] \<or> x \<in> set ys then ys else x # ys)"

definition unique_sorted :: "string list \<Rightarrow> string list" where
  "unique_sorted xs = sort (unique_values xs)"

text \<open>\<open>engines\<close> gives the engine of a saved vault, \<open>digest\<close> the digest of what its jobs ask for.\<close>

definition refresh_policy ::
  "(string \<rightharpoonup> string) \<Rightarrow> (string \<Rightarrow> string result) \<Rightarrow> string \<Rightarrow> policy_table \<Rightarrow> (bool \<times> policy_table) result" where
  "refresh_policy engines digest repo t =
     (if engines repo \<noteq> Some ''kopia'' then Inr (False, t)
      else case digest repo of
        Inl x \<Rightarrow> Inl x
      | Inr dg \<Rightarrow>
          (case t repo of
             None \<Rightarrow> Inr (True, t(repo \<mapsto> new_policy dg))
           | Some r \<Rightarrow> if kp_desired r \<noteq> dg then Inr (True, t(repo \<mapsto> reopen_policy dg r)) else Inr (False, t)))"

fun refresh_each ::
  "(string \<rightharpoonup> string) \<Rightarrow> (string \<Rightarrow> string result) \<Rightarrow> string list \<Rightarrow> policy_table \<Rightarrow> (string list \<times> policy_table) result" where
  "refresh_each engines digest [] t = Inr ([], t)"
| "refresh_each engines digest (repo # repos) t =
     (case refresh_policy engines digest repo t of
        Inl x \<Rightarrow> Inl x
      | Inr (changed, t') \<Rightarrow>
          (case refresh_each engines digest repos t' of
             Inl x \<Rightarrow> Inl x
           | Inr (others, t'') \<Rightarrow> Inr ((if changed then repo # others else others), t'')))"

definition refresh_policy_states ::
  "(string \<rightharpoonup> string) \<Rightarrow> (string \<Rightarrow> string result) \<Rightarrow> string list \<Rightarrow> policy_table \<Rightarrow> (string list \<times> policy_table) result" where
  "refresh_policy_states engines digest repos t = refresh_each engines digest (unique_sorted repos) t"

text \<open>At the start of the program every policy has to be proved again, also one whose digest is unchanged.\<close>

fun require_each :: "(string \<Rightarrow> string result) \<Rightarrow> string list \<Rightarrow> policy_table \<Rightarrow> policy_table result" where
  "require_each digest [] t = Inr t"
| "require_each digest (repo # repos) t =
     (case digest repo of
        Inl x \<Rightarrow> Inl x
      | Inr dg \<Rightarrow> require_each digest repos
          (t(repo \<mapsto> (case t repo of None \<Rightarrow> new_policy dg | Some r \<Rightarrow> reopen_policy dg r))))"

definition mark_all_verification_required ::
  "string list \<Rightarrow> (string \<Rightarrow> string result) \<Rightarrow> policy_table \<Rightarrow> (string list \<times> policy_table) result" where
  "mark_all_verification_required kopia_vaults digest t =
     map_sum id (Pair (sort kopia_vaults)) (require_each digest (sort kopia_vaults) t)"

definition initialize_policy_state :: "string \<Rightarrow> string \<Rightarrow> bool \<Rightarrow> string \<Rightarrow> policy_table \<Rightarrow> policy_table result" where
  "initialize_policy_state repo digest ready now t =
     (if length digest \<noteq> 64 then Inl (new_error ''Kopia desired digest is invalid'')
      else Inr (t(repo \<mapsto> \<lparr>kp_state = (if ready then ''ready'' else ''dirty''), kp_desired = digest,
        kp_applied = (if ready then digest else []), kp_error = [], kp_reconciled = now, kp_fence = [], kp_proof = []\<rparr>)))"

definition mark_verification_required :: "string \<Rightarrow> policy_table \<Rightarrow> policy_table result" where
  "mark_verification_required repo = change_policy repo (\<lambda>r. kp_state r \<noteq> ''applying'' \<and> kp_fence r = [])
     (\<lambda>r. r\<lparr>kp_state := ''dirty'', kp_applied := [], kp_error := []\<rparr>)
     (wrap_error ''policy verification cannot be closed while reconciliation is active'' err_kopia_policy_not_ready)"

text \<open>The vault's new owner verifies the policy again (\<open>database/repositories.go\<close>).\<close>

definition reopen_after_takeover :: "string \<Rightarrow> policy_table \<Rightarrow> policy_table result" where
  "reopen_after_takeover repo = change_policy repo (\<lambda>r. kp_state r \<noteq> ''applying'' \<and> kp_fence r = [])
     (\<lambda>r. r\<lparr>kp_state := ''dirty'', kp_applied := [], kp_error := []\<rparr>)
     (wrap_error ''policy verification cannot be reopened while reconciliation is active'' err_kopia_policy_not_ready)"

definition policy_ready :: "policy_row \<Rightarrow> bool" where
  "policy_ready r \<longleftrightarrow> kp_state r = ''ready'' \<and> kp_desired r \<noteq> [] \<and> kp_applied r = kp_desired r"

definition require_policy_ready :: "(string \<rightharpoonup> string) \<Rightarrow> string \<Rightarrow> policy_table \<Rightarrow> go_error option" where
  "require_policy_ready engines repo t =
     (case engines repo of
        None \<Rightarrow> Some sql_no_rows
      | Some engine \<Rightarrow>
          if engine \<noteq> ''kopia'' then None
          else case t repo of
            None \<Rightarrow> Some (wrap_error ''state is missing'' err_kopia_policy_not_ready)
          | Some r \<Rightarrow>
              if kp_state r \<noteq> ''ready'' \<or> kp_desired r = [] \<or> kp_applied r \<noteq> kp_desired r then
                (if kp_error r \<noteq> [] then Some (wrap_error (kp_error r) err_kopia_policy_not_ready)
                 else Some (wrap_error (''reconciliation is '' @ kp_state r) err_kopia_policy_not_ready))
              else None)"

section \<open>Applying a policy\<close>

definition begin_application :: "string \<Rightarrow> string \<Rightarrow> string \<Rightarrow> string \<Rightarrow> policy_table \<Rightarrow> policy_table result" where
  "begin_application repo digest fence proof_kind = change_policy repo
     (\<lambda>r. kp_desired r = digest \<and> kp_state r \<noteq> ''applying'')
     (\<lambda>r. r\<lparr>kp_state := ''applying'', kp_error := [], kp_fence := fence, kp_proof := proof_kind\<rparr>)
     (wrap_error ''desired state changed or another reconciliation is active'' err_kopia_policy_not_ready)"

definition interrupted_text :: string where
  "interrupted_text = ''Application stopped before Kopia policy readback was durably recorded.''"

definition reset_interrupted :: "string \<Rightarrow> string \<Rightarrow> string \<Rightarrow> policy_table \<Rightarrow> policy_table result" where
  "reset_interrupted repo digest fence = change_policy repo
     (\<lambda>r. kp_desired r = digest \<and> kp_state r \<in> {''applying'', ''dirty'', ''error''} \<and> kp_fence r = fence)
     (\<lambda>r. r\<lparr>kp_state := ''dirty'', kp_error := interrupted_text, kp_fence := [], kp_proof := []\<rparr>)
     (wrap_error ''interrupted application state changed during fence recovery'' err_kopia_policy_not_ready)"

text \<open>A cause is the text of an error, \<open>None\<close> for nil.\<close>

definition mark_fence_cleanup_error ::
  "string \<Rightarrow> string \<Rightarrow> string \<Rightarrow> string \<Rightarrow> string option \<Rightarrow> policy_table \<Rightarrow> policy_table result" where
  "mark_fence_cleanup_error repo digest fence proof_kind cause t =
     (case cause of
        None \<Rightarrow> Inl (new_error ''Kopia fence cleanup failure is incomplete'')
      | Some text \<Rightarrow>
          if fence = [] \<or> proof_kind = [] then Inl (new_error ''Kopia fence cleanup failure is incomplete'')
          else change_policy repo (\<lambda>r. kp_desired r = digest \<and> kp_state r \<in> {''ready'', ''dirty'', ''error''})
            (\<lambda>r. r\<lparr>kp_state := ''error'', kp_applied := [], kp_error := ''Native process fence cleanup failed: '' @ text,
              kp_fence := fence, kp_proof := proof_kind\<rparr>)
            (new_error ''Kopia policy state changed before fence cleanup failure was recorded'') t)"

definition mark_error_keeping_fence ::
  "string \<Rightarrow> string \<Rightarrow> string \<Rightarrow> string option \<Rightarrow> policy_table \<Rightarrow> policy_table result" where
  "mark_error_keeping_fence repo digest fence cause t =
     (case cause of
        None \<Rightarrow> Inl (new_error ''Kopia fence-keeping error record is incomplete'')
      | Some text \<Rightarrow>
          if fence = [] then Inl (new_error ''Kopia fence-keeping error record is incomplete'')
          else change_policy repo
            (\<lambda>r. kp_desired r = digest \<and> kp_fence r = fence \<and> kp_state r \<in> {''applying'', ''dirty'', ''error''})
            (\<lambda>r. r\<lparr>kp_state := ''error'', kp_applied := [], kp_error := text\<rparr>)
            (wrap_error ''policy state changed before the fence-keeping error was recorded'' err_kopia_policy_not_ready) t)"

definition finish_application ::
  "string \<Rightarrow> string \<Rightarrow> string option \<Rightarrow> bool \<Rightarrow> bool \<Rightarrow> bool \<Rightarrow> string \<Rightarrow> policy_table \<Rightarrow> policy_table result" where
  "finish_application repo digest cause preserve mutated drift now =
     (let ready = cause = None \<or> preserve \<and> \<not> mutated \<and> \<not> drift in
      change_policy repo (\<lambda>r. kp_desired r = digest)
        (\<lambda>r. r\<lparr>kp_state := (if ready then ''ready'' else ''error''), kp_applied := (if ready then digest else []),
          kp_error := (if ready then [] else the cause), kp_reconciled := now, kp_fence := [], kp_proof := []\<rparr>)
        (new_error ''Kopia desired state changed before reconciliation completed''))"

definition mark_reconciliation_error :: "string \<Rightarrow> string \<Rightarrow> string option \<Rightarrow> string \<Rightarrow> policy_table \<Rightarrow> policy_table result" where
  "mark_reconciliation_error repo digest cause now t =
     (case cause of
        None \<Rightarrow> Inl (new_error ''Kopia reconciliation error is required'')
      | Some text \<Rightarrow> change_policy repo (\<lambda>r. kp_desired r = digest \<and> kp_state r = ''dirty'')
          (\<lambda>r. r\<lparr>kp_state := ''error'', kp_applied := [], kp_error := text, kp_reconciled := now, kp_fence := [], kp_proof := []\<rparr>)
          (new_error ''Kopia desired state changed before reconciliation error was recorded'') t)"

definition retry_policy :: "(string \<rightharpoonup> string) \<Rightarrow> string \<Rightarrow> policy_table \<Rightarrow> policy_table result" where
  "retry_policy engines repo t =
     (case (engines repo, t repo) of
        (Some engine, Some r) \<Rightarrow>
          if engine \<noteq> ''kopia'' then Inl (new_error ''repository is not a Kopia vault'')
          else if kp_state r \<noteq> ''error''
          then Inl (wrap_error (''current state is '' @ kp_state r) err_policy_retry_unavailable)
          else change_policy repo (\<lambda>r. kp_state r = ''error'')
            (\<lambda>r. r\<lparr>kp_state := (if kp_fence r \<noteq> [] then ''applying'' else ''dirty''), kp_error := []\<rparr>)
            err_policy_retry_unavailable t
      | _ \<Rightarrow> Inl sql_no_rows)"

section \<open>Policies that are stuck\<close>

definition policy_stuck_after :: int where
  "policy_stuck_after = 6 * (3600 * 1000000000)"

text \<open>\<open>modified\<close> is the time a fence file was made, \<open>inactive\<close> whether its process has ended; either may be unreadable.\<close>

definition stuck_policies ::
  "(string \<rightharpoonup> int) \<Rightarrow> (string \<Rightarrow> bool result) \<Rightarrow> int \<Rightarrow> (string \<times> string) list \<Rightarrow> policy_table \<Rightarrow> (string \<times> string \<times> int) list" where
  "stuck_policies modified inactive now vaults t =
     List.map_filter (\<lambda>(repo, name). case t repo of
         None \<Rightarrow> None
       | Some r \<Rightarrow>
           if kp_state r \<noteq> ''error'' \<or> kp_fence r = [] \<or> kp_error r \<noteq> fence_held_text then None
           else case modified (kp_fence r) of
             None \<Rightarrow> None
           | Some made \<Rightarrow>
               if time_sub now made \<le> policy_stuck_after then None
               else case inactive (kp_fence r) of
                 Inr False \<Rightarrow> Some (repo, name, made + policy_stuck_after)
               | _ \<Rightarrow> None) (sort_key fst vaults)"

end
