(* ===== verification/ScheduledAdmission.thy ===== *)
theory ScheduledAdmission
  imports Schedules OperationSteps StorageBinding KopiaPolicy
begin

text \<open>
  The admission of scheduled and manual backups (\<open>database/availability.go\<close>): the pending runs of
  each pair of a job and a vault, the transaction that records a due run and admits what may start
  now, and the ways an admitted run is given back or used up.  Saved times are texts; how an
  instant is written and read back is a pair of functions of the environment.
\<close>

section \<open>Tables\<close>

record backup_job_row =
  jo_name :: string
  jo_schedule :: string
  jo_next_run :: string
  jo_last_run :: string
  jo_enabled :: bool
  jo_binding :: job_binding

record saved_check =
  sk_state :: string
  sk_reason :: string
  sk_checked :: string

text \<open>A row of \<open>job_target_schedule_state\<close>.\<close>

record pair_row =
  pt_job :: string
  pt_repository :: string
  pt_pending :: bool
  pt_missed :: int
  pt_first :: string
  pt_last :: string
  pt_source :: saved_check
  pt_target :: saved_check
  pt_updated :: string

record schedule_db =
  sb_steps :: step_db
  sb_jobs :: "string \<rightharpoonup> backup_job_row"
  sb_pairs :: "pair_row list"
  sb_names :: "string \<Rightarrow> string"
  sb_policies :: policy_table
  sb_reserved :: "string \<Rightarrow> bool"

text \<open>\<open>se_text\<close> and \<open>se_parse\<close> write and read RFC 3339 texts with nanoseconds, \<open>se_sortable\<close> the
  texts operations are sorted by; \<open>se_next\<close> is the instant \<open>nextJobRunFrom\<close> writes.\<close>

record schedule_env =
  se_text :: "int \<Rightarrow> string"
  se_parse :: "string \<Rightarrow> int option"
  se_sortable :: "int \<Rightarrow> string"
  se_next :: "string \<Rightarrow> int \<Rightarrow> int option"
  se_cron :: "string \<Rightarrow> bool"
  se_platform :: platform
  se_json :: binding_json

abbreviation sb_operations :: "schedule_db \<Rightarrow> operations_db" where
  "sb_operations d \<equiv> sd_operations (sb_steps d)"

definition put_operations :: "operations_db \<Rightarrow> schedule_db \<Rightarrow> schedule_db" where
  "put_operations o' d = d\<lparr>sb_steps := (sb_steps d)\<lparr>sd_operations := o'\<rparr>\<rparr>"

definition put_job :: "string \<Rightarrow> backup_job_row \<Rightarrow> schedule_db \<Rightarrow> schedule_db" where
  "put_job job j d = d\<lparr>sb_jobs := (sb_jobs d)(job \<mapsto> j)\<rparr>"

definition pair_key :: "pair_row \<Rightarrow> string \<times> string" where
  "pair_key p = (pt_job p, pt_repository p)"

definition find_pair :: "string \<Rightarrow> string \<Rightarrow> schedule_db \<Rightarrow> pair_row option" where
  "find_pair job repo d = find (\<lambda>p. pair_key p = (job, repo)) (sb_pairs d)"

definition update_pair :: "string \<Rightarrow> string \<Rightarrow> (pair_row \<Rightarrow> pair_row) \<Rightarrow> schedule_db \<Rightarrow> schedule_db" where
  "update_pair job repo f d =
     d\<lparr>sb_pairs := map (\<lambda>p. if pair_key p = (job, repo) then f p else p) (sb_pairs d)\<rparr>"

definition err_invalid_targets :: go_error where
  "err_invalid_targets = new_error ''at least one unique existing repository target is required''"

definition err_backup_trigger_changed :: go_error where
  "err_backup_trigger_changed = new_error ''backup job was disabled or changed before it could be queued''"

definition err_job_source_unbound :: go_error where
  "err_job_source_unbound = new_error ''imported backup job source is not bound to this computer''"

definition err_job_definition_busy :: go_error where
  "err_job_definition_busy = new_error ''This job is being deleted.''"

definition err_job_connection_reserved :: go_error where
  "err_job_connection_reserved = new_error ''backup job is reserved by a pending repository connection''"

section \<open>Results\<close>

definition admitted_regular :: string where "admitted_regular = ''admitted_regular''"
definition admitted_catch_up :: string where "admitted_catch_up = ''admitted_catchup''"
definition admission_storage_unavailable :: string where "admission_storage_unavailable = ''storage_unavailable''"
definition admission_busy :: string where "admission_busy = ''busy''"
definition admission_policy_not_ready :: string where "admission_policy_not_ready = ''policy_not_ready''"
definition admission_paused :: string where "admission_paused = ''paused''"
definition admission_no_pending :: string where "admission_no_pending = ''no_pending''"
definition admission_unavailable_issue :: string where "admission_unavailable_issue = ''unavailable_issue''"
definition reason_unavailable_too_long :: string where "reason_unavailable_too_long = ''unavailable_30_days''"
definition vault_being_removed_reason :: string where "vault_being_removed_reason = ''vault_being_removed''"

record admission_result =
  ar_repository :: string
  ar_status :: string
  ar_reason :: string
  ar_operation :: string
  ar_source_check :: bool
  ar_target_check :: bool

definition plain_result :: "string \<Rightarrow> string \<Rightarrow> string \<Rightarrow> admission_result" where
  "plain_result repo status reason = \<lparr>ar_repository = repo, ar_status = status, ar_reason = reason,
     ar_operation = [], ar_source_check = False, ar_target_check = False\<rparr>"

record admission_request =
  rq_job :: string
  rq_due :: "int option"
  rq_now :: int
  rq_source :: observation
  rq_targets :: "(string \<times> observation) list"

section \<open>The next regular run\<close>

definition unavailable_issue_after :: int where
  "unavailable_issue_after = 30 * day_ns"

definition unavailable_issue_due :: "schedule_env \<Rightarrow> string \<Rightarrow> int \<Rightarrow> bool" where
  "unavailable_issue_due e since now =
     (case se_parse e since of None \<Rightarrow> False | Some t \<Rightarrow> \<not> now < t + unavailable_issue_after)"

text \<open>The instant \<open>nextJobRunFrom\<close> writes: all texts but those of month steps drop the part of a second.\<close>

definition job_occurrence ::
  "cron_parser \<Rightarrow> zone \<Rightarrow> (int \<Rightarrow> int) \<Rightarrow> zone \<Rightarrow> (int \<Rightarrow> int) \<Rightarrow> string \<Rightarrow> int \<Rightarrow> int option" where
  "job_occurrence parse z date lz ldate schedule t =
     (case next_job_run_from parse z date lz ldate schedule t of
        Some (Some u) \<Rightarrow> Some (if schedule = ''monthly'' \<or> custom_months schedule \<noteq> None then u
          else u div 1000000000 * 1000000000)
      | _ \<Rightarrow> None)"

text \<open>One occurrence at a time until it lies in the future.\<close>

function advance_loop :: "(int \<Rightarrow> int option) \<Rightarrow> int \<Rightarrow> int \<Rightarrow> int result" where
  "advance_loop nxt now t =
     (if now < t then Inr t
      else case nxt t of
        None \<Rightarrow> Inl (new_error ''backup schedule is invalid'')
      | Some following \<Rightarrow>
          if \<not> t < following then Inl (new_error ''backup schedule does not advance'')
          else advance_loop nxt now following)"
  by pat_completeness auto
termination
  by (relation "measure (\<lambda>(_, now, t). nat (now + 1 - t))") auto

declare advance_loop.simps [simp del]

definition advance_schedule_after :: "schedule_env \<Rightarrow> string \<Rightarrow> int \<Rightarrow> int \<Rightarrow> int result" where
  "advance_schedule_after e schedule due now =
     (if schedule = [] \<or> schedule = ''manual''
      then Inl (new_error ''manual schedules do not have regular occurrences'')
      else case se_next e schedule due of
        None \<Rightarrow> Inl (new_error ''backup schedule is invalid'')
      | Some t \<Rightarrow>
          if se_cron e schedule \<and> \<not> now < t then
            (case se_next e schedule now of
               None \<Rightarrow> Inl (new_error ''backup schedule is invalid'')
             | Some u \<Rightarrow> if \<not> now < u then Inl (new_error ''backup schedule does not advance'') else Inr u)
          else if (schedule = ''hourly'' \<or> custom_minutes schedule \<noteq> None) \<and> \<not> now < t then
            (let interval = time_sub t due in
             if interval \<le> 0 then Inl (new_error ''backup schedule does not advance'')
             else Inr (t + wrap64 ((time_sub now t div interval + 1) * interval)))
          else advance_loop (se_next e schedule) now t)"

section \<open>Pairs\<close>

definition scheduled_targets :: "string \<Rightarrow> schedule_db \<Rightarrow> pair_row list" where
  "scheduled_targets job d =
     sort_key pt_repository (filter (\<lambda>p. pt_job p = job \<and>
       od_repositories (sb_operations d) (pt_repository p) \<noteq> None) (sb_pairs d))"

fun observation_map :: "(string \<times> observation) list \<Rightarrow> (string \<rightharpoonup> observation) \<Rightarrow> (string \<rightharpoonup> observation) result" where
  "observation_map [] m = Inr m"
| "observation_map ((repo, ob) # rest) m =
     (if repo = [] \<or> m repo \<noteq> None then Inl err_invalid_targets else observation_map rest (m(repo \<mapsto> ob)))"

definition saved_observation :: "schedule_env \<Rightarrow> observation \<Rightarrow> saved_check" where
  "saved_observation e ob = \<lparr>sk_state = ob_state ob, sk_reason = ob_reason ob, sk_checked = se_text e (ob_checked_at ob)\<rparr>"

definition update_pair_observations ::
  "schedule_env \<Rightarrow> string \<Rightarrow> string \<Rightarrow> observation \<Rightarrow> observation \<Rightarrow> int \<Rightarrow> schedule_db \<Rightarrow> schedule_db" where
  "update_pair_observations e job repo source target now =
     update_pair job repo (\<lambda>p. p\<lparr>pt_source := saved_observation e source, pt_target := saved_observation e target,
       pt_updated := se_text e now\<rparr>)"

text \<open>The first missed time moves back when a clock that had jumped ahead left a later one.\<close>

definition first_missed :: "schedule_env \<Rightarrow> pair_row \<Rightarrow> int \<Rightarrow> string" where
  "first_missed e p due =
     (if \<not> pt_pending p then se_text e due
      else case se_parse e (pt_first p) of
        Some saved \<Rightarrow> if due < saved then se_text e due else pt_first p
      | None \<Rightarrow> pt_first p)"

definition miss_pair :: "schedule_env \<Rightarrow> int \<Rightarrow> int \<Rightarrow> pair_row \<Rightarrow> pair_row" where
  "miss_pair e due now p = p\<lparr>pt_pending := True, pt_missed := pt_missed p + 1, pt_first := first_missed e p due,
     pt_last := se_text e due, pt_updated := se_text e now\<rparr>"

definition mark_pair_missed :: "schedule_env \<Rightarrow> pair_row \<Rightarrow> int \<Rightarrow> int \<Rightarrow> schedule_db \<Rightarrow> schedule_db" where
  "mark_pair_missed e p due now = update_pair (pt_job p) (pt_repository p)
     (\<lambda>q. q\<lparr>pt_pending := True, pt_missed := pt_missed q + 1, pt_first := first_missed e p due,
       pt_last := se_text e due, pt_updated := se_text e now\<rparr>)"

definition clear_pair :: "schedule_env \<Rightarrow> int \<Rightarrow> pair_row \<Rightarrow> pair_row" where
  "clear_pair e now p = p\<lparr>pt_pending := False, pt_missed := 0, pt_first := [], pt_updated := se_text e now\<rparr>"

definition clear_pair_pending :: "schedule_env \<Rightarrow> string \<Rightarrow> string \<Rightarrow> int \<Rightarrow> schedule_db \<Rightarrow> schedule_db" where
  "clear_pair_pending e job repo now = update_pair job repo (clear_pair e now)"

definition parse_restoration_range :: "schedule_env \<Rightarrow> int \<Rightarrow> string \<Rightarrow> string \<Rightarrow> (int \<times> int) result" where
  "parse_restoration_range e n f0 l0 =
     (if n \<le> 0 \<or> f0 = [] \<or> l0 = [] then Inl (new_error ''scheduled admission restoration state is invalid'')
      else case se_parse e f0 of
        None \<Rightarrow> Inl (new_error ''scheduled admission first due time is invalid'')
      | Some f \<Rightarrow>
          (case se_parse e l0 of
             None \<Rightarrow> Inl (new_error ''scheduled admission last due time is invalid'')
           | Some l \<Rightarrow> if l < f then Inl (new_error ''scheduled admission last due time is invalid'') else Inr (f, l)))"

section \<open>Operations\<close>

definition require_kopia_policy_ready :: "string \<Rightarrow> schedule_db \<Rightarrow> go_error option" where
  "require_kopia_policy_ready repo d =
     require_policy_ready (\<lambda>r. map_option rr_engine (od_repositories (sb_operations d) r)) repo (sb_policies d)"

definition backup_title :: "string \<Rightarrow> string \<Rightarrow> string" where
  "backup_title job vault = ''Backup: '' @ job @ [CHR 0x20, CHR 0xE2, CHR 0x86, CHR 0x92, CHR 0x20] @ vault"

definition queue_operation_row ::
  "schedule_env \<Rightarrow> string \<Rightarrow> string \<Rightarrow> string \<Rightarrow> string \<Rightarrow> int \<Rightarrow> schedule_db \<Rightarrow> schedule_db result" where
  "queue_operation_row e i job job_name repo now d =
     (case insert_op \<lparr>op_id = i, op_kind = ''backup'', op_status = ''queued'',
           op_title = backup_title job_name (sb_names d repo), op_job = job, op_repository = repo,
           op_engine = engine_of (sb_operations d) repo, op_started_at = se_sortable e now,
           op_finished_at = [], op_issue_kind = []\<rparr> (sb_operations d) of
        Inl x \<Rightarrow> Inl x
      | Inr o' \<Rightarrow> Inr (put_operations (o'\<lparr>od_targets := (\<lambda>k. if k = (job, repo)
            then map_option (\<lambda>t. t\<lparr>tr_last_status := ''queued''\<rparr>) (od_targets o' k) else od_targets o' k)\<rparr>) d))"

definition queue_admitted_pair ::
  "schedule_env \<Rightarrow> string \<Rightarrow> string \<Rightarrow> string \<Rightarrow> string \<Rightarrow> int \<Rightarrow> schedule_db \<Rightarrow> schedule_db result" where
  "queue_admitted_pair e i job job_name repo now d =
     (case require_kopia_policy_ready repo d of
        Some x \<Rightarrow> Inl x
      | None \<Rightarrow> queue_operation_row e i job job_name repo now d)"

definition pair_busy :: "string \<Rightarrow> string \<Rightarrow> schedule_db \<Rightarrow> bool" where
  "pair_busy job repo d \<longleftrightarrow>
     list_ex (\<lambda>o'. op_job o' = job \<and> op_repository o' = repo \<and> active o') (od_ops (sb_operations d)) \<or>
     vault_removal_pending (sb_operations d) repo"

section \<open>Groups\<close>

definition eligible_of :: "admission_group \<Rightarrow> operations_db \<Rightarrow> restoration list" where
  "eligible_of g o' = filter (\<lambda>r. rs_group r = ag_id g \<and> rs_state r = ''eligible'') (od_restorations o')"

definition job_groups :: "string \<Rightarrow> operations_db \<Rightarrow> admission_group list" where
  "job_groups job o' = sort_key ag_generation (filter (\<lambda>g. ag_job g = job) (od_groups o'))"

definition check_group :: "schedule_env \<Rightarrow> operations_db \<Rightarrow> admission_group \<Rightarrow> go_error option" where
  "check_group e o' g =
     (if filter (\<lambda>r. rs_group r = ag_id g) (od_restorations o') = [] \<and> \<not> ag_started g
      then Some (new_error ''scheduled admission group state is invalid'')
      else if se_parse e (ag_admitted g) = None then Some (new_error ''scheduled admission group time is invalid'')
      else if ag_previous g \<noteq> [] \<and> se_parse e (ag_previous g) = None
      then Some (new_error ''scheduled admission prior job time is invalid'')
      else None)"

fun check_groups :: "schedule_env \<Rightarrow> operations_db \<Rightarrow> int option \<Rightarrow> admission_group list \<Rightarrow> go_error option" where
  "check_groups e o' previous [] = None"
| "check_groups e o' previous (g # gs) =
     (case check_group e o' g of
        Some x \<Rightarrow> Some x
      | None \<Rightarrow>
          if (case previous of None \<Rightarrow> False | Some p \<Rightarrow> ag_generation g \<le> p)
          then Some (new_error ''scheduled admission group generation is invalid'')
          else check_groups e o' (Some (ag_generation g)) gs)"

text \<open>The last run a job shows: the latest admission that still holds a run or started one.\<close>

definition shown_last_run :: "operations_db \<Rightarrow> admission_group list \<Rightarrow> string" where
  "shown_last_run o' gs =
     (if list_ex (\<lambda>g. eligible_of g o' \<noteq> []) gs
      then fold (\<lambda>g r. if eligible_of g o' \<noteq> [] \<or> ag_started g then ag_admitted g else r) gs []
      else fold (\<lambda>g r. if ag_started g then ag_admitted g else r) gs (ag_previous (hd gs)))"

text \<open>Deleting a group deletes its restorations.\<close>

definition drop_groups :: "string \<Rightarrow> operations_db \<Rightarrow> operations_db" where
  "drop_groups job o' =
     (let dead = map ag_id (filter (\<lambda>g. ag_job g = job) (od_groups o')) in
      o'\<lparr>od_groups := filter (\<lambda>g. ag_job g \<noteq> job) (od_groups o'),
         od_restorations := filter (\<lambda>r. rs_group r \<notin> set dead) (od_restorations o')\<rparr>)"

definition reconcile_groups :: "schedule_env \<Rightarrow> string \<Rightarrow> schedule_db \<Rightarrow> schedule_db result" where
  "reconcile_groups e job d =
     (let o' = sb_operations d; gs = job_groups job o' in
      case check_groups e o' None gs of
        Some x \<Rightarrow> Inl x
      | None \<Rightarrow>
          if gs = [] then Inr d
          else case sb_jobs d job of
            None \<Rightarrow> Inl sql_no_rows
          | Some j \<Rightarrow>
              (let d' = put_job job (j\<lparr>jo_last_run := shown_last_run o' gs\<rparr>) d in
               if list_ex (\<lambda>g. eligible_of g o' \<noteq> []) gs then Inr d'
               else Inr (put_operations (drop_groups job o') d')))"

section \<open>Giving a run back\<close>

definition find_restoration :: "string \<Rightarrow> schedule_db \<Rightarrow> restoration option" where
  "find_restoration i d = find (\<lambda>r. rs_operation r = i) (od_restorations (sb_operations d))"

definition set_restoration_state :: "string \<Rightarrow> string \<Rightarrow> schedule_db \<Rightarrow> schedule_db" where
  "set_restoration_state i state d =
     put_operations ((sb_operations d)\<lparr>od_restorations := map (\<lambda>r. if rs_operation r = i \<and> rs_state r = ''eligible''
       then r\<lparr>rs_state := state\<rparr> else r) (od_restorations (sb_operations d))\<rparr>) d"

definition mark_group_started :: "string \<Rightarrow> string \<Rightarrow> schedule_db \<Rightarrow> schedule_db" where
  "mark_group_started gid job d =
     put_operations ((sb_operations d)\<lparr>od_groups := map (\<lambda>g. if ag_id g = gid \<and> ag_job g = job
       then g\<lparr>ag_started := True\<rparr> else g) (od_groups (sb_operations d))\<rparr>) d"

text \<open>The run taken from a pair joined with what has become due since: count, first and last time.\<close>

definition merge_missed :: "schedule_env \<Rightarrow> restoration \<Rightarrow> pair_row \<Rightarrow> (int \<times> int \<times> int) result" where
  "merge_missed e r p =
     (case parse_restoration_range e (rs_missed r) (rs_first r) (rs_last r) of
        Inl x \<Rightarrow> Inl x
      | Inr (f, l) \<Rightarrow>
          if pt_pending p then
            (case parse_restoration_range e (pt_missed p) (pt_first p) (pt_last p) of
               Inl x \<Rightarrow> Inl x
             | Inr (cf, cl) \<Rightarrow>
                 if pt_missed p > max64 - rs_missed r then Inl (new_error ''scheduled catch-up count overflow'')
                 else Inr (rs_missed r + pt_missed p, (if cf < f then cf else f), (if l < cl then cl else l)))
          else if pt_missed p \<noteq> 0 \<or> pt_first p \<noteq> []
          then Inl (new_error ''current scheduled catch-up state is invalid'')
          else Inr (rs_missed r, f, l))"

definition restore_pair :: "schedule_env \<Rightarrow> int \<times> int \<times> int \<Rightarrow> int \<Rightarrow> pair_row \<Rightarrow> pair_row" where
  "restore_pair e merged now p = (case merged of (n, f, l) \<Rightarrow>
     p\<lparr>pt_pending := True, pt_missed := n, pt_first := se_text e f, pt_last := se_text e l,
       pt_updated := se_text e now\<rparr>)"

definition unavailable_side :: "schedule_env \<Rightarrow> bool \<Rightarrow> string \<Rightarrow> int \<Rightarrow> pair_row \<Rightarrow> pair_row" where
  "unavailable_side e source reason checked p =
     (let found = \<lparr>sk_state = storage_unavailable, sk_reason = reason, sk_checked = se_text e checked\<rparr> in
      if source then p\<lparr>pt_source := found\<rparr> else p\<lparr>pt_target := found\<rparr>)"

definition restore_pre_native ::
  "schedule_env \<Rightarrow> string \<Rightarrow> string \<Rightarrow> int \<Rightarrow> bool \<Rightarrow> schedule_db \<Rightarrow> schedule_db result" where
  "restore_pre_native e i reason checked source d =
     (if i = [] \<or> checked = 0 then Inl err_invalid_targets
      else case find_restoration i d of
        None \<Rightarrow> Inr d
      | Some r \<Rightarrow>
          if rs_state r \<noteq> ''eligible'' then Inr d
          else case parse_restoration_range e (rs_missed r) (rs_first r) (rs_last r) of
            Inl x \<Rightarrow> Inl x
          | Inr _ \<Rightarrow>
              (case find_pair (rs_job r) (rs_repository r) d of
                 None \<Rightarrow> Inl sql_no_rows
               | Some p \<Rightarrow>
                   (case merge_missed e r p of
                      Inl x \<Rightarrow> Inl x
                    | Inr merged \<Rightarrow>
                        reconcile_groups e (rs_job r) (set_restoration_state i ''restored''
                          (update_pair (rs_job r) (rs_repository r)
                            (\<lambda>q. unavailable_side e source reason checked (restore_pair e merged checked q)) d)))))"

definition consume_overdue ::
  "schedule_env \<Rightarrow> string \<Rightarrow> string \<Rightarrow> int \<Rightarrow> bool \<Rightarrow> schedule_db \<Rightarrow> (bool \<times> schedule_db) result" where
  "consume_overdue e i reason now source d =
     (if i = [] \<or> now = 0 then Inl err_invalid_targets
      else case find_restoration i d of
        None \<Rightarrow> Inr (False, d)
      | Some r \<Rightarrow>
          if rs_state r \<noteq> ''eligible'' then Inr (False, d)
          else case parse_restoration_range e (rs_missed r) (rs_first r) (rs_last r) of
            Inl x \<Rightarrow> Inl x
          | Inr (f, l) \<Rightarrow>
              (case sb_jobs d (rs_job r) of
                 None \<Rightarrow> Inl sql_no_rows
               | Some j \<Rightarrow>
                   if \<not> jo_enabled j \<or> \<not> unavailable_issue_due e (se_text e f) now then Inr (False, d)
                   else map_sum id (Pair True) (reconcile_groups e (rs_job r)
                     (update_pair (rs_job r) (rs_repository r)
                       (\<lambda>q. unavailable_side e source reason now (clear_pair e now q))
                       (mark_group_started (rs_group r) (rs_job r) (set_restoration_state i ''started'' d))))))"

definition occurrence_eligible :: "string \<Rightarrow> schedule_db \<Rightarrow> bool" where
  "occurrence_eligible i d =
     (case find_restoration i d of None \<Rightarrow> False | Some r \<Rightarrow> rs_state r = ''eligible'')"

definition consume_occurrence :: "schedule_env \<Rightarrow> string \<Rightarrow> schedule_db \<Rightarrow> schedule_db result" where
  "consume_occurrence e i d =
     (if i = [] then Inl err_invalid_targets
      else case find_restoration i d of
        None \<Rightarrow> Inr d
      | Some r \<Rightarrow>
          if rs_state r \<noteq> ''eligible'' then Inr d
          else reconcile_groups e (rs_job r)
            (mark_group_started (rs_group r) (rs_job r) (set_restoration_state i ''started'' d)))"

text \<open>An interrupted operation gives its run back; a native backup that was started does not.\<close>

definition finish_interrupted :: "schedule_env \<Rightarrow> op_row \<Rightarrow> string \<Rightarrow> int \<Rightarrow> schedule_db \<Rightarrow> schedule_db result" where
  "finish_interrupted e o' last_run now d =
     (if \<not> list_ex (\<lambda>r. op_id r = op_id o' \<and> active r) (od_ops (sb_operations d)) then Inl sql_no_rows
      else map_sum id (\<lambda>x. put_operations x d)
        (update_target (op_job o', op_repository o') (\<lambda>t. t\<lparr>tr_last_status := ''interrupted'', tr_last_run := last_run\<rparr>)
          (update_ops (\<lambda>r. op_id r = op_id o' \<and> active r)
            (\<lambda>r. r\<lparr>op_status := ''interrupted'', op_finished_at := se_sortable e now\<rparr>) (sb_operations d))))"

definition restored_group :: "string \<Rightarrow> schedule_db \<Rightarrow> (restoration \<times> admission_group) option" where
  "restored_group i d =
     (case find_restoration i d of
        None \<Rightarrow> None
      | Some r \<Rightarrow> map_option (Pair r)
          (find (\<lambda>g. ag_id g = rs_group r \<and> ag_job g = rs_job r) (od_groups (sb_operations d))))"

definition native_backup_steps :: "string \<Rightarrow> schedule_db \<Rightarrow> bool" where
  "native_backup_steps i d \<longleftrightarrow> list_ex (\<lambda>s. os_operation s = i \<and> os_domain s = ''native'' \<and> os_kind s = ''backup'' \<and>
     os_status s \<noteq> ''skipped'') (sd_steps (sb_steps d))"

definition give_back ::
  "schedule_env \<Rightarrow> op_row \<Rightarrow> restoration \<Rightarrow> admission_group \<Rightarrow> int \<Rightarrow> schedule_db \<Rightarrow> schedule_db result" where
  "give_back e o' r g now d =
     (if rs_job r \<noteq> op_job o' \<or> rs_repository r \<noteq> op_repository o' \<or> rs_state r \<noteq> ''eligible''
      then Inl (new_error ''scheduled admission restoration identity is invalid'')
      else case parse_restoration_range e (rs_missed r) (rs_first r) (rs_last r) of
        Inl x \<Rightarrow> Inl x
      | Inr _ \<Rightarrow>
          (case se_parse e (ag_admitted g) of
             None \<Rightarrow> Inl (new_error ''scheduled admission time is invalid'')
           | Some admitted \<Rightarrow>
               (case find_pair (op_job o') (op_repository o') d of
                  None \<Rightarrow> Inl sql_no_rows
                | Some p \<Rightarrow>
                    (case merge_missed e r p of
                       Inl x \<Rightarrow> Inl x
                     | Inr merged \<Rightarrow>
                         if \<not> pt_pending p \<and> pt_last p \<noteq> [] \<and> se_parse e (pt_last p) = None
                         then Inl (new_error ''current scheduled catch-up last due time is invalid'')
                         else (case finish_interrupted e o' (se_text e admitted) now
                                  (update_pair (op_job o') (op_repository o') (restore_pair e merged now) d) of
                                 Inl x \<Rightarrow> Inl x
                               | Inr d' \<Rightarrow> reconcile_groups e (op_job o') (set_restoration_state (op_id o') ''restored'' d'))))))"

definition restore_queued_backup :: "schedule_env \<Rightarrow> string \<Rightarrow> int \<Rightarrow> schedule_db \<Rightarrow> schedule_db result" where
  "restore_queued_backup e i now d =
     (case find (\<lambda>o'. op_id o' = i \<and> op_kind o' = ''backup'') (od_ops (sb_operations d)) of
        None \<Rightarrow> Inl sql_no_rows
      | Some o' \<Rightarrow>
          if op_job o' = [] \<or> op_repository o' = [] then Inl sql_no_rows
          else if op_status o' = ''interrupted'' then
            (case restored_group i d of
               None \<Rightarrow> Inr d
             | Some (r, g) \<Rightarrow> if rs_state r = ''restored'' then Inr d else Inl sql_no_rows)
          else if \<not> active o' then Inl sql_no_rows
          else if op_status o' = ''running'' \<and> native_backup_steps i d then Inl sql_no_rows
          else (case restored_group i d of
                  None \<Rightarrow> finish_interrupted e o' (op_started_at o') now d
                | Some (r, g) \<Rightarrow> give_back e o' r g now d))"

fun restore_all :: "schedule_env \<Rightarrow> int \<Rightarrow> string list \<Rightarrow> schedule_db \<Rightarrow> schedule_db result" where
  "restore_all e now [] d = Inr d"
| "restore_all e now (i # is) d =
     (case restore_queued_backup e i now d of Inl x \<Rightarrow> Inl x | Inr d' \<Rightarrow> restore_all e now is d')"

definition interrupt_queued_backups :: "schedule_env \<Rightarrow> string list \<Rightarrow> int \<Rightarrow> schedule_db \<Rightarrow> schedule_db result" where
  "interrupt_queued_backups e ids now d =
     (if now = 0 then Inl (new_error ''queued interruption time is required'')
      else if [] \<in> set ids \<or> \<not> distinct ids then Inl err_invalid_targets
      else if \<exists>i \<in> set ids. find_op i (sb_operations d) = None then Inl sql_no_rows
      else restore_all e now ids d)"

section \<open>Admission of a due job\<close>

text \<open>The transaction's variables: the tables, the group of this admission and whether anything was admitted.\<close>

record admission_state =
  as_db :: schedule_db
  as_group :: string
  as_admitted :: bool

definition open_group :: "schedule_env \<Rightarrow> string \<Rightarrow> string \<Rightarrow> string \<Rightarrow> int \<Rightarrow> schedule_db \<Rightarrow> schedule_db result" where
  "open_group e g job previous now d =
     (let o' = sb_operations d; mine = map ag_generation (filter (\<lambda>x. ag_job x = job) (od_groups o')) in
      if list_ex (\<lambda>x. ag_id x = g) (od_groups o') then Inl (new_error ''UNIQUE constraint failed'')
      else Inr (put_operations (o'\<lparr>od_groups := od_groups o' @ [\<lparr>ag_id = g, ag_job = job,
        ag_generation = fold max mine 0 + 1, ag_admitted = se_text e now, ag_previous = previous,
        ag_started = False\<rparr>]\<rparr>) d))"

definition queue_restorable ::
  "schedule_env \<Rightarrow> (string \<Rightarrow> string) \<Rightarrow> string \<Rightarrow> string \<Rightarrow> backup_job_row \<Rightarrow> int \<Rightarrow> pair_row \<Rightarrow> bool \<Rightarrow>
   admission_state \<Rightarrow> (string \<times> admission_state) result" where
  "queue_restorable e new_id new_group job j now p policy s =
     (let i = new_id (pt_repository p); queue = (if policy then queue_admitted_pair else queue_operation_row) in
      case queue e i job (jo_name j) (pt_repository p) now (as_db s) of
        Inl x \<Rightarrow> Inl x
      | Inr d \<Rightarrow>
          (case (if as_group s = [] then map_sum id (Pair new_group) (open_group e new_group job (jo_last_run j) now d)
                 else Inr (as_group s, d)) of
             Inl x \<Rightarrow> Inl x
           | Inr (g, d) \<Rightarrow>
               if pt_missed p \<le> 0 \<or> pt_first p = [] \<or> pt_last p = []
               then Inl (new_error ''scheduled admission restoration state is invalid'')
               else (case parse_restoration_range e (pt_missed p) (pt_first p) (pt_last p) of
                  Inl x \<Rightarrow> Inl x
                | Inr _ \<Rightarrow>
                    Inr (i, \<lparr>as_db = clear_pair_pending e job (pt_repository p) now
                      (put_operations ((sb_operations d)\<lparr>od_restorations := od_restorations (sb_operations d) @
                        [\<lparr>rs_operation = i, rs_group = g, rs_job = job, rs_repository = pt_repository p,
                          rs_missed = pt_missed p, rs_first = pt_first p, rs_last = pt_last p,
                          rs_state = ''eligible''\<rparr>]\<rparr>) d),
                      as_group = g, as_admitted = True\<rparr>))))"

text \<open>A source outage is reported once for the job, by the first idle pair that has waited too long.\<close>

definition source_issue_carrier ::
  "schedule_env \<Rightarrow> string \<Rightarrow> int \<Rightarrow> pair_row list \<Rightarrow> schedule_db \<Rightarrow> string" where
  "source_issue_carrier e job now ps d =
     (case find (\<lambda>p. pt_pending p \<and> unavailable_issue_due e (pt_first p) now \<and> \<not> pair_busy job (pt_repository p) d) ps of
        None \<Rightarrow> [] | Some p \<Rightarrow> pt_repository p)"

definition source_outage :: "observation \<Rightarrow> bool" where
  "source_outage ob \<longleftrightarrow> ob_state ob \<noteq> storage_available \<and> \<not> ob_conclusive ob"

definition target_outage :: "observation \<Rightarrow> observation \<Rightarrow> bool" where
  "target_outage source ob \<longleftrightarrow> ob_state ob \<noteq> storage_available \<and> \<not> ob_conclusive source \<and> \<not> ob_conclusive ob"

text \<open>The result of a target that runs, with the failure check its observations ask for.\<close>

definition running_result :: "string \<Rightarrow> string \<Rightarrow> string \<Rightarrow> observation \<Rightarrow> observation \<Rightarrow> admission_result" where
  "running_result repo status i source ob =
     \<lparr>ar_repository = repo, ar_status = status,
      ar_reason = (if ob_conclusive source then ob_reason source else if ob_conclusive ob then ob_reason ob else []),
      ar_operation = i, ar_source_check = ob_conclusive source,
      ar_target_check = (\<not> ob_conclusive source \<and> ob_conclusive ob)\<rparr>"

definition issue_result :: "string \<Rightarrow> string \<Rightarrow> bool \<Rightarrow> admission_result" where
  "issue_result repo i source = \<lparr>ar_repository = repo, ar_status = admission_unavailable_issue,
     ar_reason = reason_unavailable_too_long, ar_operation = i, ar_source_check = source, ar_target_check = \<not> source\<rparr>"

record admission_plan =
  pl_ids :: "string \<Rightarrow> string"
  pl_group :: string
  pl_job :: string
  pl_row :: backup_job_row
  pl_now :: int
  pl_regular :: bool
  pl_source :: observation
  pl_observed :: "string \<Rightarrow> observation"
  pl_carrier :: string

definition admit_target ::
  "schedule_env \<Rightarrow> admission_plan \<Rightarrow> pair_row \<Rightarrow> admission_state \<Rightarrow> (admission_result \<times> admission_state) result" where
  "admit_target e a p s =
     (let repo = pt_repository p; ob = pl_observed a repo; source = pl_source a;
          queue = queue_restorable e (pl_ids a) (pl_group a) (pl_job a) (pl_row a) (pl_now a) p in
      if \<not> jo_enabled (pl_row a) then Inr (plain_result repo admission_paused [], s)
      else if \<not> pt_pending p then Inr (plain_result repo admission_no_pending [], s)
      else if source_outage source then
        (if pl_carrier a \<noteq> [] \<and> unavailable_issue_due e (pt_first p) (pl_now a) then
           (if repo = pl_carrier a then
              (case queue False s of Inl x \<Rightarrow> Inl x | Inr (i, s') \<Rightarrow> Inr (issue_result repo i True, s'))
            else Inr (plain_result repo admission_storage_unavailable (ob_reason source),
                s\<lparr>as_db := clear_pair_pending e (pl_job a) repo (pl_now a) (as_db s)\<rparr>))
         else Inr (plain_result repo admission_storage_unavailable (ob_reason source), s))
      else if target_outage source ob then
        (if unavailable_issue_due e (pt_first p) (pl_now a) \<and> \<not> pair_busy (pl_job a) repo (as_db s) then
           (case queue False s of Inl x \<Rightarrow> Inl x | Inr (i, s') \<Rightarrow> Inr (issue_result repo i False, s'))
         else Inr (plain_result repo admission_storage_unavailable (ob_reason ob), s))
      else if pair_busy (pl_job a) repo (as_db s) then Inr (plain_result repo admission_busy [], s)
      else (case require_kopia_policy_ready repo (as_db s) of
          Some x \<Rightarrow>
            if errors_is x err_kopia_policy_not_ready
            then Inr (plain_result repo admission_policy_not_ready ''kopia_policy_not_ready'', s)
            else Inl x
        | None \<Rightarrow>
            (case queue True s of
               Inl x \<Rightarrow> Inl x
             | Inr (i, s') \<Rightarrow> Inr (running_result repo
                 (if pl_regular a \<and> pt_missed p = 1 then admitted_regular else admitted_catch_up) i source ob, s'))))"

fun admit_targets ::
  "schedule_env \<Rightarrow> admission_plan \<Rightarrow> pair_row list \<Rightarrow> admission_state \<Rightarrow> (admission_result list \<times> admission_state) result" where
  "admit_targets e a [] s = Inr ([], s)"
| "admit_targets e a (p # ps) s =
     (case admit_target e a p s of
        Inl x \<Rightarrow> Inl x
      | Inr (r, s') \<Rightarrow>
          (case admit_targets e a ps s' of Inl x \<Rightarrow> Inl x | Inr (rs, s'') \<Rightarrow> Inr (r # rs, s'')))"

fun record_observations ::
  "schedule_env \<Rightarrow> string \<Rightarrow> observation \<Rightarrow> int \<Rightarrow> bool \<Rightarrow> (string \<rightharpoonup> observation) \<Rightarrow> pair_row list \<Rightarrow>
   schedule_db \<Rightarrow> schedule_db result" where
  "record_observations e job source now regular seen [] d = Inr d"
| "record_observations e job source now regular seen (p # ps) d =
     (case seen (pt_repository p) of
        None \<Rightarrow> if regular then Inl err_invalid_targets else record_observations e job source now regular seen ps d
      | Some ob \<Rightarrow>
          (case validate_availability_observation ob now of
             Some x \<Rightarrow> Inl x
           | None \<Rightarrow> record_observations e job source now regular seen ps
               (update_pair_observations e job (pt_repository p) source ob now d)))"

definition apply_source_observation ::
  "schedule_env \<Rightarrow> string \<Rightarrow> observation \<Rightarrow> schedule_db \<Rightarrow> schedule_db result" where
  "apply_source_observation e job ob d =
     (case ob_conversion ob of
        None \<Rightarrow> Inr d
      | Some c \<Rightarrow>
          (case sb_jobs d job of
             None \<Rightarrow> Inl sql_no_rows
           | Some j \<Rightarrow> map_sum id (\<lambda>b. put_job job (j\<lparr>jo_binding := b\<rparr>) d)
               (convert_legacy_source_binding (se_platform e) (se_json e) c (jo_binding j))))"

text \<open>What the transaction reads first: the job, the observations and the targets of the job.\<close>

definition open_admission ::
  "schedule_env \<Rightarrow> admission_request \<Rightarrow> bool \<Rightarrow> schedule_db \<Rightarrow>
   (backup_job_row \<times> (string \<rightharpoonup> observation) \<times> pair_row list \<times> schedule_db) result" where
  "open_admission e rq deleting d =
     (if rq_job rq = [] \<or> rq_targets rq = [] then Inl err_invalid_targets
      else if deleting then Inl err_job_definition_busy
      else if rq_now rq = 0 then Inl (new_error ''scheduled admission time is required'')
      else case validate_availability_observation (rq_source rq) (rq_now rq) of
        Some x \<Rightarrow> Inl x
      | None \<Rightarrow>
          (case observation_map (rq_targets rq) (\<lambda>_. None) of
             Inl x \<Rightarrow> Inl x
           | Inr seen \<Rightarrow>
               if sb_reserved d (rq_job rq) then Inl err_job_connection_reserved
               else (case sb_jobs d (rq_job rq) of
                  None \<Rightarrow> Inl sql_no_rows
                | Some j \<Rightarrow>
                    (case apply_source_observation e (rq_job rq) (rq_source rq) d of
                       Inl x \<Rightarrow> Inl x
                     | Inr d' \<Rightarrow> Inr (j, seen, scheduled_targets (rq_job rq) d', d')))))"

text \<open>A due run: it must be the one the job is waiting for; the next one is saved and every pair misses this one.\<close>

definition record_due_run ::
  "schedule_env \<Rightarrow> string \<Rightarrow> backup_job_row \<Rightarrow> int \<Rightarrow> int \<Rightarrow> pair_row list \<Rightarrow> schedule_db \<Rightarrow>
   (pair_row list \<times> schedule_db) result" where
  "record_due_run e job j due now ps d =
     (case advance_schedule_after e (jo_schedule j) due now of
        Inl x \<Rightarrow> Inl x
      | Inr nxt \<Rightarrow>
          Inr (map (miss_pair e due now) ps,
            fold (\<lambda>p. mark_pair_missed e p due now) ps
              (put_job job ((the (sb_jobs d job))\<lparr>jo_next_run := se_text e nxt\<rparr>) d)))"

definition save_last_run :: "schedule_env \<Rightarrow> string \<Rightarrow> int \<Rightarrow> admission_state \<Rightarrow> schedule_db" where
  "save_last_run e job now s =
     (if as_admitted s
      then put_job job ((the (sb_jobs (as_db s) job))\<lparr>jo_last_run := se_text e now\<rparr>) (as_db s) else as_db s)"

definition admit_observed ::
  "schedule_env \<Rightarrow> (string \<Rightarrow> string) \<Rightarrow> string \<Rightarrow> admission_request \<Rightarrow> backup_job_row \<Rightarrow> (string \<rightharpoonup> observation) \<Rightarrow>
   pair_row list \<Rightarrow> schedule_db \<Rightarrow> (admission_result list \<times> schedule_db) result" where
  "admit_observed e new_id new_group rq j seen ps d =
     (let carrier = (if jo_enabled j \<and> source_outage (rq_source rq)
          then source_issue_carrier e (rq_job rq) (rq_now rq) ps d else []) in
      case admit_targets e \<lparr>pl_ids = new_id, pl_group = new_group, pl_job = rq_job rq, pl_row = j, pl_now = rq_now rq,
          pl_regular = rq_due rq \<noteq> None, pl_source = rq_source rq, pl_observed = (\<lambda>r. the (seen r)), pl_carrier = carrier\<rparr>
          ps \<lparr>as_db = d, as_group = [], as_admitted = False\<rparr> of
        Inl x \<Rightarrow> Inl x
      | Inr (results, s) \<Rightarrow> Inr (results, save_last_run e (rq_job rq) (rq_now rq) s))"

definition coordinate_scheduled ::
  "schedule_env \<Rightarrow> (string \<Rightarrow> string) \<Rightarrow> string \<Rightarrow> bool \<Rightarrow> admission_request \<Rightarrow> schedule_db \<Rightarrow>
   (admission_result list \<times> schedule_db) result" where
  "coordinate_scheduled e new_id new_group deleting rq d =
     (case open_admission e rq deleting d of
        Inl x \<Rightarrow> Inl x
      | Inr (j, seen, ps, d1) \<Rightarrow>
          let regular = rq_due rq \<noteq> None; n = length (rq_targets rq) in
          if ps = [] \<or> n = 0 \<or> regular \<and> n \<noteq> length ps \<or> n > length ps then Inl err_invalid_targets
          else case record_observations e (rq_job rq) (rq_source rq) (rq_now rq) regular seen ps d1 of
            Inl x \<Rightarrow> Inl x
          | Inr d2 \<Rightarrow>
              (case rq_due rq of
                 None \<Rightarrow>
                   if set (map fst (rq_targets rq)) \<subseteq> set (map pt_repository ps)
                   then admit_observed e new_id new_group rq j seen (filter (\<lambda>p. seen (pt_repository p) \<noteq> None) ps) d2
                   else Inl err_invalid_targets
               | Some due \<Rightarrow>
                   if se_parse e (jo_next_run j) \<noteq> Some due \<or> rq_now rq < due then Inl err_backup_trigger_changed
                   else if \<not> jo_enabled j
                   then Inr (map (\<lambda>p. plain_result (pt_repository p) admission_paused []) ps, d2)
                   else (case record_due_run e (rq_job rq) j due (rq_now rq) ps d2 of
                      Inl x \<Rightarrow> Inl x
                    | Inr (ps', d3) \<Rightarrow> admit_observed e new_id new_group rq j seen ps' d3)))"

section \<open>Manual admission\<close>

definition admit_manual_target ::
  "schedule_env \<Rightarrow> (string \<Rightarrow> string) \<Rightarrow> admission_request \<Rightarrow> backup_job_row \<Rightarrow> string \<Rightarrow> observation \<Rightarrow>
   schedule_db \<Rightarrow> (admission_result \<times> bool \<times> schedule_db) result" where
  "admit_manual_target e new_id rq j repo ob d0 =
     (let source = rq_source rq; job = rq_job rq;
          d = update_pair_observations e job repo source ob (rq_now rq) d0 in
      if source_outage source
      then Inr (plain_result repo admission_storage_unavailable (ob_reason source), False, d)
      else if target_outage source ob
      then Inr (plain_result repo admission_storage_unavailable (ob_reason ob), False, d)
      else if vault_removal_pending (sb_operations d) repo
      then Inr (plain_result repo admission_busy vault_being_removed_reason, True, d)
      else if list_ex (\<lambda>o'. op_job o' = job \<and> op_repository o' = repo \<and> active o') (od_ops (sb_operations d))
      then Inr (plain_result repo admission_busy [], False, d)
      else case require_kopia_policy_ready repo d of
        Some x \<Rightarrow>
          if errors_is x err_kopia_policy_not_ready
          then Inr (plain_result repo admission_policy_not_ready ''kopia_policy_not_ready'', False, d)
          else Inl x
      | None \<Rightarrow>
          (case queue_admitted_pair e (new_id repo) job (jo_name j) repo (rq_now rq) d of
             Inl x \<Rightarrow> Inl x
           | Inr d' \<Rightarrow> Inr (running_result repo admitted_regular (new_id repo) source ob, False, d')))"

fun admit_manual_targets ::
  "schedule_env \<Rightarrow> (string \<Rightarrow> string) \<Rightarrow> admission_request \<Rightarrow> backup_job_row \<Rightarrow> (string \<rightharpoonup> observation) \<Rightarrow>
   string list \<Rightarrow> string list \<Rightarrow> schedule_db \<Rightarrow> (admission_result list \<times> nat \<times> schedule_db) result" where
  "admit_manual_targets e new_id rq j seen known [] d = Inr ([], 0, d)"
| "admit_manual_targets e new_id rq j seen known (repo # repos) d =
     (if repo \<notin> set known then Inl sql_no_rows
      else case validate_availability_observation (the (seen repo)) (rq_now rq) of
        Some x \<Rightarrow> Inl x
      | None \<Rightarrow>
          (case admit_manual_target e new_id rq j repo (the (seen repo)) d of
             Inl x \<Rightarrow> Inl x
           | Inr (r, removing, d') \<Rightarrow>
               (case admit_manual_targets e new_id rq j seen known repos d' of
                  Inl x \<Rightarrow> Inl x
                | Inr (rs, n, d'') \<Rightarrow> Inr (r # rs, (if removing then n + 1 else n), d''))))"

text \<open>The same readings in the order of the manual admission, which also refuses an unbound source.\<close>

definition open_manual_admission ::
  "schedule_env \<Rightarrow> admission_request \<Rightarrow> bool \<Rightarrow> schedule_db \<Rightarrow>
   (backup_job_row \<times> (string \<rightharpoonup> observation) \<times> pair_row list \<times> schedule_db) result" where
  "open_manual_admission e rq deleting d =
     (if rq_job rq = [] \<or> rq_targets rq = [] then Inl err_invalid_targets
      else if deleting then Inl err_job_definition_busy
      else if rq_now rq = 0 then Inl (new_error ''manual admission time is required'')
      else if sb_reserved d (rq_job rq) then Inl err_job_connection_reserved
      else case sb_jobs d (rq_job rq) of
        None \<Rightarrow> Inl sql_no_rows
      | Some j \<Rightarrow>
          if normalized_binding_state (jb_state (jo_binding j)) = ''unbound_imported'' then Inl err_job_source_unbound
          else (case validate_availability_observation (rq_source rq) (rq_now rq) of
             Some x \<Rightarrow> Inl x
           | None \<Rightarrow>
               (case observation_map (rq_targets rq) (\<lambda>_. None) of
                  Inl x \<Rightarrow> Inl x
                | Inr seen \<Rightarrow>
                    (case apply_source_observation e (rq_job rq) (rq_source rq) d of
                       Inl x \<Rightarrow> Inl x
                     | Inr d' \<Rightarrow> Inr (j, seen, scheduled_targets (rq_job rq) d', d')))))"

definition admit_manual_backups ::
  "schedule_env \<Rightarrow> (string \<Rightarrow> string) \<Rightarrow> bool \<Rightarrow> admission_request \<Rightarrow> schedule_db \<Rightarrow>
   (admission_result list \<times> schedule_db) result" where
  "admit_manual_backups e new_id deleting rq d =
     (case open_manual_admission e rq deleting d of
        Inl x \<Rightarrow> Inl x
      | Inr (j, seen, ps, d1) \<Rightarrow>
          let ids = sort (map fst (rq_targets rq)) in
          case admit_manual_targets e new_id rq j seen (map pt_repository ps) ids d1 of
            Inl x \<Rightarrow> Inl x
          | Inr (results, removing, d2) \<Rightarrow>
              if removing = length ids then Inl err_vault_being_removed else Inr (results, d2))"

text \<open>The pending runs with the times and the state of both sides, for the next tick of the scheduler.\<close>

definition list_pending_catch_ups :: "schedule_db \<Rightarrow> (pair_row \<times> bool \<times> string) list" where
  "list_pending_catch_ups d =
     List.map_filter (\<lambda>p. map_option (\<lambda>j. (p, jo_enabled j, jo_schedule j)) (sb_jobs d (pt_job p)))
       (sort_key pair_key (filter pt_pending (sb_pairs d)))"

end
