(* ===== verification/AdmissionSafety.thy ===== *)
theory AdmissionSafety
  imports ScheduledAdmission
begin

text \<open>
  The next run a due run leads to: it lies in the future, and only runs already past are skipped.
\<close>

section \<open>The next regular run\<close>

text \<open>The runs of a schedule after an instant.\<close>

inductive follows :: "(int \<Rightarrow> int option) \<Rightarrow> int \<Rightarrow> int \<Rightarrow> int \<Rightarrow> bool" for nxt now where
  follows_here: "follows nxt now t t"
| follows_step: "t \<le> now \<Longrightarrow> nxt t = Some u \<Longrightarrow> t < u \<Longrightarrow> follows nxt now u v \<Longrightarrow> follows nxt now t v"

lemma advance_loop_follows: "advance_loop nxt now t = Inr u \<Longrightarrow> now < u \<and> follows nxt now t u"
proof (induction nxt now t rule: advance_loop.induct)
  case (1 nxt now t)
  show ?case
  proof (cases "now < t")
    case True
    with "1.prems" show ?thesis by (simp add: advance_loop.simps follows_here)
  next
    case False
    with "1.prems" obtain f where f: "nxt t = Some f" "t < f" "advance_loop nxt now f = Inr u"
      by (subst (asm) advance_loop.simps) (auto split: option.splits if_splits)
    with 1(1) [OF False f(1)] False show ?thesis by (auto intro: follows_step)
  qed
qed

lemma advance_loop_total:
  assumes "\<forall>t. \<exists>u. nxt t = Some u \<and> t < u"
  shows "\<exists>u. advance_loop nxt now t = Inr u"
  using assms
proof (induction nxt now t rule: advance_loop.induct)
  case (1 nxt now t)
  from "1.prems" obtain f where f: "nxt t = Some f" "t < f" by blast
  show ?case
  proof (cases "now < t")
    case True
    then show ?thesis by (simp add: advance_loop.simps)
  next
    case False
    from "1.IH" [OF False f(1) _ "1.prems"] f(2) have "\<exists>u. advance_loop nxt now f = Inr u" by simp
    with False f show ?thesis by (subst advance_loop.simps) simp
  qed
qed

lemma div_bounds:
  fixes a i :: int
  assumes "0 < i" and "0 \<le> a"
  shows "a div i * i \<le> a" and "a < (a div i + 1) * i" and "0 \<le> a div i"
proof -
  have "a = a div i * i + a mod i" "0 \<le> a mod i" "a mod i < i" using assms by simp_all
  moreover have "(a div i + 1) * i = a div i * i + i" by (simp add: distrib_right)
  ultimately show "a div i * i \<le> a" "a < (a div i + 1) * i" by linarith+
  show "0 \<le> a div i" using assms by (simp add: pos_imp_zdiv_nonneg_iff)
qed

lemma next_multiple: "(q + 1) * i = q * i + (i :: int)" "(q + 2) * i = (q + 1) * i + i"
  by (simp_all add: algebra_simps)

lemma fixed_step:
  assumes "due \<le> now" and "now - due \<le> max64" and "\<not> now < t" and "0 < time_sub t due"
  shows "\<exists>m \<ge> 1. t + wrap64 ((time_sub now t div time_sub t due + 1) * time_sub t due) = due + m * (t - due) \<and>
    now < due + m * (t - due) \<and> due + m * (t - due) - (t - due) \<le> now"
proof -
  define i q p where "i = t - due" and "q = (now - t) div i" and "p = q * i"
  from assms(4) have pos: "0 < i" by (auto simp: time_sub_def i_def)
  with assms have i: "time_sub t due = i" and n: "time_sub now t = now - t"
    by (simp_all add: time_sub_def max64_def i_def)
  have q: "p \<le> now - t" "now - t < p + i" "0 \<le> q"
    using div_bounds [OF pos, of "now - t"] assms(3) by (simp_all add: p_def q_def next_multiple)
  have steps: "(q + 1) * i = p + i" "(q + 2) * i = p + i + i" by (simp_all add: p_def next_multiple)
  have due: "t = due + i" by (simp add: i_def)
  have "0 \<le> p" using q(3) pos by (simp add: p_def)
  then have "0 \<le> p + i" "p + i \<le> max64" using q(1) pos due assms(2) by linarith+
  then have "in_int64 (p + i)" by (simp add: in_int64_def min64_def)
  then have w: "wrap64 ((q + 1) * i) = p + i" unfolding steps(1) by (rule wrap64_id)
  have "t + (p + i) = due + (q + 2) * i" "now < due + (q + 2) * i" "due + (q + 2) * i - i \<le> now" "1 \<le> q + 2"
    unfolding steps(2) using q due by linarith+
  then have "\<exists>m \<ge> 1. t + wrap64 ((q + 1) * i) = due + m * i \<and> now < due + m * i \<and> due + m * i - i \<le> now"
    unfolding w by blast
  then show ?thesis by (simp add: i n q_def i_def)
qed

text \<open>C17. The next run a due run leads to lies in the future, and no run between is skipped but those already
  past: a calendar schedule is followed run by run, a fixed interval jumps by whole intervals to the
  first one after now, a cron schedule takes the first match after now.  With a schedule whose runs
  advance the search always returns.\<close>

theorem next_run_correct:
  assumes "due \<le> now" and "now - due \<le> max64" and "schedule \<notin> {[], ''manual''}"
  shows "(\<forall>t. advance_schedule_after e schedule due now = Inr t \<longrightarrow> now < t \<and>
      (if se_cron e schedule then se_next e schedule due = Some t \<or> se_next e schedule now = Some t
       else if schedule = ''hourly'' \<or> custom_minutes schedule \<noteq> None
       then \<exists>u m. se_next e schedule due = Some u \<and> 1 \<le> m \<and> t = due + m * (u - due) \<and> t - (u - due) \<le> now
       else \<exists>u. se_next e schedule due = Some u \<and> follows (se_next e schedule) now u t)) \<and>
    ((\<forall>x. \<exists>u. se_next e schedule x = Some u \<and> x < u \<and> u - x \<le> max64) \<longrightarrow>
      (\<exists>t. advance_schedule_after e schedule due now = Inr t))"
proof (intro conjI allI impI)
  let ?nx = "se_next e schedule"
  fix t
  assume run: "advance_schedule_after e schedule due now = Inr t"
  then obtain u where u: "?nx due = Some u" using assms(3)
    by (auto simp: advance_schedule_after_def split: option.splits)
  note unfolded = run [unfolded advance_schedule_after_def] and known = u assms(3)
  consider (now) "now < u" | (cron) "se_cron e schedule" "\<not> now < u"
    | (jump) "\<not> se_cron e schedule" "schedule = ''hourly'' \<or> custom_minutes schedule \<noteq> None" "\<not> now < u"
    | (loop) "\<not> se_cron e schedule" "\<not> (schedule = ''hourly'' \<or> custom_minutes schedule \<noteq> None)" "\<not> now < u"
    by blast
  then have "now < t \<and> (if se_cron e schedule then ?nx due = Some t \<or> ?nx now = Some t
       else if schedule = ''hourly'' \<or> custom_minutes schedule \<noteq> None
       then \<exists>u m. ?nx due = Some u \<and> 1 \<le> m \<and> t = due + m * (u - due) \<and> t - (u - due) \<le> now
       else \<exists>u. ?nx due = Some u \<and> follows ?nx now u t)"
  proof cases
    case now
    then have "t = u" using unfolded known by (simp add: advance_loop.simps split: if_splits)
    moreover have "\<exists>m \<ge> 1. u = due + m * (u - due) \<and> u - (u - due) \<le> now"
      by (rule exI [of _ 1]) (use assms(1) in simp)
    ultimately show ?thesis using now u follows_here by auto
  next
    case cron
    then show ?thesis using unfolded known by (auto split: option.splits if_splits)
  next
    case jump
    then have "0 < time_sub u due" and t: "t = u + wrap64 ((time_sub now u div time_sub u due + 1) * time_sub u due)"
      using unfolded known by (auto simp: Let_def split: if_splits)
    from fixed_step [OF assms(1,2) jump(3) this(1)] t jump u show ?thesis by auto
  next
    case loop
    then have "advance_loop ?nx now u = Inr t" using unfolded known by (simp split: if_splits)
    from advance_loop_follows [OF this] loop u show ?thesis by auto
  qed
  then show "now < t" and "if se_cron e schedule then ?nx due = Some t \<or> ?nx now = Some t
       else if schedule = ''hourly'' \<or> custom_minutes schedule \<noteq> None
       then \<exists>u m. ?nx due = Some u \<and> 1 \<le> m \<and> t = due + m * (u - due) \<and> t - (u - due) \<le> now
       else \<exists>u. ?nx due = Some u \<and> follows ?nx now u t" by (elim conjunct1 conjunct2)+
next
  let ?nx = "se_next e schedule"
  assume go: "\<forall>x. \<exists>u. ?nx x = Some u \<and> x < u \<and> u - x \<le> max64"
  then obtain u v where u: "?nx due = Some u" "due < u" "u - due \<le> max64" and v: "?nx now = Some v" "now < v" by metis
  have pos: "0 < time_sub u due" using u by (simp add: time_sub_def max64_def)
  have "\<exists>t. advance_loop ?nx now u = Inr t" by (rule advance_loop_total) (use go in blast)
  with u v pos assms(3) show "\<exists>t. advance_schedule_after e schedule due now = Inr t"
    by (auto simp: advance_schedule_after_def Let_def)
qed

end
