(* ===== verification/AdmissionLedger.thy ===== *)
theory AdmissionLedger
  imports AdmissionSafety
begin

text \<open>
  The ledger of missed runs: what a pair of a job and a vault is still owed is the count of its own row
  and of the admitted runs that may yet be given back.  The transactions keep the tables in a state
  in which every saved range can be read and every group is complete.
\<close>

section \<open>What a pair is owed\<close>

definition held_by :: "string \<times> string \<Rightarrow> restoration \<Rightarrow> bool" where
  "held_by k r \<longleftrightarrow> (rs_job r, rs_repository r) = k \<and> rs_state r = ''eligible''"

definition held_runs :: "string \<times> string \<Rightarrow> restoration list \<Rightarrow> int" where
  "held_runs k rs = sum_list (map rs_missed (filter (held_by k) rs))"

definition waiting_runs :: "string \<times> string \<Rightarrow> pair_row list \<Rightarrow> int" where
  "waiting_runs k ps = sum_list (map pt_missed (filter (\<lambda>p. pair_key p = k) ps))"

definition owed :: "schedule_db \<Rightarrow> string \<times> string \<Rightarrow> int" where
  "owed d k = waiting_runs k (sb_pairs d) + held_runs k (od_restorations (sb_operations d))"

section \<open>Well-formed tables\<close>

definition clock_ok :: "schedule_env \<Rightarrow> bool" where
  "clock_ok e \<longleftrightarrow> (\<forall>t. se_parse e (se_text e t) = Some t \<and> se_text e t \<noteq> [])"

definition readable :: "schedule_env \<Rightarrow> string \<Rightarrow> bool" where
  "readable e t \<longleftrightarrow> t = [] \<or> se_parse e t \<noteq> None"

definition range_ok :: "schedule_env \<Rightarrow> int \<Rightarrow> string \<Rightarrow> string \<Rightarrow> bool" where
  "range_ok e n f l \<longleftrightarrow> (\<exists>r. parse_restoration_range e n f l = Inr r)"

definition pair_ok :: "schedule_env \<Rightarrow> pair_row \<Rightarrow> bool" where
  "pair_ok e p \<longleftrightarrow> (if pt_pending p then range_ok e (pt_missed p) (pt_first p) (pt_last p)
     else pt_missed p = 0 \<and> pt_first p = [] \<and> readable e (pt_last p))"

definition kept_ok :: "schedule_env \<Rightarrow> (string \<times> string) set \<Rightarrow> operations_db \<Rightarrow> bool" where
  "kept_ok e keys o' \<longleftrightarrow> distinct (map rs_operation (od_restorations o')) \<and>
     (\<forall>r \<in> set (od_restorations o'). range_ok e (rs_missed r) (rs_first r) (rs_last r) \<and>
        (rs_job r, rs_repository r) \<in> keys \<and> rs_operation r \<in> op_id ` set (od_ops o') \<and>
        (\<exists>g \<in> set (od_groups o'). ag_id g = rs_group r \<and> ag_job g = rs_job r))"

definition groups_ok :: "schedule_env \<Rightarrow> operations_db \<Rightarrow> bool" where
  "groups_ok e o' \<longleftrightarrow> distinct (map ag_id (od_groups o')) \<and>
     distinct (map (\<lambda>g. (ag_job g, ag_generation g)) (od_groups o')) \<and>
     (\<forall>g \<in> set (od_groups o'). check_group e o' g = None)"

definition jobs_ok :: "schedule_env \<Rightarrow> schedule_db \<Rightarrow> bool" where
  "jobs_ok e d \<longleftrightarrow> (\<forall>g \<in> set (od_groups (sb_operations d)). sb_jobs d (ag_job g) \<noteq> None) \<and>
     (\<forall>job j. sb_jobs d job = Some j \<longrightarrow> readable e (jo_last_run j))"

definition pairs_ok :: "schedule_env \<Rightarrow> schedule_db \<Rightarrow> bool" where
  "pairs_ok e d \<longleftrightarrow> distinct (map pair_key (sb_pairs d)) \<and> (\<forall>p \<in> set (sb_pairs d). pair_ok e p)"

definition sched_ok :: "schedule_env \<Rightarrow> schedule_db \<Rightarrow> bool" where
  "sched_ok e d \<longleftrightarrow> pairs_ok e d \<and> kept_ok e (pair_key ` set (sb_pairs d)) (sb_operations d) \<and>
     groups_ok e (sb_operations d) \<and> jobs_ok e d"

lemma sb_simps [simp]:
  "sb_operations (put_operations o' d) = o'" "sb_pairs (put_operations o' d) = sb_pairs d"
  "sb_jobs (put_operations o' d) = sb_jobs d" "sb_pairs (put_job job j d) = sb_pairs d"
  "sb_operations (put_job job j d) = sb_operations d" "sb_jobs (put_job job j d) = (sb_jobs d)(job \<mapsto> j)"
  "sb_operations (update_pair job repo f d) = sb_operations d" "sb_jobs (update_pair job repo f d) = sb_jobs d"
  "sb_pairs (update_pair job repo f d) = map (\<lambda>p. if pair_key p = (job, repo) then f p else p) (sb_pairs d)"
  by (simp_all add: put_operations_def put_job_def update_pair_def)

lemma range_ok_iff: "range_ok e n f l \<longleftrightarrow> 0 < n \<and> f \<noteq> [] \<and> l \<noteq> [] \<and>
    (\<exists>a b. se_parse e f = Some a \<and> se_parse e l = Some b \<and> a \<le> b)"
  by (auto simp: range_ok_def parse_restoration_range_def split: option.splits)

lemma readable_text: "clock_ok e \<Longrightarrow> readable e (se_text e t)"
  by (simp add: clock_ok_def readable_def)

lemma find_pair_Some:
  "find_pair job repo d = Some p \<Longrightarrow> p \<in> set (sb_pairs d) \<and> pair_key p = (job, repo)"
  by (auto simp: find_pair_def find_Some_iff)

lemma find_pair_None: "find_pair job repo d = None \<longleftrightarrow> (job, repo) \<notin> pair_key ` set (sb_pairs d)"
  by (simp add: find_pair_def find_None_iff image_iff) metis

lemma distinct_key_filter:
  "distinct (map f xs) \<Longrightarrow> x \<in> set xs \<Longrightarrow> filter (\<lambda>y. f y = f x) xs = [x]"
  by (induction xs) (auto simp: filter_empty_conv image_iff)

lemma waiting_find:
  "distinct (map pair_key (sb_pairs d)) \<Longrightarrow> find_pair job repo d = Some p \<Longrightarrow>
   waiting_runs (job, repo) (sb_pairs d) = pt_missed p"
  using distinct_key_filter [of pair_key "sb_pairs d" p] by (auto simp: waiting_runs_def dest!: find_pair_Some)

section \<open>Reconciling the groups of a job\<close>

lemma check_groups_None:
  "sorted (map ag_generation gs) \<Longrightarrow> distinct (map ag_generation gs) \<Longrightarrow> \<forall>g \<in> set gs. check_group e o' g = None \<Longrightarrow>
   (\<And>p. before = Some p \<Longrightarrow> \<forall>g \<in> set gs. p < ag_generation g) \<Longrightarrow> check_groups e o' before gs = None"
proof (induction gs arbitrary: before)
  case (Cons g gs)
  have later: "\<forall>x \<in> set gs. ag_generation g < ag_generation x"
    using Cons.prems(1,2) by (auto simp: order_less_le)
  have "check_groups e o' (Some (ag_generation g)) gs = None"
    by (rule Cons.IH) (use Cons.prems later in auto)
  then show ?case using Cons.prems(3,4) by (fastforce split: option.split)
qed simp

lemma job_groups_set: "set (job_groups job o') = {g \<in> set (od_groups o'). ag_job g = job}"
  by (auto simp: job_groups_def)

lemma job_groups_check:
  assumes "groups_ok e o'"
  shows "check_groups e o' None (job_groups job o') = None"
proof (rule check_groups_None)
  show "sorted (map ag_generation (job_groups job o'))" by (simp add: job_groups_def)
  have "distinct (map (\<lambda>g. (ag_job g, ag_generation g)) (filter (\<lambda>g. ag_job g = job) (od_groups o')))"
    using assms by (simp add: groups_ok_def distinct_map_filter)
  then have "distinct (map ag_generation (filter (\<lambda>g. ag_job g = job) (od_groups o')))"
    by (auto simp: distinct_map inj_on_def)
  then show "distinct (map ag_generation (job_groups job o'))"
    by (simp add: job_groups_def distinct_map)
  show "\<forall>g \<in> set (job_groups job o'). check_group e o' g = None"
    using assms by (simp add: groups_ok_def job_groups_set)
qed simp

lemma fold_admitted:
  "(P :: string \<Rightarrow> bool) r \<Longrightarrow> \<forall>g \<in> set gs. P (ag_admitted g) \<Longrightarrow> P (fold (\<lambda>g r. if Q g then ag_admitted g else r) gs r)"
  by (induction gs arbitrary: r) auto

lemma shown_readable:
  assumes "groups_ok e o'" and "job_groups job o' \<noteq> []"
  shows "readable e (shown_last_run o' (job_groups job o'))"
proof -
  have all: "\<forall>g \<in> set (job_groups job o'). readable e (ag_admitted g) \<and> readable e (ag_previous g)"
    using assms(1) by (fastforce simp: groups_ok_def job_groups_set check_group_def readable_def split: if_splits)
  moreover have "hd (job_groups job o') \<in> set (job_groups job o')" using assms(2) by simp
  moreover have "readable e []" by (simp add: readable_def)
  ultimately show ?thesis unfolding shown_last_run_def
    by (simp add: fold_admitted [of "readable e"])
qed

lemma check_group_same:
  "filter (\<lambda>r. rs_group r = ag_id g) (od_restorations o'') = [] \<longleftrightarrow> filter (\<lambda>r. rs_group r = ag_id g) (od_restorations o') = [] \<Longrightarrow>
   check_group e o'' g = check_group e o' g"
  by (simp add: check_group_def)

lemma drop_groups_ok:
  assumes "groups_ok e o'" and "kept_ok e keys o'"
  shows "groups_ok e (drop_groups job o')" and "kept_ok e keys (drop_groups job o')"
proof -
  have ids: "distinct (map ag_id (od_groups o'))" using assms(1) by (simp add: groups_ok_def)
  have other: "rs_group r \<notin> ag_id ` {g \<in> set (od_groups o'). ag_job g = job}"
    if "rs_group r = ag_id g" "g \<in> set (od_groups o')" "ag_job g \<noteq> job" for r g
    using that ids by (auto simp: distinct_map inj_on_def)
  have "check_group e (drop_groups job o') g = None" if g: "g \<in> set (od_groups o')" "ag_job g \<noteq> job" for g
  proof -
    have "filter (\<lambda>r. rs_group r = ag_id g) (od_restorations (drop_groups job o')) =
        filter (\<lambda>r. rs_group r = ag_id g) (od_restorations o')"
      using other [OF _ g] by (auto simp: drop_groups_def Let_def filter_filter intro!: filter_cong)
    then show ?thesis using check_group_same assms(1) g(1) by (metis groups_ok_def)
  qed
  then show "groups_ok e (drop_groups job o')"
    using assms(1) by (auto simp: groups_ok_def drop_groups_def Let_def distinct_map_filter)
  have group: "\<exists>g \<in> set (od_groups (drop_groups job o')). ag_id g = rs_group r \<and> ag_job g = rs_job r"
    if "r \<in> set (od_restorations (drop_groups job o'))" for r
  proof -
    from that assms(2) obtain g where g: "g \<in> set (od_groups o')" "ag_id g = rs_group r" "ag_job g = rs_job r"
      by (auto simp: drop_groups_def Let_def kept_ok_def)
    from that have "rs_group r \<notin> ag_id ` {g \<in> set (od_groups o'). ag_job g = job}"
      by (simp add: drop_groups_def Let_def)
    with g(1,2) have "ag_job g \<noteq> job" by (metis (mono_tags, lifting) image_eqI mem_Collect_eq)
    with g show ?thesis by (auto simp: drop_groups_def Let_def)
  qed
  then show "kept_ok e keys (drop_groups job o')"
    using assms(2) by (auto simp: kept_ok_def drop_groups_def Let_def distinct_map_filter)
qed

lemma drop_groups_held:
  assumes "\<not> list_ex (\<lambda>g. eligible_of g o' \<noteq> []) (job_groups job o')"
  shows "held_runs k (od_restorations (drop_groups job o')) = held_runs k (od_restorations o')"
proof -
  have "filter (held_by k) (od_restorations (drop_groups job o')) = filter (held_by k) (od_restorations o')"
    using assms by (auto simp: drop_groups_def Let_def filter_filter held_by_def list_ex_iff job_groups_set
        eligible_of_def filter_empty_conv intro!: filter_cong)
  then show ?thesis by (simp add: held_runs_def)
qed

text \<open>Under the invariant the check of the groups never fails, and nothing owed is lost by it.\<close>

lemma reconcile_groups_ok:
  assumes "sched_ok e d"
  shows "\<exists>d'. reconcile_groups e job d = Inr d' \<and> sched_ok e d' \<and> owed d' = owed d \<and> sb_pairs d' = sb_pairs d \<and>
    od_ops (sb_operations d') = od_ops (sb_operations d)"
proof -
  let ?o = "sb_operations d" and ?gs = "job_groups job (sb_operations d)"
  have g: "groups_ok e ?o" and k: "kept_ok e (pair_key ` set (sb_pairs d)) ?o" and p: "pairs_ok e d" and j: "jobs_ok e d"
    using assms by (simp_all add: sched_ok_def)
  note check = job_groups_check [OF g, of job]
  show ?thesis
  proof (cases "?gs = []")
    case True
    with check assms show ?thesis by (simp add: reconcile_groups_def Let_def)
  next
    case False
    then obtain x where "x \<in> set (od_groups ?o)" "ag_job x = job" using job_groups_set [of job ?o]
      by (metis (mono_tags, lifting) list.set_intros(1) mem_Collect_eq neq_Nil_conv)
    with j obtain row where row: "sb_jobs d job = Some row" by (auto simp: jobs_ok_def)
    let ?d = "put_job job (row\<lparr>jo_last_run := shown_last_run ?o ?gs\<rparr>) d"
    have jobs: "jobs_ok e ?d" using j shown_readable [OF g False] by (auto simp: jobs_ok_def)
    have pairs: "pairs_ok e ?d" using p by (simp add: pairs_ok_def)
    show ?thesis
    proof (cases "list_ex (\<lambda>g. eligible_of g ?o \<noteq> []) ?gs")
      case True
      with check False row jobs pairs g k show ?thesis
        by (auto simp: reconcile_groups_def Let_def sched_ok_def owed_def fun_eq_iff)
    next
      case no: False
      have "jobs_ok e (put_operations (drop_groups job ?o) ?d)"
        using jobs by (auto simp: jobs_ok_def drop_groups_def Let_def)
      moreover have "pairs_ok e (put_operations (drop_groups job ?o) ?d)" using pairs by (simp add: pairs_ok_def)
      ultimately have "sched_ok e (put_operations (drop_groups job ?o) ?d)"
        using drop_groups_ok [OF g k] by (simp add: sched_ok_def)
      moreover have "owed (put_operations (drop_groups job ?o) ?d) = owed d"
        using drop_groups_held [OF no] by (simp add: owed_def fun_eq_iff)
      moreover have "od_ops (drop_groups job ?o) = od_ops ?o" by (simp add: drop_groups_def Let_def)
      ultimately show ?thesis using check False row no by (simp add: reconcile_groups_def Let_def)
    qed
  qed
qed

section \<open>Giving back and using up\<close>

lemma held_runs_update:
  assumes "distinct (map rs_operation rs)" and "r \<in> set rs" and "rs_operation r = i" and "rs_state r = ''eligible''"
    and "state \<noteq> ''eligible''"
  shows "held_runs k (map (\<lambda>x. if rs_operation x = i \<and> rs_state x = ''eligible'' then x\<lparr>rs_state := state\<rparr> else x) rs) =
    held_runs k rs - (if k = (rs_job r, rs_repository r) then rs_missed r else 0)"
  using assms(1,2)
proof (induction rs)
  case (Cons x xs)
  show ?case
  proof (cases "x = r")
    case True
    with Cons.prems(1) assms(3) have "i \<notin> rs_operation ` set xs" by simp
    then have "\<forall>y \<in> set xs. rs_operation y \<noteq> i" by blast
    then have m: "map (\<lambda>x. if rs_operation x = i \<and> rs_state x = ''eligible'' then x\<lparr>rs_state := state\<rparr> else x) xs = xs"
      by (intro map_idI) simp
    show ?thesis using \<open>x = r\<close> assms(3-5) by (auto simp: held_runs_def held_by_def m)
  next
    case False
    with Cons.prems have r: "r \<in> set xs" by simp
    then have "rs_operation x \<noteq> i" using Cons.prems(1) assms(3) by (auto simp: image_iff)
    with Cons r show ?thesis by (auto simp: held_runs_def held_by_def)
  qed
qed simp

lemma find_restoration_Some:
  "find_restoration i d = Some r \<Longrightarrow> r \<in> set (od_restorations (sb_operations d)) \<and> rs_operation r = i"
  by (auto simp: find_restoration_def find_Some_iff)

lemma state_kept_ok:
  assumes "kept_ok e keys o'" and "f = (\<lambda>x. if P x then x\<lparr>rs_state := state\<rparr> else x)"
  shows "kept_ok e keys (o'\<lparr>od_restorations := map f (od_restorations o')\<rparr>)"
proof -
  have "map rs_operation (map f (od_restorations o')) = map rs_operation (od_restorations o')"
    by (simp add: assms(2))
  then show ?thesis using assms by (auto simp: kept_ok_def simp del: map_map)
qed

lemma state_groups_ok:
  assumes "groups_ok e o'" and "f = (\<lambda>x. if P x then x\<lparr>rs_state := state\<rparr> else x)"
  shows "groups_ok e (o'\<lparr>od_restorations := map f (od_restorations o')\<rparr>)"
proof -
  have "rs_group (f x) = rs_group x" for x by (simp add: assms(2))
  then have "check_group e (o'\<lparr>od_restorations := map f (od_restorations o')\<rparr>) g = check_group e o' g" for g
    by (intro check_group_same) (simp add: filter_map o_def)
  then show ?thesis using assms(1) by (simp add: groups_ok_def)
qed

lemma set_state_ok:
  assumes "sched_ok e d"
  shows "sched_ok e (set_restoration_state i state d)"
  using assms state_kept_ok [OF _ refl] state_groups_ok [OF _ refl]
  by (simp add: sched_ok_def set_restoration_state_def jobs_ok_def pairs_ok_def)

lemma set_state_owed:
  assumes "sched_ok e d" and "find_restoration i d = Some r" and "rs_state r = ''eligible''" and "state \<noteq> ''eligible''"
  shows "owed (set_restoration_state i state d) k = owed d k - (if k = (rs_job r, rs_repository r) then rs_missed r else 0)"
proof -
  have "distinct (map rs_operation (od_restorations (sb_operations d)))"
    using assms(1) by (simp add: sched_ok_def kept_ok_def)
  with find_restoration_Some [OF assms(2)] assms(3,4) show ?thesis
    by (simp add: owed_def set_restoration_state_def held_runs_update [of _ r])
qed

lemma mark_started_ok:
  assumes "sched_ok e d"
  shows "sched_ok e (mark_group_started gid job d)" and "owed (mark_group_started gid job d) = owed d"
proof -
  let ?f = "\<lambda>g. if ag_id g = gid \<and> ag_job g = job then g\<lparr>ag_started := True\<rparr> else g"
  have same: "ag_id (?f g) = ag_id g" "ag_job (?f g) = ag_job g" "ag_generation (?f g) = ag_generation g" for g by simp_all
  have check: "check_group e (o'\<lparr>od_groups := x\<rparr>) (?f g) = None" if "check_group e o' g = None" for o' g x
    using that by (auto simp: check_group_def split: if_splits)
  have maps: "map ag_id (map ?f gs) = map ag_id gs"
    "map (\<lambda>g. (ag_job g, ag_generation g)) (map ?f gs) = map (\<lambda>g. (ag_job g, ag_generation g)) gs" for gs
    by simp_all
  let ?o = "(sb_operations d)\<lparr>od_groups := map ?f (od_groups (sb_operations d))\<rparr>"
  have groups: "od_groups ?o = map ?f (od_groups (sb_operations d))" by simp
  have checks: "\<forall>g \<in> set (od_groups ?o). check_group e ?o g = None"
  proof
    fix g
    assume "g \<in> set (od_groups ?o)"
    then have "g \<in> ?f ` set (od_groups (sb_operations d))" unfolding groups set_map .
    then obtain h where "h \<in> set (od_groups (sb_operations d))" "g = ?f h" by blast
    with assms check [of "sb_operations d" h] show "check_group e ?o g = None" by (simp add: sched_ok_def groups_ok_def)
  qed
  have before: "groups_ok e (sb_operations d)" using assms by (simp add: sched_ok_def)
  have "map ag_id (od_groups ?o) = map ag_id (od_groups (sb_operations d))" by simp
  then have d1: "distinct (map ag_id (od_groups ?o))" using before unfolding groups_ok_def by argo
  have "map (\<lambda>g. (ag_job g, ag_generation g)) (od_groups ?o) =
      map (\<lambda>g. (ag_job g, ag_generation g)) (od_groups (sb_operations d))" by simp
  then have d2: "distinct (map (\<lambda>g. (ag_job g, ag_generation g)) (od_groups ?o))"
    using before unfolding groups_ok_def by argo
  from d1 d2 checks have "groups_ok e ?o" unfolding groups_ok_def by blast
  moreover have "kept_ok e keys ?o" if "kept_ok e keys (sb_operations d)" for keys
    unfolding kept_ok_def
  proof (intro conjI ballI)
    show "distinct (map rs_operation (od_restorations ?o))" using that by (simp add: kept_ok_def)
    fix r
    assume "r \<in> set (od_restorations ?o)"
    then have r: "r \<in> set (od_restorations (sb_operations d))" by simp
    with that show "range_ok e (rs_missed r) (rs_first r) (rs_last r)" "(rs_job r, rs_repository r) \<in> keys"
      "rs_operation r \<in> op_id ` set (od_ops ?o)"
      by (simp_all add: kept_ok_def)
    from r that obtain g where "g \<in> set (od_groups (sb_operations d))" "ag_id g = rs_group r" "ag_job g = rs_job r"
      unfolding kept_ok_def by blast
    then show "\<exists>g \<in> set (od_groups ?o). ag_id g = rs_group r \<and> ag_job g = rs_job r"
      unfolding groups set_map using same(1,2) by (intro bexI [of _ "?f g"]) auto
  qed
  ultimately have both: "groups_ok e ?o" "kept_ok e (pair_key ` set (sb_pairs d)) ?o"
    using assms by (simp_all add: sched_ok_def)
  have "sb_jobs d (ag_job g) \<noteq> None" if "g \<in> set (od_groups ?o)" for g
  proof -
    from that have "g \<in> ?f ` set (od_groups (sb_operations d))" unfolding groups set_map .
    then obtain h where "h \<in> set (od_groups (sb_operations d))" "g = ?f h" by blast
    with assms same(2) [of h] show ?thesis unfolding sched_ok_def jobs_ok_def by metis
  qed
  then have "jobs_ok e (mark_group_started gid job d)"
    using assms unfolding jobs_ok_def mark_group_started_def sched_ok_def sb_simps by blast
  with both assms show "sched_ok e (mark_group_started gid job d)"
    unfolding sched_ok_def pairs_ok_def mark_group_started_def sb_simps by blast
  show "owed (mark_group_started gid job d) = owed d" by (simp add: mark_group_started_def owed_def fun_eq_iff)
qed

text \<open>A change of one row of the pairs.\<close>

lemma waiting_update:
  assumes "distinct (map pair_key ps)" and "\<And>p. pair_key (f p) = pair_key p" and "p \<in> set ps" and "pair_key p = key"
  shows "waiting_runs k (map (\<lambda>q. if pair_key q = key then f q else q) ps) =
    waiting_runs k ps + (if k = key then pt_missed (f p) - pt_missed p else 0)"
  using assms(1,3)
proof (induction ps)
  case (Cons q ps)
  show ?case
  proof (cases "q = p")
    case True
    with Cons.prems(1) assms(4) have "key \<notin> pair_key ` set ps" by simp
    then have "\<forall>y \<in> set ps. pair_key y \<noteq> key" by blast
    then have m: "map (\<lambda>q. if pair_key q = key then f q else q) ps = ps" by (intro map_idI) simp
    show ?thesis using \<open>q = p\<close> assms(2,4) by (simp add: waiting_runs_def m)
  next
    case False
    with Cons.prems have p: "p \<in> set ps" by simp
    then have "pair_key q \<noteq> key" using Cons.prems(1) assms(4) by (auto simp: image_iff)
    with Cons p show ?thesis by (auto simp: waiting_runs_def)
  qed
qed simp

lemma update_pair_ok:
  assumes "sched_ok e d" and "\<And>p. pair_key (f p) = pair_key p"
    and "\<And>p. find_pair job repo d = Some p \<Longrightarrow> pair_ok e (f p)"
  shows "sched_ok e (update_pair job repo f d)"
proof -
  let ?g = "\<lambda>p. if pair_key p = (job, repo) then f p else p"
  have keys: "map pair_key (map ?g (sb_pairs d)) = map pair_key (sb_pairs d)" using assms(2) by simp
  have d: "distinct (map pair_key (sb_pairs d))" using assms(1) by (simp add: sched_ok_def pairs_ok_def)
  have rows: "pair_ok e (?g p)" if p: "p \<in> set (sb_pairs d)" for p
  proof (cases "pair_key p = (job, repo)")
    case True
    then obtain q where q: "find_pair job repo d = Some q" using p find_pair_None [of job repo d]
      by (cases "find_pair job repo d") force+
    with find_pair_Some [OF q] p True d have "q = p" by (auto simp: distinct_map inj_on_def)
    with assms(3) q True show ?thesis by simp
  next
    case False
    with assms(1) p show ?thesis by (simp add: sched_ok_def pairs_ok_def)
  qed
  have "pair_key ` set (sb_pairs (update_pair job repo f d)) = pair_key ` set (sb_pairs d)"
    using keys by (metis list.set_map sb_simps(9))
  moreover have "distinct (map pair_key (sb_pairs (update_pair job repo f d)))" using keys d by (simp del: map_map)
  moreover have "\<forall>p \<in> set (sb_pairs (update_pair job repo f d)). pair_ok e p"
  proof
    fix p
    assume "p \<in> set (sb_pairs (update_pair job repo f d))"
    then obtain q where "q \<in> set (sb_pairs d)" "p = ?g q" unfolding sb_simps set_map by blast
    with rows show "pair_ok e p" by blast
  qed
  ultimately show ?thesis using assms(1) by (simp add: sched_ok_def pairs_ok_def jobs_ok_def)
qed

lemma update_pair_owed:
  assumes "sched_ok e d" and "\<And>p. pair_key (f p) = pair_key p" and "find_pair job repo d = Some p"
  shows "owed (update_pair job repo f d) k = owed d k + (if k = (job, repo) then pt_missed (f p) - pt_missed p else 0)"
proof -
  have "distinct (map pair_key (sb_pairs d))" using assms(1) by (simp add: sched_ok_def pairs_ok_def)
  from waiting_update [OF this assms(2)] find_pair_Some [OF assms(3)] show ?thesis by (simp add: owed_def)
qed

section \<open>Giving a run back keeps what is owed\<close>

lemma merge_missed_range:
  assumes "merge_missed e r p = Inr (n, f, l)" and "pair_ok e p"
  shows "n = rs_missed r + pt_missed p" and "0 < n" and "f \<le> l"
  using assms by (auto simp: merge_missed_def parse_restoration_range_def pair_ok_def range_ok_iff
      split: sum.splits if_splits option.splits)

lemma restored_pair_ok:
  assumes "clock_ok e" and "merge_missed e r p = Inr m" and "pair_ok e p"
  shows "pair_ok e (restore_pair e m now q)" and "pt_missed (restore_pair e m now q) = rs_missed r + pt_missed p"
proof -
  obtain n f l where m: "m = (n, f, l)" by (metis prod_cases3)
  note merged = merge_missed_range [OF assms(2) [unfolded m] assms(3)]
  show "pair_ok e (restore_pair e m now q)" using merged(2,3) assms(1)
    by (simp add: pair_ok_def range_ok_iff restore_pair_def m clock_ok_def)
  show "pt_missed (restore_pair e m now q) = rs_missed r + pt_missed p" by (simp add: restore_pair_def m merged(1))
qed

lemma cleared_pair_ok: "pair_ok e p \<Longrightarrow> pair_ok e (clear_pair e now p)"
  by (auto simp: pair_ok_def clear_pair_def range_ok_iff readable_def split: if_splits)

lemma side_simps [simp]:
  "pair_ok e (unavailable_side e source reason checked p) = pair_ok e p"
  "pt_missed (unavailable_side e source reason checked p) = pt_missed p"
  "pair_key (unavailable_side e source reason checked p) = pair_key p"
  "pair_key (restore_pair e m now p) = pair_key p" "pair_key (clear_pair e now p) = pair_key p"
  "pt_missed (clear_pair e now p) = 0"
  by (simp_all add: unavailable_side_def Let_def pair_ok_def pair_key_def restore_pair_def clear_pair_def split: prod.split)

lemma find_pair_ok: "sched_ok e d \<Longrightarrow> find_pair job repo d = Some p \<Longrightarrow> pair_ok e p"
  by (auto simp: sched_ok_def pairs_ok_def dest: find_pair_Some)

text \<open>One statement for both ways a run is given back.\<close>

lemma pair_given_back:
  assumes "sched_ok e d" and "clock_ok e"
    and "find_pair (rs_job r) (rs_repository r) d = Some p" and "merge_missed e r p = Inr m"
    and f: "\<And>q. pair_key (f q) = pair_key q" "\<And>q. pair_ok e (f q) = pair_ok e (restore_pair e m now q)"
      "\<And>q. pt_missed (f q) = pt_missed (restore_pair e m now q)"
  defines "d' \<equiv> update_pair (rs_job r) (rs_repository r) f d"
  shows "sched_ok e d'"
    and "owed d' k = owed d k + (if k = (rs_job r, rs_repository r) then rs_missed r else 0)"
proof -
  note p = find_pair_ok [OF assms(1,3)]
  note regained = restored_pair_ok [OF assms(2,4) p]
  show "sched_ok e d'" unfolding d'_def by (rule update_pair_ok [OF assms(1) f(1)]) (simp add: f(2) regained(1))
  show "owed d' k = owed d k + (if k = (rs_job r, rs_repository r) then rs_missed r else 0)"
    using update_pair_owed [OF assms(1) f(1) assms(3), of k] by (simp add: d'_def f(3) regained(2))
qed

lemma restore_pre_native_ok:
  assumes "sched_ok e d" and "clock_ok e" and "restore_pre_native e i reason checked source d = Inr d'"
  shows "sched_ok e d' \<and> owed d' = owed d \<and> od_ops (sb_operations d') = od_ops (sb_operations d)"
proof (cases "find_restoration i d")
  case None
  with assms show ?thesis by (simp add: restore_pre_native_def split: if_splits)
next
  case (Some r)
  show ?thesis
  proof (cases "rs_state r = ''eligible''")
    case False
    with assms Some show ?thesis by (simp add: restore_pre_native_def split: if_splits)
  next
    case True
    with assms Some obtain p m where pm: "find_pair (rs_job r) (rs_repository r) d = Some p" "merge_missed e r p = Inr m"
      and given: "reconcile_groups e (rs_job r) (set_restoration_state i ''restored''
        (update_pair (rs_job r) (rs_repository r)
          (\<lambda>q. unavailable_side e source reason checked (restore_pair e m checked q)) d)) = Inr d'"
      by (auto simp: restore_pre_native_def split: if_splits sum.splits option.splits)
    let ?d = "set_restoration_state i ''restored'' (update_pair (rs_job r) (rs_repository r)
          (\<lambda>q. unavailable_side e source reason checked (restore_pair e m checked q)) d)"
    let ?u = "update_pair (rs_job r) (rs_repository r)
          (\<lambda>q. unavailable_side e source reason checked (restore_pair e m checked q)) d"
    have ok: "sched_ok e ?u" by (rule pair_given_back(1) [OF assms(1,2) pm, where now = checked]) simp_all
    have more: "owed ?u k = owed d k + (if k = (rs_job r, rs_repository r) then rs_missed r else 0)" for k
      by (rule pair_given_back(2) [OF assms(1,2) pm, where now = checked]) simp_all
    have "find_restoration i ?u = Some r" using Some by (simp add: find_restoration_def)
    note less = set_state_owed [OF ok this True, of "''restored''"]
    have "sched_ok e ?d" "owed ?d = owed d" using set_state_ok [OF ok] by (simp_all add: fun_eq_iff less more)
    moreover have "od_ops (sb_operations ?d) = od_ops (sb_operations d)" by (simp add: set_restoration_state_def)
    ultimately show ?thesis using reconcile_groups_ok [of e ?d "rs_job r"] given by auto
  qed
qed

lemma update_target_keeps:
  assumes "update_target k f o' = Inr x"
  shows "od_groups x = od_groups o'" and "od_restorations x = od_restorations o'" and "od_ops x = od_ops o'"
proof -
  from assms obtain t where "od_targets o' k = Some t" by (cases "od_targets o' k") (simp_all add: update_target_def)
  with assms have x: "x = o'\<lparr>od_targets := (od_targets o')(k \<mapsto> f t)\<rparr>" by (simp add: update_target_def)
  show "od_groups x = od_groups o'" and "od_restorations x = od_restorations o'" and "od_ops x = od_ops o'"
    by (simp_all add: x)
qed

lemma finish_interrupted_ok:
  assumes "finish_interrupted e o' last_run now d = Inr d'" and "sched_ok e d"
  shows "sched_ok e d'" and "owed d' = owed d" and "find_restoration i d' = find_restoration i d"
proof -
  define u where "u = update_ops (\<lambda>r. op_id r = op_id o' \<and> active r)
      (\<lambda>r. r\<lparr>op_status := ''interrupted'', op_finished_at := se_sortable e now\<rparr>) (sb_operations d)"
  define k where "k = (op_job o', op_repository o')"
  define f where "f = (\<lambda>t :: target_row. t\<lparr>tr_last_status := ''interrupted'', tr_last_run := last_run\<rparr>)"
  have "map_sum id (\<lambda>x. put_operations x d) (update_target k f u) = Inr d'"
    using assms(1) by (simp add: finish_interrupted_def u_def k_def f_def split: if_splits)
  then obtain x where x: "update_target k f u = Inr x" and d': "d' = put_operations x d"
    by (cases "update_target k f u") simp_all
  note kept = update_target_keeps [OF x]
  have ops: "od_groups u = od_groups (sb_operations d)" "od_restorations u = od_restorations (sb_operations d)"
    "map op_id (od_ops u) = map op_id (od_ops (sb_operations d))" by (simp_all add: u_def update_ops_def)
  have groups: "od_groups (sb_operations d') = od_groups (sb_operations d)"
    and rows: "od_restorations (sb_operations d') = od_restorations (sb_operations d)"
    by (simp_all only: d' sb_simps kept ops)
  have "map op_id (od_ops (sb_operations d')) = map op_id (od_ops (sb_operations d))"
    by (simp only: d' sb_simps kept ops)
  then have ids: "op_id ` set (od_ops (sb_operations d')) = op_id ` set (od_ops (sb_operations d))"
    by (metis list.set_map)
  have check: "check_group e (sb_operations d') g = check_group e (sb_operations d) g" for g
    by (rule check_group_same) (simp add: rows)
  have pairs: "sb_pairs d' = sb_pairs d" and jobs: "sb_jobs d' = sb_jobs d" by (simp_all add: d')
  show "sched_ok e d'" using assms(2)
    unfolding sched_ok_def pairs_ok_def kept_ok_def groups_ok_def jobs_ok_def groups rows ids check pairs jobs .
  show "owed d' = owed d" by (simp add: owed_def fun_eq_iff rows pairs)
  show "find_restoration i d' = find_restoration i d" by (simp add: find_restoration_def rows)
qed

lemma give_back_ok:
  assumes "sched_ok e d" and "clock_ok e" and "find_restoration (op_id o') d = Some r" and "give_back e o' r g now d = Inr d'"
  shows "sched_ok e d' \<and> owed d' = owed d"
proof -
  from assms(4) have job: "op_job o' = rs_job r" and repo: "op_repository o' = rs_repository r"
    and eligible: "rs_state r = ''eligible''"
    by (simp_all add: give_back_def split: if_splits)
  from assms(4) obtain p m admitted d1 where pm: "find_pair (rs_job r) (rs_repository r) d = Some p" "merge_missed e r p = Inr m"
    and finished: "finish_interrupted e o' (se_text e admitted) now
      (update_pair (rs_job r) (rs_repository r) (restore_pair e m now) d) = Inr d1"
    and given: "reconcile_groups e (rs_job r) (set_restoration_state (op_id o') ''restored'' d1) = Inr d'"
    by (auto simp: give_back_def job repo split: if_splits sum.splits option.splits)
  let ?u = "update_pair (rs_job r) (rs_repository r) (restore_pair e m now) d"
  have ok: "sched_ok e ?u" by (rule pair_given_back(1) [OF assms(1,2) pm, where now = now]) simp_all
  have more: "owed ?u k = owed d k + (if k = (rs_job r, rs_repository r) then rs_missed r else 0)" for k
    by (rule pair_given_back(2) [OF assms(1,2) pm, where now = now]) simp_all
  note done' = finish_interrupted_ok [OF finished ok]
  have "find_restoration (op_id o') d1 = Some r" using assms(3) done'(3) by (simp add: find_restoration_def)
  note less = set_state_owed [OF done'(1) this eligible, of "''restored''"]
  have "sched_ok e (set_restoration_state (op_id o') ''restored'' d1)" "owed (set_restoration_state (op_id o') ''restored'' d1) = owed d"
    using set_state_ok [OF done'(1)] by (simp_all add: fun_eq_iff less done'(2) more)
  then show ?thesis
    using reconcile_groups_ok [of e "set_restoration_state (op_id o') ''restored'' d1" "rs_job r"] given by auto
qed

lemma restore_queued_backup_ok:
  assumes "sched_ok e d" and "clock_ok e" and "restore_queued_backup e i now d = Inr d'"
  shows "sched_ok e d' \<and> owed d' = owed d"
proof -
  from assms(3) obtain o' where o': "find (\<lambda>o'. op_id o' = i \<and> op_kind o' = ''backup'') (od_ops (sb_operations d)) = Some o'"
    by (auto simp: restore_queued_backup_def split: option.splits)
  then have i: "op_id o' = i" by (auto simp: find_Some_iff)
  show ?thesis
  proof (cases "restored_group i d")
    case None
    with assms(1,3) o' finish_interrupted_ok show ?thesis
      by (auto simp: restore_queued_backup_def split: if_splits)
  next
    case (Some rg)
    then obtain r g where rg: "rg = (r, g)" "find_restoration i d = Some r"
      by (auto simp: restored_group_def split: option.splits)
    with assms Some o' i give_back_ok [of e d o' r] show ?thesis
      by (auto simp: restore_queued_backup_def split: if_splits)
  qed
qed

lemma restore_all_ok:
  "restore_all e now is d = Inr d' \<Longrightarrow> sched_ok e d \<Longrightarrow> clock_ok e \<Longrightarrow> sched_ok e d' \<and> owed d' = owed d"
proof (induction "is" arbitrary: d)
  case (Cons i "is")
  then obtain d1 where d1: "restore_queued_backup e i now d = Inr d1" "restore_all e now is d1 = Inr d'"
    by (auto split: sum.splits)
  from restore_queued_backup_ok [OF Cons.prems(2,3) d1(1)] Cons.IH [OF d1(2)] Cons.prems(3) show ?case by simp
qed simp

section \<open>Using a run up\<close>

lemma used_up:
  assumes "sched_ok e d" and "find_restoration i d = Some r" and "rs_state r = ''eligible''"
  defines "d' \<equiv> mark_group_started (rs_group r) (rs_job r) (set_restoration_state i ''started'' d)"
  shows "sched_ok e d'" and "owed d' k = owed d k - (if k = (rs_job r, rs_repository r) then rs_missed r else 0)"
    and "sb_pairs d' = sb_pairs d"
  using mark_started_ok [OF set_state_ok [OF assms(1)]] set_state_owed [OF assms(1-3), of "''started''"]
  by (simp_all add: d'_def mark_group_started_def set_restoration_state_def)

end
