(* ===== verification/AdmissionRuns.thy ===== *)
theory AdmissionRuns
  imports AdmissionLedger
begin

text \<open>
  The admission transaction over the ledger of missed runs: a due run is counted once for every vault of
  the job, a run that is admitted moves from its pair to the operation that holds it, and an operation is
  queued only for a pair that is idle.
\<close>

section \<open>Queueing\<close>

lemma queue_row_effect:
  assumes "queue_operation_row e i job name repo now d = Inr d'"
  shows "\<exists>row. od_ops (sb_operations d') = od_ops (sb_operations d) @ [row] \<and> op_id row = i \<and> op_kind row = ''backup'' \<and>
      op_status row = ''queued'' \<and> op_job row = job \<and> op_repository row = repo"
    and "i \<notin> op_id ` set (od_ops (sb_operations d))"
    and "od_groups (sb_operations d') = od_groups (sb_operations d)"
    and "od_restorations (sb_operations d') = od_restorations (sb_operations d)"
    and "sb_pairs d' = sb_pairs d" and "sb_jobs d' = sb_jobs d"
proof -
  let ?row = "\<lparr>op_id = i, op_kind = ''backup'', op_status = ''queued'',
           op_title = backup_title name (sb_names d repo), op_job = job, op_repository = repo,
           op_engine = engine_of (sb_operations d) repo, op_started_at = se_sortable e now,
           op_finished_at = [], op_issue_kind = []\<rparr>"
  have fresh: "find_op i (sb_operations d) = None"
    using assms by (simp add: queue_operation_row_def insert_op_def split: if_splits)
  define f where "f = (\<lambda>t :: string \<times> string \<Rightarrow> target_row option. \<lambda>k. if k = (job, repo) then map_option (\<lambda>t. t\<lparr>tr_last_status := ''queued''\<rparr>) (t k) else t k)"
  have d': "d' = put_operations ((sb_operations d)\<lparr>od_ops := od_ops (sb_operations d) @ [?row],
      od_targets := f (od_targets (sb_operations d))\<rparr>) d"
    using assms fresh by (simp add: queue_operation_row_def insert_op_def f_def cong: if_cong)
  show "i \<notin> op_id ` set (od_ops (sb_operations d))" using fresh by (auto simp: find_op_def find_None_iff)
  show "\<exists>row. od_ops (sb_operations d') = od_ops (sb_operations d) @ [row] \<and> op_id row = i \<and> op_kind row = ''backup'' \<and>
      op_status row = ''queued'' \<and> op_job row = job \<and> op_repository row = repo"
    by (intro exI [of _ ?row]) (simp add: d')
  show "od_groups (sb_operations d') = od_groups (sb_operations d)"
    "od_restorations (sb_operations d') = od_restorations (sb_operations d)"
    "sb_pairs d' = sb_pairs d" "sb_jobs d' = sb_jobs d" by (simp_all add: d')
qed

lemma queue_pair_row:
  "queue_admitted_pair e i job name repo now d = Inr d' \<Longrightarrow> queue_operation_row e i job name repo now d = Inr d'"
  by (simp add: queue_admitted_pair_def split: option.splits)

section \<open>Holding a run\<close>

text \<open>A group may be added while its first restoration is: it is then never empty.\<close>

definition added_group :: "schedule_env \<Rightarrow> operations_db \<Rightarrow> admission_group \<Rightarrow> bool" where
  "added_group e o' g \<longleftrightarrow> ag_id g \<notin> ag_id ` set (od_groups o') \<and>
     (\<forall>x \<in> set (od_groups o'). ag_job x = ag_job g \<longrightarrow> ag_generation x < ag_generation g) \<and>
     se_parse e (ag_admitted g) \<noteq> None \<and> readable e (ag_previous g)"

lemma check_group_more:
  assumes "check_group e o' g = None" and "od_restorations o'' = od_restorations o' @ rs"
  shows "check_group e o'' g = None"
  using assms by (auto simp: check_group_def split: if_splits)

lemma hold_run_ok:
  assumes g: "groups_ok e o'" and k: "kept_ok e keys o'" and i: "rs_operation r \<notin> rs_operation ` set (od_restorations o')"
    and r: "rs_operation r \<in> op_id ` set ops" "op_id ` set (od_ops o') \<subseteq> op_id ` set ops"
      "range_ok e (rs_missed r) (rs_first r) (rs_last r)" "(rs_job r, rs_repository r) \<in> keys"
    and new: "gs = [] \<or> gs = [n] \<and> added_group e o' n \<and> ag_id n = rs_group r"
    and held: "\<exists>x \<in> set (od_groups o' @ gs). ag_id x = rs_group r \<and> ag_job x = rs_job r"
    and o'': "od_groups o'' = od_groups o' @ gs" "od_restorations o'' = od_restorations o' @ [r]" "od_ops o'' = ops"
  shows "groups_ok e o''" and "kept_ok e keys o''"
proof -
  have "check_group e o'' x = None" if "x \<in> set (od_groups o')" for x
    using check_group_more [OF _ o''(2)] g that by (simp add: groups_ok_def)
  moreover have "check_group e o'' n = None" if "gs = [n]"
    using new that o''(2) by (auto simp: check_group_def added_group_def readable_def)
  ultimately have check: "\<forall>x \<in> set (od_groups o''). check_group e o'' x = None" using new by (auto simp: o''(1))
  have ids: "distinct (map ag_id (od_groups o''))"
    using new g by (auto simp: o''(1) groups_ok_def added_group_def image_iff)
  have "\<forall>x \<in> set (od_groups o'). \<not> (ag_job x = ag_job n \<and> ag_generation x = ag_generation n)" if "gs = [n]"
    using new that by (auto simp: added_group_def)
  then have "distinct (map (\<lambda>x. (ag_job x, ag_generation x)) (od_groups o''))"
    using new g by (auto simp: o''(1) groups_ok_def)
  with check ids show "groups_ok e o''" by (simp add: groups_ok_def)
  show "kept_ok e keys o''" unfolding kept_ok_def
  proof (intro conjI ballI)
    show "distinct (map rs_operation (od_restorations o''))" using k i by (simp add: o''(2) kept_ok_def)
    fix x
    assume "x \<in> set (od_restorations o'')"
    then consider "x = r" | "x \<in> set (od_restorations o')" by (auto simp: o''(2))
    then show "range_ok e (rs_missed x) (rs_first x) (rs_last x)" "(rs_job x, rs_repository x) \<in> keys"
      "rs_operation x \<in> op_id ` set (od_ops o'')"
      "\<exists>g \<in> set (od_groups o''). ag_id g = rs_group x \<and> ag_job g = rs_job x"
      using k r held by (cases; fastforce simp: kept_ok_def o'')+
  qed
qed

section \<open>Rows of the pairs as the transaction sees them\<close>

definition same_run :: "pair_row \<Rightarrow> pair_row \<Rightarrow> bool" where
  "same_run p q \<longleftrightarrow> pt_pending p = pt_pending q \<and> pt_missed p = pt_missed q \<and> pt_first p = pt_first q \<and> pt_last p = pt_last q"

definition seen_row :: "schedule_db \<Rightarrow> string \<Rightarrow> pair_row \<Rightarrow> bool" where
  "seen_row d job p \<longleftrightarrow> (\<exists>q. find_pair job (pt_repository p) d = Some q \<and> same_run p q)"

definition held_group :: "string \<Rightarrow> admission_state \<Rightarrow> bool" where
  "held_group job s \<longleftrightarrow> as_group s = [] \<or>
     (\<exists>g \<in> set (od_groups (sb_operations (as_db s))). ag_id g = as_group s \<and> ag_job g = job)"

lemma find_update_pair:
  assumes "\<And>p. pair_key (f p) = pair_key p"
  shows "find_pair job repo (update_pair job' repo' f d) =
    (if (job, repo) = (job', repo') then map_option f (find_pair job repo d) else find_pair job repo d)"
proof -
  have "find (\<lambda>p. pair_key p = k) (map (\<lambda>p. if pair_key p = k' then f p else p) ps) =
      (if k = k' then map_option f (find (\<lambda>p. pair_key p = k) ps) else find (\<lambda>p. pair_key p = k) ps)" for k k' ps
    by (induction ps) (auto simp: assms)
  then show ?thesis by (simp add: find_pair_def)
qed

lemma seen_row_other:
  assumes "\<And>p. pair_key (f p) = pair_key p" and "pt_repository p \<noteq> repo"
  shows "seen_row (update_pair job repo f d) job p = seen_row d job p"
  using assms by (simp add: seen_row_def find_update_pair)

lemma seen_row_pairs: "sb_pairs d' = sb_pairs d \<Longrightarrow> seen_row d' job p = seen_row d job p"
  by (simp add: seen_row_def find_pair_def)

lemma fold_max_upper: "x \<in> set xs \<or> x \<le> a \<Longrightarrow> x \<le> fold max xs (a :: int)"
  by (induction xs arbitrary: a) (auto simp: max_def)

lemma open_group_effect:
  assumes "open_group e g job previous now d = Inr d'"
  shows "\<exists>x. od_groups (sb_operations d') = od_groups (sb_operations d) @ [x] \<and> ag_id x = g \<and> ag_job x = job \<and>
      ag_admitted x = se_text e now \<and> ag_previous x = previous \<and> g \<notin> ag_id ` set (od_groups (sb_operations d)) \<and>
      (\<forall>y \<in> set (od_groups (sb_operations d)). ag_job y = job \<longrightarrow> ag_generation y < ag_generation x)"
    and "od_ops (sb_operations d') = od_ops (sb_operations d)"
    and "od_restorations (sb_operations d') = od_restorations (sb_operations d)"
    and "sb_pairs d' = sb_pairs d" and "sb_jobs d' = sb_jobs d"
proof -
  let ?o = "sb_operations d"
  let ?n = "fold max (map ag_generation (filter (\<lambda>x. ag_job x = job) (od_groups ?o))) 0 + 1"
  let ?x = "\<lparr>ag_id = g, ag_job = job, ag_generation = ?n, ag_admitted = se_text e now, ag_previous = previous,
      ag_started = False\<rparr>"
  have fresh: "g \<notin> ag_id ` set (od_groups ?o)"
    using assms by (auto simp: open_group_def Let_def list_ex_iff split: if_splits)
  have d': "d' = put_operations (?o\<lparr>od_groups := od_groups ?o @ [?x]\<rparr>) d"
    using assms by (simp add: open_group_def Let_def split: if_splits)
  have "ag_generation y < ?n" if "y \<in> set (od_groups ?o)" "ag_job y = job" for y
    using fold_max_upper [of "ag_generation y" "map ag_generation (filter (\<lambda>x. ag_job x = job) (od_groups ?o))" 0] that
    by simp
  then show "\<exists>x. od_groups (sb_operations d') = od_groups ?o @ [x] \<and> ag_id x = g \<and> ag_job x = job \<and>
      ag_admitted x = se_text e now \<and> ag_previous x = previous \<and> g \<notin> ag_id ` set (od_groups ?o) \<and>
      (\<forall>y \<in> set (od_groups ?o). ag_job y = job \<longrightarrow> ag_generation y < ag_generation x)"
    using fresh by (intro exI [of _ ?x]) (simp add: d')
  show "od_ops (sb_operations d') = od_ops ?o" "od_restorations (sb_operations d') = od_restorations ?o"
    "sb_pairs d' = sb_pairs d" "sb_jobs d' = sb_jobs d" by (simp_all add: d')
qed

section \<open>Moving a run from its pair to an operation\<close>

definition admission_inv :: "schedule_env \<Rightarrow> string \<Rightarrow> pair_row list \<Rightarrow> admission_state \<Rightarrow> bool" where
  "admission_inv e job ps s \<longleftrightarrow> sched_ok e (as_db s) \<and> sb_jobs (as_db s) job \<noteq> None \<and> held_group job s \<and>
     (\<forall>p \<in> set ps. seen_row (as_db s) job p)"

lemma queue_restorable_ok:
  assumes queued: "queue_restorable e new_id new_group job j now p policy s = Inr (i, s')"
    and inv: "admission_inv e job (p # ps) s" and clock: "clock_ok e" and j: "readable e (jo_last_run j)"
    and ps: "pt_repository p \<notin> pt_repository ` set ps" and pending: "pt_pending p"
  shows "admission_inv e job ps s'" and "owed (as_db s') = owed (as_db s)"
    and "\<exists>row. od_ops (sb_operations (as_db s')) = od_ops (sb_operations (as_db s)) @ [row] \<and> op_id row = i \<and>
      op_kind row = ''backup'' \<and> op_status row = ''queued'' \<and> op_job row = job \<and> op_repository row = pt_repository p"
proof -
  let ?repo = "pt_repository p" and ?o = "sb_operations (as_db s)"
  have ok: "sched_ok e (as_db s)" and jobs: "sb_jobs (as_db s) job \<noteq> None" and group: "held_group job s"
    and seen: "\<forall>q \<in> set ps. seen_row (as_db s) job q" and "seen_row (as_db s) job p"
    using inv by (simp_all add: admission_inv_def)
  then obtain q where q: "find_pair job ?repo (as_db s) = Some q" "same_run p q" by (auto simp: seen_row_def)
  obtain d1 where d1: "queue_operation_row e i job (jo_name j) ?repo now (as_db s) = Inr d1" and i: "i = new_id ?repo"
    using queued queue_pair_row by (cases policy) (auto simp: queue_restorable_def Let_def split: sum.splits prod.splits if_splits)
  note row = queue_row_effect [OF d1]
  define held where "held = (\<lambda>g d2. \<lparr>as_db = clear_pair_pending e job ?repo now (put_operations ((sb_operations d2)\<lparr>od_restorations :=
        od_restorations (sb_operations d2) @ [\<lparr>rs_operation = i, rs_group = g, rs_job = job, rs_repository = ?repo,
          rs_missed = pt_missed p, rs_first = pt_first p, rs_last = pt_last p, rs_state = ''eligible''\<rparr>]\<rparr>) d2),
        as_group = g, as_admitted = True\<rparr>)"
  have case_open: "\<exists>d2. open_group e new_group job (jo_last_run j) now d1 = Inr d2 \<and>
      range_ok e (pt_missed p) (pt_first p) (pt_last p) \<and> s' = held new_group d2" if "as_group s = []"
    using queued queue_pair_row [of e i job "jo_name j" ?repo now "as_db s"] d1 that
    by (cases policy; cases "open_group e new_group job (jo_last_run j) now d1")
      (auto simp: queue_restorable_def Let_def i range_ok_def held_def split: sum.splits if_splits)
  have case_held: "range_ok e (pt_missed p) (pt_first p) (pt_last p) \<and> s' = held (as_group s) d1" if "as_group s \<noteq> []"
    using queued queue_pair_row [of e i job "jo_name j" ?repo now "as_db s"] d1 that
    by (cases policy) (auto simp: queue_restorable_def Let_def i range_ok_def held_def split: sum.splits if_splits)
  obtain g d2 gs where d2: "od_groups (sb_operations d2) = od_groups ?o @ gs"
      "gs = [] \<or> (\<exists>n. gs = [n] \<and> added_group e ?o n \<and> ag_id n = g)"
      "\<exists>x \<in> set (od_groups ?o @ gs). ag_id x = g \<and> ag_job x = job"
      "od_ops (sb_operations d2) = od_ops (sb_operations d1)" "od_restorations (sb_operations d2) = od_restorations ?o"
      "sb_pairs d2 = sb_pairs (as_db s)" "sb_jobs d2 = sb_jobs (as_db s)"
    and range: "range_ok e (pt_missed p) (pt_first p) (pt_last p)" and s': "s' = held g d2"
  proof (cases "as_group s = []")
    case True
    then obtain d2 where open_d2: "open_group e new_group job (jo_last_run j) now d1 = Inr d2"
      and range: "range_ok e (pt_missed p) (pt_first p) (pt_last p)" and s': "s' = held new_group d2"
      using case_open by blast
    note o = open_group_effect [OF open_d2]
    from o(1) obtain n where n: "od_groups (sb_operations d2) = od_groups (sb_operations d1) @ [n]" "ag_id n = new_group"
      "ag_job n = job" "ag_admitted n = se_text e now" "ag_previous n = jo_last_run j"
      "new_group \<notin> ag_id ` set (od_groups (sb_operations d1))"
      "\<forall>y \<in> set (od_groups (sb_operations d1)). ag_job y = job \<longrightarrow> ag_generation y < ag_generation n" by blast
    have "added_group e ?o n" using n j clock by (simp add: added_group_def row(3) clock_ok_def)
    with n(1-3) o(2-5) row(3-6) range s' show thesis by (intro that [of d2 "[n]" new_group]) simp_all
  next
    case False
    show thesis using group False row(3-6) case_held by (intro that [of d1 "[]" "as_group s"]) (simp_all add: held_group_def)
  qed
  let ?r = "\<lparr>rs_operation = i, rs_group = g, rs_job = job, rs_repository = ?repo,
          rs_missed = pt_missed p, rs_first = pt_first p, rs_last = pt_last p, rs_state = ''eligible''\<rparr>"
  define d3 where "d3 = put_operations ((sb_operations d2)\<lparr>od_restorations := od_restorations (sb_operations d2) @ [?r]\<rparr>) d2"
  have as: "as_db s' = clear_pair_pending e job ?repo now d3" and as_g: "as_group s' = g"
    by (simp_all add: s' held_def d3_def)
  obtain o_row where o_row: "od_ops (sb_operations d1) = od_ops ?o @ [o_row]" "op_id o_row = i" "op_kind o_row = ''backup''"
    "op_status o_row = ''queued''" "op_job o_row = job" "op_repository o_row = ?repo" using row(1) by blast
  have o3: "od_groups (sb_operations d3) = od_groups ?o @ gs" "od_restorations (sb_operations d3) = od_restorations ?o @ [?r]"
    "od_ops (sb_operations d3) = od_ops (sb_operations d1)" "sb_pairs d3 = sb_pairs (as_db s)" "sb_jobs d3 = sb_jobs (as_db s)"
    by (simp_all add: d3_def d2)
  have key: "(job, ?repo) \<in> pair_key ` set (sb_pairs (as_db s))"
    using find_pair_None [of job ?repo "as_db s"] q(1) by auto
  have old: "groups_ok e ?o" "kept_ok e (pair_key ` set (sb_pairs (as_db s))) ?o" "jobs_ok e (as_db s)" "pairs_ok e (as_db s)"
    using ok by (simp_all add: sched_ok_def)
  have fresh: "i \<notin> rs_operation ` set (od_restorations ?o)" using old(2) row(2) by (auto simp: kept_ok_def)
  have subset: "op_id ` set (od_ops ?o) \<subseteq> op_id ` set (od_ops (sb_operations d1))" and
    mem: "i \<in> op_id ` set (od_ops (sb_operations d1))" by (auto simp: o_row)
  have new: "gs = [] \<or> gs = [hd gs] \<and> added_group e ?o (hd gs) \<and> ag_id (hd gs) = rs_group ?r" using d2(2) by auto
  have kept: "groups_ok e (sb_operations d3)" "kept_ok e (pair_key ` set (sb_pairs (as_db s))) (sb_operations d3)"
    by (rule hold_run_ok [OF old(1,2) _ _ _ _ _ new _ o3(1-3)]; use fresh mem subset range key d2(3) in simp)+
  have "ag_job n = job" if "gs = [n]" for n using d2(2,3) that
    by (auto simp: added_group_def) (metis imageI)
  then have "\<forall>x \<in> set (od_groups (sb_operations d3)). sb_jobs d3 (ag_job x) \<noteq> None"
    using old(3) d2(2) jobs by (auto simp: jobs_ok_def o3)
  then have "jobs_ok e d3" using old(3) by (simp add: jobs_ok_def o3(5))
  with kept old(4) have ok3: "sched_ok e d3" by (simp add: sched_ok_def o3 pairs_ok_def)
  have q3: "find_pair job ?repo d3 = Some q" using q(1) by (simp add: find_pair_def o3)
  have ok4: "sched_ok e (as_db s')" unfolding as clear_pair_pending_def
    by (rule update_pair_ok [OF ok3]) (use q3 find_pair_ok [OF ok3 q3] in \<open>simp_all add: cleared_pair_ok\<close>)
  have "owed d3 k = owed (as_db s) k + (if k = (job, ?repo) then pt_missed p else 0)" for k
    by (auto simp: owed_def o3 held_runs_def held_by_def)
  moreover have "owed (as_db s') k = owed d3 k + (if k = (job, ?repo) then 0 - pt_missed q else 0)" for k
    using update_pair_owed [OF ok3 _ q3, of "clear_pair e now" k] by (simp add: as clear_pair_pending_def)
  ultimately show "owed (as_db s') = owed (as_db s)" using q(2) by (simp add: fun_eq_iff same_run_def)
  show "\<exists>row. od_ops (sb_operations (as_db s')) = od_ops ?o @ [row] \<and> op_id row = i \<and>
      op_kind row = ''backup'' \<and> op_status row = ''queued'' \<and> op_job row = job \<and> op_repository row = ?repo"
    by (intro exI [of _ o_row]) (simp add: as clear_pair_pending_def o3 o_row)
  have rows: "seen_row (as_db s') job x" if "x \<in> set ps" for x
  proof -
    have "pt_repository x \<noteq> ?repo" using ps that by (metis imageI)
    then have "seen_row (as_db s') job x = seen_row d3 job x"
      by (simp add: as clear_pair_pending_def seen_row_other)
    with seen that show ?thesis by (simp add: seen_row_pairs [OF o3(4)])
  qed
  have "held_group job s'"
    using d2(3) by (auto simp: held_group_def as_g as clear_pair_pending_def o3)
  with ok4 rows jobs show "admission_inv e job ps s'"
    by (simp add: admission_inv_def as clear_pair_pending_def o3)
qed

section \<open>The targets of an admission\<close>

text \<open>A source outage of 30 days drops the waiting runs of the pairs that do not carry its report.\<close>

definition dropped :: "schedule_env \<Rightarrow> admission_plan \<Rightarrow> pair_row \<Rightarrow> bool" where
  "dropped e a p \<longleftrightarrow> jo_enabled (pl_row a) \<and> pt_pending p \<and> source_outage (pl_source a) \<and> pl_carrier a \<noteq> [] \<and>
     unavailable_issue_due e (pt_first p) (pl_now a) \<and> pt_repository p \<noteq> pl_carrier a"

definition queued_for :: "string \<Rightarrow> string \<Rightarrow> op_row \<Rightarrow> bool" where
  "queued_for job repo row \<longleftrightarrow> op_kind row = ''backup'' \<and> op_status row = ''queued'' \<and> op_job row = job \<and> op_repository row = repo"

definition queued_rows :: "admission_plan \<Rightarrow> schedule_db \<Rightarrow> string \<Rightarrow> op_row list \<Rightarrow> bool" where
  "queued_rows a d repo rows \<longleftrightarrow> rows = [] \<or> (\<exists>row. rows = [row] \<and> queued_for (pl_job a) repo row \<and>
     (repo = pl_carrier a \<and> pl_carrier a \<noteq> [] \<or> \<not> pair_busy (pl_job a) repo d))"

lemma admission_inv_clear:
  assumes "admission_inv e job (p # ps) s" and "pt_repository p \<notin> pt_repository ` set ps"
    and s'_def: "s' = s\<lparr>as_db := clear_pair_pending e job (pt_repository p) now (as_db s)\<rparr>"
  shows "admission_inv e job ps s'" and "owed (as_db s') k = owed (as_db s) k - (if k = (job, pt_repository p) then pt_missed p else 0)"
proof -
  have ok: "sched_ok e (as_db s)" and seen: "\<forall>x \<in> set (p # ps). seen_row (as_db s) job x"
    using assms(1) by (simp_all add: admission_inv_def)
  then obtain q where q: "find_pair job (pt_repository p) (as_db s) = Some q" "same_run p q" by (auto simp: seen_row_def)
  have "sched_ok e (as_db s')" unfolding s'_def clear_pair_pending_def admission_state.simps
    by (simp, rule update_pair_ok [OF ok]) (use q find_pair_ok [OF ok q(1)] in \<open>simp_all add: cleared_pair_ok\<close>)
  moreover have "seen_row (as_db s') job x" if "x \<in> set ps" for x
  proof -
    have "pt_repository x \<noteq> pt_repository p" using assms(2) that by (metis imageI)
    with seen that show ?thesis by (simp add: s'_def clear_pair_pending_def seen_row_other)
  qed
  ultimately show "admission_inv e job ps s'"
    using assms(1) by (simp add: admission_inv_def s'_def clear_pair_pending_def held_group_def)
  show "owed (as_db s') k = owed (as_db s) k - (if k = (job, pt_repository p) then pt_missed p else 0)"
    using update_pair_owed [OF ok _ q(1), of "clear_pair e now" k] q(2)
    by (simp add: s'_def clear_pair_pending_def same_run_def)
qed

lemma admission_inv_tail: "admission_inv e job (p # ps) s \<Longrightarrow> admission_inv e job ps s"
  by (simp add: admission_inv_def)

text \<open>One target: either the state stays, or its waiting runs are dropped, or its run is moved and one backup queued.\<close>

lemma admit_target_cases:
  assumes "admit_target e a p s = Inr (r, s')"
  obtains "s' = s" "\<not> dropped e a p"
  | "s' = s\<lparr>as_db := clear_pair_pending e (pl_job a) (pt_repository p) (pl_now a) (as_db s)\<rparr>" "dropped e a p"
  | i policy where "queue_restorable e (pl_ids a) (pl_group a) (pl_job a) (pl_row a) (pl_now a) p policy s = Inr (i, s')"
      "pt_pending p" "\<not> dropped e a p"
      "pt_repository p = pl_carrier a \<and> pl_carrier a \<noteq> [] \<or> \<not> pair_busy (pl_job a) (pt_repository p) (as_db s)"
proof -
  let ?queue = "queue_restorable e (pl_ids a) (pl_group a) (pl_job a) (pl_row a) (pl_now a) p"
  note step = assms [unfolded admit_target_def Let_def]
  show thesis
  proof (cases "jo_enabled (pl_row a) \<and> pt_pending p")
    case False
    with step show thesis by (intro that(1)) (auto simp: dropped_def split: if_splits)
  next
    case live: True
    show thesis
    proof (cases "source_outage (pl_source a)")
      case out: True
      show thesis
      proof (cases "pl_carrier a \<noteq> [] \<and> unavailable_issue_due e (pt_first p) (pl_now a)")
        case True
        show thesis
        proof (cases "pt_repository p = pl_carrier a")
          case carrier: True
          with step live out True obtain i where "?queue False s = Inr (i, s')" by (auto split: sum.splits)
          with live True carrier show thesis by (intro that(3)) (simp_all add: dropped_def)
        next
          case False
          with step live out True show thesis by (intro that(2)) (simp_all add: dropped_def)
        qed
      next
        case False
        with step live out show thesis by (intro that(1)) (auto simp: dropped_def)
      qed
    next
      case available: False
      then have no: "\<not> dropped e a p" by (simp add: dropped_def)
      show thesis
      proof (cases "s' = s")
        case True
        with no show thesis by (intro that(1))
      next
        case False
        with step live available have "\<not> pair_busy (pl_job a) (pt_repository p) (as_db s)"
          by (auto split: if_splits)
        moreover from step live available False obtain i policy where "?queue policy s = Inr (i, s')"
          by (auto split: if_splits sum.splits option.splits)
        ultimately show thesis using live no by (intro that(3)) simp_all
      qed
    qed
  qed
qed

lemma admit_target_ok:
  assumes "admit_target e a p s = Inr (r, s')" and inv: "admission_inv e (pl_job a) (p # ps) s" and "clock_ok e"
    and "readable e (jo_last_run (pl_row a))" and ps: "pt_repository p \<notin> pt_repository ` set ps"
  shows "admission_inv e (pl_job a) ps s'"
    and "owed (as_db s') k = owed (as_db s) k -
      (if dropped e a p \<and> k = (pl_job a, pt_repository p) then pt_missed p else 0)"
    and "\<exists>rows. od_ops (sb_operations (as_db s')) = od_ops (sb_operations (as_db s)) @ rows \<and>
      queued_rows a (as_db s) (pt_repository p) rows"
proof -
  have "admission_inv e (pl_job a) ps s' \<and> owed (as_db s') k = owed (as_db s) k -
      (if dropped e a p \<and> k = (pl_job a, pt_repository p) then pt_missed p else 0) \<and>
    (\<exists>rows. od_ops (sb_operations (as_db s')) = od_ops (sb_operations (as_db s)) @ rows \<and>
      queued_rows a (as_db s) (pt_repository p) rows)"
    using assms(1)
  proof (cases rule: admit_target_cases)
    case 1
    with admission_inv_tail [OF inv] show ?thesis by (simp add: queued_rows_def)
  next
    case 2
    with admission_inv_clear [OF inv ps] show ?thesis by (simp add: clear_pair_pending_def queued_rows_def)
  next
    case (3 i policy)
    note moved = queue_restorable_ok [OF 3(1) inv assms(3,4) ps 3(2)]
    from moved(3) obtain row where "od_ops (sb_operations (as_db s')) = od_ops (sb_operations (as_db s)) @ [row]"
      "queued_for (pl_job a) (pt_repository p) row" unfolding queued_for_def by blast
    with moved(1,2) 3(3,4) show ?thesis by (auto simp: queued_rows_def)
  qed
  then show "admission_inv e (pl_job a) ps s'"
    and "owed (as_db s') k = owed (as_db s) k -
      (if dropped e a p \<and> k = (pl_job a, pt_repository p) then pt_missed p else 0)"
    and "\<exists>rows. od_ops (sb_operations (as_db s')) = od_ops (sb_operations (as_db s)) @ rows \<and>
      queued_rows a (as_db s) (pt_repository p) rows"
    by blast+
qed

lemma pair_busy_more:
  "od_ops (sb_operations d') = od_ops (sb_operations d) @ rows \<Longrightarrow> pair_busy job repo d \<Longrightarrow> pair_busy job repo d'"
  by (auto simp: pair_busy_def vault_removal_pending_def)

text \<open>The rows an admission appends: one at most for every vault, each for a pair that was idle.\<close>

definition idle_rows :: "admission_plan \<Rightarrow> schedule_db \<Rightarrow> string set \<Rightarrow> op_row list \<Rightarrow> bool" where
  "idle_rows a d repos rows \<longleftrightarrow> distinct (map op_repository rows) \<and> (\<forall>row \<in> set rows. op_repository row \<in> repos \<and>
     queued_for (pl_job a) (op_repository row) row \<and>
     (op_repository row = pl_carrier a \<and> pl_carrier a \<noteq> [] \<or> \<not> pair_busy (pl_job a) (op_repository row) d))"

lemma idle_rows_step:
  assumes "queued_rows a d repo rows" and "idle_rows a d' repos rows'" and "repo \<notin> repos"
    and "od_ops (sb_operations d') = od_ops (sb_operations d) @ rows"
  shows "idle_rows a d (insert repo repos) (rows @ rows')"
proof -
  have "set (map op_repository rows') \<subseteq> repos" using assms(2) by (auto simp: idle_rows_def)
  with assms(1-3) have "distinct (map op_repository (rows @ rows'))"
    by (auto simp: queued_rows_def idle_rows_def queued_for_def)
  moreover have "\<not> pair_busy job r d" if "\<not> pair_busy job r d'" for job r
    using that pair_busy_more [OF assms(4)] by blast
  ultimately show ?thesis using assms(1,2) by (auto simp: queued_rows_def idle_rows_def queued_for_def)
qed

lemma admit_targets_ok:
  assumes "admit_targets e a ps s = Inr (rs, s')" and "admission_inv e (pl_job a) ps s" and "clock_ok e"
    and "readable e (jo_last_run (pl_row a))" and "distinct (map pt_repository ps)"
  shows "sched_ok e (as_db s') \<and> sb_jobs (as_db s') (pl_job a) \<noteq> None \<and>
    owed (as_db s') k = owed (as_db s) k -
      sum_list (map pt_missed (filter (\<lambda>p. dropped e a p \<and> k = (pl_job a, pt_repository p)) ps)) \<and>
    (\<exists>rows. od_ops (sb_operations (as_db s')) = od_ops (sb_operations (as_db s)) @ rows \<and>
      idle_rows a (as_db s) (pt_repository ` set ps) rows)"
  using assms(1,2,5)
proof (induction ps arbitrary: s rs)
  case Nil
  then show ?case by (simp add: admission_inv_def idle_rows_def)
next
  case (Cons p ps)
  obtain r s1 rest where one: "admit_target e a p s = Inr (r, s1)" and more: "admit_targets e a ps s1 = Inr (rest, s')"
    using Cons.prems(1) by (auto split: sum.splits)
  have new: "pt_repository p \<notin> pt_repository ` set ps" and d: "distinct (map pt_repository ps)" using Cons.prems(3) by simp_all
  note first' = admit_target_ok [OF one Cons.prems(2) assms(3,4) new]
  note later = Cons.IH [OF more first'(1) d]
  from first'(3) obtain rows where rows: "od_ops (sb_operations (as_db s1)) = od_ops (sb_operations (as_db s)) @ rows"
    "queued_rows a (as_db s) (pt_repository p) rows" by blast
  from later obtain rows' where rows': "od_ops (sb_operations (as_db s')) = od_ops (sb_operations (as_db s1)) @ rows'"
    "idle_rows a (as_db s1) (pt_repository ` set ps) rows'" by blast
  have "idle_rows a (as_db s) (pt_repository ` set (p # ps)) (rows @ rows')"
    using idle_rows_step [OF rows(2) rows'(2) new rows(1)] by simp
  with rows rows' have "\<exists>rows. od_ops (sb_operations (as_db s')) = od_ops (sb_operations (as_db s)) @ rows \<and>
      idle_rows a (as_db s) (pt_repository ` set (p # ps)) rows" by (intro exI [of _ "rows @ rows'"]) simp
  moreover have "owed (as_db s') k = owed (as_db s) k -
      sum_list (map pt_missed (filter (\<lambda>p. dropped e a p \<and> k = (pl_job a, pt_repository p)) (p # ps)))"
    using later first'(2) [of k] by simp
  ultimately show ?case using later by blast
qed

section \<open>Recording\<close>

lemma observations_ok:
  assumes "record_observations e job source now regular seen ps d = Inr d'" and "sched_ok e d"
  shows "sched_ok e d' \<and> owed d' = owed d \<and> sb_jobs d' = sb_jobs d \<and> sb_operations d' = sb_operations d \<and>
    (\<forall>p. seen_row d job p \<longrightarrow> seen_row d' job p)"
  using assms
proof (induction ps arbitrary: d)
  case (Cons p ps)
  show ?case
  proof (cases "seen (pt_repository p)")
    case None
    with Cons show ?thesis by (auto split: if_splits)
  next
    case (Some ob)
    let ?f = "\<lambda>p. p\<lparr>pt_source := saved_observation e source, pt_target := saved_observation e ob, pt_updated := se_text e now\<rparr>"
    let ?d = "update_pair job (pt_repository p) ?f d"
    have f: "pair_key (?f q) = pair_key q" "pair_ok e (?f q) = pair_ok e q" "pt_missed (?f q) = pt_missed q" for q
      by (simp_all add: pair_key_def pair_ok_def)
    have next': "record_observations e job source now regular seen ps ?d = Inr d'"
      using Cons.prems(1) Some by (simp add: update_pair_observations_def split: option.splits)
    have ok: "sched_ok e ?d"
      by (rule update_pair_ok [OF Cons.prems(2) f(1)]) (use find_pair_ok [OF Cons.prems(2)] f(2) in simp)
    have "owed ?d = owed d"
    proof (cases "find_pair job (pt_repository p) d")
      case None
      then have "\<forall>q \<in> set (sb_pairs d). pair_key q \<noteq> (job, pt_repository p)" by (metis find_pair_None imageI)
      then have "sb_pairs ?d = sb_pairs d" by (auto intro!: map_idI)
      then show ?thesis by (simp add: owed_def fun_eq_iff)
    next
      case (Some q)
      show ?thesis using update_pair_owed [OF Cons.prems(2) f(1) Some] by (simp add: fun_eq_iff)
    qed
    moreover have "seen_row ?d job x" if "seen_row d job x" for x
      using that f(1) by (auto simp: seen_row_def find_update_pair same_run_def)
    ultimately show ?thesis using Cons.IH [OF next' ok] by auto
  qed
qed simp

lemma missed_pair_ok:
  assumes "pair_ok e q" and "clock_ok e" and "same_run p q"
  shows "pair_ok e (q\<lparr>pt_pending := True, pt_missed := pt_missed q + 1, pt_first := first_missed e p due,
       pt_last := se_text e due, pt_updated := se_text e now\<rparr>)"
proof -
  have written: "se_parse e (se_text e t) = Some t" "se_text e t \<noteq> []" for t using assms(2) by (simp_all add: clock_ok_def)
  show ?thesis
  proof (cases "pt_pending q")
    case True
    with assms(1) obtain a b where "0 < pt_missed q" "pt_first q \<noteq> []" "se_parse e (pt_first q) = Some a"
      by (auto simp: pair_ok_def range_ok_iff)
    with True assms(3) written show ?thesis
      by (auto simp: pair_ok_def range_ok_iff first_missed_def same_run_def)
  next
    case False
    with assms(1,3) written show ?thesis by (simp add: pair_ok_def range_ok_iff first_missed_def same_run_def)
  qed
qed

lemma mark_missed_ok:
  assumes "sched_ok e d" and "clock_ok e" and "seen_row d (pt_job p) p"
    and d'_def: "d' = mark_pair_missed e p due now d"
  shows "sched_ok e d'" and "owed d' k = owed d k + (if k = pair_key p then 1 else 0)"
    and "sb_operations d' = sb_operations d" and "sb_jobs d' = sb_jobs d"
    and "seen_row d' (pt_job p) (miss_pair e due now p)"
    and "pt_repository x \<noteq> pt_repository p \<Longrightarrow> seen_row d' (pt_job p) x = seen_row d (pt_job p) x"
proof -
  let ?f = "\<lambda>q. q\<lparr>pt_pending := True, pt_missed := pt_missed q + 1, pt_first := first_missed e p due,
       pt_last := se_text e due, pt_updated := se_text e now\<rparr>"
  obtain q where q: "find_pair (pt_job p) (pt_repository p) d = Some q" "same_run p q"
    using assms(3) by (auto simp: seen_row_def)
  have f: "pair_key (?f x) = pair_key x" for x by (simp add: pair_key_def)
  have d': "d' = update_pair (pt_job p) (pt_repository p) ?f d" by (simp add: d'_def mark_pair_missed_def)
  show "sched_ok e d'" unfolding d'
    by (rule update_pair_ok [OF assms(1) f]) (use q missed_pair_ok [OF find_pair_ok [OF assms(1) q(1)] assms(2)] in auto)
  show "owed d' k = owed d k + (if k = pair_key p then 1 else 0)"
    using update_pair_owed [OF assms(1) f q(1), of k] by (simp add: d' pair_key_def)
  show "sb_operations d' = sb_operations d" "sb_jobs d' = sb_jobs d" by (simp_all add: d')
  have "find_pair (pt_job p) (pt_repository p) d' = Some (?f q)" by (simp add: d' find_update_pair [OF f] q(1))
  then show "seen_row d' (pt_job p) (miss_pair e due now p)"
    using q(2) by (simp add: seen_row_def miss_pair_def same_run_def)
  show "pt_repository x \<noteq> pt_repository p \<Longrightarrow> seen_row d' (pt_job p) x = seen_row d (pt_job p) x"
    unfolding d' by (rule seen_row_other [OF f])
qed

lemma all_missed_ok:
  assumes "sched_ok e d" and "clock_ok e" and "\<forall>p \<in> set ps. pt_job p = job \<and> seen_row d job p"
    and "distinct (map pt_repository ps)"
  shows "sched_ok e (fold (\<lambda>p. mark_pair_missed e p due now) ps d) \<and>
    owed (fold (\<lambda>p. mark_pair_missed e p due now) ps d) k = owed d k + (if k \<in> pair_key ` set ps then 1 else 0) \<and>
    sb_operations (fold (\<lambda>p. mark_pair_missed e p due now) ps d) = sb_operations d \<and>
    sb_jobs (fold (\<lambda>p. mark_pair_missed e p due now) ps d) = sb_jobs d \<and>
    (\<forall>p \<in> set ps. seen_row (fold (\<lambda>p. mark_pair_missed e p due now) ps d) job (miss_pair e due now p)) \<and>
    (\<forall>x. pt_repository x \<notin> pt_repository ` set ps \<longrightarrow>
      seen_row (fold (\<lambda>p. mark_pair_missed e p due now) ps d) job x = seen_row d job x)"
  using assms(1,3,4)
proof (induction ps arbitrary: d)
  case (Cons p ps)
  have p: "pt_job p = job" "seen_row d (pt_job p) p" using Cons.prems(2) by simp_all
  note step = mark_missed_ok [where due = due and now = now, OF Cons.prems(1) assms(2) p(2) refl]
  have new: "pt_repository p \<notin> pt_repository ` set ps" using Cons.prems(3) by simp
  have rest: "\<forall>x \<in> set ps. pt_job x = job \<and> seen_row (mark_pair_missed e p due now d) job x"
  proof
    fix x
    assume x: "x \<in> set ps"
    with new have "pt_repository x \<noteq> pt_repository p" by (metis imageI)
    with x Cons.prems(2) step(6) [of x] p(1) show "pt_job x = job \<and> seen_row (mark_pair_missed e p due now d) job x" by simp
  qed
  have d: "distinct (map pt_repository ps)" using Cons.prems(3) by simp
  note later = Cons.IH [OF step(1) rest d]
  have "pair_key p \<notin> pair_key ` set ps" using new by (auto simp: pair_key_def)
  moreover have "pt_repository (miss_pair e due now p) = pt_repository p" by (simp add: miss_pair_def)
  ultimately show ?case using later step(2-6) new p(1) by auto
qed simp

section \<open>The whole transaction\<close>

lemma put_job_ok:
  assumes "sched_ok e d" and "readable e (jo_last_run j)"
  shows "sched_ok e (put_job job j d)" and "owed (put_job job j d) = owed d"
  using assms by (auto simp: sched_ok_def jobs_ok_def pairs_ok_def owed_def fun_eq_iff)

lemma sched_ok_job: "sched_ok e d \<Longrightarrow> sb_jobs d job = Some j \<Longrightarrow> readable e (jo_last_run j)"
  by (simp add: sched_ok_def jobs_ok_def)

lemma scheduled_targets_rows:
  assumes "sched_ok e d"
  shows "\<forall>p \<in> set (scheduled_targets job d). pt_job p = job \<and> seen_row d job p"
    and "distinct (map pt_repository (scheduled_targets job d))"
proof -
  have d: "distinct (map pair_key (sb_pairs d))" using assms by (simp add: sched_ok_def pairs_ok_def)
  show "\<forall>p \<in> set (scheduled_targets job d). pt_job p = job \<and> seen_row d job p"
  proof
    fix p
    assume "p \<in> set (scheduled_targets job d)"
    then have p: "p \<in> set (sb_pairs d)" "pt_job p = job" by (auto simp: scheduled_targets_def)
    then obtain q where q: "find_pair job (pt_repository p) d = Some q"
      using find_pair_None [of job "pt_repository p" d] by (cases "find_pair job (pt_repository p) d") (auto simp: pair_key_def)
    from find_pair_Some [OF q] p d have "q = p" by (auto simp: distinct_map inj_on_def pair_key_def)
    with q p show "pt_job p = job \<and> seen_row d job p" by (simp add: seen_row_def same_run_def)
  qed
  have "distinct (map pair_key (filter (\<lambda>p. pt_job p = job \<and> od_repositories (sb_operations d) (pt_repository p) \<noteq> None) (sb_pairs d)))"
    using d by (rule distinct_map_filter)
  then show "distinct (map pt_repository (scheduled_targets job d))"
    by (auto simp: scheduled_targets_def distinct_map inj_on_def pair_key_def)
qed

lemma open_admission_ok:
  assumes "open_admission e rq deleting d = Inr (j, seen, ps, d')" and "sched_ok e d"
  shows "sched_ok e d'" and "owed d' = owed d" and "sb_operations d' = sb_operations d"
    and "ps = scheduled_targets (rq_job rq) d" and "sb_jobs d (rq_job rq) = Some j" and "sb_jobs d' (rq_job rq) \<noteq> None"
    and "sb_pairs d' = sb_pairs d"
proof -
  have j: "sb_jobs d (rq_job rq) = Some j" and source: "apply_source_observation e (rq_job rq) (rq_source rq) d = Inr d'"
    and ps: "ps = scheduled_targets (rq_job rq) d'"
    using assms(1) by (auto simp: open_admission_def split: if_splits option.splits sum.splits)
  consider "d' = d" | b where "d' = put_job (rq_job rq) (j\<lparr>jo_binding := b\<rparr>) d"
  proof (cases "ob_conversion (rq_source rq)")
    case None
    with source that(1) show thesis by (simp add: apply_source_observation_def)
  next
    case (Some c)
    with source j that(2) show thesis
      by (cases "convert_legacy_source_binding (se_platform e) (se_json e) c (jo_binding j)")
        (auto simp: apply_source_observation_def)
  qed
  then have "sched_ok e d' \<and> owed d' = owed d \<and> sb_operations d' = sb_operations d \<and> sb_jobs d' (rq_job rq) \<noteq> None \<and>
      sb_pairs d' = sb_pairs d"
  proof cases
    case 2
    with put_job_ok [OF assms(2), of "j\<lparr>jo_binding := b\<rparr>"] sched_ok_job [OF assms(2) j] show ?thesis by simp
  qed (use assms(2) j in simp)
  then show "sched_ok e d'" "owed d' = owed d" "sb_operations d' = sb_operations d" "sb_jobs d' (rq_job rq) \<noteq> None"
    "sb_pairs d' = sb_pairs d" "ps = scheduled_targets (rq_job rq) d" "sb_jobs d (rq_job rq) = Some j"
    using ps j by (simp_all add: scheduled_targets_def)
qed

lemma find_SomeD: "find P xs = Some x \<Longrightarrow> P x"
  by (auto simp: find_Some_iff)

lemma source_carrier_idle:
  "source_issue_carrier e job now ps d \<noteq> [] \<Longrightarrow> \<not> pair_busy job (source_issue_carrier e job now ps d) d"
  unfolding source_issue_carrier_def by (cases "find (\<lambda>p. pt_pending p \<and> unavailable_issue_due e (pt_first p) now \<and>
    \<not> pair_busy job (pt_repository p) d) ps") (auto dest: find_SomeD)

lemma admit_observed_ok:
  assumes admitted: "admit_observed e new_id new_group rq j seen ps d = Inr (rs, d')" and "sched_ok e d" and "clock_ok e"
    and "readable e (jo_last_run j)" and "sb_jobs d (rq_job rq) \<noteq> None"
    and "\<forall>p \<in> set ps. seen_row d (rq_job rq) p" and "distinct (map pt_repository ps)"
  shows "sched_ok e d'" and "\<not> source_outage (rq_source rq) \<Longrightarrow> owed d' = owed d"
    and "\<exists>rows. od_ops (sb_operations d') = od_ops (sb_operations d) @ rows \<and> distinct (map op_repository rows) \<and>
      (\<forall>row \<in> set rows. op_repository row \<in> pt_repository ` set ps \<and> queued_for (rq_job rq) (op_repository row) row \<and>
        \<not> pair_busy (rq_job rq) (op_repository row) d)"
proof -
  define a where "a = \<lparr>pl_ids = new_id, pl_group = new_group, pl_job = rq_job rq, pl_row = j, pl_now = rq_now rq,
      pl_regular = rq_due rq \<noteq> None, pl_source = rq_source rq, pl_observed = (\<lambda>r. the (seen r)),
      pl_carrier = (if jo_enabled j \<and> source_outage (rq_source rq)
          then source_issue_carrier e (rq_job rq) (rq_now rq) ps d else [])\<rparr>"
  obtain s where s: "admit_targets e a ps \<lparr>as_db = d, as_group = [], as_admitted = False\<rparr> = Inr (rs, s)"
    and d': "d' = save_last_run e (rq_job rq) (rq_now rq) s"
    using admitted by (auto simp: admit_observed_def Let_def a_def split: sum.splits)
  have a: "pl_job a = rq_job rq" "pl_row a = j" "pl_source a = rq_source rq" by (simp_all add: a_def)
  have inv: "admission_inv e (pl_job a) ps \<lparr>as_db = d, as_group = [], as_admitted = False\<rparr>"
    using assms(2,5,6) by (simp add: admission_inv_def held_group_def a)
  have r: "readable e (jo_last_run (pl_row a))" using assms(4) by (simp add: a)
  note all = admit_targets_ok [OF s inv assms(3) r assms(7)]
  have saved: "sched_ok e d' \<and> owed d' = owed (as_db s) \<and> sb_operations d' = sb_operations (as_db s)"
    using all put_job_ok [of e "as_db s"] readable_text [OF assms(3)] by (auto simp: d' save_last_run_def)
  then show "sched_ok e d'" by blast
  show "owed d' = owed d" if "\<not> source_outage (rq_source rq)"
  proof
    fix k
    have "filter (\<lambda>p. dropped e a p \<and> k = (pl_job a, pt_repository p)) ps = []"
      using that by (simp add: dropped_def a)
    with all [of k] saved show "owed d' k = owed d k" by simp
  qed
  have carrier: "\<not> pair_busy (rq_job rq) (pl_carrier a) d" if "pl_carrier a \<noteq> []"
    using that source_carrier_idle by (auto simp: a_def split: if_splits)
  from all obtain rows where "od_ops (sb_operations (as_db s)) = od_ops (sb_operations d) @ rows"
    "idle_rows a d (pt_repository ` set ps) rows" by auto
  with carrier saved a(1) show "\<exists>rows. od_ops (sb_operations d') = od_ops (sb_operations d) @ rows \<and> distinct (map op_repository rows) \<and>
      (\<forall>row \<in> set rows. op_repository row \<in> pt_repository ` set ps \<and> queued_for (rq_job rq) (op_repository row) row \<and>
        \<not> pair_busy (rq_job rq) (op_repository row) d)"
    by (intro exI [of _ rows]) (auto simp: idle_rows_def)
qed

text \<open>What an admission appends, seen from the tables before it.\<close>

definition new_backups :: "string \<Rightarrow> string set \<Rightarrow> schedule_db \<Rightarrow> schedule_db \<Rightarrow> bool" where
  "new_backups job repos d d' \<longleftrightarrow> (\<exists>rows. od_ops (sb_operations d') = od_ops (sb_operations d) @ rows \<and>
     distinct (map op_repository rows) \<and> (\<forall>row \<in> set rows. op_repository row \<in> repos \<and>
       queued_for job (op_repository row) row \<and> \<not> pair_busy job (op_repository row) d))"

lemma new_backups_same:
  assumes "new_backups job repos d d'" and "sb_operations d = sb_operations d0" and "repos \<subseteq> repos'"
  shows "new_backups job repos' d0 d'"
proof -
  have busy: "pair_busy job r d = pair_busy job r d0" for r using assms(2) by (simp add: pair_busy_def)
  show ?thesis using assms(1,3) unfolding new_backups_def assms(2) busy by blast
qed

text \<open>A due run of a job that is enabled.\<close>

lemma due_admission_ok:
  assumes due: "record_due_run e (rq_job rq) j due (rq_now rq) ps d = Inr (ps', d1)"
    and admitted: "admit_observed e new_id new_group rq j seen ps' d1 = Inr (rs, d')"
    and ok: "sched_ok e d" and clock: "clock_ok e" and j: "readable e (jo_last_run j)" and jobs: "sb_jobs d (rq_job rq) \<noteq> None"
    and rows: "\<forall>p \<in> set ps. pt_job p = rq_job rq \<and> seen_row d (rq_job rq) p" and dist: "distinct (map pt_repository ps)"
  shows "sched_ok e d'" and "\<not> source_outage (rq_source rq) \<Longrightarrow> owed d' k = owed d k + (if k \<in> pair_key ` set ps then 1 else 0)"
    and "new_backups (rq_job rq) (pt_repository ` set ps) d d'"
proof -
  obtain nxt where ps': "ps' = map (miss_pair e due (rq_now rq)) ps"
    and d1: "d1 = fold (\<lambda>p. mark_pair_missed e p due (rq_now rq)) ps
      (put_job (rq_job rq) ((the (sb_jobs d (rq_job rq)))\<lparr>jo_next_run := se_text e nxt\<rparr>) d)" (is "_ = fold _ ps ?d")
    using due by (auto simp: record_due_run_def split: sum.splits)
  obtain j2 where j2: "sb_jobs d (rq_job rq) = Some j2" using jobs by auto
  have "readable e (jo_last_run ((the (sb_jobs d (rq_job rq)))\<lparr>jo_next_run := se_text e nxt\<rparr>))"
    using sched_ok_job [OF ok j2] by (simp add: j2)
  note put = put_job_ok [OF ok this, of "rq_job rq"]
  have "\<forall>p \<in> set ps. pt_job p = rq_job rq \<and> seen_row ?d (rq_job rq) p"
    using rows by (simp add: seen_row_pairs [of ?d d])
  note missed = all_missed_ok [where due = due and now = "rq_now rq", OF put(1) clock this dist, folded d1]
  have seen': "\<forall>p \<in> set ps'. seen_row d1 (rq_job rq) p" and dist': "distinct (map pt_repository ps')"
    and same: "pt_repository ` set ps' = pt_repository ` set ps"
    using missed dist by (auto simp: ps' miss_pair_def image_image o_def)
  have jobs1: "sb_jobs d1 (rq_job rq) \<noteq> None" and ops1: "sb_operations d1 = sb_operations d" and ok1: "sched_ok e d1"
    using missed by simp_all
  note a = admit_observed_ok [OF admitted ok1 clock j jobs1 seen' dist']
  show "sched_ok e d'" by (rule a(1))
  show "owed d' k = owed d k + (if k \<in> pair_key ` set ps then 1 else 0)" if "\<not> source_outage (rq_source rq)"
    using a(2) that missed put(2) by simp
  have "new_backups (rq_job rq) (pt_repository ` set ps') d1 d'" using a(3) by (simp add: new_backups_def)
  then show "new_backups (rq_job rq) (pt_repository ` set ps) d d'"
    unfolding same using ops1 order_refl by (rule new_backups_same)
qed

text \<open>What \<open>coordinate_scheduled\<close> does to the ledger and to the operations.\<close>

lemma coordinate_ok:
  assumes run: "coordinate_scheduled e new_id new_group deleting rq d = Inr (rs, d')" and ok: "sched_ok e d"
    and clock: "clock_ok e"
  defines "ts \<equiv> scheduled_targets (rq_job rq) d"
  shows "sched_ok e d'"
    and "\<not> source_outage (rq_source rq) \<Longrightarrow> owed d' k = owed d k + (if rq_due rq \<noteq> None \<and>
      (\<exists>j. sb_jobs d (rq_job rq) = Some j \<and> jo_enabled j) \<and> k \<in> pair_key ` set ts then 1 else 0)"
    and "new_backups (rq_job rq) (pt_repository ` set ts) d d'"
proof -
  obtain j seen ps d1 d2 where opened: "open_admission e rq deleting d = Inr (j, seen, ps, d1)"
    and recorded: "record_observations e (rq_job rq) (rq_source rq) (rq_now rq) (rq_due rq \<noteq> None) seen ps d1 = Inr d2"
    using run by (auto simp: coordinate_scheduled_def Let_def split: sum.splits prod.splits if_splits)
  note o = open_admission_ok [OF opened ok]
  note rec = observations_ok [OF recorded o(1)]
  have j: "readable e (jo_last_run j)" using sched_ok_job [OF ok o(5)] .
  have rows: "\<forall>p \<in> set ps. pt_job p = rq_job rq \<and> seen_row d2 (rq_job rq) p" and dist: "distinct (map pt_repository ps)"
    using scheduled_targets_rows [OF ok, of "rq_job rq"] rec by (simp_all add: o(4) seen_row_pairs [OF o(7), symmetric])
  have ts: "ts = ps" by (simp add: ts_def o(4))
  have jobs: "sb_jobs d2 (rq_job rq) \<noteq> None" and ops: "sb_operations d2 = sb_operations d" and owed: "owed d2 = owed d"
    and ok2: "sched_ok e d2" using rec o(2,3,6) by simp_all
  have "sched_ok e d' \<and> (\<not> source_outage (rq_source rq) \<longrightarrow> owed d' k = owed d k + (if rq_due rq \<noteq> None \<and>
      jo_enabled j \<and> k \<in> pair_key ` set ps then 1 else 0)) \<and> new_backups (rq_job rq) (pt_repository ` set ps) d d'"
  proof (cases "rq_due rq")
    case None
    let ?ps = "filter (\<lambda>p. seen (pt_repository p) \<noteq> None) ps"
    have admitted: "admit_observed e new_id new_group rq j seen ?ps d2 = Inr (rs, d')"
      using run opened recorded None by (auto simp: coordinate_scheduled_def Let_def split: if_splits)
    have "\<forall>p \<in> set ?ps. seen_row d2 (rq_job rq) p" "distinct (map pt_repository ?ps)"
      using rows dist by (simp_all add: distinct_map_filter)
    note a = admit_observed_ok [OF admitted ok2 clock j jobs this]
    have "new_backups (rq_job rq) (pt_repository ` set ?ps) d2 d'" using a(3) by (simp add: new_backups_def)
    then have "new_backups (rq_job rq) (pt_repository ` set ps) d d'" using ops by (rule new_backups_same) auto
    then show ?thesis using a(1,2) None owed by simp
  next
    case (Some due)
    show ?thesis
    proof (cases "jo_enabled j")
      case False
      then have "d' = d2" using run opened recorded Some
        by (auto simp: coordinate_scheduled_def Let_def split: if_splits)
      then show ?thesis using False ops owed ok2 by (simp add: new_backups_def)
    next
      case enabled: True
      obtain ps' d3 where due: "record_due_run e (rq_job rq) j due (rq_now rq) ps d2 = Inr (ps', d3)"
        and admitted: "admit_observed e new_id new_group rq j seen ps' d3 = Inr (rs, d')"
        using run opened recorded Some enabled
        by (auto simp: coordinate_scheduled_def Let_def split: if_splits sum.splits)
      note a = due_admission_ok [OF due admitted ok2 clock j jobs rows dist]
      have "new_backups (rq_job rq) (pt_repository ` set ps) d d'"
        by (rule new_backups_same [OF a(3) ops order_refl])
      then show ?thesis using a(1) a(2) [of k] Some enabled owed by simp
    qed
  qed
  then show "sched_ok e d'"
    and "\<not> source_outage (rq_source rq) \<Longrightarrow> owed d' k = owed d k + (if rq_due rq \<noteq> None \<and>
      (\<exists>j. sb_jobs d (rq_job rq) = Some j \<and> jo_enabled j) \<and> k \<in> pair_key ` set ts then 1 else 0)"
    and "new_backups (rq_job rq) (pt_repository ` set ts) d d'"
    using o(5) by (simp_all add: ts)
qed

end
