(* ===== verification/AdmissionProperties.thy ===== *)
theory AdmissionProperties
  imports AdmissionRuns
begin

text \<open>
  What the admission of backups guarantees: a due run is counted once and never lost, an operation is
  queued only for an idle pair, a run that is given back changes nothing owed and a run that was
  used up stays used.
\<close>

section \<open>The properties\<close>

text \<open>C13. The tables stay well formed under every scheduled admission, and while the source answers the runs a pair
  is owed (those waiting in its row and those held by operations that may give them back) grow by exactly
  one for each vault of an enabled job whose run is due, and for no other: no run is lost, counted
  twice or forgotten because its vault was away, busy or not ready.\<close>

theorem due_run_counted:
  assumes "sched_ok e d" and "clock_ok e" and "coordinate_scheduled e new_id new_group deleting rq d = Inr (results, d')"
    and "\<not> source_outage (rq_source rq)"
  shows "sched_ok e d' \<and> owed d' (job, repo) = owed d (job, repo) +
    (if job = rq_job rq \<and> rq_due rq \<noteq> None \<and> (\<exists>j. sb_jobs d job = Some j \<and> jo_enabled j) \<and>
       repo \<in> pt_repository ` set (scheduled_targets job d) then 1 else 0)"
proof -
  have "(job, repo) \<in> pair_key ` set (scheduled_targets (rq_job rq) d) \<longleftrightarrow>
      job = rq_job rq \<and> repo \<in> pt_repository ` set (scheduled_targets job d)"
    by (auto simp: scheduled_targets_def pair_key_def image_iff)
  with coordinate_ok(1) [OF assms(3,1,2)] coordinate_ok(2) [OF assms(3,1,2,4), of "(job, repo)"] show ?thesis by auto
qed

text \<open>C14. A scheduled admission queues at most one backup for each vault of its job, and only where no backup of the
  pair was queued or running and no removal of the vault was pending; it changes no other operation.\<close>

theorem admits_idle_pairs:
  assumes "sched_ok e d" and "clock_ok e" and "coordinate_scheduled e new_id new_group deleting rq d = Inr (results, d')"
  shows "\<exists>rows. od_ops (sb_operations d') = od_ops (sb_operations d) @ rows \<and> distinct (map op_repository rows) \<and>
    (\<forall>row \<in> set rows. op_repository row \<in> pt_repository ` set (scheduled_targets (rq_job rq) d) \<and>
      op_job row = rq_job rq \<and> op_kind row = ''backup'' \<and> op_status row = ''queued'' \<and>
      (\<forall>o' \<in> set (od_ops (sb_operations d)). op_repository o' = op_repository row \<and> op_status o' \<in> {''queued'', ''running''} \<longrightarrow>
        op_job o' \<noteq> rq_job rq \<and> (op_kind o' \<noteq> removal_kind \<or> op_repository o' = [])))"
proof -
  have idle: "op_job o' \<noteq> job \<and> (op_kind o' \<noteq> removal_kind \<or> op_repository o' = [])"
    if "\<not> pair_busy job repo d" "o' \<in> set (od_ops (sb_operations d))" "op_repository o' = repo" "op_status o' \<in> {''queued'', ''running''}"
    for job repo o'
    using that by (auto simp: pair_busy_def vault_removal_pending_def list_ex_iff active_def)
  obtain rows where "od_ops (sb_operations d') = od_ops (sb_operations d) @ rows" "distinct (map op_repository rows)"
    "\<forall>row \<in> set rows. op_repository row \<in> pt_repository ` set (scheduled_targets (rq_job rq) d) \<and>
      queued_for (rq_job rq) (op_repository row) row \<and> \<not> pair_busy (rq_job rq) (op_repository row) d"
    using coordinate_ok(3) [OF assms(3,1,2)] unfolding new_backups_def by blast
  with idle show ?thesis unfolding queued_for_def by (intro exI [of _ rows]) blast
qed

text \<open>C15. Giving runs back, when queued backups are interrupted or a vault turns out to be away before the engine
  starts, never changes what any pair is owed.\<close>

theorem runs_given_back:
  assumes "sched_ok e d" and "clock_ok e" and "interrupt_queued_backups e ids now d = Inr d1"
    and "restore_pre_native e i reason checked source d1 = Inr d2"
  shows "sched_ok e d2 \<and> owed d2 = owed d"
proof -
  have "restore_all e now ids d = Inr d1" using assms(3) by (simp add: interrupt_queued_backups_def split: if_splits)
  from restore_all_ok [OF this assms(1,2)] restore_pre_native_ok [OF _ assms(2,4)] show ?thesis by simp
qed

lemma reconcile_restorations:
  assumes "reconcile_groups e job d = Inr d'" and "r \<in> set (od_restorations (sb_operations d'))"
  shows "r \<in> set (od_restorations (sb_operations d))"
proof -
  have drop: "set (od_restorations (drop_groups job o')) \<subseteq> set (od_restorations o')" for o'
    by (auto simp: drop_groups_def Let_def)
  have "\<exists>j. d' = d \<or> d' = put_job job j d \<or> d' = put_operations (drop_groups job (sb_operations d)) (put_job job j d)"
    using assms(1) by (simp add: reconcile_groups_def Let_def split: option.splits if_splits) blast+
  then show ?thesis using assms(2) drop [of "sb_operations d"] by auto
qed

lemma started_not_eligible:
  assumes "r \<in> set (od_restorations (sb_operations (mark_group_started g job (set_restoration_state i ''started'' d))))"
    and "rs_operation r = i"
  shows "rs_state r \<noteq> ''eligible''"
proof -
  have "od_restorations (sb_operations (mark_group_started g job (set_restoration_state i ''started'' d))) =
      map (\<lambda>r. if rs_operation r = i \<and> rs_state r = ''eligible'' then r\<lparr>rs_state := ''started''\<rparr> else r)
        (od_restorations (sb_operations d))" (is "_ = map ?f ?rs")
    by (simp add: mark_group_started_def set_restoration_state_def)
  with assms(1) have "r \<in> ?f ` set ?rs" unfolding set_map [symmetric] by metis
  then obtain x where "r = ?f x" by blast
  with assms(2) show ?thesis by (auto split: if_splits)
qed

text \<open>C16. A started backup uses its run up: taking it never fails, the pair is owed exactly the runs the operation held
  less, and the run can neither be taken again nor be given back.\<close>

theorem used_run_final:
  assumes "sched_ok e d" and "find_restoration i d = Some r" and "rs_state r = ''eligible''" and "i \<noteq> []" and "checked \<noteq> 0"
  shows "\<exists>d'. consume_occurrence e i d = Inr d' \<and> sched_ok e d' \<and>
    owed d' = (owed d)((rs_job r, rs_repository r) := owed d (rs_job r, rs_repository r) - rs_missed r) \<and>
    \<not> occurrence_eligible i d' \<and> restore_pre_native e i reason checked source d' = Inr d'"
proof -
  let ?d = "mark_group_started (rs_group r) (rs_job r) (set_restoration_state i ''started'' d)"
  note used = used_up [OF assms(1-3)]
  from reconcile_groups_ok [OF used(1), of "rs_job r"] obtain d' where
    d': "reconcile_groups e (rs_job r) ?d = Inr d'" "sched_ok e d'" "owed d' = owed ?d" by blast
  have "rs_state x \<noteq> ''eligible''" if "find_restoration i d' = Some x" for x
    using find_restoration_Some [OF that] reconcile_restorations [OF d'(1)] started_not_eligible by blast
  then have none: "find_restoration i d' = None \<or> (\<exists>x. find_restoration i d' = Some x \<and> rs_state x \<noteq> ''eligible'')"
    by (cases "find_restoration i d'") auto
  have "consume_occurrence e i d = Inr d'" using assms(2-4) d'(1) by (simp add: consume_occurrence_def)
  moreover have "owed d' = (owed d)((rs_job r, rs_repository r) := owed d (rs_job r, rs_repository r) - rs_missed r)"
    by (rule ext) (simp add: d'(3) used(2))
  moreover have "\<not> occurrence_eligible i d'" "restore_pre_native e i reason checked source d' = Inr d'"
    using none assms(4,5) by (auto simp: occurrence_eligible_def restore_pre_native_def)
  ultimately show ?thesis using d'(2) by blast
qed

section \<open>Example\<close>

text \<open>A job with two vaults; a backup to the second is already queued.  Times are written as a sign and as many strokes.\<close>

definition stroke_text :: "int \<Rightarrow> string" where
  "stroke_text t = (if t < 0 then CHR ''-'' # replicate (nat (- t)) CHR ''i'' else CHR ''+'' # replicate (nat t) CHR ''i'')"

definition stroke_parse :: "string \<Rightarrow> int option" where
  "stroke_parse s = (case s of [] \<Rightarrow> None
     | c # cs \<Rightarrow> Some (if c = CHR ''-'' then - int (length cs) else int (length cs)))"

definition sample_schedule_env :: schedule_env where
  "sample_schedule_env = \<lparr>se_text = stroke_text, se_parse = stroke_parse, se_sortable = stroke_text,
     se_next = (\<lambda>_ t. Some (t + 2)), se_cron = (\<lambda>_. False), se_platform = sample_posix, se_json = sample_json\<rparr>"

definition never_checked :: saved_check where
  "never_checked = \<lparr>sk_state = [], sk_reason = [], sk_checked = []\<rparr>"

definition sample_pair :: "string \<Rightarrow> pair_row" where
  "sample_pair repo = \<lparr>pt_job = ''j'', pt_repository = repo, pt_pending = False, pt_missed = 0, pt_first = [], pt_last = [],
     pt_source = never_checked, pt_target = never_checked, pt_updated = []\<rparr>"

definition idle_care :: care where
  "idle_care = \<lparr>care_schedule = [], care_next = [], care_last = [], care_status = []\<rparr>"

definition sample_schedule_db :: schedule_db where
  "sample_schedule_db = \<lparr>sb_steps = \<lparr>sd_operations = \<lparr>
       od_ops = [\<lparr>op_id = ''0'', op_kind = ''backup'', op_status = ''queued'', op_title = [], op_job = ''j'', op_repository = ''s'',
         op_engine = ''restic'', op_started_at = [], op_finished_at = [], op_issue_kind = []\<rparr>],
       od_repositories = (\<lambda>r. if r = ''r'' \<or> r = ''s'' then Some \<lparr>rr_engine = ''restic'', rr_check = idle_care,
         rr_maintenance = idle_care, rr_object_lock = []\<rparr> else None),
       od_targets = (\<lambda>_. Some \<lparr>tr_last_run = [], tr_last_status = []\<rparr>), od_restorations = [], od_groups = []\<rparr>,
       sd_steps = [], sd_generation = (\<lambda>_. None), sd_log = []\<rparr>,
     sb_jobs = (\<lambda>i. if i = ''j'' then Some \<lparr>jo_name = ''job'', jo_schedule = ''daily'', jo_next_run = ''+i'', jo_last_run = [],
       jo_enabled = True, jo_binding = \<lparr>jb_source = ''/'', jb_state = [], jb_alias = [], jb_version = [], jb_key = [], jb_json = []\<rparr>\<rparr>
       else None),
     sb_pairs = [sample_pair ''r'', sample_pair ''s''], sb_names = (\<lambda>r. r), sb_policies = (\<lambda>_. None), sb_reserved = (\<lambda>_. False)\<rparr>"

definition sample_due :: admission_request where
  "sample_due = (let seen = \<lparr>ob_state = storage_available, ob_reason = [], ob_checked_at = 1, ob_conclusive = False,
       ob_conversion = None\<rparr> in
     \<lparr>rq_job = ''j'', rq_due = Some 1, rq_now = 2, rq_source = seen, rq_targets = [(''r'', seen), (''s'', seen)]\<rparr>)"

definition sample_admitted :: "schedule_db result" where
  "sample_admitted = map_sum id snd
     (coordinate_scheduled sample_schedule_env (\<lambda>r. CHR ''n'' # r) ''g'' False sample_due sample_schedule_db)"

lemma sample_clock: "clock_ok sample_schedule_env"
  by (simp add: clock_ok_def sample_schedule_env_def stroke_text_def stroke_parse_def)

lemma sample_sched_ok: "sched_ok sample_schedule_env sample_schedule_db"
  by (auto simp: sched_ok_def pairs_ok_def kept_ok_def groups_ok_def jobs_ok_def sample_schedule_db_def sample_pair_def
      pair_key_def pair_ok_def readable_def split: if_splits)

lemma sample_admission_runs: "\<not> isl sample_admitted"
  by code_simp

lemma sample_result:
  obtains rs d' where "coordinate_scheduled sample_schedule_env (\<lambda>r. CHR ''n'' # r) ''g'' False sample_due sample_schedule_db = Inr (rs, d')"
    and "sample_admitted = Inr d'"
  using sample_admission_runs
  by (cases "coordinate_scheduled sample_schedule_env (\<lambda>r. CHR ''n'' # r) ''g'' False sample_due sample_schedule_db")
    (auto simp: sample_admitted_def)

lemma sample_source: "\<not> source_outage (rq_source sample_due)" by code_simp

lemma due_run_counted_witness:
  "\<exists>d'. sample_admitted = Inr d' \<and> owed d' (''j'', ''r'') = 1 \<and> owed d' (''j'', ''s'') = 1 \<and> owed d' (''k'', ''r'') = 0"
proof -
  obtain rs d' where run: "coordinate_scheduled sample_schedule_env (\<lambda>r. CHR ''n'' # r) ''g'' False sample_due sample_schedule_db = Inr (rs, d')"
    and s: "sample_admitted = Inr d'" by (rule sample_result)
  note c = due_run_counted [OF sample_sched_ok sample_clock run sample_source]
  have "rq_job sample_due = ''j''" "rq_due sample_due \<noteq> None" by code_simp+
  moreover have "pt_repository ` set (scheduled_targets ''j'' sample_schedule_db) = {''r'', ''s''}" by code_simp
  moreover have "owed sample_schedule_db (''j'', ''r'') = 0" "owed sample_schedule_db (''j'', ''s'') = 0"
    "owed sample_schedule_db (''k'', ''r'') = 0" by code_simp+
  moreover have "\<exists>j. sb_jobs sample_schedule_db ''j'' = Some j \<and> jo_enabled j" by (simp add: sample_schedule_db_def)
  ultimately have "owed d' (''j'', ''r'') = 1" "owed d' (''j'', ''s'') = 1" "owed d' (''k'', ''r'') = 0"
    using c [of "''j''" "''r''"] c [of "''j''" "''s''"] c [of "''k''" "''r''"] by simp_all
  with s show ?thesis by blast
qed

lemma admits_idle_pairs_witness:
  "\<exists>d'. sample_admitted = Inr d' \<and> (\<exists>row. od_ops (sb_operations d') = od_ops (sb_operations sample_schedule_db) @ [row] \<and>
     queued_for ''j'' ''r'' row \<and> \<not> pair_busy ''j'' ''r'' sample_schedule_db \<and> pair_busy ''j'' ''s'' sample_schedule_db)"
proof -
  obtain rs d' where run: "coordinate_scheduled sample_schedule_env (\<lambda>r. CHR ''n'' # r) ''g'' False sample_due sample_schedule_db = Inr (rs, d')"
    and s: "sample_admitted = Inr d'" by (rule sample_result)
  have job: "rq_job sample_due = ''j''" by code_simp
  have ts: "pt_repository ` set (scheduled_targets ''j'' sample_schedule_db) = {''r'', ''s''}" by code_simp
  have busy: "pair_busy ''j'' ''s'' sample_schedule_db" "\<not> pair_busy ''j'' ''r'' sample_schedule_db" by code_simp+
  have "(case sample_admitted of Inl _ \<Rightarrow> 0 | Inr d \<Rightarrow> length (od_ops (sb_operations d))) = 2" by code_simp
  then have two: "length (od_ops (sb_operations d')) = 2" unfolding s sum.case .
  have one: "length (od_ops (sb_operations sample_schedule_db)) = 1" by code_simp
  have other: "\<exists>o' \<in> set (od_ops (sb_operations sample_schedule_db)). op_repository o' = ''s'' \<and> op_status o' = ''queued'' \<and> op_job o' = ''j''"
    by (simp add: sample_schedule_db_def)
  from admits_idle_pairs [OF sample_sched_ok sample_clock run, unfolded job ts] obtain rows where
    rows: "od_ops (sb_operations d') = od_ops (sb_operations sample_schedule_db) @ rows"
      "\<forall>row \<in> set rows. op_repository row \<in> {''r'', ''s''} \<and> op_job row = ''j'' \<and> op_kind row = ''backup'' \<and>
        op_status row = ''queued'' \<and> (\<forall>o' \<in> set (od_ops (sb_operations sample_schedule_db)).
          op_repository o' = op_repository row \<and> op_status o' \<in> {''queued'', ''running''} \<longrightarrow> op_job o' \<noteq> ''j'')" by blast
  with one two obtain row where row: "rows = [row]" by (cases rows) auto
  with rows(2) other have "op_repository row = ''r''" by fastforce
  with rows row busy show ?thesis by (intro exI conjI) (rule s, auto simp: queued_for_def)
qed

lemma sample_admitted_ok:
  assumes "sample_admitted = Inr d"
  shows "sched_ok sample_schedule_env d"
proof -
  obtain rs d' where run: "coordinate_scheduled sample_schedule_env (\<lambda>r. CHR ''n'' # r) ''g'' False sample_due sample_schedule_db = Inr (rs, d')"
    and s: "sample_admitted = Inr d'" by (rule sample_result)
  have "d' = d" using s assms by (metis sum.inject(2))
  with coordinate_ok(1) [OF run sample_sched_ok sample_clock] show ?thesis by blast
qed

text \<open>The other backup is interrupted, then the vault of the new one is found to be away.\<close>

definition sample_interrupted :: "schedule_db result" where
  "sample_interrupted = (case sample_admitted of Inl x \<Rightarrow> Inl x
     | Inr d \<Rightarrow> interrupt_queued_backups sample_schedule_env [''0''] 3 d)"

definition sample_away :: "schedule_db result" where
  "sample_away = (case sample_interrupted of Inl x \<Rightarrow> Inl x
     | Inr d \<Rightarrow> restore_pre_native sample_schedule_env ''nr'' ''missing'' 4 False d)"

lemma sample_away_runs: "\<not> isl sample_away" by code_simp

lemma runs_given_back_witness:
  "\<exists>d d'. sample_admitted = Inr d \<and> sample_away = Inr d' \<and> owed d' = owed d \<and>
     map pt_missed (sb_pairs d) = [0, 1] \<and> map pt_missed (sb_pairs d') = [1, 1]"
proof -
  obtain d d1 d2 where d: "sample_admitted = Inr d" "interrupt_queued_backups sample_schedule_env [''0''] 3 d = Inr d1"
    "restore_pre_native sample_schedule_env ''nr'' ''missing'' 4 False d1 = Inr d2" "sample_away = Inr d2"
  proof -
    obtain d where d: "sample_admitted = Inr d" using sum.collapse(2) [OF sample_admission_runs] by metis
    have i: "sample_interrupted = interrupt_queued_backups sample_schedule_env [''0''] 3 d"
      unfolding sample_interrupted_def d sum.case ..
    have "\<not> isl sample_interrupted" by code_simp
    from sum.collapse(2) [OF this] obtain d1 where d1: "sample_interrupted = Inr d1" by metis
    have a: "sample_away = restore_pre_native sample_schedule_env ''nr'' ''missing'' 4 False d1"
      unfolding sample_away_def d1 sum.case ..
    obtain d2 where d2: "sample_away = Inr d2" using sum.collapse(2) [OF sample_away_runs] by metis
    show thesis by (rule that [OF d i [symmetric, unfolded d1] a [symmetric, unfolded d2] d2])
  qed
  have "(case sample_admitted of Inl _ \<Rightarrow> [] | Inr d \<Rightarrow> map pt_missed (sb_pairs d)) = [0, 1]" by code_simp
  then have before: "map pt_missed (sb_pairs d) = [0, 1]" unfolding d(1) sum.case .
  have "(case sample_away of Inl _ \<Rightarrow> [] | Inr d \<Rightarrow> map pt_missed (sb_pairs d)) = [1, 1]" by code_simp
  then have after: "map pt_missed (sb_pairs d2) = [1, 1]" unfolding d(4) sum.case .
  show ?thesis using runs_given_back [OF sample_admitted_ok [OF d(1)] sample_clock d(2,3)] before after
    by (intro exI conjI) (rule d(1), rule d(4), simp_all)
qed

lemma used_run_final_witness:
  "\<exists>d d'. sample_admitted = Inr d \<and> consume_occurrence sample_schedule_env ''nr'' d = Inr d' \<and>
     owed d (''j'', ''r'') = 1 \<and> owed d' (''j'', ''r'') = 0 \<and> owed d' (''j'', ''s'') = owed d (''j'', ''s'')"
proof -
  obtain d where d: "sample_admitted = Inr d" using sum.collapse(2) [OF sample_admission_runs] by metis
  have "(case sample_admitted of Inl _ \<Rightarrow> None | Inr d \<Rightarrow> map_option (\<lambda>r. (rs_state r, rs_job r, rs_repository r, rs_missed r))
    (find_restoration ''nr'' d)) = Some (''eligible'', ''j'', ''r'', 1)" by code_simp
  then obtain r where r: "find_restoration ''nr'' d = Some r" "rs_state r = ''eligible''" "rs_job r = ''j''"
    "rs_repository r = ''r''" "rs_missed r = 1" unfolding d sum.case by auto
  have "(case sample_admitted of Inl _ \<Rightarrow> 0 | Inr d \<Rightarrow> owed d (''j'', ''r'')) = 1" by code_simp
  then have one: "owed d (''j'', ''r'') = 1" unfolding d sum.case .
  from used_run_final [OF sample_admitted_ok [OF d] r(1,2), of 1] r(3-5) one obtain d' where
    d': "consume_occurrence sample_schedule_env ''nr'' d = Inr d'" "owed d' = (owed d)((''j'', ''r'') := 0)" by auto
  show ?thesis using one d'(2) by (intro exI conjI) (rule d, rule d'(1), simp_all)
qed

text \<open>An hourly schedule that was missed for a day: twelve steps of two instants lead past now.\<close>

lemma next_run_correct_witness:
  "advance_schedule_after sample_schedule_env ''hourly'' 1 24 = Inr 25 \<and> (24 :: int) < 25"
proof -
  have run: "advance_schedule_after sample_schedule_env ''hourly'' 1 24 = Inr 25" by code_simp
  have "(1 :: int) \<le> 24" "24 - 1 \<le> max64" by (simp_all add: max64_def)
  from next_run_correct [OF this, of "''hourly''" sample_schedule_env] run show ?thesis by auto
qed

end
