(* ===== verification/KopiaReconcile.thy ===== *)
theory KopiaReconcile
  imports KopiaPolicy
begin

text \<open>
  One reconciliation of a Kopia vault's policy (\<open>kopiapolicy/reconciler.go\<close>,
  \<open>reconcileRepositoryUnderLock\<close>) as the steps between its database calls, together with everything that
  may happen between them: job edits, retries, a parked error, a crash of the program and its restart, the
  end of a process that outlived it.  The vault lock admits one reconciliation at a time.  A call of the
  database that fails, or that refuses because the row changed, ends the pass (\<open>give_up\<close>).  A process runs
  under a fence, a lock file that is free only when no process of it is left.  Two behaviours have a switch of
  their own: \<open>reconnects\<close>, a reconnect that finds the fence of an interrupted process, and \<open>lingers\<close>, a call of the
  engine that returns before its processes have ended (the runner of commands waits for the whole process tree).
\<close>

section \<open>The steps of a reconciliation\<close>

text \<open>
  \<open>kept\<close> is set when a failed reading without any drift may leave an already proved policy ready; a pass that
  first had to recover a fence never keeps, as a ready row has none (\<open>row_ok\<close>).
\<close>

datatype policy_pc =
    PolicyIdle
  | Derived (pc_digest: string) (reassurance: bool)
  | NoRow (pc_digest: string) (reassurance: bool)
  | Checking (pc_digest: string) (pc_fence: string) (pc_proof: string)
  | Resetting (pc_digest: string) (pc_fence: string) (pc_proof: string)
  | Sweeping (pc_digest: string) (pc_fence: string) (pc_proof: string)
  | Starting (pc_digest: string) (kept: bool)
  | Applying (pc_digest: string) (kept: bool) (pc_fence: string) (pc_proof: string)
  | Finishing (pc_digest: string) (kept: bool) (pc_fence: string) (pc_proof: string)
      (pc_cause: "string option") (mutated: bool) (drift: bool)
  | Closing (pc_digest: string) (pc_fence: string) (pc_proof: string)

text \<open>What the row that was read asks for; a row of another digest, or one without the proof of its process, ends the pass.\<close>

definition after_read :: "string \<Rightarrow> bool \<Rightarrow> policy_row \<Rightarrow> policy_pc" where
  "after_read digest reassuring r =
     (if kp_desired r \<noteq> digest then PolicyIdle
      else if kp_fence r \<noteq> [] \<or> kp_state r = ''applying'' then
        (if kp_fence r = [] \<or> kp_proof r = [] then PolicyIdle else Checking digest (kp_fence r) (kp_proof r))
      else Starting digest (reassuring \<and> kp_state r = ''ready'' \<and> kp_applied r = digest))"

text \<open>The table after a call whose error only ends the pass.\<close>

definition or_same :: "policy_table \<Rightarrow> policy_table result \<Rightarrow> policy_table" where
  "or_same t r = (case r of Inl _ \<Rightarrow> t | Inr t' \<Rightarrow> t')"

text \<open>\<open>py_alive\<close> are the fences of processes that may still run, \<open>py_used\<close> the fences ever made, \<open>py_want\<close> is
  the digest of what the jobs ask for now and \<open>py_proved\<close> the digest the vault was last read to hold,
  forgotten when a command may have changed it since.\<close>

record policy_sys =
  py_table :: policy_table
  py_want :: string
  py_alive :: "string set"
  py_used :: "string set"
  py_proved :: "string option"
  py_pc :: policy_pc

definition native_proof :: "string \<Rightarrow> string option \<Rightarrow> bool \<Rightarrow> bool \<Rightarrow> string option \<Rightarrow> string option" where
  "native_proof digest cause m d before = (if cause = None then Some digest else if m \<or> d then None else before)"

inductive policy_step :: "bool \<Rightarrow> bool \<Rightarrow> string \<Rightarrow> policy_sys \<Rightarrow> policy_sys \<Rightarrow> bool" for reconnects lingers repo where
  derive: "py_pc s = PolicyIdle \<Longrightarrow> policy_step reconnects lingers repo s (s\<lparr>py_pc := Derived (py_want s) reassuring\<rparr>)"
| no_row: "py_pc s = Derived dg re \<Longrightarrow> py_table s repo = None \<Longrightarrow>
    policy_step reconnects lingers repo s (s\<lparr>py_pc := NoRow dg re\<rparr>)"
| initialize: "py_pc s = NoRow dg re \<Longrightarrow> initialize_policy_state repo dg False now (py_table s) = Inr t \<Longrightarrow>
    policy_step reconnects lingers repo s (s\<lparr>py_table := t, py_pc := Derived dg re\<rparr>)"
| read_row: "py_pc s = Derived dg re \<Longrightarrow> py_table s repo = Some r \<Longrightarrow>
    policy_step reconnects lingers repo s (s\<lparr>py_pc := after_read dg re r\<rparr>)"
| give_up: "\<not> is_Applying (py_pc s) \<Longrightarrow> policy_step reconnects lingers repo s (s\<lparr>py_pc := PolicyIdle\<rparr>)"
| held: "py_pc s = Checking dg f p \<Longrightarrow> policy_step reconnects lingers repo s (s\<lparr>py_pc := PolicyIdle,
    py_table := or_same (py_table s) (mark_error_keeping_fence repo dg f (Some fence_held_text) (py_table s))\<rparr>)"
| inactive: "py_pc s = Checking dg f p \<Longrightarrow> f \<notin> py_alive s \<Longrightarrow> policy_step reconnects lingers repo s (s\<lparr>py_pc := Resetting dg f p\<rparr>)"
| reset: "py_pc s = Resetting dg f p \<Longrightarrow> reset_interrupted repo dg f (py_table s) = Inr t \<Longrightarrow>
    policy_step reconnects lingers repo s (s\<lparr>py_pc := Sweeping dg f p, py_table := t\<rparr>)"
| swept: "py_pc s = Sweeping dg f p \<Longrightarrow> policy_step reconnects lingers repo s (s\<lparr>py_pc := Starting dg False\<rparr>)"
| not_swept: "py_pc s = Sweeping dg f p \<Longrightarrow> policy_step reconnects lingers repo s (s\<lparr>py_pc := PolicyIdle,
    py_table := or_same (py_table s) (mark_fence_cleanup_error repo dg f p (Some text) (py_table s))\<rparr>)"
| begin_applying: "py_pc s = Starting dg k \<Longrightarrow> f \<noteq> [] \<Longrightarrow> p \<noteq> [] \<Longrightarrow> f \<notin> py_used s \<Longrightarrow>
    begin_application repo dg f p (py_table s) = Inr t \<Longrightarrow>
    policy_step reconnects lingers repo s (s\<lparr>py_pc := Applying dg k f p, py_table := t,
      py_used := insert f (py_used s), py_alive := insert f (py_alive s)\<rparr>)"
| begin_refused: "py_pc s = Starting dg k \<Longrightarrow> f \<noteq> [] \<Longrightarrow> begin_application repo dg f p (py_table s) = Inl x \<Longrightarrow>
    policy_step reconnects lingers repo s (s\<lparr>py_pc := PolicyIdle, py_used := insert f (py_used s)\<rparr>)"
| without_native: "py_pc s = Applying dg k f p \<Longrightarrow>
    policy_step reconnects lingers repo s (s\<lparr>py_pc := Finishing dg False f p (Some text) False False, py_alive := py_alive s - {f}\<rparr>)"
| native: "py_pc s = Applying dg k f p \<Longrightarrow> left \<longrightarrow> lingers \<Longrightarrow>
    policy_step reconnects lingers repo s (s\<lparr>py_pc := Finishing dg k f p cause m d,
      py_alive := (if left then py_alive s else py_alive s - {f}),
      py_proved := native_proof dg cause m d (py_proved s)\<rparr>)"
| care_changed: "py_pc s = Finishing dg k f p None m d \<Longrightarrow>
    policy_step reconnects lingers repo s (s\<lparr>py_pc := Finishing dg False f p (Some text) m d\<rparr>)"
| finish: "py_pc s = Finishing dg k f p cause m d \<Longrightarrow>
    finish_application repo dg cause k m d now (py_table s) = Inr t \<Longrightarrow>
    policy_step reconnects lingers repo s (s\<lparr>py_pc := Closing dg f p, py_table := t\<rparr>)"
| not_removed: "py_pc s = Closing dg f p \<Longrightarrow> policy_step reconnects lingers repo s (s\<lparr>py_pc := PolicyIdle,
    py_table := or_same (py_table s) (mark_fence_cleanup_error repo dg f p (Some text) (py_table s))\<rparr>)"
| edit: "refresh_policy (\<lambda>_. Some ''kopia'') (\<lambda>_. Inr dg) repo (py_table s) = Inr (changed, t) \<Longrightarrow>
    policy_step reconnects lingers repo s (s\<lparr>py_table := t, py_want := dg\<rparr>)"
| close_admission: "py_pc s = PolicyIdle \<Longrightarrow> mark_verification_required repo (py_table s) = Inr t \<Longrightarrow>
    policy_step reconnects lingers repo s (s\<lparr>py_table := t, py_proved := None\<rparr>)"
| takeover: "reopen_after_takeover repo (py_table s) = Inr t \<Longrightarrow> policy_step reconnects lingers repo s (s\<lparr>py_table := t\<rparr>)"
| retry: "retry_policy (\<lambda>_. Some ''kopia'') repo (py_table s) = Inr t \<Longrightarrow> policy_step reconnects lingers repo s (s\<lparr>py_table := t\<rparr>)"
| park: "mark_error_keeping_fence repo dg f cause (py_table s) = Inr t \<Longrightarrow> policy_step reconnects lingers repo s (s\<lparr>py_table := t\<rparr>)"
| park_dirty: "mark_reconciliation_error repo dg cause now (py_table s) = Inr t \<Longrightarrow>
    policy_step reconnects lingers repo s (s\<lparr>py_table := t\<rparr>)"
| restart: "mark_all_verification_required [repo] (\<lambda>_. Inr (py_want s)) (py_table s) = Inr (ids, t) \<Longrightarrow>
    policy_step reconnects lingers repo s (s\<lparr>py_pc := PolicyIdle, py_table := t, py_proved := None\<rparr>)"
| process_ends: "policy_step reconnects lingers repo s (s\<lparr>py_alive := py_alive s - {f}\<rparr>)"
| reconnect: "reconnects \<or> map_option kp_fence (py_table s repo) = Some [] \<Longrightarrow> py_pc s = PolicyIdle \<Longrightarrow> initialize_policy_state repo dg False now (py_table s) = Inr t \<Longrightarrow>
    policy_step reconnects lingers repo s (s\<lparr>py_table := t, py_want := dg\<rparr>)"

inductive_cases policy_stepE: "policy_step reconnects lingers repo s s'"

section \<open>Rows\<close>

definition row_ok :: "policy_row \<Rightarrow> bool" where
  "row_ok r \<longleftrightarrow> kp_state r \<in> {''dirty'', ''applying'', ''ready'', ''error''} \<and> (kp_fence r = [] \<longleftrightarrow> kp_proof r = []) \<and>
     (kp_state r = ''applying'' \<longrightarrow> kp_fence r \<noteq> []) \<and> (kp_state r = ''dirty'' \<longrightarrow> kp_fence r = []) \<and>
     (kp_state r = ''ready'' \<longrightarrow> kp_fence r = [] \<and> kp_applied r = kp_desired r)"

text \<open>What every change of the row keeps: its digest, or the digest an edit gives it; the fence stays or is dropped or set as said.\<close>

lemma change_policy_cases:
  assumes "change_policy repo ok f x t = Inr t'"
  obtains r where "t repo = Some r" "ok r" "t' = t(repo \<mapsto> f r)"
  using assms by (auto simp: change_policy_def split: option.splits if_splits)

definition keeps_row :: "policy_row \<Rightarrow> policy_row \<Rightarrow> bool" where
  "keeps_row r r' \<longleftrightarrow> row_ok r' \<and> kp_fence r' = kp_fence r \<and> kp_desired r' = kp_desired r \<and>
     (kp_state r' = ''ready'' \<longrightarrow> kp_state r = ''ready'')"

text \<open>The changes others make between the steps leave the fence and never make a policy ready.\<close>

definition outside_change :: "string \<Rightarrow> policy_table \<Rightarrow> policy_table \<Rightarrow> bool" where
  "outside_change repo t t' \<longleftrightarrow> (\<exists>r r'. t repo = Some r \<and> t' repo = Some r' \<and> (row_ok r \<longrightarrow> keeps_row r r'))"

lemma outside_changes:
  "mark_verification_required repo t = Inr t' \<Longrightarrow> outside_change repo t t' \<and> (\<forall>r. t' repo = Some r \<longrightarrow> kp_state r \<noteq> ''ready'')"
  "reopen_after_takeover repo t = Inr t' \<Longrightarrow> outside_change repo t t'"
  "retry_policy (\<lambda>_. Some ''kopia'') repo t = Inr t' \<Longrightarrow> outside_change repo t t'"
  "mark_error_keeping_fence repo dg f cause t = Inr t' \<Longrightarrow> outside_change repo t t'"
  "mark_reconciliation_error repo dg cause now t = Inr t' \<Longrightarrow> outside_change repo t t'"
  by (auto simp: outside_change_def mark_verification_required_def reopen_after_takeover_def retry_policy_def
      mark_error_keeping_fence_def mark_reconciliation_error_def keeps_row_def row_ok_def
      elim!: change_policy_cases split: option.splits if_splits)

section \<open>Invariant\<close>

text \<open>What each place of a reconciliation relies on, with the row and the fences of living processes.\<close>

fun pc_ok :: "policy_pc \<Rightarrow> policy_row option \<Rightarrow> string set \<Rightarrow> string set \<Rightarrow> string option \<Rightarrow> bool" where
  "pc_ok PolicyIdle r used alive proved \<longleftrightarrow> True"
| "pc_ok (Derived dg re) r used alive proved \<longleftrightarrow> True"
| "pc_ok (NoRow dg re) r used alive proved \<longleftrightarrow> False"
| "pc_ok (Checking dg f p) r used alive proved \<longleftrightarrow> f \<in> used \<and> p \<noteq> [] \<and> map_option kp_fence r = Some f"
| "pc_ok (Resetting dg f p) r used alive proved \<longleftrightarrow> f \<in> used \<and> p \<noteq> [] \<and> map_option kp_fence r = Some f \<and> alive = {}"
| "pc_ok (Sweeping dg f p) r used alive proved \<longleftrightarrow> f \<in> used \<and> p \<noteq> [] \<and> map_option kp_fence r = Some [] \<and> alive = {}"
| "pc_ok (Starting dg k) r used alive proved \<longleftrightarrow> map_option kp_fence r = Some [] \<and> alive = {} \<and> (k \<longrightarrow> proved = Some dg)"
| "pc_ok (Applying dg k f p) r used alive proved \<longleftrightarrow> f \<in> used \<and> p \<noteq> [] \<and> map_option kp_fence r = Some f \<and>
     (k \<longrightarrow> proved = Some dg)"
| "pc_ok (Finishing dg k f p cause m d) r used alive proved \<longleftrightarrow> f \<in> used \<and> p \<noteq> [] \<and> map_option kp_fence r = Some f \<and> alive = {} \<and>
     (cause = None \<or> k \<and> \<not> m \<and> \<not> d \<longrightarrow> proved = Some dg)"
| "pc_ok (Closing dg f p) r used alive proved \<longleftrightarrow> f \<in> used \<and> p \<noteq> [] \<and> map_option kp_fence r = Some [] \<and> alive = {}"

definition policy_inv :: "string \<Rightarrow> policy_sys \<Rightarrow> bool" where
  "policy_inv repo s \<longleftrightarrow>
     (\<forall>r. py_table s repo = Some r \<longrightarrow> row_ok r \<and> kp_desired r = py_want s \<and>
        (kp_state r = ''ready'' \<longrightarrow> py_proved s = Some (kp_desired r)) \<and> (kp_fence r \<noteq> [] \<longrightarrow> kp_fence r \<in> py_used s)) \<and>
     py_alive s \<subseteq> py_used s \<and> (\<forall>f \<in> py_alive s. map_option kp_fence (py_table s repo) = Some f) \<and> [] \<notin> py_used s \<and>
     py_table s repo \<noteq> None \<and>
     pc_ok (py_pc s) (py_table s repo) (py_used s) (py_alive s) (py_proved s)"

lemma policy_invI:
  assumes "\<And>r. py_table s repo = Some r \<Longrightarrow> row_ok r \<and> kp_desired r = py_want s \<and>
        (kp_state r = ''ready'' \<longrightarrow> py_proved s = Some (kp_desired r)) \<and> (kp_fence r \<noteq> [] \<longrightarrow> kp_fence r \<in> py_used s)"
    and "py_alive s \<subseteq> py_used s" and "\<And>f. f \<in> py_alive s \<Longrightarrow> map_option kp_fence (py_table s repo) = Some f"
    and "[] \<notin> py_used s" and "py_table s repo \<noteq> None"
    and "pc_ok (py_pc s) (py_table s repo) (py_used s) (py_alive s) (py_proved s)"
  shows "policy_inv repo s"
  using assms by (simp add: policy_inv_def)

text \<open>A change of the row that keeps its fence and its digest, or gives it the digest the jobs want.\<close>

lemma inv_row:
  assumes inv: "policy_inv repo s" and r: "py_table s repo = Some r" "t repo = Some r'"
    and ok: "row_ok r'" "kp_fence r' = kp_fence r" "kp_desired r' = w" "kp_state r' = ''ready'' \<longrightarrow> kp_state r = ''ready'' \<and> w = kp_desired r"
  shows "policy_inv repo (s\<lparr>py_table := t, py_want := w\<rparr>)"
proof (rule policy_invI)
  fix x
  assume "py_table (s\<lparr>py_table := t, py_want := w\<rparr>) repo = Some x"
  then have x: "x = r'" using r by simp
  show "row_ok x \<and> kp_desired x = py_want (s\<lparr>py_table := t, py_want := w\<rparr>) \<and>
      (kp_state x = ''ready'' \<longrightarrow> py_proved (s\<lparr>py_table := t, py_want := w\<rparr>) = Some (kp_desired x)) \<and>
      (kp_fence x \<noteq> [] \<longrightarrow> kp_fence x \<in> py_used (s\<lparr>py_table := t, py_want := w\<rparr>))"
    using inv ok r by (simp add: policy_inv_def x)
next
  have "pc_ok (py_pc s) (py_table s repo) (py_used s) (py_alive s) (py_proved s)" using inv by (simp add: policy_inv_def)
  then have "pc_ok (py_pc s) (t repo) (py_used s) (py_alive s) (py_proved s)" by (cases "py_pc s") (use r ok in simp_all)
  then show "pc_ok (py_pc (s\<lparr>py_table := t, py_want := w\<rparr>)) (py_table (s\<lparr>py_table := t, py_want := w\<rparr>) repo)
      (py_used (s\<lparr>py_table := t, py_want := w\<rparr>)) (py_alive (s\<lparr>py_table := t, py_want := w\<rparr>)) (py_proved (s\<lparr>py_table := t, py_want := w\<rparr>))" by simp
qed (use inv r ok in \<open>auto simp: policy_inv_def\<close>)

lemma new_policy_ok: "row_ok (new_policy dg)" "kp_fence (new_policy dg) = []" "kp_desired (new_policy dg) = dg"
    "kp_state (new_policy dg) \<noteq> ''ready''"
  by (simp_all add: new_policy_def row_ok_def)

lemma reopen_policy_ok:
  "row_ok r \<Longrightarrow> row_ok (reopen_policy dg r) \<and> kp_fence (reopen_policy dg r) = kp_fence r \<and>
     kp_desired (reopen_policy dg r) = dg \<and> kp_state (reopen_policy dg r) \<noteq> ''ready''"
  by (auto simp: reopen_policy_def row_ok_def)

lemma inv_edit:
  assumes "policy_inv repo s" and "refresh_policy (\<lambda>_. Some ''kopia'') (\<lambda>_. Inr dg) repo (py_table s) = Inr (c, t)"
  shows "policy_inv repo (s\<lparr>py_table := t, py_want := dg\<rparr>)"
proof (cases "py_table s repo")
  case None
  with assms(1) show ?thesis by (simp add: policy_inv_def)
next
  case (Some r)
  then have r: "row_ok r" using assms(1) by (simp add: policy_inv_def)
  show ?thesis
  proof (cases "kp_desired r = dg")
    case True
    with assms(2) Some have "t = py_table s" by (simp add: refresh_policy_def)
    then show ?thesis using inv_row [OF assms(1) Some, of "py_table s" r dg] Some r True by simp
  next
    case False
    with assms(2) Some have t: "t repo = Some (reopen_policy dg r)" by (auto simp: refresh_policy_def)
    show ?thesis by (rule inv_row [where t = t and repo = repo, OF assms(1) Some t]) (use reopen_policy_ok [OF r] in auto)
  qed
qed

lemma inv_outside:
  assumes "policy_inv repo s" and "outside_change repo (py_table s) t"
  shows "policy_inv repo (s\<lparr>py_table := t\<rparr>)"
proof -
  from assms(2) obtain r r' where r: "py_table s repo = Some r" "t repo = Some r'" "row_ok r \<longrightarrow> keeps_row r r'"
    by (auto simp: outside_change_def)
  have w: "kp_desired r = py_want s" "row_ok r" using assms(1) r(1) by (simp_all add: policy_inv_def)
  have "policy_inv repo (s\<lparr>py_table := t, py_want := py_want s\<rparr>)"
    by (rule inv_row [where t = t and repo = repo, OF assms(1) r(1,2)]) (use r(3) w in \<open>auto simp: keeps_row_def\<close>)
  then show ?thesis by simp
qed

lemma inv_forget:
  assumes "policy_inv repo s" and "\<forall>r. py_table s repo = Some r \<longrightarrow> kp_state r \<noteq> ''ready''"
  shows "policy_inv repo (s\<lparr>py_pc := PolicyIdle, py_proved := None\<rparr>)"
  using assms by (simp add: policy_inv_def)

lemma policy_updates: "s\<lparr>py_pc := x, py_table := t\<rparr> = s\<lparr>py_table := t, py_pc := x\<rparr>"
  "s\<lparr>py_table := t, py_proved := v\<rparr> = s\<lparr>py_proved := v, py_table := t\<rparr>"
  by (cases s, simp)+

lemma or_same_cases: "or_same t (Inl x) = t" "or_same t (Inr t') = t'"
  by (simp_all add: or_same_def)

text \<open>The pass ends: nothing is relied on any more.\<close>

lemma inv_idle: "policy_inv repo s \<Longrightarrow> policy_inv repo (s\<lparr>py_pc := PolicyIdle\<rparr>)"
  by (simp add: policy_inv_def)

lemma inv_sets_fence:
  assumes inv: "policy_inv repo s" and m: "mark_fence_cleanup_error repo dg f p (Some text) (py_table s) = Inr t"
    and f: "f \<in> py_used s" "p \<noteq> []" "py_alive s = {}"
  shows "policy_inv repo (s\<lparr>py_pc := PolicyIdle, py_table := t\<rparr>)"
proof -
  from m obtain r where r: "py_table s repo = Some r" "kp_desired r = dg"
    "t = (py_table s)(repo \<mapsto> r\<lparr>kp_state := ''error'', kp_applied := [],
      kp_error := ''Native process fence cleanup failed: '' @ text, kp_fence := f, kp_proof := p\<rparr>)"
    by (auto simp: mark_fence_cleanup_error_def elim!: change_policy_cases split: if_splits)
  have "f \<noteq> []" using inv f(1) by (auto simp: policy_inv_def)
  with inv r f show ?thesis by (simp add: policy_inv_def row_ok_def)
qed

lemma inv_restart:
  assumes inv: "policy_inv repo s"
    and m: "mark_all_verification_required [repo] (\<lambda>_. Inr (py_want s)) (py_table s) = Inr (ids, t)"
  shows "policy_inv repo (s\<lparr>py_pc := PolicyIdle, py_table := t, py_proved := None\<rparr>)"
proof (cases "py_table s repo")
  case None
  with inv show ?thesis by (simp add: policy_inv_def)
next
  case (Some r)
  with m have t: "t repo = Some (reopen_policy (py_want s) r)" by (auto simp: mark_all_verification_required_def)
  have r: "row_ok r" using inv Some by (simp add: policy_inv_def)
  have "policy_inv repo (s\<lparr>py_table := t, py_want := py_want s\<rparr>)"
    by (rule inv_row [where t = t and repo = repo, OF inv Some t]) (use reopen_policy_ok [OF r] in auto)
  from inv_forget [OF this] reopen_policy_ok [OF r] t show ?thesis by (simp add: policy_updates(1))
qed

lemma policy_inv_step:
  assumes inv: "policy_inv repo s" and step: "policy_step False False repo s s'"
  shows "policy_inv repo s'"
  using step
proof (cases rule: policy_step.cases)
  case (derive reassuring)
  then show ?thesis using inv by (simp add: policy_inv_def)
next
  case (no_row dg re)
  with inv show ?thesis by (simp add: policy_inv_def)
next
  case (initialize dg re now t)
  with inv show ?thesis by (simp add: policy_inv_def)
next
  case (read_row dg re r)
  with inv show ?thesis by (auto simp: policy_inv_def after_read_def row_ok_def)
next
  case give_up
  with inv_idle [OF inv] show ?thesis by simp
next
  case (held dg f p)
  show ?thesis
  proof (cases "mark_error_keeping_fence repo dg f (Some fence_held_text) (py_table s)")
    case (Inl x)
    with inv_idle [OF inv] held show ?thesis by (simp add: or_same_cases)
  next
    case (Inr t)
    from inv_idle [OF inv_outside [OF inv outside_changes(4) [OF Inr]]] show ?thesis using held Inr by (simp add: or_same_cases policy_updates(1))
  qed
next
  case (inactive dg f p)
  then have "py_alive s = {}" using inv by (auto simp: policy_inv_def)
  with inactive inv show ?thesis by (auto simp: policy_inv_def)
next
  case (reset dg f p t)
  then obtain r where "py_table s repo = Some r" "kp_desired r = dg"
    "t = (py_table s)(repo \<mapsto> r\<lparr>kp_state := ''dirty'', kp_error := interrupted_text, kp_fence := [], kp_proof := []\<rparr>)"
    by (auto simp: reset_interrupted_def elim!: change_policy_cases)
  with reset inv show ?thesis by (auto simp: policy_inv_def row_ok_def)
next
  case (swept dg f p)
  with inv show ?thesis by (auto simp: policy_inv_def)
next
  case (not_swept dg f p msg)
  then have f: "f \<in> py_used s" "p \<noteq> []" "py_alive s = {}" using inv by (simp_all add: policy_inv_def)
  show ?thesis
  proof (cases "mark_fence_cleanup_error repo dg f p (Some msg) (py_table s)")
    case (Inl x)
    with inv_idle [OF inv] not_swept show ?thesis by (simp add: or_same_cases)
  next
    case (Inr t)
    with inv_sets_fence [OF inv Inr f] not_swept show ?thesis by (simp add: or_same_cases)
  qed
next
  case (begin_applying dg k f p t)
  then obtain r where "py_table s repo = Some r" "kp_desired r = dg"
    "t = (py_table s)(repo \<mapsto> r\<lparr>kp_state := ''applying'', kp_error := [], kp_fence := f, kp_proof := p\<rparr>)"
    by (auto simp: begin_application_def elim!: change_policy_cases)
  with begin_applying inv show ?thesis by (auto simp: policy_inv_def row_ok_def)
next
  case (begin_refused dg k f p x)
  from inv_idle [OF inv] begin_refused show ?thesis by (auto simp: policy_inv_def)
next
  case (without_native dg k f p msg)
  with inv show ?thesis by (auto simp: policy_inv_def)
next
  case (native dg k f p left cause m d)
  then have row: "map_option kp_fence (py_table s repo) = Some f" "f \<in> py_used s" "p \<noteq> []" "k \<longrightarrow> py_proved s = Some dg"
    using inv by (simp_all add: policy_inv_def)
  then have "\<forall>r. py_table s repo = Some r \<longrightarrow> kp_state r \<noteq> ''ready''"
    using inv by (auto simp: policy_inv_def row_ok_def)
  with row inv native show ?thesis by (auto simp: policy_inv_def native_proof_def)
next
  case (care_changed dg k f p m d msg)
  with inv show ?thesis by (auto simp: policy_inv_def)
next
  case (finish dg k f p cause m d now t)
  then obtain r where "py_table s repo = Some r" "kp_desired r = dg"
    "t = (py_table s)(repo \<mapsto> r\<lparr>kp_state := (if cause = None \<or> k \<and> \<not> m \<and> \<not> d then ''ready'' else ''error''),
      kp_applied := (if cause = None \<or> k \<and> \<not> m \<and> \<not> d then dg else []),
      kp_error := (if cause = None \<or> k \<and> \<not> m \<and> \<not> d then [] else the cause), kp_reconciled := now, kp_fence := [], kp_proof := []\<rparr>)"
    by (auto simp: finish_application_def Let_def elim!: change_policy_cases)
  with finish inv show ?thesis by (auto simp: policy_inv_def row_ok_def)
next
  case (not_removed dg f p msg)
  then have f: "f \<in> py_used s" "p \<noteq> []" "py_alive s = {}" using inv by (simp_all add: policy_inv_def)
  show ?thesis
  proof (cases "mark_fence_cleanup_error repo dg f p (Some msg) (py_table s)")
    case (Inl x)
    with inv_idle [OF inv] not_removed show ?thesis by (simp add: or_same_cases)
  next
    case (Inr t)
    with inv_sets_fence [OF inv Inr f] not_removed show ?thesis by (simp add: or_same_cases)
  qed
next
  case (edit dg c t)
  with inv_edit [OF inv edit(2)] show ?thesis by simp
next
  case (close_admission t)
  from inv_forget [OF inv_outside [OF inv conjunct1 [OF outside_changes(1) [OF close_admission(3)]]]]
    outside_changes(1) [OF close_admission(3)] close_admission(1,2) show ?thesis by (cases s) simp
next
  case (takeover t)
  with inv_outside [OF inv outside_changes(2) [OF takeover(2)]] show ?thesis by simp
next
  case (retry t)
  with inv_outside [OF inv outside_changes(3) [OF retry(2)]] show ?thesis by simp
next
  case (park dg f cause t)
  with inv_outside [OF inv outside_changes(4) [OF park(2)]] show ?thesis by simp
next
  case (park_dirty dg cause now t)
  with inv_outside [OF inv outside_changes(5) [OF park_dirty(2)]] show ?thesis by simp
next
  case (restart ids t)
  from inv_restart [OF inv restart(2)] restart(1) show ?thesis by simp
next
  case (process_ends f)
  have "pc_ok (py_pc s) (py_table s repo) (py_used s) (py_alive s) (py_proved s)"
    using inv unfolding policy_inv_def by blast
  then have "pc_ok (py_pc s) (py_table s repo) (py_used s) (py_alive s - {f}) (py_proved s)"
    by (cases "py_pc s") auto
  with inv process_ends show ?thesis by (auto simp: policy_inv_def)
next
  case (reconnect dg now t)
  from reconnect(2) obtain r where r: "py_table s repo = Some r" "kp_fence r = []" by auto
  from reconnect(4) have t: "t repo = Some \<lparr>kp_state = ''dirty'', kp_desired = dg, kp_applied = [], kp_error = [],
      kp_reconciled = now, kp_fence = [], kp_proof = []\<rparr>"
    by (auto simp: initialize_policy_state_def split: if_splits)
  have "policy_inv repo (s\<lparr>py_table := t, py_want := dg\<rparr>)"
    by (rule inv_row [where t = t and repo = repo, OF inv r(1) t]) (use r(2) in \<open>simp_all add: row_ok_def\<close>)
  with reconnect(1) show ?thesis by simp
qed

text \<open>The transaction that saves a Kopia vault also saves the row of its policy, and only the vault's deletion removes it.\<close>

definition policy_init :: "string \<Rightarrow> policy_sys \<Rightarrow> bool" where
  "policy_init repo s \<longleftrightarrow> (\<exists>now. py_table s repo = Some ((new_policy (py_want s))\<lparr>kp_reconciled := now\<rparr>)) \<and>
     py_alive s = {} \<and> [] \<notin> py_used s \<and> py_pc s = PolicyIdle"

interpretation policy: step_system "policy_init repo" "policy_step False False repo" "policy_inv repo" for repo
proof
  show "policy_inv repo s" if "policy_init repo s" for s using that by (auto simp: policy_init_def policy_inv_def row_ok_def new_policy_def)
qed (rule policy_inv_step)

lemma policy_invD:
  assumes "policy_inv repo s"
  shows "f \<in> py_alive s \<Longrightarrow> map_option kp_fence (py_table s repo) = Some f \<and> f \<noteq> []"
    and "py_pc s = Applying dg k f p \<Longrightarrow> map_option kp_fence (py_table s repo) = Some f \<and> f \<noteq> []"
    and "py_table s repo = Some r \<Longrightarrow> row_ok r \<and> kp_desired r = py_want s \<and>
      (kp_state r = ''ready'' \<longrightarrow> py_proved s = Some (kp_desired r))"
  using assms by (auto simp: policy_inv_def)

section \<open>Properties\<close>

text \<open>
  C18. A backup is admitted to a Kopia vault only while the policy its present jobs ask for is the one the
  vault was last read to hold, with no later command that could have changed it, and while no process
  that applies a policy may be running, however edits, failures, crashes and restarts interleave.  This holds
  as long as no reconnect of the vault finds the fence of an interrupted process (\<open>reconnects\<close>), and given
  that a call of the engine returns only after the processes it started have ended (\<open>lingers\<close>).  The row of the policy was saved with the vault (\<open>policy_init\<close>).
\<close>

theorem ready_policy_proved:
  assumes "policy_init repo s0" and "(policy_step False False repo)\<^sup>*\<^sup>* s0 s" and "engines repo = Some ''kopia''"
    and "require_policy_ready engines repo (py_table s) = None"
  shows "py_proved s = Some (py_want s) \<and> py_alive s = {} \<and> \<not> is_Applying (py_pc s)"
proof -
  note inv = policy.inv_reachable [OF assms(1,2)]
  from assms(3,4) obtain r where r: "py_table s repo = Some r" "kp_state r = ''ready''"
    by (auto simp: require_policy_ready_def split: option.splits if_splits)
  with policy_invD(3) [OF inv] have "kp_fence r = []" "py_proved s = Some (py_want s)" by (auto simp: row_ok_def)
  with r policy_invD(1,2) [OF inv] show ?thesis by (cases "py_pc s") fastforce+
qed

text \<open>
  C19. Under the same conditions a process that applies a policy is only started when no earlier one of the vault may
  still be running, also one that outlived a crash of the program, and its fence is saved before.
\<close>

theorem policy_process_alone:
  assumes "policy_init repo s0" and "(policy_step False False repo)\<^sup>*\<^sup>* s0 s" and "policy_step False False repo s s'"
    and "f \<in> py_alive s'" and "f \<notin> py_alive s"
  shows "py_alive s = {} \<and> py_alive s' = {f} \<and> (\<exists>r. py_table s' repo = Some r \<and> kp_fence r = f \<and> kp_state r = ''applying'')"
  using assms(3)
proof (cases rule: policy_step.cases)
  case (begin_applying dg k g p t)
  then have none: "py_alive s = {}" using policy.inv_reachable [OF assms(1,2)] by (simp add: policy_inv_def)
  from begin_applying(6) obtain r where "t repo = Some r" "kp_fence r = g" "kp_state r = ''applying''"
    by (auto simp: begin_application_def elim!: change_policy_cases)
  with none begin_applying(1) assms(4) show ?thesis by simp
qed (use assms(4,5) in auto)

section \<open>Example\<close>

definition policy_state :: "policy_pc \<Rightarrow> policy_row \<Rightarrow> string set \<Rightarrow> string set \<Rightarrow> string option \<Rightarrow> policy_sys" where
  "policy_state pc r al us pr = \<lparr>py_table = [''v'' \<mapsto> r], py_want = kp_desired r, py_alive = al, py_used = us, py_proved = pr, py_pc = pc\<rparr>"

abbreviation saved_policy :: "string \<Rightarrow> policy_sys" where
  "saved_policy dg \<equiv> policy_state PolicyIdle (new_policy dg) {} {} None"

lemma saved_policy_init: "policy_init ''v'' (saved_policy dg)"
  by (simp add: policy_init_def policy_state_def new_policy_def)

definition applying_row :: "string \<Rightarrow> string \<Rightarrow> policy_row" where
  "applying_row dg f = (new_policy dg)\<lparr>kp_state := ''applying'', kp_fence := f, kp_proof := ''lock''\<rparr>"

lemma run_one: "policy_step rc li v s t \<Longrightarrow> (policy_step rc li v)\<^sup>*\<^sup>* s t"
  by blast

lemma run_more: "(policy_step rc li v)\<^sup>*\<^sup>* s t \<Longrightarrow> policy_step rc li v t u \<Longrightarrow> (policy_step rc li v)\<^sup>*\<^sup>* s u"
  by (rule rtranclp.rtrancl_into_rtrancl)

lemma run_append: "(policy_step rc li v)\<^sup>*\<^sup>* s t \<Longrightarrow> (policy_step rc li v)\<^sup>*\<^sup>* t u \<Longrightarrow> (policy_step rc li v)\<^sup>*\<^sup>* s u"
  by (rule rtranclp_trans)

text \<open>A pass over a policy that is to be applied, up to its native command.\<close>

lemma applying_reached:
  assumes "f \<noteq> []" and "f \<notin> us"
  shows "(policy_step rc False ''v'')\<^sup>*\<^sup>* (policy_state PolicyIdle (new_policy dg) al us pr)
    (policy_state (Applying dg False f ''lock'') (applying_row dg f) (insert f al) (insert f us) pr)"
proof -
  let ?s = "\<lambda>pc. policy_state pc (new_policy dg) al us pr"
  have 1: "policy_step rc False ''v'' (?s PolicyIdle) (?s (Derived dg False))"
    using derive [where s = "?s PolicyIdle" and reconnects = rc and lingers = False and repo = "''v''" and reassuring = False] by (simp add: policy_state_def new_policy_def)
  have 2: "policy_step rc False ''v'' (?s (Derived dg False)) (?s (Starting dg False))"
    using read_row [where s = "?s (Derived dg False)" and dg = dg and re = False and repo = "''v''" and r = "new_policy dg"
        and reconnects = rc and lingers = False]
    by (simp add: policy_state_def new_policy_def after_read_def)
  have 3: "policy_step rc False ''v'' (?s (Starting dg False))
      (policy_state (Applying dg False f ''lock'') (applying_row dg f) (insert f al) (insert f us) pr)"
    using begin_applying [where s = "?s (Starting dg False)" and dg = dg and k = False and f = f and p = "''lock''" and repo = "''v''"
        and t = "[''v'' \<mapsto> applying_row dg f]" and reconnects = rc and lingers = False] assms
    by (simp add: policy_state_def new_policy_def applying_row_def begin_application_def change_policy_def)
  show ?thesis by (rule run_more [OF run_more [OF run_one [OF 1] 2] 3])
qed

definition ready_row :: policy_row where
  "ready_row = (new_policy ''d'')\<lparr>kp_state := ''ready'', kp_applied := ''d'', kp_reconciled := ''now''\<rparr>"

lemma sample_ready_reached:
  "(policy_step False False ''v'')\<^sup>*\<^sup>* (saved_policy ''d'') (policy_state (Closing ''d'' ''f'' ''lock'') ready_row {} {''f''} (Some ''d''))"
proof -
  let ?a = "policy_state (Applying ''d'' False ''f'' ''lock'') (applying_row ''d'' ''f'') {''f''} {''f''} None"
  let ?b = "policy_state (Finishing ''d'' False ''f'' ''lock'' None True False) (applying_row ''d'' ''f'') {} {''f''} (Some ''d'')"
  have 1: "(policy_step False False ''v'')\<^sup>*\<^sup>* (saved_policy ''d'') ?a"
    by (rule applying_reached) simp_all
  have 2: "policy_step False False ''v'' ?a ?b"
    using native [where s = ?a and dg = "''d''" and k = False and f = "''f''" and p = "''lock''" and left = False
        and lingers = False and reconnects = False and repo = "''v''" and cause = None and m = True and d = False]
    by (simp add: policy_state_def native_proof_def)
  have 3: "policy_step False False ''v'' ?b (policy_state (Closing ''d'' ''f'' ''lock'') ready_row {} {''f''} (Some ''d''))"
    using finish [where s = ?b and dg = "''d''" and k = False and f = "''f''" and p = "''lock''" and cause = None and m = True
        and d = False and repo = "''v''" and now = "''now''" and t = "[''v'' \<mapsto> ready_row]" and reconnects = False and lingers = False]
    by (simp add: policy_state_def finish_application_def change_policy_def applying_row_def ready_row_def new_policy_def)
  show ?thesis by (rule run_more [OF run_more [OF 1 2] 3])
qed

lemma ready_policy_proved_witness:
  "\<exists>s. (policy_step False False ''v'')\<^sup>*\<^sup>* (saved_policy ''d'') s \<and> require_policy_ready (\<lambda>_. Some ''kopia'') ''v'' (py_table s) = None \<and>
     py_proved s = Some ''d'' \<and> py_alive s = {}"
proof -
  let ?s = "policy_state (Closing ''d'' ''f'' ''lock'') ready_row {} {''f''} (Some ''d'')"
  have "require_policy_ready (\<lambda>_. Some ''kopia'') ''v'' (py_table ?s) = None"
    by (simp add: require_policy_ready_def policy_state_def ready_row_def new_policy_def)
  with ready_policy_proved [OF saved_policy_init sample_ready_reached _ this] sample_ready_reached show ?thesis
    by (intro exI [of _ ?s]) (simp add: policy_state_def ready_row_def new_policy_def)
qed

lemma policy_process_alone_witness:
  "\<exists>s s'. (policy_step False False ''v'')\<^sup>*\<^sup>* (saved_policy ''d'') s \<and> policy_step False False ''v'' s s' \<and> py_alive s = {} \<and> py_alive s' = {''f''}"
proof -
  let ?i = "policy_state PolicyIdle (new_policy ''d'') {} {} None"
  let ?s = "policy_state (Starting ''d'' False) (new_policy ''d'') {} {} None"
  let ?a = "policy_state (Applying ''d'' False ''f'' ''lock'') (applying_row ''d'' ''f'') {''f''} {''f''} None"
  let ?d = "policy_state (Derived ''d'' False) (new_policy ''d'') {} {} None"
  have 1: "policy_step False False ''v'' ?i ?d"
    using derive [where s = ?i and reconnects = False and lingers = False and repo = "''v''" and reassuring = False] by (simp add: policy_state_def new_policy_def)
  have 2: "policy_step False False ''v'' ?d ?s"
    using read_row [where s = ?d and dg = "''d''" and re = False and repo = "''v''" and r = "new_policy ''d''"
        and reconnects = False and lingers = False] by (simp add: policy_state_def new_policy_def after_read_def)
  have run: "(policy_step False False ''v'')\<^sup>*\<^sup>* (saved_policy ''d'') ?s"
    by (rule run_more [OF run_one [OF 1] 2])
  have step: "policy_step False False ''v'' ?s ?a"
    using begin_applying [where s = ?s and dg = "''d''" and k = False and f = "''f''" and p = "''lock''" and repo = "''v''"
        and t = "[''v'' \<mapsto> applying_row ''d'' ''f'']" and reconnects = False and lingers = False]
    by (simp add: policy_state_def new_policy_def applying_row_def begin_application_def change_policy_def)
  have "''f'' \<in> py_alive ?a" "''f'' \<notin> py_alive ?s" by (simp_all add: policy_state_def)
  note alone = policy_process_alone [OF saved_policy_init run step this]
  show ?thesis by (intro exI conjI) (rule run, rule step, simp_all add: alone)
qed

text \<open>A reconnect of the saved vault rewrites the row and with it forgets the process of an interrupted application:
  the next pass starts a second one beside it.\<close>

lemma reconnect_forgets_process:
  "\<exists>s. (policy_step True False ''v'')\<^sup>*\<^sup>* (saved_policy (replicate 64 (CHR ''d''))) s \<and> py_alive s = {''f'', ''g''} \<and> is_Applying (py_pc s)"
proof -
  let ?dg = "replicate 64 (CHR ''d'')"
  let ?a = "policy_state (Applying ?dg False ''f'' ''lock'') (applying_row ?dg ''f'') {''f''} {''f''} None"
  let ?c = "policy_state PolicyIdle (applying_row ?dg ''f'') {''f''} {''f''} None"
  let ?r = "policy_state PolicyIdle (new_policy ?dg) {''f''} {''f''} None"
  have 1: "(policy_step True False ''v'')\<^sup>*\<^sup>* (saved_policy ?dg) ?a"
    by (rule applying_reached) simp_all
  have 2: "policy_step True False ''v'' ?a ?c"
    using restart [where repo = "''v''" and s = ?a and ids = "[''v'']" and t = "[''v'' \<mapsto> applying_row ?dg ''f'']"
        and reconnects = True and lingers = False]
    by (simp add: policy_state_def mark_all_verification_required_def reopen_policy_def applying_row_def new_policy_def)
  have 3: "policy_step True False ''v'' ?c ?r"
    using reconnect [where reconnects = True and s = ?c and repo = "''v''" and dg = ?dg and now = "[]"
        and t = "[''v'' \<mapsto> new_policy ?dg]" and lingers = False]
    by (simp add: policy_state_def initialize_policy_state_def applying_row_def new_policy_def)
  have 4: "(policy_step True False ''v'')\<^sup>*\<^sup>* ?r
      (policy_state (Applying ?dg False ''g'' ''lock'') (applying_row ?dg ''g'') {''g'', ''f''} {''g'', ''f''} None)"
    by (rule applying_reached) simp_all
  show ?thesis
    by (intro exI conjI) (rule run_append [OF run_more [OF run_more [OF 1 2] 3] 4], auto simp: policy_state_def)
qed

end
