(* ===== verification/PolicyManager.thy ===== *)
theory PolicyManager
  imports KopiaReconcile
begin

text \<open>
  The background worker and the retry timer of a Kopia vault's policy (\<open>kopiapolicy/reconciler.go\<close>,
  \<open>Manager\<close>): queue signals that arrive during a pass are joined into one more pass, and a
  policy left in its error state is looked at again after a growing delay.  The state here is the part
  of the manager's maps that belongs to one vault; \<open>pm_accept\<close> is false once the manager was stopped or
  the context of the application has ended.  The vault stays attached and a Kopia vault, and a pass (\<open>KopiaReconcile\<close> has its insides) leaves any row.
\<close>

section \<open>Retries\<close>

text \<open>An entry of \<open>retries\<close> has an identity, as the timers hold a pointer to it; \<open>rt_pending\<close> tells a nil \<open>stop\<close> apart.\<close>

record policy_retry =
  rt_id :: nat
  rt_attempts :: nat
  rt_armed :: nat
  rt_pending :: bool

record policy_manager =
  pm_accept :: bool
  pm_queued :: "bool option"
  pm_retry :: "policy_retry option"
  pm_next :: nat

definition retry_minute :: int where "retry_minute = 60 * 1000000000"

function double_delay :: "nat \<Rightarrow> nat \<Rightarrow> int \<Rightarrow> int" where
  "double_delay attempts i delay =
     (if i < attempts \<and> delay < 30 * retry_minute then double_delay attempts (i + 1) (delay * 2) else delay)"
  by pat_completeness auto
termination
  by (relation "measure (\<lambda>(attempts, i, _). attempts - i)") auto

declare double_delay.simps [simp del]

definition policy_retry_delay :: "nat \<Rightarrow> int" where
  "policy_retry_delay attempts =
     (let delay = double_delay attempts 1 retry_minute in if delay > 30 * retry_minute then 30 * retry_minute else delay)"

definition arm :: "policy_retry \<Rightarrow> policy_retry" where
  "arm r = r\<lparr>rt_armed := rt_armed r + 1, rt_pending := True\<rparr>"

definition the_retry :: "policy_manager \<Rightarrow> policy_retry" where
  "the_retry m = (case pm_retry m of Some r \<Rightarrow> r
     | None \<Rightarrow> \<lparr>rt_id = pm_next m, rt_attempts = 0, rt_armed = 0, rt_pending = False\<rparr>)"

definition put_retry :: "policy_retry \<Rightarrow> policy_manager \<Rightarrow> policy_manager" where
  "put_retry r m = m\<lparr>pm_retry := Some r, pm_next := (if pm_retry m = None then pm_next m + 1 else pm_next m)\<rparr>"

definition retry_after_failure :: "policy_manager \<Rightarrow> policy_manager" where
  "retry_after_failure m =
     (if \<not> pm_accept m then m
      else let r = the_retry m in put_retry (arm (r\<lparr>rt_attempts := rt_attempts r + 1\<rparr>)) m)"

definition retry_later :: "policy_manager \<Rightarrow> policy_manager" where
  "retry_later m =
     (if \<not> pm_accept m then m
      else let r = the_retry m in
        if rt_pending r then m
        else put_retry (arm (r\<lparr>rt_attempts := (if rt_attempts r = 0 then 1 else rt_attempts r)\<rparr>)) m)"

definition retry_succeeded :: "policy_manager \<Rightarrow> policy_manager" where
  "retry_succeeded m = m\<lparr>pm_retry := None\<rparr>"

text \<open>The timer that fires does nothing when it was replaced or stopped since.\<close>

definition retry_due_begin :: "nat \<Rightarrow> nat \<Rightarrow> policy_manager \<Rightarrow> policy_manager option" where
  "retry_due_begin i armed m =
     (case pm_retry m of
        None \<Rightarrow> None
      | Some r \<Rightarrow>
          if \<not> pm_accept m \<or> rt_id r \<noteq> i \<or> rt_armed r \<noteq> armed \<or> \<not> rt_pending r then None
          else Some (m\<lparr>pm_retry := Some (r\<lparr>rt_pending := False\<rparr>)\<rparr>))"

definition retry_due_forget :: "nat \<Rightarrow> nat \<Rightarrow> policy_manager \<Rightarrow> policy_manager" where
  "retry_due_forget i armed m =
     (case pm_retry m of
        None \<Rightarrow> m
      | Some r \<Rightarrow> if rt_id r = i \<and> rt_armed r = armed \<and> \<not> rt_pending r then m\<lparr>pm_retry := None\<rparr> else m)"

section \<open>The worker\<close>

text \<open>Whether the signal was taken and whether a worker is to be started.\<close>

definition queue_policy :: "policy_manager \<Rightarrow> bool \<times> bool \<times> policy_manager" where
  "queue_policy m =
     (if \<not> pm_accept m then (False, False, m)
      else case pm_queued m of
        Some _ \<Rightarrow> (True, False, m\<lparr>pm_queued := Some True\<rparr>)
      | None \<Rightarrow> (True, True, m\<lparr>pm_queued := Some False\<rparr>))"

text \<open>After a pass: another one when a signal arrived meanwhile.\<close>

definition after_pass :: "policy_manager \<Rightarrow> bool \<times> policy_manager" where
  "after_pass m =
     (if \<not> pm_accept m then (False, m\<lparr>pm_queued := None\<rparr>)
      else if pm_queued m = Some True then (True, m\<lparr>pm_queued := Some False\<rparr>)
      else (False, m\<lparr>pm_queued := None\<rparr>))"

definition stop_manager :: "policy_manager \<Rightarrow> policy_manager" where
  "stop_manager m = m\<lparr>pm_accept := False, pm_retry := None\<rparr>"

text \<open>
  \<open>Reading\<close> has finished a pass (with an error or not) and not yet read the row; \<open>Open\<close> has read a row that is
  neither ready nor in error; \<open>Proved\<close> and \<open>Failed\<close> have read a ready or a failed row and not yet told the
  retries of it.
\<close>

datatype worker_pc = NoWorker | Looking | Passing | Reading bool | Open bool | Proved | Failed | Passed

datatype timer_pc = Reopening nat nat | Checking nat nat | Queueing | Forgetting nat nat

record manager_sys =
  my_manager :: policy_manager
  my_row :: string
  my_worker :: worker_pc
  my_timers :: "timer_pc list"
  my_care :: worker_pc
  my_missed :: bool

text \<open>What the worker does with the row it reads before a pass.\<close>

definition look_at :: "string \<Rightarrow> policy_manager \<Rightarrow> worker_pc \<times> policy_manager" where
  "look_at row m = (if row = ''error'' then (Passed, retry_later m) else if row = ''ready'' then (Passed, m) else (Passing, m))"

definition forget_retry :: "manager_sys \<Rightarrow> manager_sys" where
  "forget_retry s = s\<lparr>my_manager := retry_succeeded (my_manager s), my_missed := my_missed s \<or> my_row s \<noteq> ''ready''\<rparr>"

definition arms :: "policy_manager \<Rightarrow> manager_sys \<Rightarrow> manager_sys" where
  "arms m s = s\<lparr>my_manager := m, my_missed := False\<rparr>"

definition writes_row :: "string \<Rightarrow> manager_sys \<Rightarrow> manager_sys" where
  "writes_row row s = s\<lparr>my_row := row, my_missed := False\<rparr>"

text \<open>A read of the database that fails ends the pass, or the look of a maintenance run, without another word.\<close>

definition unread :: "manager_sys \<Rightarrow> manager_sys" where
  "unread s = s\<lparr>my_missed := True\<rparr>"

text \<open>
  \<open>my_care\<close> is the policy step of a maintenance run (\<open>ReassureRepositoryUnderLock\<close>).  \<open>my_missed\<close> says that, since the
  row was last written and a retry last armed, a read of the row failed or a retry was forgotten although the
  policy was no longer ready.
\<close>

inductive manager_step :: "manager_sys \<Rightarrow> manager_sys \<Rightarrow> bool" where
  signal: "queue_policy (my_manager s) = (taken, new, m) \<Longrightarrow>
    manager_step s (s\<lparr>my_manager := m, my_worker := (if new then Looking else my_worker s)\<rparr>)"
| look: "my_worker s = Looking \<Longrightarrow> look_at (my_row s) (my_manager s) = (w, m) \<Longrightarrow>
    manager_step s (s\<lparr>my_worker := w, my_manager := m\<rparr>)"
| pass: "my_worker s = Passing \<Longrightarrow> manager_step s ((writes_row row s)\<lparr>my_worker := Reading failed\<rparr>)"
| stopping: "my_worker s \<in> {Looking, Reading failed, Open failed} \<Longrightarrow> \<not> pm_accept (my_manager s) \<Longrightarrow>
    manager_step s (s\<lparr>my_worker := Passed\<rparr>)"
| unread_row: "my_worker s \<in> {Looking, Reading failed} \<Longrightarrow> manager_step s ((unread s)\<lparr>my_worker := Passed\<rparr>)"
| read_ready: "my_worker s = Reading failed \<Longrightarrow> my_row s = ''ready'' \<Longrightarrow> manager_step s (s\<lparr>my_worker := Proved\<rparr>)"
| read_error: "my_worker s = Reading failed \<Longrightarrow> my_row s = ''error'' \<Longrightarrow> manager_step s (s\<lparr>my_worker := Failed\<rparr>)"
| read_open: "my_worker s = Reading failed \<Longrightarrow> my_row s \<notin> {''ready'', ''error''} \<Longrightarrow>
    manager_step s (s\<lparr>my_worker := Open failed\<rparr>)"
| look_again: "my_worker s = Open failed \<Longrightarrow> manager_step s (s\<lparr>my_worker := Looking\<rparr>)"
| leave: "my_worker s = Open failed \<Longrightarrow> manager_step s (s\<lparr>my_worker := Passed\<rparr>)"
| park: "my_worker s = Open failed \<Longrightarrow> my_row s = ''applying'' \<or> my_row s = ''dirty'' \<and> failed \<Longrightarrow>
    manager_step s ((writes_row ''error'' s)\<lparr>my_worker := Failed\<rparr>)"
| succeed: "my_worker s = Proved \<Longrightarrow> manager_step s ((forget_retry s)\<lparr>my_worker := Passed\<rparr>)"
| fail: "my_worker s = Failed \<Longrightarrow>
    manager_step s ((arms (retry_after_failure (my_manager s)) s)\<lparr>my_worker := Passed\<rparr>)"
| passed: "my_worker s = Passed \<Longrightarrow> after_pass (my_manager s) = (again, m) \<Longrightarrow>
    manager_step s (s\<lparr>my_worker := (if again then Looking else NoWorker), my_manager := m\<rparr>)"
| care_pass: "my_care s = NoWorker \<Longrightarrow> (row = ''error'' \<Longrightarrow> failed) \<Longrightarrow>
    manager_step s ((writes_row row s)\<lparr>my_care := Reading failed\<rparr>)"
| care_unread: "my_care s = Reading failed \<Longrightarrow> manager_step s ((unread s)\<lparr>my_care := NoWorker\<rparr>)"
| care_ready: "my_care s = Reading failed \<Longrightarrow> my_row s = ''ready'' \<Longrightarrow> manager_step s (s\<lparr>my_care := Proved\<rparr>)"
| care_error: "my_care s = Reading True \<Longrightarrow> my_row s = ''error'' \<Longrightarrow> manager_step s (s\<lparr>my_care := Failed\<rparr>)"
| care_open: "my_care s = Reading failed \<Longrightarrow> my_row s \<noteq> ''ready'' \<Longrightarrow> \<not> (failed \<and> my_row s = ''error'') \<Longrightarrow>
    manager_step s (s\<lparr>my_care := NoWorker\<rparr>)"
| care_proved: "my_care s = Proved \<Longrightarrow> manager_step s ((forget_retry s)\<lparr>my_care := NoWorker\<rparr>)"
| care_failed: "my_care s = Failed \<Longrightarrow>
    manager_step s ((arms (retry_later (my_manager s)) s)\<lparr>my_care := NoWorker\<rparr>)"
| edited: "row \<in> {''dirty'', ''applying''} \<Longrightarrow> manager_step s (writes_row row s)"
| fires: "retry_due_begin i a (my_manager s) = Some m \<Longrightarrow>
    manager_step s (s\<lparr>my_manager := m, my_timers := Reopening i a # my_timers s\<rparr>)"
| reopens: "my_timers s = xs @ Reopening i a # ys \<Longrightarrow> my_row s = ''error'' \<Longrightarrow> row \<in> {''dirty'', ''applying''} \<Longrightarrow>
    manager_step s ((writes_row row s)\<lparr>my_timers := xs @ Queueing # ys\<rparr>)"
| not_in_error: "my_timers s = xs @ Reopening i a # ys \<Longrightarrow> my_row s \<noteq> ''error'' \<Longrightarrow>
    manager_step s (s\<lparr>my_timers := xs @ Checking i a # ys\<rparr>)"
| not_reopened: "my_timers s = xs @ Reopening i a # ys \<Longrightarrow>
    manager_step s ((arms (retry_later (my_manager s)) s)\<lparr>my_timers := xs @ ys\<rparr>)"
| checks: "my_timers s = xs @ Checking i a # ys \<Longrightarrow> my_row s = ''ready'' \<Longrightarrow>
    manager_step s (s\<lparr>my_timers := xs @ Forgetting i a # ys\<rparr>)"
| check_ends: "my_timers s = xs @ Checking i a # ys \<Longrightarrow> manager_step s (s\<lparr>my_timers := xs @ ys\<rparr>)"
| timer_signals: "my_timers s = xs @ Queueing # ys \<Longrightarrow> queue_policy (my_manager s) = (taken, new, m) \<Longrightarrow>
    manager_step s (s\<lparr>my_manager := m, my_worker := (if new then Looking else my_worker s), my_timers := xs @ ys\<rparr>)"
| timer_forgets: "my_timers s = xs @ Forgetting i a # ys \<Longrightarrow>
    manager_step s (s\<lparr>my_manager := retry_due_forget i a (my_manager s), my_timers := xs @ ys\<rparr>)"
| stops: "manager_step s (s\<lparr>my_manager := stop_manager (my_manager s)\<rparr>)"

definition manager_init :: "manager_sys \<Rightarrow> bool" where
  "manager_init s \<longleftrightarrow> my_row s \<noteq> ''error'' \<and> pm_queued (my_manager s) = None \<and> pm_retry (my_manager s) = None \<and>
     my_worker s = NoWorker \<and> my_timers s = [] \<and> my_care s = NoWorker \<and> \<not> my_missed s"

section \<open>An error is always looked at again\<close>

definition retry_pending :: "policy_manager \<Rightarrow> bool" where
  "retry_pending m \<longleftrightarrow> (\<exists>r. pm_retry m = Some r \<and> rt_pending r)"

text \<open>Somebody will arm the timer or reopen the policy.\<close>

definition will_retry :: "manager_sys \<Rightarrow> bool" where
  "will_retry s \<longleftrightarrow> retry_pending (my_manager s) \<or> my_worker s \<in> {Looking, Failed} \<or> (\<exists>x. my_worker s = Reading x) \<or>
     my_care s \<in> {Reading True, Failed} \<or> (\<exists>i a. Reopening i a \<in> set (my_timers s))"

definition manager_inv :: "manager_sys \<Rightarrow> bool" where
  "manager_inv s \<longleftrightarrow> (pm_queued (my_manager s) = None \<longleftrightarrow> my_worker s = NoWorker) \<and>
     (pm_accept (my_manager s) \<and> my_row s = ''error'' \<and> \<not> my_missed s \<longrightarrow> will_retry s)"

lemma retry_later_simps [simp]:
  "pm_accept (retry_later m) = pm_accept m" "pm_queued (retry_later m) = pm_queued m"
  "pm_accept m \<Longrightarrow> retry_pending (retry_later m)"
  by (auto simp: retry_later_def put_retry_def arm_def Let_def retry_pending_def the_retry_def split: option.splits)

lemma retry_after_failure_simps [simp]:
  "pm_accept (retry_after_failure m) = pm_accept m" "pm_queued (retry_after_failure m) = pm_queued m"
  "pm_accept m \<Longrightarrow> retry_pending (retry_after_failure m)"
  by (auto simp: retry_after_failure_def put_retry_def arm_def Let_def retry_pending_def)

lemma queue_policy_simps:
  assumes "queue_policy m = (taken, new, m')"
  shows "pm_accept m' = pm_accept m" "pm_retry m' = pm_retry m" "new \<longleftrightarrow> pm_accept m \<and> pm_queued m = None"
    "pm_queued m' = None \<longleftrightarrow> \<not> pm_accept m \<and> pm_queued m = None"
  using assms by (auto simp: queue_policy_def split: if_splits option.splits)

lemma retry_due_forget_simps [simp]:
  "pm_accept (retry_due_forget i a m) = pm_accept m" "pm_queued (retry_due_forget i a m) = pm_queued m"
  "retry_pending (retry_due_forget i a m) = retry_pending m"
  by (auto simp: retry_due_forget_def retry_pending_def split: option.splits)

lemma manager_inv_step:
  assumes "manager_step s s'" and "manager_inv s"
  shows "manager_inv s'"
  using assms
proof cases
  case (signal taken new m)
  then show ?thesis using assms(2) queue_policy_simps [OF signal(2)] by (auto simp: manager_inv_def will_retry_def retry_pending_def)
next
  case (look w m)
  then show ?thesis using assms(2) by (auto simp: manager_inv_def will_retry_def look_at_def split: if_splits)
next
  case (passed again m)
  then show ?thesis using assms(2) by (auto simp: manager_inv_def will_retry_def after_pass_def retry_pending_def split: if_splits)
next
  case (fires i a m)
  then show ?thesis using assms(2) by (auto simp: manager_inv_def will_retry_def retry_due_begin_def split: option.splits if_splits)
next
  case (timer_signals xs ys taken new m)
  then show ?thesis using assms(2) queue_policy_simps [OF timer_signals(3)] by (auto simp: manager_inv_def will_retry_def retry_pending_def)
qed (use assms(2) in \<open>auto simp: manager_inv_def will_retry_def forget_retry_def retry_succeeded_def stop_manager_def
     arms_def writes_row_def unread_def\<close>)

interpretation manager: step_system manager_init manager_step manager_inv
proof
  show "manager_inv s" if "manager_init s" for s using that by (simp add: manager_init_def manager_inv_def)
qed (rule manager_inv_step)

section \<open>The delay between retries\<close>

lemma double_delay_power:
  assumes "1 \<le> i"
  shows "double_delay attempts i (2 ^ (i - 1) * retry_minute) = 2 ^ (max i (min attempts 6) - 1) * retry_minute"
  using assms
proof (induction "6 - i" arbitrary: i)
  case 0
  then have "(2::int) ^ 5 \<le> 2 ^ (i - 1)" by (intro power_increasing) auto
  then have "\<not> 2 ^ (i - 1) * retry_minute < 30 * retry_minute" by (auto simp: retry_minute_def)
  then show ?case using 0 by (subst double_delay.simps) (auto simp: max_def)
next
  case (Suc n)
  then have i: "i < 6" "i = Suc (i - 1)" by auto
  have p: "(2::int) ^ (i - 1) * retry_minute < 30 * retry_minute"
  proof -
    have "(2::int) ^ (i - 1) \<le> 2 ^ 4" using i by (intro power_increasing) auto
    then show ?thesis by (auto simp: retry_minute_def)
  qed
  show ?case
  proof (cases "i < attempts")
    case True
    have e: "2 ^ (i - 1) * retry_minute * 2 = 2 ^ (Suc i - 1) * retry_minute"
      using i(2) by (metis mult.commute mult.assoc power_Suc diff_Suc_1)
    have "double_delay attempts i (2 ^ (i - 1) * retry_minute) = double_delay attempts (Suc i) (2 ^ (Suc i - 1) * retry_minute)"
      unfolding e [symmetric] by (subst double_delay.simps) (use True p in simp)
    also have "\<dots> = 2 ^ (max (Suc i) (min attempts 6) - 1) * retry_minute" using Suc by (intro Suc(1)) auto
    finally show ?thesis using True i(1) by (auto simp: max_def min_def)
  next
    case False
    then show ?thesis using p i by (subst double_delay.simps) (auto simp: max_def min_def)
  qed
qed

text \<open>C99. The wait before a retry starts at one minute, doubles with each failed attempt and is never above half an hour.\<close>

theorem policy_retry_delay_doubles:
  "policy_retry_delay attempts = min (2 ^ (attempts - 1)) 30 * retry_minute"
proof -
  have d: "double_delay attempts 1 retry_minute = 2 ^ (max 1 (min attempts 6) - 1) * retry_minute"
    using double_delay_power [of 1 attempts] by simp
  show ?thesis
  proof (cases "attempts < 6")
    case True
    then have "attempts \<in> {0, 1, 2, 3, 4, 5}" by auto
    then show ?thesis unfolding policy_retry_delay_def Let_def d by (auto simp: retry_minute_def)
  next
    case False
    then have "(2::int) ^ 5 \<le> 2 ^ (attempts - 1)" by (intro power_increasing) auto
    then show ?thesis unfolding policy_retry_delay_def Let_def d using False by (auto simp: retry_minute_def min_def max_def)
  qed
qed

section \<open>What the manager guarantees\<close>

definition fresh_manager :: policy_manager where
  "fresh_manager = \<lparr>pm_accept = True, pm_queued = None, pm_retry = None, pm_next = 0\<rparr>"

definition idle_manager :: "string \<Rightarrow> manager_sys" where
  "idle_manager row = \<lparr>my_manager = fresh_manager, my_row = row, my_worker = NoWorker, my_timers = [],
     my_care = NoWorker, my_missed = False\<rparr>"

text \<open>
  C20. While the manager takes work, a policy in error always has somebody who will retry it: a pending timer, a
  timer about to reopen the row, or a worker or maintenance run that has still to tell the retries of its failure.
  Two things can take that away until the row is next written or a retry armed (\<open>my_missed\<close>): a read of the database
  that failed, and a retry that was forgotten for a success that was no longer current.
\<close>

theorem failed_policy_retried:
  assumes "manager_init s0" and "manager_step\<^sup>*\<^sup>* s0 s" and "pm_accept (my_manager s)" and "my_row s = ''error''" and "\<not> my_missed s"
  shows "retry_pending (my_manager s) \<or> my_worker s \<in> {Looking, Failed, Reading True, Reading False} \<or>
     my_care s \<in> {Reading True, Failed} \<or> (\<exists>i a. Reopening i a \<in> set (my_timers s))"
proof -
  have "will_retry s" using manager.inv_reachable [OF assms(1,2)] assms(3-5) by (simp add: manager_inv_def)
  moreover have "x = True \<or> x = False" for x :: bool by simp
  ultimately show ?thesis unfolding will_retry_def by (metis (full_types) insertCI insertE)
qed

text \<open>A pass that fails: the worker has still to tell the retries.\<close>

definition busy_manager :: policy_manager where
  "busy_manager = fresh_manager\<lparr>pm_queued := Some False\<rparr>"

lemma idle_manager_init: "row \<noteq> ''error'' \<Longrightarrow> manager_init (idle_manager row)"
  by (simp add: manager_init_def idle_manager_def fresh_manager_def)

lemma pass_reaches:
  "manager_step\<^sup>*\<^sup>* (idle_manager ''dirty'')
     (idle_manager ''dirty''\<lparr>my_manager := busy_manager, my_row := row, my_worker := Reading failed\<rparr>)"
proof -
  have 1: "manager_step (idle_manager ''dirty'') (idle_manager ''dirty''\<lparr>my_manager := busy_manager, my_worker := Looking\<rparr>)"
    using manager_step.signal [of "idle_manager ''dirty''" True True busy_manager]
    by (simp add: queue_policy_def idle_manager_def fresh_manager_def busy_manager_def)
  have 2: "manager_step (idle_manager ''dirty''\<lparr>my_manager := busy_manager, my_worker := Looking\<rparr>)
      (idle_manager ''dirty''\<lparr>my_manager := busy_manager, my_worker := Passing\<rparr>)"
    using manager_step.look [of "idle_manager ''dirty''\<lparr>my_manager := busy_manager, my_worker := Looking\<rparr>" Passing busy_manager]
    by (simp add: look_at_def idle_manager_def)
  have 3: "manager_step (idle_manager ''dirty''\<lparr>my_manager := busy_manager, my_worker := Passing\<rparr>)
      (idle_manager ''dirty''\<lparr>my_manager := busy_manager, my_row := row, my_worker := Reading failed\<rparr>)"
    using manager_step.pass [where s = "idle_manager ''dirty''\<lparr>my_manager := busy_manager, my_worker := Passing\<rparr>"
        and failed = failed and row = row]
    by (simp add: idle_manager_def writes_row_def)
  show ?thesis using 1 2 3 by (meson rtranclp.rtrancl_into_rtrancl rtranclp.rtrancl_refl)
qed

theorem failed_policy_retried_witness:
  "let s = idle_manager ''dirty''\<lparr>my_manager := busy_manager, my_row := ''error'', my_worker := Reading True\<rparr>
   in pm_accept (my_manager s) \<and> my_row s = ''error'' \<and>
     (retry_pending (my_manager s) \<or> my_worker s \<in> {Looking, Failed, Reading True, Reading False} \<or>
     my_care s \<in> {Reading True, Failed} \<or> (\<exists>i a. Reopening i a \<in> set (my_timers s)))"
  using failed_policy_retried [OF idle_manager_init pass_reaches [where row = "''error''" and failed = True]]
  by (simp add: Let_def busy_manager_def fresh_manager_def idle_manager_def)

text \<open>
  The exception is real.  The worker reads a ready row after its pass, without the vault lock; a maintenance run
  then fails and arms a retry; the worker forgets that retry for its own, older success.  The policy is left in
  error, the manager takes work, and nobody will look at it before the next signal.
\<close>

lemma late_success_forgets_retry:
  "\<exists>s. manager_step\<^sup>*\<^sup>* (idle_manager ''dirty'') s \<and> pm_accept (my_manager s) \<and> my_row s = ''error'' \<and>
     pm_retry (my_manager s) = None \<and> my_worker s = NoWorker \<and> my_timers s = [] \<and> my_care s = NoWorker"
proof -
  let ?m = busy_manager
  let ?s = "\<lambda>m row w c f. idle_manager ''dirty''\<lparr>my_manager := m, my_row := row, my_worker := w, my_care := c, my_missed := f\<rparr>"
  note d = arms_def writes_row_def idle_manager_def fresh_manager_def busy_manager_def forget_retry_def retry_succeeded_def after_pass_def
    retry_later_def the_retry_def put_retry_def arm_def Let_def
  have 0: "manager_step\<^sup>*\<^sup>* (idle_manager ''dirty'') (?s ?m ''ready'' (Reading False) NoWorker False)"
    using pass_reaches [where row = "''ready''" and failed = False] by (simp add: idle_manager_def)
  have 1: "manager_step (?s ?m ''ready'' (Reading False) NoWorker False) (?s ?m ''ready'' Proved NoWorker False)"
    using manager_step.read_ready [where s = "?s ?m ''ready'' (Reading False) NoWorker False" and failed = False] by (simp add: d)
  have 2: "manager_step (?s ?m ''ready'' Proved NoWorker False) (?s ?m ''error'' Proved (Reading True) False)"
    using manager_step.care_pass [where s = "?s ?m ''ready'' Proved NoWorker False" and row = "''error''" and failed = True] by (simp add: d)
  have 3: "manager_step (?s ?m ''error'' Proved (Reading True) False) (?s ?m ''error'' Proved Failed False)"
    using manager_step.care_error [of "?s ?m ''error'' Proved (Reading True) False"] by (simp add: d)
  have 4: "manager_step (?s ?m ''error'' Proved Failed False) (?s (retry_later ?m) ''error'' Proved NoWorker False)"
    using manager_step.care_failed [of "?s ?m ''error'' Proved Failed False"] by (simp add: d)
  have 5: "manager_step (?s (retry_later ?m) ''error'' Proved NoWorker False)
      (?s (retry_succeeded (retry_later ?m)) ''error'' Passed NoWorker True)"
    using manager_step.succeed [of "?s (retry_later ?m) ''error'' Proved NoWorker False"] by (simp add: d)
  have 6: "manager_step (?s (retry_succeeded (retry_later ?m)) ''error'' Passed NoWorker True)
      (?s (retry_succeeded (retry_later ?m)\<lparr>pm_queued := None\<rparr>) ''error'' NoWorker NoWorker True)"
    using manager_step.passed [of "?s (retry_succeeded (retry_later ?m)) ''error'' Passed NoWorker True" False
      "retry_succeeded (retry_later ?m)\<lparr>pm_queued := None\<rparr>"] by (simp add: d)
  show ?thesis
  proof (intro exI conjI)
    show "manager_step\<^sup>*\<^sup>* (idle_manager ''dirty'')
      (?s (retry_succeeded (retry_later ?m)\<lparr>pm_queued := None\<rparr>) ''error'' NoWorker NoWorker True)"
      using 0 1 2 3 4 5 6 by (meson rtranclp.rtrancl_into_rtrancl)
  qed (simp_all add: d)
qed

end
