(* ===== verification/Spec2Isabelle.thy ===== *)
theory Spec2Isabelle
  imports RuntimeCancel VaultLock PasswordChange Operations Schedules StorageDecision
    UpdateService SnapshotTags ObjectLock JobValues VaultReconnect
    TaskCleanup AdmissionProperties PolicyManager
begin

text \<open>
  A verification library for the backend of Replicaro, the backup application under \<open>code/backend\<close>.
  All source paths below are relative to that directory.

  \<^bold>\<open>The program.\<close>  A backup job copies a source folder to one or more vaults (repositories of
  the engines restic and kopia).  A scheduler notices the runs that are due, looks at the storage,
  and admits runs as operations: rows of an SQLite database that are queued, running and then finished.
  A runner or a repository task carries an operation out under a lock of its vault, in durable steps,
  by calling an engine process.  Around this core stand the durable records of the dangerous changes of a
  vault (its password, its owner), the state that says a vault must be reconnected, and the values users set.

  \<^bold>\<open>Theories and code.\<close>
  \<^item> \<open>Prelude\<close>: the contracts shared by the components (\<open>step_system\<close>: a step relation with an
    invariant; \<open>stable_fact\<close>: a fact no step takes back; \<open>normaliser\<close>: a function whose results it
    leaves alone), Go's string routines on byte strings, and general lemmas.  \<open>GoErrors\<close>: error
    values, \<open>errors.Is\<close>, \<open>errors.Join\<close>, contexts, 64-bit wrap-around.  \<open>Effects\<close>: weakest
    preconditions for handlers in the state monad.
  \<^item> \<open>OperationRuntime\<close>, \<open>RuntimeCancel\<close>: \<open>operationruntime/manager.go\<close>.  The first has the
    methods as functions on the manager with its bounded lists of output; the second runs \<open>Cancel\<close>,
    \<open>CloseCancel\<close> and the stop of the process as concurrent goroutines.
  \<^item> \<open>VaultLock\<close>: \<open>vaultlock/lock.go\<close> as a step relation over the calls of one vault.
  \<^item> \<open>SecretCodec\<close>, \<open>PasswordChange\<close>: \<open>database/secretcodec.go\<close>,
    \<open>database/password_change.go\<close>, \<open>database/owner_transfer.go\<close>.
  \<^item> \<open>Operations\<close>, \<open>OperationSteps\<close>: the tables of operations, vaults, targets and steps and the
    statements on them (\<open>database/operations.go\<close>, \<open>database/vault_operations.go\<close>,
    \<open>database/operation_steps.go\<close>).
  \<^item> \<open>LocalTime\<close>, \<open>Calendar\<close>, \<open>Schedules\<close>: \<open>schedulevalue/schedule.go\<close> and the schedule
    functions of \<open>database/jobs.go\<close>.
  \<^item> \<open>StoragePath\<close>, \<open>StorageProbe\<close>, \<open>StorageDecision\<close>, \<open>StorageBinding\<close>:
    packages \<open>storageidentity\<close> and \<open>storageavailability\<close>, and \<open>database/storage_binding.go\<close>.
  \<^item> \<open>ScheduledAdmission\<close> with \<open>AdmissionSafety\<close>, \<open>AdmissionLedger\<close>, \<open>AdmissionRuns\<close>,
    \<open>AdmissionProperties\<close>: \<open>database/availability.go\<close>, the transactions that record due runs,
    admit operations and give runs back.
  \<^item> \<open>RepositoryTask\<close> with \<open>TaskSteps\<close>, \<open>TaskSafety\<close>, \<open>TaskCleanup\<close>: the integrity checks
    and maintenance runs of \<open>scheduler/repository_tasks.go\<close>.
  \<^item> \<open>KopiaPolicy\<close>, \<open>KopiaReconcile\<close>, \<open>PolicyManager\<close>: the policy state of Kopia vaults
    (\<open>database/kopia_policy.go\<close>), one reconciliation with edits, crashes and restarts between its steps, and
    the background worker with its retry timer (\<open>kopiapolicy/reconciler.go\<close>).
  \<^item> \<open>VaultReconnect\<close>: \<open>vaultreconnect/vaultreconnect.go\<close>, \<open>database/vault_reconnect.go\<close>.
  \<^item> \<open>AppUpdate\<close>, \<open>UpdateService\<close>: \<open>models/version.go\<close>, \<open>database/app_update.go\<close>,
    \<open>appupdate/service.go\<close>.
  \<^item> \<open>SnapshotTags\<close>, \<open>ObjectLock\<close>, \<open>JobValues\<close>: the values of package \<open>models\<close>.

  \<^bold>\<open>How state corresponds.\<close>  A table is a list of rows where order or duplicates matter and a map
  from its key otherwise; a transaction is a function from the tables to an error or the new tables, so
  that a rollback is the old tables.  A mutex-protected struct is a record, and the code between two
  lock operations is one step of a relation; rule induction over the reachable states then covers every
  interleaving.  Calls whose answer the program does not determine (engines, the file system, the
  clock, random identifiers) are arguments of the definitions.  An integrity check or maintenance run is a
  state-monad term over a plan of such answers (\<open>task_env\<close>), so a statement about all plans is a
  statement about every outcome of every call.

  \<^bold>\<open>What the lemmas show.\<close>
  \<^item> Runtime and locks: refinement of the bounded output lists to an abstract log, single execution of
    cancel callbacks and finality of their answers, mutual exclusion of vault work, cancellation of
    low-priority leases, no lock left behind.
  \<^item> Durable changes: the pending candidate exists exactly with its change record, a change that is
    publishing is only ever committed, secrets decode to what was encoded.
  \<^item> Operations and steps: at most one vault change, check and maintenance run at a time; a removal holds
    work back; finished rows never change; metadata generations never go back.
  \<^item> Schedules: a local reading is placed at the first instant that shows it, the cron search returns
    and finds the first match, the next run of a job lies in the future.
  \<^item> Admission: the \<open>ledger\<close> of a pair (\<open>owed\<close>) counts the runs in its own row and those held by
    operations that may still give them back.  Every transaction of \<open>ScheduledAdmission\<close> that moves a
    run keeps the ledger; a due run adds one to it and a started backup takes its runs off.
  \<^item> Storage: which paths are accepted, when two Windows paths spelled in ASCII name one mount, when a
    vault runs, pauses or fails, and that the helper's answers and the observations are ones their readers
    accept.  Texts written as JSON are assumed to come back unchanged only where they are UTF-8
    (\<open>json_ok\<close>, \<open>utf8_facts\<close>).
  \<^item> Tasks: native commands run only after their admissions were recorded, a prepared resource is removed
    exactly once and not before the native command that used it returned, no step but the
    notification is left running under a finished operation, and the next start closes what is left.  The
    engines wrap a refused admission as their code does (\<open>adapted\<close>); an error that says a step could not be
    saved is assumed to hold no connector message, which restic would report in its place.
  \<^item> Kopia policy: a policy that admits backups is the one last read from the vault and no two processes
    apply policies at once, as long as no reconnect finds the fence of an interrupted process
    (\<open>reconnect_forgets_process\<close> shows what happens otherwise); a policy in error has a retry waiting, with
    the exceptions stated in its property: the late success of \<open>late_success_forgets_retry\<close> and reads of
    the database that failed.
  \<^item> Values: an accepted change of the object lock never weakens it, the longest maintenance interval is the
    longest permitted, tags are classified by their markers alone.

  \<^bold>\<open>Bounds and fuel.\<close>  No definition uses fuel.  The retry loop, the catch-up loop of a schedule, the
  pruning loop and the string scanners have a measure.  The cron search is a
  \<open>partial_function (option)\<close>; its property shows that it returns.  Durations and the bounds of object
  lock are computed with the wrap-around of 64-bit integers (\<open>wrap64\<close>); counters the database keeps are
  integers, with the overflow check of the code where it has one.

  \<^bold>\<open>Not modelled.\<close>  The HTTP handlers (package \<open>api\<close>), the runner and the engine adapters build
  command lines of other programs, parse their output and move JSON; what they decide through the
  components above is modelled there.  Texts of instants (RFC 3339), the JSON library, UUIDs, process
  control, network clients and the user interface are arguments or left out.  The vault recovery
  profile and the metadata cache are protocols over third-party storage and SQL and are left out.
\<close>

end
